(* ===== verification/Prelude.thy ===== *)
theory Prelude
  imports Main "HOL-Library.Word" "HOL-Library.Monad_Syntax" "HOL-Library.Multiset"
begin

unbundle bit_operations_syntax

text \<open>
  The vocabulary that the component theories share: machine integers, C strings and the
  part of libc that the sources call (\<open>isspace\<close>, \<open>strchr\<close>, \<open>strtoul\<close>, \<open>snprintf\<close> with
  \<open>%s\<close>, \<open>%u\<close> and \<open>%02x\<close>, \<open>inet_ntop\<close>, \<open>inet_pton\<close>, \<open>htonl\<close>), with the generic lemmas that the
  component proofs use.

  Conventions. A C string is a \<^typ>\<open>string\<close> without its terminator and without the
  character NUL. A \<open>size_t\<close> is a \<^typ>\<open>nat\<close>: no length in the program comes near
  \<open>2 ^ 64\<close>. Fixed-width fields and everything that is shifted, masked or multiplied keep
  their width as words. The host is little endian, as on every platform the packages are
  built for. Undefined behaviour (an access outside an object, a use after free, a loop that
  does not end) is the value \<open>None\<close> of an \<open>option\<close> result.
\<close>

section \<open>Types\<close>

type_synonym byte = "8 word"
type_synonym u16 = "16 word"
type_synonym u32 = "32 word"
type_synonym u64 = "64 word"

named_theorems ub_free \<open>operations that return under their invariant\<close>
named_theorems c_string \<open>facts about C strings and their printing\<close>

definition IFNAMSIZ :: nat where
  "IFNAMSIZ = 16"

section \<open>Characters\<close>

definition ch :: "char \<Rightarrow> nat" where
  "ch c = of_char c"

lemma ch_zero: "ch c = 0 \<longleftrightarrow> c = CHR 0x00"
proof -
  have "ch c = ch (CHR 0x00) \<longleftrightarrow> c = CHR 0x00" unfolding ch_def by (rule of_char_eq_iff)
  then show ?thesis by (simp add: ch_def)
qed

definition ascii_isdigit :: "char \<Rightarrow> bool" where
  "ascii_isdigit c \<longleftrightarrow> ch c \<ge> ch (CHR ''0'') \<and> ch c \<le> ch (CHR ''9'')"

definition ascii_isalnum :: "char \<Rightarrow> bool" where
  "ascii_isalnum c \<longleftrightarrow>
     (ch c \<ge> ch (CHR ''0'') \<and> ch c \<le> ch (CHR ''9'')) \<or>
     (ch c \<ge> ch (CHR ''a'') \<and> ch c \<le> ch (CHR ''z'')) \<or>
     (ch c \<ge> ch (CHR ''A'') \<and> ch c \<le> ch (CHR ''Z''))"

definition ascii_isxdigit :: "char \<Rightarrow> bool" where
  "ascii_isxdigit c \<longleftrightarrow>
     ascii_isdigit c \<or>
     (ch c \<ge> ch (CHR ''a'') \<and> ch c \<le> ch (CHR ''f'')) \<or>
     (ch c \<ge> ch (CHR ''A'') \<and> ch c \<le> ch (CHR ''F''))"

definition ascii_tolower :: "char \<Rightarrow> char" where
  "ascii_tolower c =
     (if ch c \<ge> ch (CHR ''A'') \<and> ch c \<le> ch (CHR ''Z'') then char_of (ch c + 32) else c)"

text \<open>\<open>isspace\<close> in the C locale: space, and the codes 9 to 13.\<close>

definition isspace :: "char \<Rightarrow> bool" where
  "isspace c \<longleftrightarrow> ch c = 32 \<or> (9 \<le> ch c \<and> ch c \<le> 13)"

definition nul :: char where
  "nul = CHR 0x00"

lemma ch_char_of [simp]: "n < 256 \<Longrightarrow> ch (char_of n) = n"
  by (simp add: ch_def)

lemma ch_less: "ch c < 256"
  by (simp add: ch_def)

lemma ch_inj: "ch c = ch d \<longleftrightarrow> c = d"
  by (simp add: ch_def)

lemma isdigit_not_isspace: "ascii_isdigit c \<Longrightarrow> \<not> isspace c"
  by (auto simp: ascii_isdigit_def isspace_def ch_def)

section \<open>Bits\<close>

text \<open>Masking with a power of two minus one is the remainder; the hash table indexes so.\<close>

lemma nat_and_mask: "(n::nat) AND (2 ^ k - 1) = n mod 2 ^ k"
  using take_bit_eq_mask [of k n] by (simp add: mask_eq_exp_minus_1 take_bit_eq_mod)

lemma unat_and_le: "unat (a AND (b :: 'a::len word)) \<le> unat b"
  by (rule word_and_le1 [THEN word_le_nat_alt [THEN iffD1]])

section \<open>Sizes and memory\<close>

text \<open>Subtraction of two \<open>size_t\<close>: it wraps at \<open>2 ^ 64\<close>.\<close>

definition usub :: "nat \<Rightarrow> nat \<Rightarrow> nat" where
  "usub a b = (if b \<le> a then a - b else 2 ^ 64 + a - b)"

lemma usub_le [simp]: "b \<le> a \<Longrightarrow> usub a b = a - b"
  by (simp add: usub_def)

text \<open>A checked read: outside the object it is undefined.\<close>

definition rd :: "'a list \<Rightarrow> nat \<Rightarrow> 'a option" where
  "rd xs i = (if i < length xs then Some (xs ! i) else None)"

text \<open>\<open>memcpy\<close> out of an object.\<close>

definition rd_bytes :: "'a list \<Rightarrow> nat \<Rightarrow> nat \<Rightarrow> 'a list option" where
  "rd_bytes xs i n = (if i + n \<le> length xs then Some (take n (drop i xs)) else None)"

section \<open>Byte order\<close>

text \<open>
  The value that four bytes have when \<open>memcpy\<close> puts them into an \<open>in_addr\<close> on a little-endian
  host, the bytes of such a value, and \<open>ntohl\<close>.
\<close>

definition le32 :: "byte list \<Rightarrow> u32" where
  "le32 bs = ucast (bs ! 0) OR push_bit 8 (ucast (bs ! 1)) OR push_bit 16 (ucast (bs ! 2)) OR
     push_bit 24 (ucast (bs ! 3))"

definition octets :: "u32 \<Rightarrow> byte list" where
  "octets w = [ucast w, ucast (drop_bit 8 w), ucast (drop_bit 16 w), ucast (drop_bit 24 w)]"

definition ntohl :: "u32 \<Rightarrow> u32" where
  "ntohl w = le32 (rev (octets w))"

definition be16 :: "u16 \<Rightarrow> byte list" where
  "be16 w = [ucast (drop_bit 8 w), ucast w]"

lemma bit_byte_high: "8 \<le> n \<Longrightarrow> \<not> bit (b :: byte) n"
  using bit_imp_le_length [of b n] by auto

lemma octets_le32:
  assumes "length bs = 4"
  shows "octets (le32 bs) = bs"
proof -
  from assms obtain a b c d where bs: "bs = [a, b, c, d]"
    by (auto simp: eval_nat_numeral length_Suc_conv)
  show ?thesis
    by (auto simp: bs octets_def le32_def intro!: bit_word_eqI
        simp: bit_simps bit_byte_high)
qed

lemma le32_octets: "le32 (octets w) = w"
proof (rule bit_word_eqI)
  fix n assume n: "n < LENGTH(32)"
  then show "bit (le32 (octets w)) n = bit w n"
    by (cases "n < 8"; cases "n < 16"; cases "n < 24") (auto simp: octets_def le32_def bit_simps)
qed

text \<open>Evaluate the first argument of a bind before its continuation.\<close>

lemma bind_weak_cong: "x = y \<Longrightarrow> Option.bind x f = Option.bind y f"
  by simp

section \<open>Decimal and hexadecimal printing\<close>

definition digit_char :: "nat \<Rightarrow> char" where
  "digit_char n = char_of (48 + n)"

text \<open>\<open>%u\<close>: the shortest decimal numeral.\<close>

fun dec_str :: "nat \<Rightarrow> string" where
  "dec_str n = (if n < 10 then [digit_char n] else dec_str (n div 10) @ [digit_char (n mod 10)])"

declare dec_str.simps [simp del]

definition hex_char :: "nat \<Rightarrow> char" where
  "hex_char n = (if n < 10 then char_of (48 + n) else char_of (87 + n))"

text \<open>\<open>%02x\<close> of one byte.\<close>

definition hex2 :: "byte \<Rightarrow> string" where
  "hex2 b = [hex_char (unat b div 16), hex_char (unat b mod 16)]"

text \<open>The value of a run of decimal digits, as \<open>strtoul\<close> accumulates it.\<close>

definition digit_val :: "char \<Rightarrow> nat" where
  "digit_val c = ch c - 48"

definition digits_val :: "string \<Rightarrow> nat" where
  "digits_val s = foldl (\<lambda>v c. 10 * v + digit_val c) 0 s"

lemma digit_char_isdigit [simp]: "n < 10 \<Longrightarrow> ascii_isdigit (digit_char n)"
  by (simp add: digit_char_def ascii_isdigit_def ch_def)

lemma digit_val_digit_char [simp]: "n < 10 \<Longrightarrow> digit_val (digit_char n) = n"
  by (simp add: digit_char_def digit_val_def)

lemma digits_val_snoc: "digits_val (s @ [c]) = 10 * digits_val s + digit_val c"
  by (simp add: digits_val_def)

lemma digits_val_Nil [simp]: "digits_val [] = 0"
  by (simp add: digits_val_def)

lemma dec_str_nonempty [c_string]: "dec_str n \<noteq> []"
  by (subst dec_str.simps) simp

lemma dec_str_digits [c_string]: "list_all ascii_isdigit (dec_str n)"
proof (induction n rule: dec_str.induct)
  case (1 n)
  then show ?case by (subst dec_str.simps) simp
qed

lemma digits_val_dec_str [c_string]: "digits_val (dec_str n) = n"
proof (induction n rule: dec_str.induct)
  case (1 n)
  then show ?case
    by (subst dec_str.simps) (simp add: digits_val_snoc digits_val_snoc [of "[]", simplified])
qed

lemma dec_str_inj [c_string]: "dec_str a = dec_str b \<longleftrightarrow> a = b"
  by (metis digits_val_dec_str)

lemma dec_str_length [c_string]: "0 < k \<Longrightarrow> n < 10 ^ k \<Longrightarrow> length (dec_str n) \<le> k"
proof (induction n arbitrary: k rule: dec_str.induct)
  case (1 n)
  show ?case
  proof (cases "n < 10")
    case True
    with "1.prems" show ?thesis by (subst dec_str.simps) simp
  next
    case False
    then obtain j where k: "k = Suc j" and j: "0 < j"
      using "1.prems" by (cases k; cases "k - 1") auto
    have "n div 10 < 10 ^ j"
      using "1.prems" k by (simp add: less_mult_imp_div_less mult.commute)
    with False "1.IH" j have "length (dec_str (n div 10)) \<le> j" by simp
    with False k show ?thesis by (subst dec_str.simps) simp
  qed
qed

lemma dec_str_no_leading_zero:
  "dec_str n \<noteq> [digit_char 0] \<Longrightarrow> hd (dec_str n) \<noteq> digit_char 0"
proof (induction n rule: dec_str.induct)
  case (1 n)
  show ?case
  proof (cases "n < 10")
    case True
    with "1.prems" show ?thesis by (simp add: dec_str.simps [of n])
  next
    case False
    then have "0 < n div 10" by arith
    then have "dec_str (n div 10) \<noteq> [digit_char 0]"
      using digits_val_dec_str [of "n div 10"] by (auto simp: digits_val_def)
    with False "1.IH" show ?thesis
      by (subst dec_str.simps) (simp add: dec_str_nonempty)
  qed
qed

section \<open>libc string functions\<close>

text \<open>\<open>strchr\<close>: the text before the first occurrence of a character and the text after it.\<close>

fun strchr :: "string \<Rightarrow> char \<Rightarrow> (string \<times> string) option" where
  "strchr [] d = None"
| "strchr (c # s) d =
     (if c = d then Some ([], s)
      else (case strchr s d of None \<Rightarrow> None | Some (a, b) \<Rightarrow> Some (c # a, b)))"

lemma strchr_Some: "strchr s d = Some (a, b) \<Longrightarrow> s = a @ d # b \<and> d \<notin> set a"
  by (induction s arbitrary: a b) (auto split: if_splits option.splits)

lemma strchr_None: "strchr s d = None \<longleftrightarrow> d \<notin> set s"
  by (induction s) (auto split: option.splits)

lemma strchr_append: "d \<notin> set a \<Longrightarrow> strchr (a @ d # b) d = Some (a, b)"
  by (induction a) auto

text \<open>
  \<open>strtoul (s, &end, 10)\<close> with a 64-bit \<open>unsigned long\<close>: the value, the text at \<open>end\<close> and
  whether \<open>errno\<close> is set to \<open>ERANGE\<close>. Blanks and one sign are skipped; with no digit the
  value is 0 and \<open>end\<close> is the whole text.
\<close>

definition strtoul :: "string \<Rightarrow> nat \<times> string \<times> bool" where
  "strtoul s =
     (let s1 = dropWhile isspace s;
          neg = (s1 \<noteq> [] \<and> hd s1 = CHR ''-'');
          s2 = (if s1 \<noteq> [] \<and> (hd s1 = CHR ''-'' \<or> hd s1 = CHR ''+'') then tl s1 else s1);
          ds = takeWhile ascii_isdigit s2;
          v = digits_val ds
      in if ds = [] then (0, s, False)
         else if v > 2 ^ 64 - 1 then (2 ^ 64 - 1, dropWhile ascii_isdigit s2, True)
         else ((if neg then (2 ^ 64 - v) mod 2 ^ 64 else v), dropWhile ascii_isdigit s2, False))"

lemma strtoul_digit:
  assumes "s \<noteq> []" "ascii_isdigit (hd s)"
  shows "strtoul s =
    (let v = digits_val (takeWhile ascii_isdigit s)
     in if v > 2 ^ 64 - 1 then (2 ^ 64 - 1, dropWhile ascii_isdigit s, True)
        else (v, dropWhile ascii_isdigit s, False))"
proof -
  obtain c t where s: "s = c # t" using assms(1) by (cases s) auto
  with assms(2) have c: "ascii_isdigit c" "\<not> isspace c" by (auto dest: isdigit_not_isspace)
  then have "c \<noteq> CHR ''-''" "c \<noteq> CHR ''+''"
    by (auto simp: ascii_isdigit_def ch_def)
  with s c show ?thesis by (simp add: strtoul_def Let_def)
qed

lemma strtoul_dec_str: "n < 2 ^ 64 \<Longrightarrow> strtoul (dec_str n) = (n, [], False)"
proof -
  assume n: "n < 2 ^ 64"
  have d: "\<forall>c \<in> set (dec_str n). ascii_isdigit c"
    using dec_str_digits by (simp add: list_all_iff)
  then have "ascii_isdigit (hd (dec_str n))" using dec_str_nonempty by simp
  then have "strtoul (dec_str n) =
      (let v = digits_val (takeWhile ascii_isdigit (dec_str n))
       in if v > 2 ^ 64 - 1 then (2 ^ 64 - 1, dropWhile ascii_isdigit (dec_str n), True)
          else (v, dropWhile ascii_isdigit (dec_str n), False))"
    by (rule strtoul_digit [OF dec_str_nonempty])
  moreover have "takeWhile ascii_isdigit (dec_str n) = dec_str n"
    using d by (simp add: takeWhile_eq_all_conv)
  moreover have "dropWhile ascii_isdigit (dec_str n) = []"
    using d by (simp add: dropWhile_eq_Nil_conv)
  ultimately show ?thesis using n by (simp add: digits_val_dec_str)
qed

text \<open>\<open>snprintf (buf, size, \<dots>)\<close> keeps at most \<open>size - 1\<close> characters of the formatted text.\<close>

definition snprintf_buf :: "nat \<Rightarrow> string \<Rightarrow> string" where
  "snprintf_buf n s = (if n = 0 then [] else take (n - 1) s)"

lemma snprintf_buf_fits: "length s < n \<Longrightarrow> snprintf_buf n s = s"
  by (simp add: snprintf_buf_def)

lemma snprintf_buf_length: "0 < n \<Longrightarrow> length (snprintf_buf n s) < n"
  by (auto simp: snprintf_buf_def)

section \<open>Lists and maps\<close>

lemma length_filter_update:
  "i < length xs \<Longrightarrow>
   length (filter P (xs[i := x])) + of_bool (P (xs ! i)) = length (filter P xs) + of_bool (P x)"
proof (induction xs arbitrary: i)
  case Nil
  then show ?case by simp
next
  case (Cons a xs)
  then show ?case by (cases i) auto
qed

lemma distinct_map_filter_iff:
  "distinct (map f (filter P xs)) \<longleftrightarrow>
   (\<forall>i j. i < length xs \<and> j < length xs \<and> P (xs ! i) \<and> P (xs ! j) \<and> f (xs ! i) = f (xs ! j)
      \<longrightarrow> i = j)" (is "?l xs \<longleftrightarrow> ?r xs")
proof (induction xs)
  case Nil
  then show ?case by simp
next
  case (Cons a xs)
  have "?r (a # xs) \<longleftrightarrow> ?r xs \<and> (P a \<longrightarrow> (\<forall>i < length xs. P (xs ! i) \<longrightarrow> f (xs ! i) \<noteq> f a))"
    (is "_ \<longleftrightarrow> ?s")
  proof
    assume r: "?r (a # xs)"
    have "i = j" if "i < length xs" "j < length xs" "P (xs ! i)" "P (xs ! j)"
      "f (xs ! i) = f (xs ! j)" for i j
      using r [rule_format, of "Suc i" "Suc j"] that by simp
    moreover have "f (xs ! i) \<noteq> f a" if "P a" "i < length xs" "P (xs ! i)" for i
      using r [rule_format, of "Suc i" 0] that by auto
    ultimately show ?s by blast
  next
    assume s: ?s
    show "?r (a # xs)"
    proof (intro allI impI, elim conjE)
      fix i j
      assume "i < length (a # xs)" "j < length (a # xs)" "P ((a # xs) ! i)" "P ((a # xs) ! j)"
        "f ((a # xs) ! i) = f ((a # xs) ! j)"
      then show "i = j" using s by (cases i; cases j) auto
    qed
  qed
  moreover have "?l (a # xs) \<longleftrightarrow> ?l xs \<and> (P a \<longrightarrow> (\<forall>i < length xs. P (xs ! i) \<longrightarrow> f (xs ! i) \<noteq> f a))"
    by (auto simp: image_iff in_set_conv_nth)
  ultimately show ?case using Cons.IH by simp
qed
 
lemma map_filter_update:
  "j < length xs \<Longrightarrow> P (xs ! j) \<Longrightarrow> P x \<Longrightarrow> f x = f (xs ! j) \<Longrightarrow>
   map f (filter P (xs[j := x])) = map f (filter P xs)"
proof (induction xs arbitrary: j)
  case Nil
  then show ?case by simp
next
  case (Cons a xs)
  then show ?case by (cases j) auto
qed

lemma map_eqI_Some: "(\<And>k v. f k = Some v \<longleftrightarrow> g k = Some v) \<Longrightarrow> f = g"
  by (rule ext) (metis not_None_eq)

section \<open>Less defined\<close>

text \<open>\<open>a\<close> is undefined or the same as \<open>b\<close>: what a reader of a shorter buffer computes.\<close>

definition below :: "'a option \<Rightarrow> 'a option \<Rightarrow> bool" where
  "below a b \<longleftrightarrow> (a = None \<or> a = b)"

lemma below_refl: "below a a"
  by (simp add: below_def)

lemma below_bind: "below a b \<Longrightarrow> (\<And>x. below (f x) (g x)) \<Longrightarrow> below (Option.bind a f) (Option.bind b g)"
  unfolding below_def by (cases a) (simp, drule meta_spec, auto)

lemma below_if: "(c \<Longrightarrow> below a a') \<Longrightarrow> (\<not> c \<Longrightarrow> below b b') \<Longrightarrow> below (if c then a else b) (if c then a' else b')"
  by simp

end
