(* ===== verification/Hashmap.thy ===== *)
theory Hashmap
  imports Prelude
begin

unbundle bit_operations_syntax

text \<open>
  The open-addressing hash map of \<open>src/src/hashmap.c\<close>: linear probing over a table whose size
  is a power of two, with tombstones (\<open>SLOT_DELETED\<close>), a load limit of three quarters and
  rehashing in place when the load is mostly tombstones.

  A \<open>void *\<close> key or value is a value of the type parameter; \<open>NULL\<close> is \<^const>\<open>None\<close>. The two
  destructors are the flags \<open>hm_key_free\<close> and \<open>hm_value_free\<close>: an operation returns the list of
  destructor calls it makes, in order, so that ownership can be stated. \<open>SIZE_MAX\<close> as an
  index is \<^const>\<open>None\<close>. An operation whose C code would write outside the table or probe
  forever returns \<^const>\<open>None\<close>.

  \<open>Hashmap_Correct\<close> states the representation invariant and proves that every operation keeps
  it and never takes one of those paths, and that the operations implement a finite map; its locale
  \<open>finite_map\<close> states that contract for the clients, and is interpreted on the two kinds of
  table that the daemon creates.
\<close>

section \<open>Data\<close>

datatype slot_state = SLOT_EMPTY | SLOT_OCCUPIED | SLOT_DELETED

record ('k, 'v) slot =
  s_key :: "'k option"
  s_value :: "'v option"
  s_hash :: u32
  s_state :: slot_state

record ('k, 'v) hashmap =
  hm_slots :: "('k, 'v) slot list"
  hm_cap :: nat
  hm_count :: nat
  hm_occupied :: nat
  hm_hash :: "'k \<Rightarrow> u32"
  hm_equal :: "'k \<Rightarrow> 'k \<Rightarrow> bool"
  hm_key_free :: bool
  hm_value_free :: bool

datatype ('k, 'v) freed = Key_freed "'k option" | Value_freed "'v option"

definition HASHMAP_MIN_CAP :: nat where
  "HASHMAP_MIN_CAP = 16"

text \<open>A slot of \<open>calloc\<close>ed memory.\<close>

definition zero_slot :: "('k, 'v) slot" where
  "zero_slot = \<lparr>s_key = None, s_value = None, s_hash = 0, s_state = SLOT_EMPTY\<rparr>"

section \<open>Operations\<close>

definition hashmap_new ::
  "('k \<Rightarrow> u32) \<Rightarrow> ('k \<Rightarrow> 'k \<Rightarrow> bool) \<Rightarrow> bool \<Rightarrow> bool \<Rightarrow> ('k, 'v) hashmap" where
  "hashmap_new hash equal key_free value_free =
     \<lparr>hm_slots = replicate HASHMAP_MIN_CAP zero_slot, hm_cap = HASHMAP_MIN_CAP,
      hm_count = 0, hm_occupied = 0, hm_hash = hash, hm_equal = equal,
      hm_key_free = key_free, hm_value_free = value_free\<rparr>"

definition free_entry :: "('k, 'v) hashmap \<Rightarrow> ('k, 'v) slot \<Rightarrow> ('k, 'v) freed list" where
  "free_entry m s =
     (if hm_key_free m then [Key_freed (s_key s)] else []) @
     (if hm_value_free m then [Value_freed (s_value s)] else [])"

abbreviation occupied :: "('k, 'v) slot \<Rightarrow> bool" where
  "occupied s \<equiv> s_state s = SLOT_OCCUPIED"

definition hashmap_destroy :: "('k, 'v) hashmap \<Rightarrow> ('k, 'v) freed list" where
  "hashmap_destroy m = concat (map (free_entry m) (filter occupied (hm_slots m)))"

text \<open>
  \<open>find\<close>: the slot that holds the key, and the value left in \<open>*insert_at\<close>. The last
  argument counts the probes that remain of \<open>cap\<close>.
\<close>

fun find_from ::
  "('k, 'v) hashmap \<Rightarrow> 'k \<Rightarrow> u32 \<Rightarrow> nat option \<Rightarrow> nat \<Rightarrow> nat \<Rightarrow> nat option \<times> nat option" where
  "find_from m key hash reusable i 0 = (None, reusable)"
| "find_from m key hash reusable i (Suc left) =
     (let s = hm_slots m ! i; next = (i + 1) AND (hm_cap m - 1)
      in if s_state s = SLOT_EMPTY
         then (None, case reusable of Some r \<Rightarrow> Some r | None \<Rightarrow> Some i)
         else if s_state s = SLOT_DELETED
         then find_from m key hash (case reusable of Some r \<Rightarrow> Some r | None \<Rightarrow> Some i) next left
         else if s_hash s = hash \<and> (case s_key s of Some k \<Rightarrow> hm_equal m k key | None \<Rightarrow> False)
         then (Some i, None)
         else find_from m key hash reusable next left)"

definition find_slot :: "('k, 'v) hashmap \<Rightarrow> 'k \<Rightarrow> u32 \<Rightarrow> nat option \<times> nat option" where
  "find_slot m key hash = find_from m key hash None (unat hash AND (hm_cap m - 1)) (hm_cap m)"

text \<open>
  The inner loop of \<open>resize\<close>. After \<open>cap\<close> steps every slot has been seen, so running out of
  steps is the loop that does not end.
\<close>

fun probe_free :: "('k, 'v) slot list \<Rightarrow> nat \<Rightarrow> nat \<Rightarrow> nat \<Rightarrow> nat option" where
  "probe_free sl msk j 0 = None"
| "probe_free sl msk j (Suc left) =
     (if occupied (sl ! j) then probe_free sl msk ((j + 1) AND msk) left else Some j)"

fun resize_loop ::
  "('k, 'v) slot list \<Rightarrow> nat \<Rightarrow> ('k, 'v) slot list \<Rightarrow> ('k, 'v) slot list option" where
  "resize_loop [] cap new = Some new"
| "resize_loop (s # old) cap new =
     (if \<not> occupied s then resize_loop old cap new
      else do {
        j \<leftarrow> probe_free new (cap - 1) (unat (s_hash s) AND (cap - 1)) cap;
        resize_loop old cap (new[j := s])
      })"

definition resize :: "('k, 'v) hashmap \<Rightarrow> nat \<Rightarrow> ('k, 'v) hashmap option" where
  "resize m new_cap = do {
     new \<leftarrow> resize_loop (hm_slots m) new_cap (replicate new_cap zero_slot);
     Some (m\<lparr>hm_slots := new, hm_cap := new_cap, hm_occupied := hm_count m\<rparr>)
   }"

definition hashmap_lookup :: "('k, 'v) hashmap \<Rightarrow> 'k \<Rightarrow> 'v option" where
  "hashmap_lookup m key =
     (case fst (find_slot m key (hm_hash m key)) of
        None \<Rightarrow> None
      | Some i \<Rightarrow> s_value (hm_slots m ! i))"

definition hashmap_contains :: "('k, 'v) hashmap \<Rightarrow> 'k \<Rightarrow> bool" where
  "hashmap_contains m key \<longleftrightarrow> fst (find_slot m key (hm_hash m key)) \<noteq> None"

text \<open>The stores at the end of \<open>hashmap_insert\<close>, for a key that was not found.\<close>

definition occupy_slot ::
  "('k, 'v) hashmap \<Rightarrow> nat \<Rightarrow> 'k \<Rightarrow> 'v option \<Rightarrow> u32 \<Rightarrow> ('k, 'v) hashmap" where
  "occupy_slot m j key value hash =
     m\<lparr>hm_occupied :=
         (if s_state (hm_slots m ! j) = SLOT_EMPTY then hm_occupied m + 1 else hm_occupied m),
       hm_slots := (hm_slots m)[j :=
         \<lparr>s_key = Some key, s_value = value, s_hash = hash, s_state = SLOT_OCCUPIED\<rparr>],
       hm_count := hm_count m + 1\<rparr>"

definition hashmap_insert ::
  "('k, 'v) hashmap \<Rightarrow> 'k \<Rightarrow> 'v option \<Rightarrow> (('k, 'v) hashmap \<times> ('k, 'v) freed list) option" where
  "hashmap_insert m0 key value = do {
     m \<leftarrow> (if (hm_occupied m0 + 1) * 4 \<ge> hm_cap m0 * 3
           then resize m0 (if (hm_count m0 + 1) * 2 > hm_cap m0 then hm_cap m0 * 2 else hm_cap m0)
           else Some m0);
     let hash = hm_hash m key;
     let (found, insert_at) = find_slot m key hash;
     (case found of
        Some i \<Rightarrow>
          Some (m\<lparr>hm_slots := (hm_slots m)[i := (hm_slots m ! i)\<lparr>s_value := value\<rparr>]\<rparr>,
                (if hm_key_free m then [Key_freed (Some key)] else []) @
                (if hm_value_free m then [Value_freed (s_value (hm_slots m ! i))] else []))
      | None \<Rightarrow>
          (case insert_at of
             None \<Rightarrow> None
           | Some j \<Rightarrow>
               Some (occupy_slot m j key value hash, [])))
   }"

text \<open>What \<open>hashmap_remove\<close> and \<open>hashmap_iter_remove\<close> do to the slot they clear.\<close>

definition clear_slot :: "('k, 'v) hashmap \<Rightarrow> nat \<Rightarrow> ('k, 'v) hashmap" where
  "clear_slot m i =
     m\<lparr>hm_slots := (hm_slots m)[i := (hm_slots m ! i)
         \<lparr>s_key := None, s_value := None, s_state := SLOT_DELETED\<rparr>],
       hm_count := hm_count m - 1\<rparr>"

definition hashmap_remove ::
  "('k, 'v) hashmap \<Rightarrow> 'k \<Rightarrow> bool \<times> ('k, 'v) hashmap \<times> ('k, 'v) freed list" where
  "hashmap_remove m key =
     (case fst (find_slot m key (hm_hash m key)) of
        None \<Rightarrow> (False, m, [])
      | Some i \<Rightarrow> (True, clear_slot m i, free_entry m (hm_slots m ! i)))"

definition hashmap_remove_all ::
  "('k, 'v) hashmap \<Rightarrow> ('k, 'v) hashmap \<times> ('k, 'v) freed list" where
  "hashmap_remove_all m =
     (m\<lparr>hm_count := 0, hm_cap := HASHMAP_MIN_CAP,
        hm_slots := replicate HASHMAP_MIN_CAP zero_slot, hm_occupied := 0\<rparr>,
      concat (map (free_entry m) (filter occupied (hm_slots m))))"

definition hashmap_size :: "('k, 'v) hashmap \<Rightarrow> nat" where
  "hashmap_size m = hm_count m"

definition hashmap_capacity :: "('k, 'v) hashmap \<Rightarrow> nat" where
  "hashmap_capacity m = hm_cap m"

section \<open>Iteration\<close>

text \<open>The iterator; the map it points to is passed beside it.\<close>

record hashmap_iter =
  it_slot :: nat
  it_current :: "nat option"
  it_valid :: bool

definition hashmap_iter_init :: hashmap_iter where
  "hashmap_iter_init = \<lparr>it_slot = 0, it_current = None, it_valid = False\<rparr>"

function hashmap_iter_next ::
  "('k, 'v) hashmap \<Rightarrow> hashmap_iter \<Rightarrow> ('k option \<times> 'v option) option \<times> hashmap_iter" where
  "hashmap_iter_next m it =
     (if it_slot it < hm_cap m then
        (let i = it_slot it; it' = it\<lparr>it_slot := it_slot it + 1\<rparr>
         in if occupied (hm_slots m ! i)
            then (Some (s_key (hm_slots m ! i), s_value (hm_slots m ! i)),
                  it'\<lparr>it_current := Some i, it_valid := True\<rparr>)
            else hashmap_iter_next m it')
      else (None, it\<lparr>it_valid := False\<rparr>))"
  by pat_completeness auto
termination
  by (relation "measure (\<lambda>(m, it). hm_cap m - it_slot it)") auto

declare hashmap_iter_next.simps [simp del]

definition hashmap_iter_remove ::
  "('k, 'v) hashmap \<Rightarrow> hashmap_iter
     \<Rightarrow> (('k, 'v) hashmap \<times> hashmap_iter \<times> ('k, 'v) freed list) option" where
  "hashmap_iter_remove m it =
     (if \<not> it_valid it then Some (m, it, [])
      else (case it_current it of
              None \<Rightarrow> None
            | Some i \<Rightarrow>
                Some (clear_slot m i, it\<lparr>it_valid := False\<rparr>, free_entry m (hm_slots m ! i))))"

text \<open>The array has room for \<open>count\<close> keys, or for one.\<close>

definition hashmap_keys :: "('k, 'v) hashmap \<Rightarrow> 'k option list option" where
  "hashmap_keys m =
     (let keys = map s_key (filter occupied (hm_slots m))
      in if length keys \<le> (if hm_count m \<noteq> 0 then hm_count m else 1) then Some keys else None)"

section \<open>Hash functions\<close>

definition mix32 :: "u32 \<Rightarrow> u32" where
  "mix32 h0 =
     (let h1 = h0 XOR drop_bit 16 h0;
          h2 = h1 * 0x85ebca6b;
          h3 = h2 XOR drop_bit 13 h2;
          h4 = h3 * 0xc2b2ae35
      in h4 XOR drop_bit 16 h4)"

text \<open>The integer that the pointer carries is the key.\<close>

definition hashmap_hash_u32 :: "u32 \<Rightarrow> u32" where
  "hashmap_hash_u32 key = mix32 key"

definition hashmap_equal_u32 :: "u32 \<Rightarrow> u32 \<Rightarrow> bool" where
  "hashmap_equal_u32 a b \<longleftrightarrow> a = b"

text \<open>FNV-1a over the bytes of a C string.\<close>

definition hashmap_hash_str :: "string \<Rightarrow> u32" where
  "hashmap_hash_str s = foldl (\<lambda>h c. (h XOR of_nat (ch c)) * 16777619) 2166136261 s"

definition hashmap_equal_str :: "string \<Rightarrow> string \<Rightarrow> bool" where
  "hashmap_equal_str a b \<longleftrightarrow> a = b"

end
