(* ===== verification/Payload.thy ===== *)
theory Payload
  imports Prelude
begin

unbundle bit_operations_syntax

text \<open>
  The capture side of \<open>src/src/payload.c\<close>: the bounded parser of a captured Ethernet frame
  (\<open>payload_parse\<close>) and the kernel filter program that \<open>payload_loop_init\<close> attaches, with the
  part of the classic BPF machine that the program uses.

  The parser reads the buffer through \<^const>\<open>rd\<close>, so a read outside the buffer is the value
  \<^const>\<open>None\<close>; size arithmetic wraps (\<^const>\<open>usub\<close>). The wire format is stated on its own as
  \<open>encode_frame\<close> of a well-formed \<open>frame\<close>, and the parser is proved equivalent to it.
\<close>

section \<open>The parser\<close>

record payload_packet =
  p_remote :: u32
  p_local :: u32
  p_mac :: "byte list"
  p_vlan :: u16

definition read16 :: "byte list \<Rightarrow> nat \<Rightarrow> u16 option" where
  "read16 d i = do {
     a \<leftarrow> rd d i;
     b \<leftarrow> rd d (i + 1);
     Some (push_bit 8 (ucast a) OR ucast b)
   }"

text \<open>
  The loop over the outer VLAN tags; \<open>left\<close> is \<open>2 - tags\<close>. The result is the offset and the
  type behind the tags, or \<^const>\<open>None\<close> inside for \<open>return false\<close>.
\<close>

fun outer_tags :: "byte list \<Rightarrow> nat \<Rightarrow> nat \<Rightarrow> nat \<Rightarrow> u16 \<Rightarrow> (nat \<times> u16) option option" where
  "outer_tags d len left offset type =
     (if type = 0x8100 \<or> type = 0x88a8 then
        if left = 0 \<or> usub len offset < 4 then Some None
        else
          (case read16 d (offset + 2) of
             None \<Rightarrow> None
           | Some type' \<Rightarrow> outer_tags d len (left - 1) (offset + 4) type')
      else Some (Some (offset, type)))"

declare outer_tags.simps [simp del]

text \<open>From the GRE header on; \<open>remaining\<close> is what the IPv4 packet still holds behind it.\<close>

definition parse_gre :: "byte list \<Rightarrow> nat \<Rightarrow> nat \<Rightarrow> nat \<Rightarrow> payload_packet option option" where
  "parse_gre d ip ihl tot = do {
     let gre = ip + ihl;
     flags \<leftarrow> read16 d gre;
     if flags \<noteq> 0 then Some None else do {
     proto \<leftarrow> read16 d (gre + 2);
     if proto \<noteq> 0x6558 then Some None else do {
     let remaining = usub (usub tot ihl) 4;
     let ether = gre + 4;
     if remaining < 14 then Some None else do {
     type \<leftarrow> read16 d (ether + 12);
     if type \<noteq> 0x8100 \<or> remaining < 18 then Some None else do {
     inner_type \<leftarrow> read16 d (ether + 16);
     if inner_type = 0x8100 \<or> inner_type = 0x88a8 then Some None else do {
     tci \<leftarrow> read16 d (ether + 14);
     let vlan = tci AND 0x0fff;
     e6 \<leftarrow> rd d (ether + 6);
     if vlan < 1 \<or> vlan > 4094 \<or> e6 AND 1 \<noteq> 0 then Some None else do {
     m \<leftarrow> rd_bytes d (ether + 6) 6;
     if foldl (OR) 0 m = 0 then Some None else do {
     remote \<leftarrow> rd_bytes d (ip + 12) 4;
     loc \<leftarrow> rd_bytes d (ip + 16) 4;
     Some (Some \<lparr>p_remote = le32 remote, p_local = le32 loc, p_mac = m, p_vlan = vlan\<rparr>)
     }}}}}}}
   }"

text \<open>The IPv4 header at \<open>ip\<close>, the conditions in the order of the code.\<close>

definition parse_ip :: "byte list \<Rightarrow> nat \<Rightarrow> nat \<Rightarrow> payload_packet option option" where
  "parse_ip d len ip = do {
     ip0 \<leftarrow> rd d ip;
     total16 \<leftarrow> read16 d (ip + 2);
     let ihl = unat (ip0 AND 15) * 4;
     let tot = unat total16;
     if drop_bit 4 ip0 \<noteq> 4 \<or> ihl < 20 \<or> tot < ihl + 4 \<or> tot > usub len ip then Some None
     else do {
     proto \<leftarrow> rd d (ip + 9);
     if proto \<noteq> 47 then Some None else do {
     frag \<leftarrow> read16 d (ip + 6);
     if frag AND 0xbfff \<noteq> 0 then Some None else parse_gre d ip ihl tot
     }}
   }"

definition parse_frame :: "byte list \<Rightarrow> nat \<Rightarrow> payload_packet option option" where
  "parse_frame d len =
     (if len < 14 then Some None else do {
        type0 \<leftarrow> read16 d 12;
        r \<leftarrow> outer_tags d len 2 14 type0;
        (case r of
           None \<Rightarrow> Some None
         | Some (offset, type) \<Rightarrow>
             if type \<noteq> 0x0800 \<or> usub len offset < 20 then Some None
             else parse_ip d len offset)
      })"

text \<open>
  \<open>payload_parse\<close>: a \<open>NULL\<close> pointer is \<^const>\<open>None\<close>; the result is the return value and
  what \<open>*out\<close> holds afterwards.
\<close>

definition payload_parse ::
  "byte list option \<Rightarrow> nat \<Rightarrow> payload_packet option \<Rightarrow> (bool \<times> payload_packet option) option" where
  "payload_parse data len out =
     (case (data, out) of
        (Some d, Some _) \<Rightarrow> do {
          r \<leftarrow> parse_frame d len;
          Some (case r of None \<Rightarrow> (False, out) | Some p \<Rightarrow> (True, Some p))
        }
      | _ \<Rightarrow> Some (False, out))"

section \<open>The wire format\<close>

record frame =
  f_eth :: "byte list"
  f_tags :: "(u16 \<times> u16) list"
  f_words :: nat
  f_tos :: byte
  f_id :: "byte list"
  f_frag :: u16
  f_ttl :: byte
  f_csum :: "byte list"
  f_src :: "byte list"
  f_dst :: "byte list"
  f_options :: "byte list"
  f_inner_dst :: "byte list"
  f_inner_src :: "byte list"
  f_tci :: u16
  f_inner_type :: u16
  f_payload :: "byte list"
  f_trailer :: "byte list"

definition tag_type :: "u16 \<Rightarrow> bool" where
  "tag_type t \<longleftrightarrow> t = 0x8100 \<or> t = 0x88a8"

definition f_total :: "frame \<Rightarrow> nat" where
  "f_total f = 4 * f_words f + 22 + length (f_payload f)"

definition encode_tags :: "(u16 \<times> u16) list \<Rightarrow> byte list" where
  "encode_tags ts = concat (map (\<lambda>(tpid, tci). be16 tpid @ be16 tci) ts)"

text \<open>The tunnelled frame: GRE header, inner addresses, one 802.1Q tag, inner type, payload.\<close>

definition encode_gre :: "frame \<Rightarrow> byte list" where
  "encode_gre f =
     be16 0 @ be16 0x6558 @ f_inner_dst f @ f_inner_src f @ be16 0x8100 @ be16 (f_tci f) @
     be16 (f_inner_type f) @ f_payload f"

definition encode_ip :: "frame \<Rightarrow> byte list" where
  "encode_ip f =
     [of_nat (64 + f_words f), f_tos f] @ be16 (of_nat (f_total f)) @ f_id f @ be16 (f_frag f) @
     [f_ttl f, 47] @ f_csum f @ f_src f @ f_dst f @ f_options f"

definition encode_frame :: "frame \<Rightarrow> byte list" where
  "encode_frame f =
     f_eth f @ encode_tags (f_tags f) @ be16 0x0800 @ encode_ip f @ encode_gre f @ f_trailer f"

text \<open>
  What the daemon accepts: at most two outer tags, IPv4 with any options and no fragmentation
  (the don't-fragment bit may be set), GRE version 0 without flags carrying Ethernet, exactly
  one inner tag with a VLAN id between 1 and 4094, and a unicast, nonzero source address.
\<close>

definition wf_frame :: "frame \<Rightarrow> bool" where
  "wf_frame f \<longleftrightarrow>
     length (f_eth f) = 12 \<and> length (f_tags f) \<le> 2 \<and> (\<forall>(tpid, tci) \<in> set (f_tags f). tag_type tpid) \<and>
     5 \<le> f_words f \<and> f_words f \<le> 15 \<and> f_total f < 2 ^ 16 \<and> f_frag f AND 0xbfff = 0 \<and>
     length (f_id f) = 2 \<and> length (f_csum f) = 2 \<and> length (f_src f) = 4 \<and> length (f_dst f) = 4 \<and>
     length (f_options f) = 4 * f_words f - 20 \<and>
     length (f_inner_dst f) = 6 \<and> length (f_inner_src f) = 6 \<and>
     1 \<le> f_tci f AND 0x0fff \<and> f_tci f AND 0x0fff \<le> 4094 \<and> \<not> tag_type (f_inner_type f) \<and>
     f_inner_src f ! 0 AND 1 = 0 \<and> (\<exists>b \<in> set (f_inner_src f). b \<noteq> 0)"

definition frame_packet :: "frame \<Rightarrow> payload_packet" where
  "frame_packet f =
     \<lparr>p_remote = le32 (f_src f), p_local = le32 (f_dst f), p_mac = f_inner_src f,
      p_vlan = f_tci f AND 0x0fff\<rparr>"

section \<open>The kernel filter\<close>

datatype bpf_insn = LD_H_ABS nat | LD_B_ABS nat | JEQ_K u32 nat nat | RET_K nat

text \<open>
  The classic BPF machine on one packet: an accumulator and a program counter. A load outside
  the packet ends the program with 0, which drops the packet; jumps are relative to the next
  instruction and only forward.
\<close>

function bpf_run :: "bpf_insn list \<Rightarrow> byte list \<Rightarrow> nat \<Rightarrow> u32 \<Rightarrow> nat" where
  "bpf_run prog pkt pc acc =
     (if pc < length prog then
        (case prog ! pc of
           LD_H_ABS k \<Rightarrow>
             (case read16 pkt k of None \<Rightarrow> 0 | Some w \<Rightarrow> bpf_run prog pkt (pc + 1) (ucast w))
         | LD_B_ABS k \<Rightarrow>
             (case rd pkt k of None \<Rightarrow> 0 | Some b \<Rightarrow> bpf_run prog pkt (pc + 1) (ucast b))
         | JEQ_K k jt jf \<Rightarrow> bpf_run prog pkt (pc + 1 + (if acc = k then jt else jf)) acc
         | RET_K k \<Rightarrow> k)
      else 0)"
  by pat_completeness auto
termination
  by (relation "measure (\<lambda>(prog, pkt, pc, acc). length prog - pc)") auto

declare bpf_run.simps [simp del]

definition capture_filter :: "bpf_insn list" where
  "capture_filter =
    [LD_H_ABS 12,
     JEQ_K 0x0800 0 3,
     LD_B_ABS 23,
     JEQ_K 47 13 14,
     RET_K 0,
     JEQ_K 0x8100 1 0,
     JEQ_K 0x88a8 0 11,
     LD_H_ABS 16,
     JEQ_K 0x0800 0 2,
     LD_B_ABS 27,
     JEQ_K 47 6 7,
     JEQ_K 0x8100 1 0,
     JEQ_K 0x88a8 0 5,
     LD_H_ABS 20,
     JEQ_K 0x0800 0 3,
     LD_B_ABS 31,
     JEQ_K 47 0 1,
     RET_K 65535,
     RET_K 0]"

end
