(* ===== verification/Compat.thy ===== *)
theory Compat
  imports Prelude
begin

unbundle bit_operations_syntax

text \<open>
  The string helpers and the growable buffer of \<open>src/src/compat.c\<close>, and the conversions
  between IPv4 addresses and text that the daemon takes from the C library.

  A C string is the list of its characters before the terminating NUL; a \<open>NULL\<close> pointer is
  \<^const>\<open>None\<close>. A function that edits a string in place returns the new string. The memory of
  a \<open>strbuf\<close> is a list of cells, \<^const>\<open>None\<close> for a byte that was never written; a write
  outside the allocation and an endless doubling are the result \<^const>\<open>None\<close>.
\<close>

section \<open>Strings\<close>

fun trim_end :: "string \<Rightarrow> string" where
  "trim_end s = (if s \<noteq> [] \<and> isspace (last s) then trim_end (butlast s) else s)"

declare trim_end.simps [simp del]

definition str_trim :: "string \<Rightarrow> string" where
  "str_trim s = trim_end (dropWhile isspace s)"

text \<open>The field and the new value of \<open>*cursor\<close>.\<close>

definition str_split_next :: "string option \<Rightarrow> char \<Rightarrow> string option \<times> string option" where
  "str_split_next cursor delim =
     (case cursor of
        None \<Rightarrow> (None, None)
      | Some field \<Rightarrow>
          (case strchr field delim of
             Some (before, after) \<Rightarrow> (Some before, Some after)
           | None \<Rightarrow> (Some field, None)))"

definition str_has_suffix :: "string option \<Rightarrow> string option \<Rightarrow> bool" where
  "str_has_suffix s suffix =
     (case (s, suffix) of
        (Some a, Some x) \<Rightarrow> length x \<le> length a \<and> drop (length a - length x) a = x
      | _ \<Rightarrow> False)"

definition path_is_absolute :: "string option \<Rightarrow> bool" where
  "path_is_absolute path = (case path of Some (c # _) \<Rightarrow> c = CHR ''/'' | _ \<Rightarrow> False)"

text \<open>The result and the string left in \<open>dst\<close>, which is untouched for a size of 0.\<close>

definition str_lcpy :: "string \<Rightarrow> string \<Rightarrow> nat \<Rightarrow> nat \<times> string" where
  "str_lcpy dst src n =
     (let len = length src
      in (len, if n \<noteq> 0 then take (if len < n - 1 then len else n - 1) src else dst))"

section \<open>Growable buffer\<close>

record strbuf =
  sb_str :: "char option list"
  sb_len :: nat
  sb_cap :: nat

text \<open>A store of consecutive bytes: undefined outside the allocation.\<close>

definition put_cells :: "char option list \<Rightarrow> nat \<Rightarrow> string \<Rightarrow> char option list option" where
  "put_cells mem at s =
     (if at + length s \<le> length mem
      then Some (take at mem @ map Some s @ drop (at + length s) mem) else None)"

text \<open>The loop \<open>while (want < need) want *= 2\<close>; it does not end from 0.\<close>

function grow :: "nat \<Rightarrow> nat \<Rightarrow> nat option" where
  "grow want need = (if want < need then if want = 0 then None else grow (want * 2) need else Some want)"
  by pat_completeness auto
termination
  by (relation "measure (\<lambda>(want, need). need - want)") auto

declare grow.simps [simp del]

definition strbuf_reserve :: "strbuf \<Rightarrow> nat \<Rightarrow> strbuf option" where
  "strbuf_reserve b extra =
     (if sb_len b + extra + 1 \<le> sb_cap b then Some b
      else do {
        want \<leftarrow> grow (sb_cap b) (sb_len b + extra + 1);
        Some (b\<lparr>sb_str := take want (sb_str b) @ replicate (want - length (sb_str b)) None,
                sb_cap := want\<rparr>)
      })"

definition strbuf_append_len :: "strbuf \<Rightarrow> string \<Rightarrow> strbuf option" where
  "strbuf_append_len b s = do {
     b1 \<leftarrow> strbuf_reserve b (length s);
     mem \<leftarrow> put_cells (sb_str b1) (sb_len b1) s;
     let len = sb_len b1 + length s;
     mem' \<leftarrow> put_cells mem len [nul];
     Some (b1\<lparr>sb_str := mem', sb_len := len\<rparr>)
   }"

definition strbuf_append :: "strbuf \<Rightarrow> string \<Rightarrow> strbuf option" where
  "strbuf_append b s = strbuf_append_len b s"

definition strbuf_append_char :: "strbuf \<Rightarrow> char \<Rightarrow> strbuf option" where
  "strbuf_append_char b c = strbuf_append_len b [c]"

text \<open>\<open>text\<close> is the expansion of the format; \<open>vsnprintf\<close> stores it with its NUL.\<close>

definition strbuf_appendf :: "strbuf \<Rightarrow> string \<Rightarrow> strbuf option" where
  "strbuf_appendf b text =
     (if length text > 0 then do {
        b1 \<leftarrow> strbuf_reserve b (length text);
        mem \<leftarrow> put_cells (sb_str b1) (sb_len b1) (text @ [nul]);
        Some (b1\<lparr>sb_str := mem, sb_len := sb_len b1 + length text\<rparr>)
      } else Some b)"

definition strbuf_new :: "string option \<Rightarrow> strbuf option" where
  "strbuf_new init = do {
     mem \<leftarrow> put_cells (replicate 64 None) 0 [nul];
     let b = \<lparr>sb_str = mem, sb_len = 0, sb_cap = 64\<rparr>;
     (case init of None \<Rightarrow> Some b | Some s \<Rightarrow> strbuf_append b s)
   }"

definition strbuf_assign :: "strbuf \<Rightarrow> string \<Rightarrow> strbuf option" where
  "strbuf_assign b s = do {
     mem \<leftarrow> put_cells (sb_str b) 0 [nul];
     strbuf_append (b\<lparr>sb_len := 0, sb_str := mem\<rparr>) s
   }"

section \<open>Addresses as text\<close>

text \<open>
  An address is the word that \<open>s_addr\<close> holds on a little-endian machine, so its first octet
  on the wire is its low byte.
\<close>

definition inet_ntop :: "u32 \<Rightarrow> string" where
  "inet_ntop a =
     (let d = map (\<lambda>b. dec_str (unat b)) (octets a)
      in d ! 0 @ ''.'' @ d ! 1 @ ''.'' @ d ! 2 @ ''.'' @ d ! 3)"

text \<open>One decimal number of \<open>inet_pton\<close>: digits without a leading zero, at most 255.\<close>

definition pton_octet :: "string \<Rightarrow> byte option" where
  "pton_octet s =
     (if s \<noteq> [] \<and> list_all ascii_isdigit s \<and> (hd s = CHR ''0'' \<longrightarrow> tl s = []) \<and> digits_val s \<le> 255
      then Some (of_nat (digits_val s)) else None)"

definition inet_pton :: "string \<Rightarrow> u32 option" where
  "inet_pton s = do {
     (a, r) \<leftarrow> strchr s (CHR ''.'');
     (b, r) \<leftarrow> strchr r (CHR ''.'');
     (c, d) \<leftarrow> strchr r (CHR ''.'');
     a \<leftarrow> pton_octet a;
     b \<leftarrow> pton_octet b;
     c \<leftarrow> pton_octet c;
     d \<leftarrow> pton_octet d;
     Some (le32 [a, b, c, d])
   }"

section \<open>Trimming and splitting\<close>

lemma trim_end_spec:
  "\<exists>b. s = trim_end s @ b \<and> list_all isspace b \<and> (trim_end s \<noteq> [] \<longrightarrow> \<not> isspace (last (trim_end s)))"
proof (induction s rule: trim_end.induct)
  case (1 s)
  show ?case
  proof (cases "s \<noteq> [] \<and> isspace (last s)")
    case True
    with 1 obtain b where b: "butlast s = trim_end (butlast s) @ b" "list_all isspace b"
      "trim_end (butlast s) \<noteq> [] \<longrightarrow> \<not> isspace (last (trim_end (butlast s)))" by blast
    then have "s = trim_end (butlast s) @ (b @ [last s])" using True
      by (metis append.assoc append_butlast_last_id)
    moreover have "trim_end s = trim_end (butlast s)" using True by (simp add: trim_end.simps [of s])
    ultimately show ?thesis using True b(2,3) by (intro exI [of _ "b @ [last s]"]) simp
  qed (auto simp: trim_end.simps [of s])
qed

lemma str_trim_spec:
  "\<exists>a b. s = a @ str_trim s @ b \<and> list_all isspace a \<and> list_all isspace b \<and>
     (str_trim s \<noteq> [] \<longrightarrow> \<not> isspace (hd (str_trim s)) \<and> \<not> isspace (last (str_trim s)))"
proof -
  obtain b where b: "dropWhile isspace s = str_trim s @ b" "list_all isspace b"
    "str_trim s \<noteq> [] \<longrightarrow> \<not> isspace (last (str_trim s))"
    using trim_end_spec [of "dropWhile isspace s"] unfolding str_trim_def by blast
  moreover have "s = takeWhile isspace s @ dropWhile isspace s" by simp
  moreover have "list_all isspace (takeWhile isspace s)"
    by (auto simp: list_all_iff dest: set_takeWhileD)
  moreover have "\<not> isspace (hd (str_trim s))" if "str_trim s \<noteq> []"
    using b(1) that by (metis append_is_Nil_conv hd_append2 hd_dropWhile)
  ultimately show ?thesis by metis
qed

lemma str_trim_id:
  assumes "s \<noteq> [] \<Longrightarrow> \<not> isspace (hd s) \<and> \<not> isspace (last s)"
  shows "str_trim s = s"
proof (cases s)
  case Nil
  then show ?thesis by (simp add: str_trim_def trim_end.simps)
next
  case (Cons c r)
  with assms have "dropWhile isspace s = s" by simp
  moreover have "trim_end s = s" using Cons assms by (subst trim_end.simps) simp
  ultimately show ?thesis by (simp add: str_trim_def)
qed

lemma set_str_trim: "set (str_trim s) \<subseteq> set s"
  using str_trim_spec [of s] by (metis Un_iff set_append subsetI)

lemma str_lcpy_fits: "length src < n \<Longrightarrow> snd (str_lcpy dst src n) = src"
  by (auto simp: str_lcpy_def Let_def)

text \<open>Splitting at every delimiter, the fields in order.\<close>

lemma strchr_shorter: "strchr s d = Some (a, b) \<Longrightarrow> length b < length s"
  by (auto dest: strchr_Some)

function split_fields :: "char \<Rightarrow> string \<Rightarrow> string list" where
  "split_fields d s = (case strchr s d of None \<Rightarrow> [s] | Some (a, b) \<Rightarrow> a # split_fields d b)"
  by pat_completeness auto
termination
  by (relation "measure (\<lambda>(d, s). length s)") (auto dest: strchr_shorter)

declare split_fields.simps [simp del]

section \<open>The buffer holds the text appended to it\<close>

definition strbuf_inv :: "strbuf \<Rightarrow> bool" where
  "strbuf_inv b \<longleftrightarrow>
     length (sb_str b) = sb_cap b \<and> 64 \<le> sb_cap b \<and> sb_len b < sb_cap b \<and>
     sb_str b ! sb_len b = Some nul \<and> (\<forall>i < sb_len b. sb_str b ! i \<noteq> None)"

definition strbuf_text :: "strbuf \<Rightarrow> string" where
  "strbuf_text b = map the (take (sb_len b) (sb_str b))"

lemma grow_spec: "0 < want \<Longrightarrow> \<exists>w. grow want need = Some w \<and> need \<le> w \<and> want \<le> w \<and> (w = want \<or> w < 2 * need)"
proof (induction want need rule: grow.induct)
  case (1 want need)
  then show ?case by (subst grow.simps) (cases "want < need", auto)
qed

lemma strbuf_reserve_ok:
  assumes "strbuf_inv b"
  shows "\<exists>b'. strbuf_reserve b n = Some b' \<and> strbuf_inv b' \<and> sb_len b' = sb_len b \<and>
    take (sb_len b) (sb_str b') = take (sb_len b) (sb_str b) \<and> sb_len b + n + 1 \<le> sb_cap b' \<and>
    (sb_cap b' = sb_cap b \<or> sb_cap b' < 2 * (sb_len b + n + 1))"
proof (cases "sb_len b + n + 1 \<le> sb_cap b")
  case True
  with assms show ?thesis by (simp add: strbuf_reserve_def)
next
  case False
  from assms obtain w where w: "grow (sb_cap b) (sb_len b + n + 1) = Some w" "sb_len b + n + 1 \<le> w"
    "sb_cap b \<le> w" "w = sb_cap b \<or> w < 2 * (sb_len b + n + 1)"
    using grow_spec [of "sb_cap b" "sb_len b + n + 1"] by (auto simp: strbuf_inv_def)
  with assms False show ?thesis
    by (auto simp: strbuf_reserve_def strbuf_inv_def nth_append)
qed

lemma put_cells_ok:
  assumes "at + length s \<le> length mem"
  shows "\<exists>mem'. put_cells mem at s = Some mem' \<and> length mem' = length mem \<and>
    take (at + length s) mem' = take at mem @ map Some s"
  using assms by (auto simp: put_cells_def)

text \<open>Storing a text and its NUL behind the contents.\<close>

lemma strbuf_store:
  assumes b: "strbuf_inv b" and n: "sb_len b + length s + 1 \<le> sb_cap b"
    and mem: "put_cells (sb_str b) (sb_len b) (s @ [nul]) = Some mem"
  shows "strbuf_inv (b\<lparr>sb_str := mem, sb_len := sb_len b + length s\<rparr>) \<and>
    strbuf_text (b\<lparr>sb_str := mem, sb_len := sb_len b + length s\<rparr>) = strbuf_text b @ s"
proof -
  have m: "mem = (take (sb_len b) (sb_str b) @ map Some s) @ Some nul # drop (sb_len b + length s + 1) (sb_str b)"
    using mem by (auto simp: put_cells_def split: if_splits)
  have l: "length (take (sb_len b) (sb_str b) @ map Some s) = sb_len b + length s"
    using b n by (simp add: strbuf_inv_def)
  have "mem ! (sb_len b + length s) = Some nul" unfolding m by (subst l [symmetric]) (rule nth_append_length)
  moreover have "mem ! i \<noteq> None" if "i < sb_len b + length s" for i
    using b that l unfolding m by (simp add: strbuf_inv_def nth_append)
  moreover have "take (sb_len b + length s) mem = take (sb_len b) (sb_str b) @ map Some s"
    unfolding m using l by (metis append_eq_conv_conj)
  moreover have "length mem = sb_cap b" unfolding m using b n by (simp add: strbuf_inv_def)
  ultimately show ?thesis using b n by (simp add: strbuf_inv_def strbuf_text_def comp_def)
qed


lemma put_cells_snoc:
  "at + length s + length r \<le> length mem \<Longrightarrow>
   Option.bind (put_cells mem at s) (\<lambda>mem1. put_cells mem1 (at + length s) r) = put_cells mem at (s @ r)"
  by (simp add: put_cells_def ac_simps)

lemma strbuf_append_total:
  assumes "strbuf_inv b"
  shows "\<exists>b'. strbuf_append_len b s = Some b' \<and> strbuf_inv b' \<and> strbuf_text b' = strbuf_text b @ s \<and>
    (sb_cap b' = sb_cap b \<or> sb_cap b' < 2 * (sb_len b + length s + 1))"
    and "\<exists>b'. strbuf_appendf b s = Some b' \<and> strbuf_inv b' \<and> strbuf_text b' = strbuf_text b @ s"
proof -
  obtain c where c: "strbuf_reserve b (length s) = Some c" "strbuf_inv c" "sb_len c = sb_len b"
    "take (sb_len b) (sb_str c) = take (sb_len b) (sb_str b)" "sb_len b + length s + 1 \<le> sb_cap c"
    "sb_cap c = sb_cap b \<or> sb_cap c < 2 * (sb_len b + length s + 1)"
    using strbuf_reserve_ok [OF assms] by blast
  have fit: "sb_len c + length s + length [nul] \<le> length (sb_str c)" using c by (simp add: strbuf_inv_def)
  obtain mem where mem: "put_cells (sb_str c) (sb_len c) (s @ [nul]) = Some mem"
    using put_cells_ok [of "sb_len c" "s @ [nul]" "sb_str c"] fit by auto
  have t: "strbuf_text c = strbuf_text b" using c(3,4) by (simp add: strbuf_text_def)
  note st = strbuf_store [OF c(2) _ mem, unfolded t]
  obtain mem1 where mem1: "put_cells (sb_str c) (sb_len c) s = Some mem1"
    "put_cells mem1 (sb_len c + length s) [nul] = Some mem"
    using put_cells_snoc [OF fit] mem by (auto simp: bind_eq_Some_conv)
  show "\<exists>b'. strbuf_append_len b s = Some b' \<and> strbuf_inv b' \<and> strbuf_text b' = strbuf_text b @ s \<and>
    (sb_cap b' = sb_cap b \<or> sb_cap b' < 2 * (sb_len b + length s + 1))"
    using st c mem1 by (simp add: strbuf_append_len_def Let_def)
  show "\<exists>b'. strbuf_appendf b s = Some b' \<and> strbuf_inv b' \<and> strbuf_text b' = strbuf_text b @ s"
    using st c mem assms by (simp add: strbuf_appendf_def)
qed

lemma strbuf_clear:
  assumes "strbuf_inv b"
  shows "\<exists>mem. put_cells (sb_str b) 0 [nul] = Some mem \<and> strbuf_inv (b\<lparr>sb_len := 0, sb_str := mem\<rparr>)"
  using assms by (auto simp: put_cells_def strbuf_inv_def)

text \<open>
  The contract of a text buffer, for the code that builds answers with one: creating,
  appending and replacing return, and the text is what was appended.
\<close>

locale text_buffer =
  fixes inv :: "'b \<Rightarrow> bool" and contents :: "'b \<Rightarrow> string"
    and create :: "string option \<Rightarrow> 'b option"
    and append :: "'b \<Rightarrow> string \<Rightarrow> 'b option" and assign :: "'b \<Rightarrow> string \<Rightarrow> 'b option"
  assumes create_total: "\<exists>b. create init = Some b \<and> inv b \<and> contents b = (case init of None \<Rightarrow> [] | Some s \<Rightarrow> s)"
    and append_total: "inv b \<Longrightarrow> \<exists>b'. append b s = Some b' \<and> inv b' \<and> contents b' = contents b @ s"
    and assign_total: "inv b \<Longrightarrow> \<exists>b'. assign b s = Some b' \<and> inv b' \<and> contents b' = s"
begin

lemma append_elim:
  assumes "inv b"
  obtains b' where "append b s = Some b'" "inv b'" "contents b' = contents b @ s"
  using append_total [OF assms] by blast

lemma append_two:
  assumes "inv b"
  obtains b1 b2 where "append b s = Some b1" "append b1 r = Some b2" "inv b2" "contents b2 = contents b @ s @ r"
  using append_total [OF assms, of s] append_total [of _ r] by (metis append.assoc)

end

interpretation sb: text_buffer strbuf_inv strbuf_text strbuf_new strbuf_append strbuf_assign
proof
  fix b :: strbuf and s init
  have new: "strbuf_inv \<lparr>sb_str = Some nul # replicate 63 None, sb_len = 0, sb_cap = 64\<rparr>"
    "strbuf_text \<lparr>sb_str = Some nul # replicate 63 None, sb_len = 0, sb_cap = 64\<rparr> = []"
    by (simp_all add: strbuf_inv_def strbuf_text_def)
  have mem: "put_cells (replicate 64 None) 0 [nul] = Some (Some nul # replicate 63 None)"
    by (simp add: put_cells_def)
  show "\<exists>b. strbuf_new init = Some b \<and> strbuf_inv b \<and>
      strbuf_text b = (case init of None \<Rightarrow> [] | Some s \<Rightarrow> s)"
    using new strbuf_append_total(1) [OF new(1)]
    by (cases init) (auto simp: strbuf_new_def mem Let_def strbuf_append_def)
  show "\<exists>b'. strbuf_append b s = Some b' \<and> strbuf_inv b' \<and> strbuf_text b' = strbuf_text b @ s"
    if "strbuf_inv b" using strbuf_append_total(1) [OF that, of s] by (auto simp: strbuf_append_def)
  show "\<exists>b'. strbuf_assign b s = Some b' \<and> strbuf_inv b' \<and> strbuf_text b' = s" if b: "strbuf_inv b"
  proof -
    obtain mem where m: "put_cells (sb_str b) 0 [nul] = Some mem" "strbuf_inv (b\<lparr>sb_len := 0, sb_str := mem\<rparr>)"
      using strbuf_clear [OF b] by blast
    then show ?thesis using strbuf_append_total(1) [OF m(2), of s]
      by (auto simp: strbuf_assign_def strbuf_append_def strbuf_text_def)
  qed
qed

section \<open>Addresses\<close>

lemma dec_str_char: "c \<in> set (dec_str n) \<Longrightarrow> ascii_isdigit c"
  using dec_str_digits [of n] by (simp add: list_all_iff)

lemma isdigit_dot: "\<not> ascii_isdigit (CHR ''.'')"
  by (simp add: ascii_isdigit_def ch_def)

lemma digit_char_0: "digit_char 0 = CHR ''0''"
  by (simp add: digit_char_def char_of_def bit_0)

lemma pton_octet_dec_str: "pton_octet (dec_str (unat b)) = Some b"
proof -
  have "hd (dec_str (unat b)) = CHR ''0'' \<longrightarrow> tl (dec_str (unat b)) = []"
    using dec_str_no_leading_zero [of "unat b"] digit_char_0
    by (cases "dec_str (unat b) = ''0''") auto
  moreover have "unat b < 2 ^ LENGTH(8)" by (rule unsigned_less)
  ultimately show ?thesis
    by (auto simp: pton_octet_def dec_str_nonempty dec_str_digits digits_val_dec_str)
qed

lemma dot_not_dec_str: "CHR ''.'' \<notin> set (dec_str n)"
  using dec_str_char isdigit_dot by blast

lemma inet_pton_ntop: "inet_pton (inet_ntop a) = Some a"
proof -
  have "octets a = [ucast a, ucast (drop_bit 8 a), ucast (drop_bit 16 a), ucast (drop_bit 24 a)]"
    by (simp add: octets_def)
  moreover have "le32 (octets a) = a" by (rule le32_octets)
  ultimately show ?thesis
    by (simp add: inet_ntop_def inet_pton_def Let_def strchr_append dot_not_dec_str pton_octet_dec_str)
qed

lemma inet_ntop_inj: "inet_ntop a = inet_ntop b \<longleftrightarrow> a = b"
  by (metis inet_pton_ntop option.inject)

lemma inet_ntop_chars: "c \<in> set (inet_ntop a) \<Longrightarrow> ascii_isdigit c \<or> c = CHR ''.''"
  by (auto simp: inet_ntop_def Let_def octets_def dest: dec_str_char)

section \<open>Sequences of buffer operations\<close>

datatype sb_op = Sb_append string | Sb_appendf string | Sb_append_char char | Sb_assign string

fun sb_step :: "strbuf \<Rightarrow> sb_op \<Rightarrow> strbuf option" where
  "sb_step b (Sb_append s) = strbuf_append b s"
| "sb_step b (Sb_appendf s) = strbuf_appendf b s"
| "sb_step b (Sb_append_char c) = strbuf_append_char b c"
| "sb_step b (Sb_assign s) = strbuf_assign b s"

fun sb_run :: "strbuf \<Rightarrow> sb_op list \<Rightarrow> strbuf option" where
  "sb_run b [] = Some b"
| "sb_run b (x # xs) = (case sb_step b x of None \<Rightarrow> None | Some b' \<Rightarrow> sb_run b' xs)"

fun sb_spec :: "string \<Rightarrow> sb_op \<Rightarrow> string" where
  "sb_spec t (Sb_append s) = t @ s"
| "sb_spec t (Sb_appendf s) = t @ s"
| "sb_spec t (Sb_append_char c) = t @ [c]"
| "sb_spec t (Sb_assign s) = s"

lemma sb_step_total:
  "strbuf_inv b \<Longrightarrow> \<exists>b'. sb_step b x = Some b' \<and> strbuf_inv b' \<and> strbuf_text b' = sb_spec (strbuf_text b) x"
  using sb.append_total [of b] sb.assign_total [of b] strbuf_append_total [of b]
  by (cases x) (auto simp: strbuf_append_char_def, blast)

lemma sb_run_total:
  "strbuf_inv b \<Longrightarrow>
   \<exists>b'. sb_run b xs = Some b' \<and> strbuf_inv b' \<and> strbuf_text b' = foldl sb_spec (strbuf_text b) xs"
proof (induction xs arbitrary: b)
  case (Cons x xs)
  then show ?case using sb_step_total [OF Cons.prems, of x] by fastforce
qed simp

end
