(* ===== verification/Config.thy ===== *)
theory Config
  imports Compat
begin

unbundle bit_operations_syntax

text \<open>
  The configuration of \<open>src/src/softgred_config.c\<close>: the INI reader, the typed readers, the
  bridge map and the allowlist, \<open>softgred_config_load_conf\<close> and the command line.

  The static \<open>struct softgred_config\<close> is a record that is passed and returned; the arrays
  \<open>bridge\<close> and \<open>allow\<close> with their \<open>bridge_slot\<close> and \<open>allow_slot\<close> are the lists of the slots in
  use. The static \<open>config_error\<close> is threaded as a string. What comes from outside (the file,
  \<open>strerror\<close>, the clock, \<open>uname\<close>, the directories fixed by the build) is an argument.
\<close>

section \<open>Data\<close>

definition SOFTGRED_MAX_ATTACH :: nat where "SOFTGRED_MAX_ATTACH = 10"
definition SOFTGRED_MAX_SLOTS :: nat where "SOFTGRED_MAX_SLOTS = 4096"
definition PROVISION_MAX_CLIENTS :: nat where "PROVISION_MAX_CLIENTS = 1024"
definition SOFTGRED_MAX_ALLOW :: nat where "SOFTGRED_MAX_ALLOW = 64"

definition SOFTGRED_DEFAULT_LOGFILE :: string where
  "SOFTGRED_DEFAULT_LOGFILE = ''/var/log/softgred.log''"

text \<open>What the build fixes: \<open>SOFTGRED_CONFDIR\<close>, \<open>SOFTGRED_PIDDIR\<close> and the package names.\<close>

record build =
  b_confdir :: string
  b_piddir :: string
  b_package_string :: string
  b_package_version :: string
  b_service :: bool

definition SOFTGRED_DEFAULT_CONFFILE :: "build \<Rightarrow> string" where
  "SOFTGRED_DEFAULT_CONFFILE bld = b_confdir bld @ ''/softgred.conf''"

definition SOFTGRED_DEFAULT_PIDFILE :: "build \<Rightarrow> string" where
  "SOFTGRED_DEFAULT_PIDFILE bld = b_piddir bld @ ''/softgred.pid''"

record tunnel_bridge =
  br_ifname :: string
  br_vlan_id :: u16

record allow_remote =
  ar_network :: u32
  ar_mask :: u32

record utsname =
  u_sysname :: string
  u_release :: string
  u_version :: string
  u_machine :: string

record softgred_config =
  c_config_file :: "string option"
  c_ifname :: "string option"
  c_tunnel_prefix :: "string option"
  c_pid_file :: "string option"
  c_log_file :: "string option"
  c_dbg_file :: "string option"
  c_srv_bind_in :: "string option"
  c_is_foreground :: bool
  c_bridge_force :: bool
  c_dbg_enable :: bool
  c_dbg_time :: bool
  c_dbg_mode :: int
  c_srv_port :: nat
  c_srv_max_listen :: nat
  c_bridge :: "tunnel_bridge list"
  c_allow :: "allow_remote list"
  c_local :: u32
  c_started_time :: int
  c_uts :: utsname

definition zero_config :: softgred_config where
  "zero_config =
     \<lparr>c_config_file = None, c_ifname = None, c_tunnel_prefix = None, c_pid_file = None,
      c_log_file = None, c_dbg_file = None, c_srv_bind_in = None, c_is_foreground = False,
      c_bridge_force = False, c_dbg_enable = False, c_dbg_time = False, c_dbg_mode = 0,
      c_srv_port = 0, c_srv_max_listen = 0, c_bridge = [], c_allow = [], c_local = 0,
      c_started_time = 0, c_uts = \<lparr>u_sysname = [], u_release = [], u_version = [], u_machine = []\<rparr>\<rparr>"

text \<open>The static initialiser of \<open>softgred_config_ref\<close>.\<close>

definition softgred_config_ref :: softgred_config where
  "softgred_config_ref = zero_config\<lparr>c_srv_port := 8888, c_srv_max_listen := 10\<rparr>"

definition softgred_config_release :: "softgred_config \<Rightarrow> softgred_config" where
  "softgred_config_release cfg = zero_config\<lparr>c_srv_port := 8888, c_srv_max_listen := 10\<rparr>"

definition config_valid_ifname :: "string option \<Rightarrow> bool" where
  "config_valid_ifname name =
     (case name of
        None \<Rightarrow> False
      | Some s \<Rightarrow>
          \<not> (s = [] \<or> length s \<ge> IFNAMSIZ \<or> s = ''.'' \<or> s = ''..'') \<and>
          list_all (\<lambda>c. ascii_isalnum c \<or> c = CHR ''_'' \<or> c = CHR ''-'' \<or> c = CHR ''.'') s)"

section \<open>The INI reader\<close>

record ini_pair =
  i_group :: string
  i_key :: string
  i_value :: string

definition config_set_error :: "string \<Rightarrow> string" where
  "config_set_error s = snprintf_buf 256 s"

fun ini_scan :: "string option \<Rightarrow> ini_pair list \<Rightarrow> string \<Rightarrow> string \<Rightarrow> string option" where
  "ini_scan value [] grp key = value"
| "ini_scan value (p # ps) grp key =
     ini_scan (if i_group p = grp \<and> i_key p = key then Some (i_value p) else value) ps grp key"

definition ini_get :: "ini_pair list \<Rightarrow> string \<Rightarrow> string \<Rightarrow> string option" where
  "ini_get ini grp key = ini_scan None ini grp key"

definition ini_has :: "ini_pair list \<Rightarrow> string \<Rightarrow> string \<Rightarrow> bool" where
  "ini_has ini grp key \<longleftrightarrow> ini_get ini grp key \<noteq> None"

definition line_error :: "nat \<Rightarrow> string \<Rightarrow> string" where
  "line_error number what = config_set_error (''line '' @ dec_str number @ '': '' @ what)"

text \<open>One turn of the loop of \<open>ini_load\<close>: the error text, or the group and the pairs so far.\<close>

definition ini_line ::
  "string \<Rightarrow> nat \<Rightarrow> string \<Rightarrow> ini_pair list \<Rightarrow> string + string \<times> ini_pair list" where
  "ini_line line number grp pairs =
     (if nul \<in> set line then Inl (line_error number ''embedded NUL byte'')
      else let s = str_trim line
      in if s = [] \<or> hd s = CHR ''#'' \<or> hd s = CHR '';'' then Inr (grp, pairs)
      else if hd s = CHR ''['' then
        (case strchr s (CHR '']'') of
           None \<Rightarrow> Inl (line_error number ''invalid group header'')
         | Some (before, after) \<Rightarrow>
             if after \<noteq> [] \<or> length before = 1 \<or> length before - 1 \<ge> 64
             then Inl (line_error number ''invalid group header'')
             else Inr (snd (str_lcpy grp (tl before) 64), pairs))
      else
        (case strchr s (CHR ''='') of
           None \<Rightarrow> Inl (line_error number ''not a key=value pair'')
         | Some (before, after) \<Rightarrow>
             if before = [] then Inl (line_error number ''not a key=value pair'')
             else let key = str_trim before; value = str_trim after
             in if key = [] then Inl (line_error number ''empty key'')
             else Inr (grp, pairs @ [\<lparr>i_group = grp, i_key = key, i_value = value\<rparr>])))"

text \<open>\<open>getline\<close>: the next line with its newline, and what is left of the file.\<close>

definition getline :: "string \<Rightarrow> string \<times> string" where
  "getline s =
     (case strchr s (CHR 0x0A) of None \<Rightarrow> (s, []) | Some (a, b) \<Rightarrow> (a @ [CHR 0x0A], b))"

function ini_read ::
  "string \<Rightarrow> nat \<Rightarrow> string \<Rightarrow> ini_pair list \<Rightarrow> string + ini_pair list" where
  "ini_read file number grp pairs =
     (if file = [] then Inr pairs
      else
        (case ini_line (fst (getline file)) (number + 1) grp pairs of
           Inl e \<Rightarrow> Inl e
         | Inr (grp', pairs') \<Rightarrow> ini_read (snd (getline file)) (number + 1) grp' pairs'))"
  by pat_completeness auto
termination
  by (relation "measure (\<lambda>(file, _, _, _). length file)")
    (auto simp: getline_def dest: strchr_shorter split: option.splits)

declare ini_read.simps [simp del]

text \<open>
  The file: it cannot be opened, or its bytes can be read up to the end or up to a read
  error. The two numbers are values of \<open>errno\<close>.
\<close>

datatype config_source = Unreadable int | Readable string "int option"

definition ini_load :: "(int \<Rightarrow> string) \<Rightarrow> config_source \<Rightarrow> string + ini_pair list" where
  "ini_load strerror src =
     (case src of
        Unreadable e \<Rightarrow> Inl (config_set_error (strerror e))
      | Readable file err \<Rightarrow>
          (case ini_read file 0 [] [] of
             Inl msg \<Rightarrow> Inl msg
           | Inr pairs \<Rightarrow>
               (case err of
                  Some e \<Rightarrow> Inl (config_set_error (''cannot read configuration: '' @ strerror e))
                | None \<Rightarrow> Inr pairs)))"

section \<open>Typed values\<close>

text \<open>The result, the variable behind the pointer and \<open>config_error\<close>.\<close>

definition read_bool ::
  "ini_pair list \<Rightarrow> string \<Rightarrow> string \<Rightarrow> bool \<Rightarrow> string \<Rightarrow> bool \<times> bool \<times> string" where
  "read_bool ini grp key value err =
     (case ini_get ini grp key of
        None \<Rightarrow> (True, value, err)
      | Some t \<Rightarrow>
          if t = ''true'' \<or> t = ''false'' \<or> t = ''1'' \<or> t = ''0''
          then (True, t = ''true'' \<or> t = ''1'', err)
          else (False, value,
            config_set_error (''['' @ grp @ ''] '' @ key @ '' must be true, false, 1 or 0'')))"

definition starts_with_digit :: "string \<Rightarrow> bool" where
  "starts_with_digit s \<longleftrightarrow> s \<noteq> [] \<and> ascii_isdigit (hd s)"

definition read_uint ::
  "ini_pair list \<Rightarrow> string \<Rightarrow> string \<Rightarrow> nat \<Rightarrow> nat \<Rightarrow> nat \<Rightarrow> string \<Rightarrow> bool \<times> nat \<times> string" where
  "read_uint ini grp key lo hi value err =
     (case ini_get ini grp key of
        None \<Rightarrow> (True, value, err)
      | Some t \<Rightarrow>
          (case strtoul t of (parsed, rest, erange) \<Rightarrow>
             if starts_with_digit t \<and> \<not> erange \<and> rest = [] \<and> parsed \<ge> lo \<and> parsed \<le> hi
             then (True, parsed, err)
             else (False, value,
               config_set_error (''['' @ grp @ ''] '' @ key @ '' must be between '' @ dec_str lo @
                 '' and '' @ dec_str hi))))"

definition read_string :: "ini_pair list \<Rightarrow> string \<Rightarrow> string \<Rightarrow> string option \<Rightarrow> string option" where
  "read_string ini grp key fallback =
     (case ini_get ini grp key of Some t \<Rightarrow> Some t | None \<Rightarrow> fallback)"

section \<open>Allowlist and bridge map\<close>

definition allow_match :: "u32 \<Rightarrow> allow_remote \<Rightarrow> bool" where
  "allow_match remote a \<longleftrightarrow> remote AND ar_mask a = ar_network a"

definition config_remote_allowed :: "softgred_config \<Rightarrow> u32 \<Rightarrow> bool" where
  "config_remote_allowed cfg remote \<longleftrightarrow> c_allow cfg = [] \<or> list_ex (allow_match remote) (c_allow cfg)"

text \<open>One entry of the allowlist, trimmed and not empty.\<close>

definition parse_allow_entry :: "string \<Rightarrow> allow_remote option" where
  "parse_allow_entry entry = do {
     (host, bits) \<leftarrow>
       (case strchr entry (CHR ''/'') of
          None \<Rightarrow> Some (entry, 32)
        | Some (host, rest) \<Rightarrow>
            (case strtoul rest of (bits, end, erange) \<Rightarrow>
               if \<not> starts_with_digit rest \<or> erange \<or> end \<noteq> [] \<or> bits > 32 then None
               else Some (host, bits)));
     addr \<leftarrow> inet_pton host;
     let msk = (if bits \<noteq> 0 then ntohl (push_bit (32 - bits) (NOT 0)) else 0);
     Some \<lparr>ar_network = ntohl addr AND ntohl msk, ar_mask = ntohl msk\<rparr>
   }"

function parse_allow_loop :: "string option \<Rightarrow> allow_remote list \<Rightarrow> bool \<times> allow_remote list" where
  "parse_allow_loop cursor slots =
     (case str_split_next cursor (CHR '','') of
        (None, _) \<Rightarrow> (True, slots)
      | (Some field, cursor') \<Rightarrow>
          let entry = str_trim field
          in if entry = [] then (False, slots)
             else if length slots \<ge> SOFTGRED_MAX_ALLOW then (False, slots)
             else
               (case parse_allow_entry entry of
                  None \<Rightarrow> (False, slots)
                | Some slot \<Rightarrow> parse_allow_loop cursor' (slots @ [slot])))"
  by pat_completeness auto
termination
  by (relation "measure (\<lambda>(cursor, _). case cursor of None \<Rightarrow> 0 | Some s \<Rightarrow> Suc (length s))")
    (auto simp: str_split_next_def dest: strchr_shorter split: option.splits)

declare parse_allow_loop.simps [simp del]

definition parse_allow :: "softgred_config \<Rightarrow> string \<Rightarrow> string \<Rightarrow> bool \<times> softgred_config \<times> string" where
  "parse_allow cfg list err =
     (case parse_allow_loop (Some list) [] of (ok, slots) \<Rightarrow>
        (ok, cfg\<lparr>c_allow := slots\<rparr>,
         if ok then err
         else config_set_error ''allow-remotes requires nonempty IPv4 addresses or CIDRs''))"

text \<open>One entry of the bridge map, against the slots already filled.\<close>

definition parse_bridge_entry :: "string \<Rightarrow> tunnel_bridge list \<Rightarrow> tunnel_bridge option" where
  "parse_bridge_entry entry slots =
     (case strchr entry (CHR ''@'') of
        None \<Rightarrow> None
      | Some (before, after) \<Rightarrow>
          if length slots \<ge> SOFTGRED_MAX_ATTACH then None
          else let vlan = str_trim before; bridge = str_trim after
          in (case strtoul vlan of (n, end, erange) \<Rightarrow>
            if \<not> starts_with_digit vlan \<or> erange \<or> end \<noteq> [] \<or> n < 1 \<or> n > 4094 \<or>
               \<not> config_valid_ifname (Some bridge)
            then None
            else if list_ex (\<lambda>b. unat (br_vlan_id b) = n) slots then None
            else Some \<lparr>br_ifname = snd (str_lcpy [] bridge IFNAMSIZ), br_vlan_id = of_nat n\<rparr>))"

function parse_bridges_loop :: "string option \<Rightarrow> tunnel_bridge list \<Rightarrow> bool \<times> tunnel_bridge list" where
  "parse_bridges_loop cursor slots =
     (case str_split_next cursor (CHR '','') of
        (None, _) \<Rightarrow> (True, slots)
      | (Some field, cursor') \<Rightarrow>
          (case parse_bridge_entry (str_trim field) slots of
             None \<Rightarrow> (False, slots)
           | Some slot \<Rightarrow> parse_bridges_loop cursor' (slots @ [slot])))"
  by pat_completeness auto
termination
  by (relation "measure (\<lambda>(cursor, _). case cursor of None \<Rightarrow> 0 | Some s \<Rightarrow> Suc (length s))")
    (auto simp: str_split_next_def dest: strchr_shorter split: option.splits)

declare parse_bridges_loop.simps [simp del]

definition parse_bridges :: "softgred_config \<Rightarrow> string \<Rightarrow> bool \<times> softgred_config" where
  "parse_bridges cfg map_text =
     (case parse_bridges_loop (Some map_text) [] of (ok, slots) \<Rightarrow>
        (ok \<and> slots \<noteq> [], cfg\<lparr>c_bridge := slots\<rparr>))"

section \<open>Loading the file\<close>

text \<open>C's \<open>&&\<close> on steps that change the state.\<close>

definition and_then :: "bool \<times> 's \<Rightarrow> ('s \<Rightarrow> bool \<times> 's) \<Rightarrow> bool \<times> 's" where
  "and_then r f = (if fst r then f (snd r) else r)"

text \<open>The parts of \<open>softgred_config_load_conf\<close> between its jumps to \<open>done\<close>, in order.\<close>

definition load_names :: "ini_pair list \<Rightarrow> softgred_config \<Rightarrow> bool \<times> softgred_config" where
  "load_names file cfg0 =
     (let cfg = cfg0\<lparr>c_ifname := read_string file ''global'' ''interface'' None,
                     c_tunnel_prefix := read_string file ''global'' ''tunnel-prefix'' (Some ''sgre'')\<rparr>;
          map_text = read_string file ''global'' ''bridge-map'' None
      in if config_valid_ifname (c_ifname cfg) \<and> config_valid_ifname (c_tunnel_prefix cfg) \<and>
            length (the (c_tunnel_prefix cfg)) \<le> 6
         then (case map_text of None \<Rightarrow> (False, cfg) | Some t \<Rightarrow> parse_bridges cfg t)
         else (False, cfg))"

definition load_allow ::
  "ini_pair list \<Rightarrow> softgred_config \<times> string \<Rightarrow> bool \<times> softgred_config \<times> string" where
  "load_allow file = (\<lambda>(cfg0, err).
     let cfg = cfg0\<lparr>c_allow := []\<rparr>
     in if ini_has file ''global'' ''allow-remotes''
        then (case read_string file ''global'' ''allow-remotes'' (Some []) of
                None \<Rightarrow> (False, cfg, err)
              | Some list \<Rightarrow> parse_allow cfg list err)
        else (True, cfg, err))"

definition load_paths :: "build \<Rightarrow> ini_pair list \<Rightarrow> softgred_config \<Rightarrow> bool \<times> softgred_config" where
  "load_paths bld file cfg0 =
     (let cfg1 = (if c_pid_file cfg0 = None
                  then cfg0\<lparr>c_pid_file :=
                    read_string file ''global'' ''pid-file'' (Some (SOFTGRED_DEFAULT_PIDFILE bld))\<rparr>
                  else cfg0);
          cfg = (if c_log_file cfg1 = None
                 then cfg1\<lparr>c_log_file :=
                   read_string file ''global'' ''log-file'' (Some SOFTGRED_DEFAULT_LOGFILE)\<rparr>
                 else cfg1)
      in (case c_log_file cfg of
            None \<Rightarrow> (False, cfg)
          | Some log \<Rightarrow>
              (\<not> (\<not> path_is_absolute (Some log) \<or> CHR 0x0D \<in> set log \<or> CHR 0x0A \<in> set log), cfg)))"

text \<open>The typed values; \<open>timestamp\<close> and \<open>config_error\<close> travel with the configuration.\<close>

definition load_typed ::
  "ini_pair list \<Rightarrow> bool \<times> softgred_config \<times> bool \<times> string \<Rightarrow> bool \<times> softgred_config \<times> bool \<times> string" where
  "load_typed file st =
     (let st1 = and_then st (\<lambda>(cfg, ts, err).
            case read_bool file ''global'' ''bridge-force'' (c_bridge_force cfg) err of
              (ok, v, err') \<Rightarrow> (ok, cfg\<lparr>c_bridge_force := v\<rparr>, ts, err'));
          st2 = and_then st1 (\<lambda>(cfg, ts, err).
            case read_bool file ''debug'' ''enable'' (c_dbg_enable cfg) err of
              (ok, v, err') \<Rightarrow> (ok, cfg\<lparr>c_dbg_enable := v\<rparr>, ts, err'));
          st3 = and_then st2 (\<lambda>(cfg, ts, err).
            case read_bool file ''debug'' ''print-time'' ts err of (ok, v, err') \<Rightarrow> (ok, cfg, v, err'));
          st4 = and_then st3 (\<lambda>(cfg, ts, err).
            case read_bool file ''debug'' ''time'' ts err of (ok, v, err') \<Rightarrow> (ok, cfg, v, err'));
          st5 = and_then st4 (\<lambda>(cfg, ts, err).
            case read_uint file ''service'' ''port'' 1 65535 (c_srv_port cfg) err of
              (ok, v, err') \<Rightarrow> (ok, cfg\<lparr>c_srv_port := v\<rparr>, ts, err'))
      in and_then st5 (\<lambda>(cfg, ts, err).
            case read_uint file ''service'' ''max-listen'' 1 128 (c_srv_max_listen cfg) err of
              (ok, v, err') \<Rightarrow> (ok, cfg\<lparr>c_srv_max_listen := v\<rparr>, ts, err')))"

definition load_service ::
  "ini_pair list \<Rightarrow> int \<Rightarrow> utsname \<Rightarrow> softgred_config \<times> string \<Rightarrow> bool \<times> softgred_config \<times> string" where
  "load_service file now uts = (\<lambda>(cfg0, err0).
     let cfg1 = cfg0\<lparr>c_srv_bind_in := read_string file ''service'' ''bind-in'' (Some ''lo'')\<rparr>;
         bind_ok = (case c_srv_bind_in cfg1 of
                      None \<Rightarrow> False
                    | Some b \<Rightarrow> config_valid_ifname (Some b) \<or> b = ''any'')
     in (case load_typed file (bind_ok, cfg1, False, err0) of
           (ok, cfg, timestamp, err) \<Rightarrow>
             (ok, cfg\<lparr>c_dbg_time := c_dbg_time cfg \<or> timestamp,
                      c_dbg_mode := (if c_dbg_enable cfg \<and> c_dbg_mode cfg = 0 then 1 else c_dbg_mode cfg),
                      c_started_time := now, c_uts := uts\<rparr>, err)))"

text \<open>The result, the configuration and what is printed on \<open>stderr\<close>.\<close>

definition softgred_config_load_conf ::
  "build \<Rightarrow> (int \<Rightarrow> string) \<Rightarrow> int \<Rightarrow> utsname \<Rightarrow> string \<Rightarrow> config_source \<Rightarrow> softgred_config
     \<Rightarrow> bool \<times> softgred_config \<times> string" where
  "softgred_config_load_conf bld strerror now uts path src cfg =
     (let (ok, cfg', err) =
        (case ini_load strerror src of
           Inl e \<Rightarrow> (False, cfg, e)
         | Inr file \<Rightarrow>
             let (ok1, cfg1) = load_names file cfg
             in if \<not> ok1 then (False, cfg1, [])
             else let (ok2, cfg2, err2) = load_allow file (cfg1, [])
             in if \<not> ok2 then (False, cfg2, err2)
             else let (ok3, cfg3) = load_paths bld file cfg2
             in if \<not> ok3 then (False, cfg3, err2)
             else load_service file now uts (cfg3, err2))
      in (ok, cfg',
          if ok then []
          else ''Configuration '' @ path @ '': '' @
            (if err \<noteq> [] then err else ''invalid interface, prefix, bridge map or log path'') @ [CHR 0x0A]))"

section \<open>The command line\<close>

text \<open>
  \<open>opts\<close> are the results of the calls of \<open>getopt_long\<close> before it returns -1, each with its
  \<open>optarg\<close>; \<open>all_used\<close> says whether \<open>optind == argc\<close> then. The result is the return value, the
  configuration and the text printed.
\<close>

definition usage_text :: "build \<Rightarrow> string" where
  "usage_text bld =
     ''Usage: softgred [-f] [-c FILE] [-p FILE] [-l FILE] [-d...] [-t] [-h] [-v]'' @ [CHR 0x0A] @
     ''  -c, --config-file  Configuration (default: '' @ SOFTGRED_DEFAULT_CONFFILE bld @ '')'' @ [CHR 0x0A] @
     ''  -f, --foreground   Run in foreground; also logs to stderr'' @ [CHR 0x0A] @
     ''  -p, --pid-file     Locked PID file (default: '' @ SOFTGRED_DEFAULT_PIDFILE bld @ '')'' @ [CHR 0x0A] @
     ''  -l, --log-file     Append log file (default: '' @ SOFTGRED_DEFAULT_LOGFILE @ '')'' @ [CHR 0x0A] @
     ''  -d, --debug        Increase debug level (up to four)'' @ [CHR 0x0A] @
     ''  -t, --debug-time   Timestamp log messages'' @ [CHR 0x0A] @
     ''  -h, --help         Show help'' @ [CHR 0x0A] @
     ''  -v, --version      Show version'' @ [CHR 0x0A] @
     ''Requires Linux and root with CAP_NET_ADMIN and CAP_NET_RAW.'' @ [CHR 0x0A] @
     ''Set global.allow-remotes to your AP IPv4 addresses or CIDRs.'' @ [CHR 0x0A] @
     ''GRE has no authentication; enforce ingress anti-spoofing.'' @ [CHR 0x0A]"

fun softgred_config_load_cli ::
  "build \<Rightarrow> (char \<times> string) list \<Rightarrow> bool \<Rightarrow> softgred_config \<Rightarrow> int \<times> softgred_config \<times> string" where
  "softgred_config_load_cli bld [] all_used cfg = (if all_used then 1 else -1, cfg, [])"
| "softgred_config_load_cli bld ((opt, optarg) # opts) all_used cfg =
     (if opt = CHR ''c'' then softgred_config_load_cli bld opts all_used (cfg\<lparr>c_config_file := Some optarg\<rparr>)
      else if opt = CHR ''p'' then softgred_config_load_cli bld opts all_used (cfg\<lparr>c_pid_file := Some optarg\<rparr>)
      else if opt = CHR ''l'' then softgred_config_load_cli bld opts all_used (cfg\<lparr>c_log_file := Some optarg\<rparr>)
      else if opt = CHR ''f'' then softgred_config_load_cli bld opts all_used (cfg\<lparr>c_is_foreground := True\<rparr>)
      else if opt = CHR ''d'' then
        softgred_config_load_cli bld opts all_used (cfg\<lparr>c_dbg_mode := min (c_dbg_mode cfg + 1) 4\<rparr>)
      else if opt = CHR ''t'' then softgred_config_load_cli bld opts all_used (cfg\<lparr>c_dbg_time := True\<rparr>)
      else if opt = CHR ''v'' then (0, cfg, b_package_string bld @ [CHR 0x0A])
      else if opt = CHR ''h'' then (0, cfg, usage_text bld)
      else (-1, cfg, []))"

end
