(* ===== verification/Os.thy ===== *)
theory Os
  imports Config
begin

text \<open>
  The boundary of the process, the log (\<open>src/src/log.c\<close>) and the execution of commands
  (\<open>src/src/helper.c\<close>).

  Everything outside the process is a world of any type \<open>'w\<close> and an environment that says what
  each system call returns in it and which world it leaves; nothing is known about it beyond
  \<open>env_ok\<close>: sleeping advances the monotonic clock, no call turns it back, and interruptions
  (\<open>EINTR\<close>, netlink messages that the daemon skips) do not go on forever.

  The record \<open>sys\<close> holds the world, \<open>errno\<close> and the statics of \<open>log.c\<close> and
  \<open>iface_ebtables.c\<close>; two fields that the program does not have record what it prints on
  \<open>stderr\<close> and the commands it has run with their success. A loop around system calls that
  does not end is the result \<^const>\<open>None\<close>.
\<close>

section \<open>Environment and process state\<close>

abbreviation (input) EPERM :: int where "EPERM \<equiv> 1"
abbreviation (input) EINTR :: int where "EINTR \<equiv> 4"
abbreviation (input) EAGAIN :: int where "EAGAIN \<equiv> 11"
abbreviation (input) ENODEV :: int where "ENODEV \<equiv> 19"
abbreviation (input) EINVAL :: int where "EINVAL \<equiv> 22"
abbreviation (input) ENOSPC :: int where "ENOSPC \<equiv> 28"
abbreviation (input) EMSGSIZE :: int where "EMSGSIZE \<equiv> 90"

definition USEC_PER_SEC :: int where
  "USEC_PER_SEC = 1000000"

datatype wait_status = Exited nat | Signaled nat | Other_status
datatype wait_result = Wait_failed int | Wait_running | Wait_done wait_status

text \<open>A call that fails returns \<open>Inl\<close> of the error number.\<close>

record 'w env =
  e_strerror :: "int \<Rightarrow> string"
  e_stamp :: "'w \<Rightarrow> string"
  e_pid :: nat
  e_now :: "'w \<Rightarrow> int"
  e_sleep :: "int \<Rightarrow> 'w \<Rightarrow> 'w"
  e_write :: "int \<Rightarrow> string \<Rightarrow> 'w \<Rightarrow> (int + nat) \<times> 'w"
  e_fork :: "string list \<Rightarrow> 'w \<Rightarrow> (int + nat) \<times> 'w"
  e_waitpid :: "nat \<Rightarrow> 'w \<Rightarrow> wait_result \<times> 'w"
  e_kill :: "nat \<Rightarrow> 'w \<Rightarrow> 'w"
  e_wait :: "nat \<Rightarrow> 'w \<Rightarrow> (int + wait_status) \<times> 'w"
  e_path :: "string option"
  e_access :: "string \<Rightarrow> 'w \<Rightarrow> int option \<times> 'w"
  e_access_x :: "string \<Rightarrow> 'w \<Rightarrow> int option \<times> 'w"
  e_if_nametoindex :: "string \<Rightarrow> 'w \<Rightarrow> (int + u32) \<times> 'w"
  e_socket :: "'w \<Rightarrow> (int + nat) \<times> 'w"
  e_sendto :: "nat \<Rightarrow> byte list \<Rightarrow> 'w \<Rightarrow> (int + nat) \<times> 'w"
  e_recvfrom :: "nat \<Rightarrow> 'w \<Rightarrow> (int + u32 \<times> byte list) \<times> 'w"

record 'w sys =
  s_world :: 'w
  s_errno :: int
  s_log_fd :: int
  s_write_failed :: bool
  s_initialized :: bool
  s_binary :: string
  s_stderr :: "string list"
  s_execs :: "(string list \<times> bool) list"

section \<open>The log\<close>

definition print_err :: "string \<Rightarrow> 'w sys \<Rightarrow> 'w sys" where
  "print_err t s = s\<lparr>s_stderr := s_stderr s @ [t]\<rparr>"

text \<open>The loop that writes what is left of the line; the flag is \<open>offset == length\<close>.\<close>

partial_function (option) log_write :: "'w env \<Rightarrow> string \<Rightarrow> 'w sys \<Rightarrow> (bool \<times> 'w sys) option" where
  "log_write env line s =
     (if line = [] then Some (True, s)
      else
        (case e_write env (s_log_fd s) line (s_world s) of
           (Inl e, w) \<Rightarrow>
             if e = EINTR then log_write env line (s\<lparr>s_world := w, s_errno := e\<rparr>)
             else Some (False,
               (if \<not> s_write_failed s
                then print_err (''Log write failed: '' @ e_strerror env e @ [CHR 0x0A]) s
                else s)\<lparr>s_world := w, s_errno := e, s_write_failed := True\<rparr>)
         | (Inr n, w) \<Rightarrow>
             if n = 0
             then Some (False,
               (if \<not> s_write_failed s
                then print_err (''Log write failed: short write'' @ [CHR 0x0A]) s
                else s)\<lparr>s_world := w, s_write_failed := True\<rparr>)
             else log_write env (drop n line) (s\<lparr>s_world := w\<rparr>)))"

definition log_severity :: "int \<Rightarrow> string" where
  "log_severity level =
     (if level < 5 then ''DEBUG'' else if level = 6 then ''WARNING''
      else if level = 7 then ''ERROR'' else ''INFO'')"

text \<open>\<open>message\<close> is the expansion of the format.\<close>

definition log_message ::
  "'w env \<Rightarrow> softgred_config \<Rightarrow> int \<Rightarrow> string \<Rightarrow> 'w sys \<Rightarrow> 'w sys option" where
  "log_message env cfg level message s0 =
     (if level < 5 \<and> level > c_dbg_mode cfg then Some s0
      else do {
        let stamp = e_stamp env (s_world s0);
        let s1 = (if c_dbg_time cfg then print_err (''['' @ stamp @ ''] '') s0 else s0);
        let s2 = print_err message s1;
        s3 \<leftarrow>
          (if s_log_fd s2 \<ge> 0 then do {
             let line = ''['' @ stamp @ ''] pid='' @ dec_str (e_pid env) @ '' level='' @
               log_severity level @ '' '' @ message @
               (if str_has_suffix (Some message) (Some [CHR 0x0A]) then [] else [CHR 0x0A]);
             (full, s') \<leftarrow> log_write env line s2;
             Some (if full then s'\<lparr>s_write_failed := False\<rparr> else s')
           } else Some s2);
        Some (s3\<lparr>s_errno := s_errno s0\<rparr>)
      })"

abbreviation D_INFO :: "'w env \<Rightarrow> softgred_config \<Rightarrow> string \<Rightarrow> 'w sys \<Rightarrow> 'w sys option" where
  "D_INFO env cfg m s \<equiv> log_message env cfg 5 (m @ [CHR 0x0A]) s"
abbreviation D_WARNING :: "'w env \<Rightarrow> softgred_config \<Rightarrow> string \<Rightarrow> 'w sys \<Rightarrow> 'w sys option" where
  "D_WARNING env cfg m s \<equiv> log_message env cfg 6 (m @ [CHR 0x0A]) s"
abbreviation D_CRIT :: "'w env \<Rightarrow> softgred_config \<Rightarrow> string \<Rightarrow> 'w sys \<Rightarrow> 'w sys option" where
  "D_CRIT env cfg m s \<equiv> log_message env cfg 7 (m @ [CHR 0x0A]) s"

section \<open>Commands\<close>

text \<open>\<open>while (waitpid(child, &status, 0) < 0 && errno == EINTR)\<close> after the kill.\<close>

partial_function (option) reap :: "'w env \<Rightarrow> nat \<Rightarrow> 'w sys \<Rightarrow> 'w sys option" where
  "reap env child s =
     (case e_wait env child (s_world s) of
        (Inl e, w) \<Rightarrow>
          if e = EINTR then reap env child (s\<lparr>s_world := w, s_errno := e\<rparr>)
          else Some (s\<lparr>s_world := w, s_errno := e\<rparr>)
      | (Inr status, w) \<Rightarrow> Some (s\<lparr>s_world := w\<rparr>))"

definition sleep_usec :: "'w env \<Rightarrow> int \<Rightarrow> 'w sys \<Rightarrow> 'w sys" where
  "sleep_usec env usec s = (if usec \<le> 0 then s else s\<lparr>s_world := e_sleep env usec (s_world s)\<rparr>)"

definition monotonic_usec :: "'w env \<Rightarrow> 'w sys \<Rightarrow> int" where
  "monotonic_usec env s = e_now env (s_world s)"

text \<open>The command has exceeded its deadline: it is killed and waited for.\<close>

definition exec_late ::
  "'w env \<Rightarrow> softgred_config \<Rightarrow> string \<Rightarrow> nat \<Rightarrow> 'w sys \<Rightarrow> (wait_status option \<times> 'w sys) option" where
  "exec_late env cfg arg0 child s = do {
     s1 \<leftarrow> reap env child (s\<lparr>s_world := e_kill env child (s_world s)\<rparr>);
     s2 \<leftarrow> D_WARNING env cfg (arg0 @ '': command exceeded three-second deadline'') s1;
     Some (None, s2)
   }"

text \<open>The polling loop of the parent: the status of the child, or \<^const>\<open>None\<close> for \<open>return -1\<close>.\<close>

partial_function (option) exec_wait ::
  "'w env \<Rightarrow> softgred_config \<Rightarrow> string \<Rightarrow> nat \<Rightarrow> int \<Rightarrow> 'w sys \<Rightarrow> (wait_status option \<times> 'w sys) option" where
  "exec_wait env cfg arg0 child deadline s =
     (case e_waitpid env child (s_world s) of (r, w) \<Rightarrow>
        (case r of
           Wait_done status \<Rightarrow> Some (Some status, s\<lparr>s_world := w\<rparr>)
         | Wait_failed e \<Rightarrow>
             if e \<noteq> EINTR
             then do {
               s' \<leftarrow> D_WARNING env cfg (arg0 @ '': waitpid: '' @ e_strerror env e) (s\<lparr>s_world := w, s_errno := e\<rparr>);
               Some (None, s')
             }
             else if monotonic_usec env (s\<lparr>s_world := w, s_errno := e\<rparr>) \<ge> deadline
             then exec_late env cfg arg0 child (s\<lparr>s_world := w, s_errno := e\<rparr>)
             else exec_wait env cfg arg0 child deadline (sleep_usec env 1000 (s\<lparr>s_world := w, s_errno := e\<rparr>))
         | Wait_running \<Rightarrow>
             if monotonic_usec env (s\<lparr>s_world := w\<rparr>) \<ge> deadline
             then exec_late env cfg arg0 child (s\<lparr>s_world := w\<rparr>)
             else exec_wait env cfg arg0 child deadline (sleep_usec env 1000 (s\<lparr>s_world := w\<rparr>))))"

text \<open>Everything but the record of the commands run.\<close>

definition run_command ::
  "'w env \<Rightarrow> softgred_config \<Rightarrow> string list \<Rightarrow> 'w sys \<Rightarrow> (int \<times> 'w sys) option" where
  "run_command env cfg argv s =
     (case e_fork env argv (s_world s) of
        (Inl e, w) \<Rightarrow> do {
          s' \<leftarrow> D_WARNING env cfg (hd argv @ '': fork: '' @ e_strerror env e) (s\<lparr>s_world := w, s_errno := e\<rparr>);
          Some (-1, s')
        }
      | (Inr child, w) \<Rightarrow> do {
          let s1 = s\<lparr>s_world := w\<rparr>;
          let deadline = monotonic_usec env s1 + 3 * USEC_PER_SEC;
          (status, s2) \<leftarrow> exec_wait env cfg (hd argv) child deadline s1;
          (case status of
             None \<Rightarrow> Some (-1, s2)
           | Some (Exited 0) \<Rightarrow> Some (0, s2)
           | Some (Signaled n) \<Rightarrow> do {
               s3 \<leftarrow> D_WARNING env cfg (hd argv @ '': killed by signal '' @ dec_str n) s2;
               Some (-1, s3)
             }
           | Some (Exited n) \<Rightarrow> do {
               s3 \<leftarrow> D_WARNING env cfg (hd argv @ '': exited with status '' @ dec_str n) s2;
               Some (-1, s3)
             }
           | Some Other_status \<Rightarrow> do {
               s3 \<leftarrow> D_WARNING env cfg (hd argv @ '': execution failed'') s2;
               Some (-1, s3)
             })
        })"

definition helper_exec ::
  "'w env \<Rightarrow> softgred_config \<Rightarrow> string list \<Rightarrow> 'w sys \<Rightarrow> (int \<times> 'w sys) option" where
  "helper_exec env cfg argv s = do {
     (r, s') \<leftarrow> run_command env cfg argv s;
     Some (r, s'\<lparr>s_execs := s_execs s' @ [(argv, r = 0)]\<rparr>)
   }"

section \<open>Printing a packet\<close>

text \<open>
  The text that \<open>helper_print_payload\<close> prints from \<open>offset\<close> on, a row for every 16 bytes; a byte that is
  not in \<open>data\<close> is the result \<^const>\<open>None\<close>. \<open>%05zu\<close> pads with zeros.
\<close>

definition dec5 :: "nat \<Rightarrow> string" where
  "dec5 n = replicate (5 - length (dec_str n)) (CHR ''0'') @ dec_str n"

function print_rows :: "byte list \<Rightarrow> nat \<Rightarrow> nat \<Rightarrow> string option" where
  "print_rows data len offset =
     (if offset < len
      then do {
        row \<leftarrow> rd_bytes data offset (min (offset + 16) len - offset);
        rest \<leftarrow> print_rows data len (offset + 16);
        Some (dec5 offset @ ''  '' @ concat (map (\<lambda>b. hex2 b @ '' '') row) @ [CHR 0x0A] @ rest)
      }
      else Some [])"
  by pat_completeness auto
termination
  by (relation "measure (\<lambda>(data, len, offset). len - offset)") auto

declare print_rows.simps [simp del]

definition helper_print_payload :: "byte list \<Rightarrow> nat \<Rightarrow> string option" where
  "helper_print_payload data len = print_rows data len 0"

section \<open>Finding a program\<close>

text \<open>
  The loop of \<open>find_in_path\<close> (\<open>src/src/compat.c\<close>) over what is left of the path: the result,
  the text in \<open>out\<close> and the state; \<open>e_access_x\<close> is \<open>access(out, X_OK)\<close>, with \<^const>\<open>None\<close> for success.
\<close>

function find_in_dirs ::
  "'w env \<Rightarrow> string \<Rightarrow> string \<Rightarrow> string \<Rightarrow> nat \<Rightarrow> 'w sys \<Rightarrow> bool \<times> string \<times> 'w sys" where
  "find_in_dirs env p name out n s =
     (if p = [] then (False, out, s)
      else
        let dir = takeWhile (\<lambda>c. c \<noteq> CHR '':'') p;
            full = dir @ ''/'' @ name;
            out' = snprintf_buf n full;
            p' = drop (length dir + (if length dir < length p then 1 else 0)) p
        in if length full < n
           then
             (case e_access_x env out' (s_world s) of
                (None, w) \<Rightarrow> (True, out', s\<lparr>s_world := w\<rparr>)
              | (Some e, w) \<Rightarrow> find_in_dirs env p' name out' n (s\<lparr>s_world := w, s_errno := e\<rparr>))
           else find_in_dirs env p' name out' n s)"
  by pat_completeness auto
termination
proof (relation "measure (\<lambda>(env, p, name, out, n, s). length p)", goal_cases)
  case 1
  show ?case by simp
next
  case (2 env p name out n s)
  then show ?case by (cases p) (auto simp: Let_def)
next
  case (3 env p name out n s)
  then show ?case by (cases p) (auto simp: Let_def)
qed

declare find_in_dirs.simps [simp del]

definition find_in_path ::
  "'w env \<Rightarrow> string \<Rightarrow> string \<Rightarrow> nat \<Rightarrow> 'w sys \<Rightarrow> bool \<times> string \<times> 'w sys" where
  "find_in_path env name out n s =
     find_in_dirs env
       (case e_path env of
          None \<Rightarrow> ''/usr/sbin:/usr/bin:/sbin:/bin''
        | Some p \<Rightarrow> if p = [] then ''/usr/sbin:/usr/bin:/sbin:/bin'' else p)
       name out n s"

end
