(* ===== verification/Netlink.thy ===== *)
theory Netlink
  imports Os
begin

unbundle bit_operations_syntax

text \<open>
  Interface management over rtnetlink: \<open>src/src/iface_gre.c\<close> and \<open>src/src/iface_bridge.c\<close>.

  A \<open>struct link_request\<close> is the list of its 1056 bytes (\<open>nlmsghdr\<close> and \<open>ifinfomsg\<close> of 16 bytes
  each and 1024 bytes for attributes) in the byte order of a little-endian machine; a pointer
  into it is an offset. A store or load outside a buffer is the result \<^const>\<open>None\<close>.
\<close>

section \<open>Bytes\<close>

definition store :: "byte list \<Rightarrow> nat \<Rightarrow> byte list \<Rightarrow> byte list option" where
  "store mem at bs =
     (if at + length bs \<le> length mem then Some (take at mem @ bs @ drop (at + length bs) mem) else None)"

definition le16 :: "u16 \<Rightarrow> byte list" where
  "le16 w = [ucast w, ucast (drop_bit 8 w)]"

definition load16 :: "byte list \<Rightarrow> nat \<Rightarrow> u16 option" where
  "load16 mem at = do {
     a \<leftarrow> rd mem at;
     b \<leftarrow> rd mem (at + 1);
     Some (ucast a OR push_bit 8 (ucast b))
   }"

definition load32 :: "byte list \<Rightarrow> nat \<Rightarrow> u32 option" where
  "load32 mem at = map_option le32 (rd_bytes mem at 4)"

text \<open>The bytes of a string with its terminating NUL.\<close>

definition cstr_bytes :: "string \<Rightarrow> byte list" where
  "cstr_bytes s = map (\<lambda>c. of_nat (ch c)) s @ [0]"

section \<open>Requests\<close>

definition REQUEST_SIZE :: nat where "REQUEST_SIZE = 1056"

definition NLM_F_REQUEST :: u16 where "NLM_F_REQUEST = 0x01"
definition NLM_F_ACK :: u16 where "NLM_F_ACK = 0x04"
definition NLM_F_EXCL :: u16 where "NLM_F_EXCL = 0x200"
definition NLM_F_CREATE :: u16 where "NLM_F_CREATE = 0x400"
definition NLMSG_ERROR :: u16 where "NLMSG_ERROR = 2"
definition NLA_F_NESTED :: u16 where "NLA_F_NESTED = 0x8000"
definition RTM_NEWLINK :: u16 where "RTM_NEWLINK = 16"
definition RTM_DELLINK :: u16 where "RTM_DELLINK = 17"
definition IFF_UP :: u32 where "IFF_UP = 1"
definition IFLA_IFNAME :: u16 where "IFLA_IFNAME = 3"
definition IFLA_LINK :: u16 where "IFLA_LINK = 5"
definition IFLA_MASTER :: u16 where "IFLA_MASTER = 10"
definition IFLA_LINKINFO :: u16 where "IFLA_LINKINFO = 18"
definition IFLA_INFO_KIND :: u16 where "IFLA_INFO_KIND = 1"
definition IFLA_INFO_DATA :: u16 where "IFLA_INFO_DATA = 2"
definition IFLA_VLAN_ID :: u16 where "IFLA_VLAN_ID = 1"
definition IFLA_GRE_LINK :: u16 where "IFLA_GRE_LINK = 1"
definition IFLA_GRE_LOCAL :: u16 where "IFLA_GRE_LOCAL = 6"
definition IFLA_GRE_REMOTE :: u16 where "IFLA_GRE_REMOTE = 7"
definition IFLA_GRE_PMTUDISC :: u16 where "IFLA_GRE_PMTUDISC = 10"

text \<open>\<open>NLMSG_ALIGN\<close> and \<open>RTA_ALIGN\<close>: up to a multiple of four.\<close>

definition align4 :: "nat \<Rightarrow> nat" where
  "align4 n = (n + 3) div 4 * 4"

text \<open>
  \<open>link_request_init\<close>: zeroed memory, then \<open>nlmsg_len\<close> (32), type, flags and sequence number of
  the header and the index of the \<open>ifinfomsg\<close>, whose family is \<open>AF_UNSPEC\<close> = 0.
\<close>

definition link_request_init :: "u16 \<Rightarrow> u16 \<Rightarrow> u32 \<Rightarrow> byte list" where
  "link_request_init type flags index =
     octets 32 @ le16 type @ le16 (NLM_F_REQUEST OR NLM_F_ACK OR flags) @ octets 1 @ octets 0 @
     [0, 0, 0, 0] @ octets index @ octets 0 @ octets 0 @ replicate 1024 0"

text \<open>\<open>req.info.ifi_flags = IFF_UP; req.info.ifi_change = IFF_UP;\<close>\<close>

definition link_up :: "byte list \<Rightarrow> byte list option" where
  "link_up req = do {
     req1 \<leftarrow> store req 24 (octets IFF_UP);
     store req1 28 (octets IFF_UP)
   }"

definition nlmsg_len :: "byte list \<Rightarrow> nat option" where
  "nlmsg_len req = map_option unat (load32 req 0)"

text \<open>\<open>link_attr\<close>: \<open>False\<close> is the return value -1 with \<open>errno\<close> set to \<open>EMSGSIZE\<close>.\<close>

definition link_attr :: "byte list \<Rightarrow> u16 \<Rightarrow> byte list \<Rightarrow> (bool \<times> byte list) option" where
  "link_attr req type data = do {
     len0 \<leftarrow> nlmsg_len req;
     let start = align4 len0;
     let sz = 4 + length data;
     if start + align4 sz > REQUEST_SIZE then Some (False, req) else do {
     req1 \<leftarrow> store req (start + 2) (le16 type);
     req2 \<leftarrow> store req1 start (le16 (of_nat sz));
     req3 \<leftarrow> (if length data \<noteq> 0 then store req2 (start + 4) data else Some req2);
     req4 \<leftarrow> store req3 0 (octets (of_nat (start + align4 sz)));
     Some (True, req4)
     }
   }"

text \<open>\<open>link_nest\<close>: the offset of the attribute, or \<^const>\<open>None\<close> inside for \<open>NULL\<close>.\<close>

definition link_nest :: "byte list \<Rightarrow> u16 \<Rightarrow> (nat option \<times> byte list) option" where
  "link_nest req type = do {
     len0 \<leftarrow> nlmsg_len req;
     let attr = align4 len0;
     (ok, req') \<leftarrow> link_attr req (type OR NLA_F_NESTED) [];
     Some (if ok then Some attr else None, req')
   }"

definition link_nest_end :: "byte list \<Rightarrow> nat \<Rightarrow> byte list option" where
  "link_nest_end req attr = do {
     len \<leftarrow> nlmsg_len req;
     store req attr (le16 (of_nat (len - attr)))
   }"

section \<open>Sending and the answer\<close>

text \<open>
  The inner loop over the messages of one datagram (\<open>NLMSG_OK\<close>, \<open>NLMSG_NEXT\<close>): \<open>h\<close> is the
  offset of the message and \<open>left\<close> the signed count \<open>got\<close>. The result is the error number of
  the first matching \<open>NLMSG_ERROR\<close> message.
\<close>

function scan_reply :: "byte list \<Rightarrow> u32 \<Rightarrow> nat \<Rightarrow> int \<Rightarrow> int option option" where
  "scan_reply buf seq h left =
     (if left < 16 then Some None
      else
        (case (load32 buf h, load16 buf (h + 4), load32 buf (h + 8)) of
           (Some len, Some type, Some seq') \<Rightarrow>
             if unat len < 16 \<or> int (unat len) > left then Some None
             else if seq' = seq \<and> type = NLMSG_ERROR \<and> unat len \<ge> 36
             then map_option (\<lambda>e. Some (sint e)) (load32 buf (h + 16))
             else scan_reply buf seq (h + align4 (unat len)) (left - int (align4 (unat len)))
         | _ \<Rightarrow> None))"
  by pat_completeness auto
termination
  by (relation "measure (\<lambda>(buf, seq, h, left). nat left)") (auto simp: align4_def)

declare scan_reply.simps [simp del]

partial_function (option) link_recv :: "'w env \<Rightarrow> nat \<Rightarrow> u32 \<Rightarrow> 'w sys \<Rightarrow> (int \<times> 'w sys) option" where
  "link_recv env fd seq s =
     (case e_recvfrom env fd (s_world s) of
        (Inl e, w) \<Rightarrow>
          if e = EINTR then link_recv env fd seq (s\<lparr>s_world := w, s_errno := e\<rparr>)
          else Some (-1, s\<lparr>s_world := w, s_errno := e\<rparr>)
      | (Inr (nl_pid, datagram), w) \<Rightarrow>
          if nl_pid \<noteq> 0 then link_recv env fd seq (s\<lparr>s_world := w\<rparr>)
          else
            (case scan_reply (take 8192 datagram) seq 0 (int (length (take 8192 datagram))) of
               None \<Rightarrow> None
             | Some None \<Rightarrow> link_recv env fd seq (s\<lparr>s_world := w\<rparr>)
             | Some (Some e) \<Rightarrow>
                 if e = 0 then Some (0, s\<lparr>s_world := w\<rparr>)
                 else Some (-1, s\<lparr>s_world := w, s_errno := - e\<rparr>)))"

definition link_send :: "'w env \<Rightarrow> byte list \<Rightarrow> 'w sys \<Rightarrow> (int \<times> 'w sys) option" where
  "link_send env req s =
     (case e_socket env (s_world s) of
        (Inl e, w) \<Rightarrow> Some (-1, s\<lparr>s_world := w, s_errno := e\<rparr>)
      | (Inr fd, w) \<Rightarrow> do {
          len \<leftarrow> nlmsg_len req;
          seq \<leftarrow> load32 req 8;
          (case e_sendto env fd (take len req) w of
             (Inl e, w') \<Rightarrow> Some (-1, s\<lparr>s_world := w', s_errno := e\<rparr>)
           | (Inr n, w') \<Rightarrow>
               if n \<noteq> len then Some (-1, s\<lparr>s_world := w'\<rparr>)
               else link_recv env fd seq (s\<lparr>s_world := w'\<rparr>))
        })"

section \<open>Tunnel interfaces\<close>

definition if_nametoindex :: "'w env \<Rightarrow> string \<Rightarrow> 'w sys \<Rightarrow> u32 \<times> 'w sys" where
  "if_nametoindex env name s =
     (case e_if_nametoindex env name (s_world s) of
        (Inl e, w) \<Rightarrow> (0, s\<lparr>s_world := w, s_errno := e\<rparr>)
      | (Inr index, w) \<Rightarrow> (index, s\<lparr>s_world := w\<rparr>))"

text \<open>\<open>||\<close> between calls of \<open>link_attr\<close>: a failure skips the rest.\<close>

definition then_attr :: "bool \<times> byte list \<Rightarrow> u16 \<Rightarrow> byte list \<Rightarrow> (bool \<times> byte list) option" where
  "then_attr st type data = (if fst st then link_attr (snd st) type data else Some st)"

text \<open>
  The request that \<open>iface_gre_add\<close> builds; \<open>Some None\<close> is a \<open>return -1\<close> after \<open>EMSGSIZE\<close>.
\<close>

definition gre_add_request :: "u32 \<Rightarrow> string \<Rightarrow> string \<Rightarrow> u32 \<Rightarrow> u32 \<Rightarrow> byte list option option" where
  "gre_add_request index name kind loc remote = do {
     req0 \<leftarrow> link_up (link_request_init RTM_NEWLINK (NLM_F_CREATE OR NLM_F_EXCL) 0);
     (ok1, req1) \<leftarrow> link_attr req0 IFLA_IFNAME (cstr_bytes name);
     if \<not> ok1 then Some None else do {
     (info, req2) \<leftarrow> link_nest req1 IFLA_LINKINFO;
     (case info of None \<Rightarrow> Some None | Some info \<Rightarrow> do {
     (ok3, req3) \<leftarrow> link_attr req2 IFLA_INFO_KIND (cstr_bytes kind);
     if \<not> ok3 then Some None else do {
     (data, req4) \<leftarrow> link_nest req3 IFLA_INFO_DATA;
     (case data of None \<Rightarrow> Some None | Some data \<Rightarrow> do {
     st5 \<leftarrow> link_attr req4 IFLA_GRE_LINK (octets index);
     st6 \<leftarrow> then_attr st5 IFLA_GRE_LOCAL (octets loc);
     st7 \<leftarrow> then_attr st6 IFLA_GRE_REMOTE (octets remote);
     st8 \<leftarrow> then_attr st7 IFLA_GRE_PMTUDISC [0];
     if \<not> fst st8 then Some None else do {
     req9 \<leftarrow> link_nest_end (snd st8) data;
     req10 \<leftarrow> link_nest_end req9 info;
     Some (Some req10)
     }})}})}
   }"

text \<open>Sending what was built.\<close>

definition send_built :: "'w env \<Rightarrow> byte list option option \<Rightarrow> 'w sys \<Rightarrow> (int \<times> 'w sys) option" where
  "send_built env built s =
     (case built of
        None \<Rightarrow> None
      | Some None \<Rightarrow> Some (-1, s\<lparr>s_errno := EMSGSIZE\<rparr>)
      | Some (Some req) \<Rightarrow> link_send env req s)"

definition iface_gre_add ::
  "'w env \<Rightarrow> string \<Rightarrow> string \<Rightarrow> string \<Rightarrow> u32 \<Rightarrow> u32 \<Rightarrow> 'w sys \<Rightarrow> (int \<times> 'w sys) option" where
  "iface_gre_add env name kind dev loc remote s =
     (let (index, s1) = if_nametoindex env dev s
      in if index = 0 then Some (-1, s1\<lparr>s_errno := ENODEV\<rparr>)
         else send_built env (gre_add_request index name kind loc remote) s1)"

definition iface_gre_del :: "'w env \<Rightarrow> string \<Rightarrow> 'w sys \<Rightarrow> (int \<times> 'w sys) option" where
  "iface_gre_del env name s =
     (let (index, s1) = if_nametoindex env name s
      in if index = 0 then Some (-1, s1\<lparr>s_errno := ENODEV\<rparr>)
         else link_send env (link_request_init RTM_DELLINK 0 index) s1)"

section \<open>Bridges\<close>

definition master_request :: "u32 \<Rightarrow> u32 \<Rightarrow> byte list option option" where
  "master_request index master = do {
     req0 \<leftarrow> link_up (link_request_init RTM_NEWLINK 0 index);
     (ok, req1) \<leftarrow> link_attr req0 IFLA_MASTER (octets master);
     Some (if ok then Some req1 else None)
   }"

definition set_master :: "'w env \<Rightarrow> u32 \<Rightarrow> u32 \<Rightarrow> 'w sys \<Rightarrow> (int \<times> 'w sys) option" where
  "set_master env index master s = send_built env (master_request index master) s"

definition bridge_request :: "string \<Rightarrow> byte list option option" where
  "bridge_request name = do {
     req0 \<leftarrow> link_up (link_request_init RTM_NEWLINK (NLM_F_CREATE OR NLM_F_EXCL) 0);
     (ok1, req1) \<leftarrow> link_attr req0 IFLA_IFNAME (cstr_bytes name);
     if \<not> ok1 then Some None else do {
     (info, req2) \<leftarrow> link_nest req1 IFLA_LINKINFO;
     (case info of None \<Rightarrow> Some None | Some info \<Rightarrow> do {
     (ok3, req3) \<leftarrow> link_attr req2 IFLA_INFO_KIND (cstr_bytes ''bridge'');
     if \<not> ok3 then Some None else do {
     req4 \<leftarrow> link_nest_end req3 info;
     Some (Some req4)
     }})}
   }"

definition iface_bridge_prepare :: "'w env \<Rightarrow> string \<Rightarrow> bool \<Rightarrow> 'w sys \<Rightarrow> (int \<times> 'w sys) option" where
  "iface_bridge_prepare env name create s =
     (let (index, s1) = if_nametoindex env name s
      in if index \<noteq> 0
         then
           (case e_access env (snprintf_buf 128 (''/sys/class/net/'' @ name @ ''/bridge'')) (s_world s1) of
              (Some e, w) \<Rightarrow> Some (-1, s1\<lparr>s_world := w, s_errno := EINVAL\<rparr>)
            | (None, w) \<Rightarrow> do {
                req \<leftarrow> link_up (link_request_init RTM_NEWLINK 0 index);
                link_send env req (s1\<lparr>s_world := w\<rparr>)
              })
         else if \<not> create then Some (-1, s1\<lparr>s_errno := ENODEV\<rparr>)
         else send_built env (bridge_request name) s1)"

definition vlan_request :: "string \<Rightarrow> u32 \<Rightarrow> u16 \<Rightarrow> byte list option option" where
  "vlan_request name parent vlan = do {
     req0 \<leftarrow> link_up (link_request_init RTM_NEWLINK (NLM_F_CREATE OR NLM_F_EXCL) 0);
     st1 \<leftarrow> link_attr req0 IFLA_IFNAME (cstr_bytes name);
     (ok2, req2) \<leftarrow> then_attr st1 IFLA_LINK (octets parent);
     if \<not> ok2 then Some None else do {
     (info, req3) \<leftarrow> link_nest req2 IFLA_LINKINFO;
     (case info of None \<Rightarrow> Some None | Some info \<Rightarrow> do {
     (ok4, req4) \<leftarrow> link_attr req3 IFLA_INFO_KIND (cstr_bytes ''vlan'');
     if \<not> ok4 then Some None else do {
     (data, req5) \<leftarrow> link_nest req4 IFLA_INFO_DATA;
     (case data of None \<Rightarrow> Some None | Some data \<Rightarrow> do {
     (ok6, req6) \<leftarrow> link_attr req5 IFLA_VLAN_ID (le16 vlan);
     if \<not> ok6 then Some None else do {
     req7 \<leftarrow> link_nest_end req6 data;
     req8 \<leftarrow> link_nest_end req7 info;
     Some (Some req8)
     }})}})}
   }"

definition vlan_name :: "string \<Rightarrow> u16 \<Rightarrow> string" where
  "vlan_name gre vlan = gre @ ''.'' @ dec_str (unat vlan)"

definition iface_bridge_attach ::
  "'w env \<Rightarrow> string \<Rightarrow> string \<Rightarrow> u16 \<Rightarrow> 'w sys \<Rightarrow> (int \<times> 'w sys) option" where
  "iface_bridge_attach env gre bridge vlan s =
     (let name = snprintf_buf IFNAMSIZ (vlan_name gre vlan);
          len = length (vlan_name gre vlan);
          (parent, s1) = if_nametoindex env gre s;
          (master, s2) = if_nametoindex env bridge s1
      in if len \<ge> IFNAMSIZ \<or> parent = 0 \<or> master = 0 then Some (-1, s2\<lparr>s_errno := EINVAL\<rparr>)
         else do {
           (r, s3) \<leftarrow> send_built env (vlan_request name parent vlan) s2;
           if r \<noteq> 0 then Some (-1, s3)
           else let (index, s4) = if_nametoindex env name s3 in set_master env index master s4
         })"

end
