(* ===== verification/Ebtables.thy ===== *)
theory Ebtables
  imports Os
begin

unbundle bit_operations_syntax

text \<open>
  The firewall rules of \<open>src/src/iface_ebtables.c\<close>: two chains of the daemon's own, per tunnel
  three jumps into them, and per client one accept rule in each chain. The statics \<open>initialized\<close>
  and \<open>binary\<close> are the fields \<^const>\<open>s_initialized\<close> and \<^const>\<open>s_binary\<close>; a command is the list
  of its arguments, run by \<^const>\<open>helper_exec\<close>.
\<close>

definition ebtables_bin :: "'w env \<Rightarrow> 'w sys \<Rightarrow> string \<times> 'w sys" where
  "ebtables_bin env s =
     (if s_binary s = []
      then
        (case find_in_path env ''ebtables-nft'' [] 256 s of
           (True, out, s') \<Rightarrow> (out, s'\<lparr>s_binary := out\<rparr>)
         | (False, out, s') \<Rightarrow>
             let bin = snd (str_lcpy out ''ebtables'' 256) in (bin, s'\<lparr>s_binary := bin\<rparr>))
      else (s_binary s, s))"

definition chain_cmd ::
  "'w env \<Rightarrow> softgred_config \<Rightarrow> string \<Rightarrow> string \<Rightarrow> string \<Rightarrow> 'w sys \<Rightarrow> (int \<times> 'w sys) option" where
  "chain_cmd env cfg table op chain s =
     (let (bin, s1) = ebtables_bin env s
      in helper_exec env cfg [bin, ''-t'', table, op, chain] s1)"

definition rule_cmd ::
  "'w env \<Rightarrow> softgred_config \<Rightarrow> string \<Rightarrow> string \<Rightarrow> string \<Rightarrow> string \<Rightarrow> string \<Rightarrow> (string \<times> string) option
     \<Rightarrow> string \<Rightarrow> 'w sys \<Rightarrow> (int \<times> 'w sys) option" where
  "rule_cmd env cfg table op chain direction name mac target s =
     (let (bin, s1) = ebtables_bin env s
      in helper_exec env cfg
           ([bin, ''-t'', table, op, chain, direction, name] @
            (case mac of None \<Rightarrow> [] | Some (mac_direction, m) \<Rightarrow> [mac_direction, m]) @
            [''-j'', target]) s1)"

text \<open>\<open>a || b ? -1 : 0\<close> for commands: the second runs only when the first succeeds.\<close>

definition or_else ::
  "(int \<times> 'w sys) option \<Rightarrow> ('w sys \<Rightarrow> (int \<times> 'w sys) option) \<Rightarrow> (int \<times> 'w sys) option" where
  "or_else a b = do {
     (r, s) \<leftarrow> a;
     if r \<noteq> 0 then Some (-1, s) else do { (r', s') \<leftarrow> b s; Some (if r' \<noteq> 0 then -1 else 0, s') }
   }"

definition chain_defaults :: "'w env \<Rightarrow> softgred_config \<Rightarrow> 'w sys \<Rightarrow> (int \<times> 'w sys) option" where
  "chain_defaults env cfg s =
     (let (bin, s1) = ebtables_bin env s
      in or_else
           (or_else
             (helper_exec env cfg
               [bin, ''-A'', ''SOFTGRE_OUT'', ''-d'', ''01:00:00:00:00:00/01:00:00:00:00:00'', ''-j'', ''ACCEPT''] s1)
             (helper_exec env cfg [bin, ''-t'', ''nat'', ''-A'', ''SOFTGRE_IN'', ''-j'', ''DROP'']))
           (helper_exec env cfg [bin, ''-A'', ''SOFTGRE_OUT'', ''-j'', ''DROP'']))"

text \<open>\<open>a | b\<close>: both commands run.\<close>

definition both_cmds ::
  "(int \<times> 'w sys) option \<Rightarrow> ('w sys \<Rightarrow> (int \<times> 'w sys) option) \<Rightarrow> (int \<times> 'w sys) option" where
  "both_cmds a b = do { (r, s) \<leftarrow> a; (r', s') \<leftarrow> b s; Some (r OR r', s') }"

definition iface_ebtables_end :: "'w env \<Rightarrow> softgred_config \<Rightarrow> 'w sys \<Rightarrow> (int \<times> 'w sys) option" where
  "iface_ebtables_end env cfg s =
     (if \<not> s_initialized s then Some (0, s)
      else do {
        (ret1, s1) \<leftarrow> both_cmds (chain_cmd env cfg ''nat'' ''-F'' ''SOFTGRE_IN'' s)
          (chain_cmd env cfg ''filter'' ''-F'' ''SOFTGRE_OUT'');
        (ret2, s2) \<leftarrow> both_cmds (chain_cmd env cfg ''nat'' ''-X'' ''SOFTGRE_IN'' s1)
          (chain_cmd env cfg ''filter'' ''-X'' ''SOFTGRE_OUT'');
        let ret = ret1 OR ret2;
        Some (ret, if ret = 0 then s2\<lparr>s_initialized := False\<rparr> else s2)
      })"

definition iface_ebtables_init :: "'w env \<Rightarrow> softgred_config \<Rightarrow> 'w sys \<Rightarrow> (int \<times> 'w sys) option" where
  "iface_ebtables_init env cfg s = do {
     (r1, s1) \<leftarrow> chain_cmd env cfg ''nat'' ''-N'' ''SOFTGRE_IN'' s;
     if r1 \<noteq> 0 then Some (-1, s1) else do {
     (r2, s2) \<leftarrow> chain_cmd env cfg ''filter'' ''-N'' ''SOFTGRE_OUT'' s1;
     if r2 \<noteq> 0 then do { (_, s3) \<leftarrow> chain_cmd env cfg ''nat'' ''-X'' ''SOFTGRE_IN'' s2; Some (-1, s3) } else do {
     let s4 = s2\<lparr>s_initialized := True\<rparr>;
     (r5, s5) \<leftarrow> chain_defaults env cfg s4;
     if r5 \<noteq> 0 then do { (_, s6) \<leftarrow> iface_ebtables_end env cfg s5; Some (-1, s6) } else Some (0, s5)
     }}
   }"

section \<open>Jumps of a tunnel\<close>

text \<open>Table, chain, direction and target of the three jumps.\<close>

definition hooks :: "(string \<times> string \<times> string \<times> string) list" where
  "hooks =
     [(''nat'', ''PREROUTING'', ''-i'', ''SOFTGRE_IN''),
      (''filter'', ''FORWARD'', ''-o'', ''SOFTGRE_OUT''),
      (''filter'', ''OUTPUT'', ''-o'', ''SOFTGRE_OUT'')]"

definition tunnel_pattern :: "string \<Rightarrow> string" where
  "tunnel_pattern name = snprintf_buf (IFNAMSIZ + 2) (name @ ''.+'')"

fun add_hooks ::
  "'w env \<Rightarrow> softgred_config \<Rightarrow> string \<Rightarrow> nat \<Rightarrow> (string \<times> string \<times> string \<times> string) list \<Rightarrow> u32 \<Rightarrow> 'w sys
     \<Rightarrow> (int \<times> u32 \<times> 'w sys) option" where
  "add_hooks env cfg pattern i [] installed s = Some (0, installed, s)"
| "add_hooks env cfg pattern i ((table, chain, direction, target) # hs) installed s =
     (if installed AND push_bit i 1 \<noteq> 0 then add_hooks env cfg pattern (i + 1) hs installed s
      else
        (case rule_cmd env cfg table ''-I'' chain direction pattern None target s of
           None \<Rightarrow> None
         | Some (r, s') \<Rightarrow>
             if r \<noteq> 0 then Some (-1, installed, s')
             else add_hooks env cfg pattern (i + 1) hs (installed OR push_bit i 1) s'))"

definition iface_ebtables_add_tunnel ::
  "'w env \<Rightarrow> softgred_config \<Rightarrow> string \<Rightarrow> u32 \<Rightarrow> 'w sys \<Rightarrow> (int \<times> u32 \<times> 'w sys) option" where
  "iface_ebtables_add_tunnel env cfg name installed s =
     add_hooks env cfg (tunnel_pattern name) 0 hooks installed s"

fun del_hooks ::
  "'w env \<Rightarrow> softgred_config \<Rightarrow> string \<Rightarrow> nat \<Rightarrow> (string \<times> string \<times> string \<times> string) list \<Rightarrow> u32 \<Rightarrow> 'w sys
     \<Rightarrow> (u32 \<times> 'w sys) option" where
  "del_hooks env cfg pattern i [] installed s = Some (installed, s)"
| "del_hooks env cfg pattern i ((table, chain, direction, target) # hs) installed s =
     (if installed AND push_bit i 1 \<noteq> 0
      then
        (case rule_cmd env cfg table ''-D'' chain direction pattern None target s of
           None \<Rightarrow> None
         | Some (r, s') \<Rightarrow>
             del_hooks env cfg pattern (i + 1) hs
               (if r = 0 then installed AND NOT (push_bit i 1) else installed) s')
      else del_hooks env cfg pattern (i + 1) hs installed s)"

definition iface_ebtables_del_tunnel ::
  "'w env \<Rightarrow> softgred_config \<Rightarrow> string \<Rightarrow> u32 \<Rightarrow> 'w sys \<Rightarrow> (int \<times> u32 \<times> 'w sys) option" where
  "iface_ebtables_del_tunnel env cfg name installed s = do {
     (installed', s') \<leftarrow> del_hooks env cfg (tunnel_pattern name) 0 hooks installed s;
     Some (if installed' \<noteq> 0 then -1 else 0, installed', s')
   }"

definition iface_ebtables_reset :: "'w env \<Rightarrow> softgred_config \<Rightarrow> 'w sys \<Rightarrow> (int \<times> 'w sys) option" where
  "iface_ebtables_reset env cfg s = do {
     (r1, s1) \<leftarrow> chain_cmd env cfg ''nat'' ''-F'' ''SOFTGRE_IN'' s;
     if r1 \<noteq> 0 then Some (-1, s1) else do {
     (r2, s2) \<leftarrow> chain_cmd env cfg ''filter'' ''-F'' ''SOFTGRE_OUT'' s1;
     if r2 \<noteq> 0 then Some (-1, s2) else chain_defaults env cfg s2
     }
   }"

section \<open>Rules of a client\<close>

definition client_in :: "string \<Rightarrow> string \<Rightarrow> string \<Rightarrow> string \<Rightarrow> string list" where
  "client_in bin op pattern mac =
     [bin, ''-t'', ''nat'', op, ''SOFTGRE_IN'', ''-i'', pattern, ''-s'', mac, ''-j'', ''ACCEPT'']"

definition client_out :: "string \<Rightarrow> string \<Rightarrow> string \<Rightarrow> string \<Rightarrow> string list" where
  "client_out bin op pattern mac =
     [bin, op, ''SOFTGRE_OUT'', ''-o'', pattern, ''-d'', mac, ''-j'', ''ACCEPT'']"

definition iface_ebtables_allow ::
  "'w env \<Rightarrow> softgred_config \<Rightarrow> string \<Rightarrow> string \<Rightarrow> 'w sys \<Rightarrow> (int \<times> 'w sys) option" where
  "iface_ebtables_allow env cfg name mac s =
     (let pattern = tunnel_pattern name;
          (bin, s0) = ebtables_bin env s
      in do {
        (r1, s1) \<leftarrow> helper_exec env cfg (client_in bin ''-I'' pattern mac) s0;
        if r1 \<noteq> 0 then Some (-1, s1) else do {
        (r2, s2) \<leftarrow> helper_exec env cfg (client_out bin ''-I'' pattern mac) s1;
        if r2 \<noteq> 0 then do {
          (_, s3) \<leftarrow> helper_exec env cfg (client_in bin ''-D'' pattern mac) s2;
          Some (-1, s3)
        } else Some (0, s2)
        }
      })"

definition iface_ebtables_revoke ::
  "'w env \<Rightarrow> softgred_config \<Rightarrow> string \<Rightarrow> string \<Rightarrow> 'w sys \<Rightarrow> (int \<times> 'w sys) option" where
  "iface_ebtables_revoke env cfg name mac s =
     (let pattern = tunnel_pattern name;
          (bin, s0) = ebtables_bin env s
      in do {
        (a, s1) \<leftarrow> helper_exec env cfg (client_in bin ''-D'' pattern mac) s0;
        (b, s2) \<leftarrow> helper_exec env cfg (client_out bin ''-D'' pattern mac) s1;
        Some (if a \<noteq> 0 \<or> b \<noteq> 0 then -1 else 0, s2)
      })"

end
