(* ===== verification/Provision.thy ===== *)
theory Provision
  imports Hashmap Payload Netlink Ebtables
begin

unbundle bit_operations_syntax

text \<open>
  The tunnel state of \<open>src/src/provision.c\<close>: which remotes have a tunnel, which clients were
  learned on which tunnel, and the operations that create, extend and remove them.

  The statics of the file are the record \<open>prov\<close>. A \<open>struct tunnel_context *\<close> is an address in
  the heap \<open>p_heap\<close>; it is allocated by \<open>provision_add\<close> and freed by \<open>tunnel_free\<close>, which the
  table \<open>tunnels\<close> calls on the values it drops. Using an address that is not allocated, freeing
  one twice, or a \<open>NULL\<close> table where the code dereferences it, is the result \<^const>\<open>None\<close>, and so
  is a loop that does not end.

  The configuration is only read here, so it is an argument, as is the environment.
\<close>

section \<open>State\<close>

record tunnel_context =
  t_ip_remote :: u32
  t_ifgre :: string
  t_id :: nat
  t_ready :: bool
  t_firewall_hooks :: u32
  t_macs :: "(string, unit) hashmap"

record 'w prov =
  p_sys :: "'w sys"
  p_tunnels :: "(u32, nat) hashmap option"
  p_mac_index :: "(string, nat) hashmap option"
  p_heap :: "nat \<rightharpoonup> tunnel_context"
  p_next :: nat
  p_slots :: "bool list"
  p_packets :: u64
  p_ignored :: u64
  p_failures :: u64
  p_retry_after :: int
  p_cleanup_pending :: bool

abbreviation set_tunnel :: "nat \<Rightarrow> tunnel_context \<Rightarrow> 'w prov \<Rightarrow> 'w prov" where
  "set_tunnel q tun p \<equiv> p\<lparr>p_heap := (p_heap p)(q \<mapsto> tun)\<rparr>"

definition tunnel_free :: "nat \<Rightarrow> (nat \<rightharpoonup> tunnel_context) \<Rightarrow> (nat \<rightharpoonup> tunnel_context) option" where
  "tunnel_free q heap = (case heap q of None \<Rightarrow> None | Some tun \<Rightarrow> Some (heap(q := None)))"

text \<open>The destructor calls of the table \<open>tunnels\<close>.\<close>

fun free_tunnels ::
  "(u32, nat) freed list \<Rightarrow> (nat \<rightharpoonup> tunnel_context) \<Rightarrow> (nat \<rightharpoonup> tunnel_context) option" where
  "free_tunnels [] heap = Some heap"
| "free_tunnels (Value_freed (Some q) # fr) heap =
     (case tunnel_free q heap of None \<Rightarrow> None | Some heap' \<Rightarrow> free_tunnels fr heap')"
| "free_tunnels (Value_freed None # fr) heap = None"
| "free_tunnels (Key_freed k # fr) heap = free_tunnels fr heap"

definition new_mac_table :: "(string, 'v) hashmap" where
  "new_mac_table = hashmap_new hashmap_hash_str hashmap_equal_str True False"

definition new_tunnel_table :: "(u32, nat) hashmap" where
  "new_tunnel_table = hashmap_new hashmap_hash_u32 hashmap_equal_u32 False True"

definition provision_init :: "'w prov \<Rightarrow> int \<times> 'w prov" where
  "provision_init p =
     (0, p\<lparr>p_tunnels := Some new_tunnel_table, p_mac_index := Some new_mac_table,
           p_slots := replicate SOFTGRED_MAX_SLOTS False, p_cleanup_pending := False\<rparr>)"

definition provision_get_tunnel_byip :: "'w prov \<Rightarrow> u32 \<Rightarrow> nat option" where
  "provision_get_tunnel_byip p remote =
     (case p_tunnels p of None \<Rightarrow> None | Some t \<Rightarrow> hashmap_lookup t remote)"

definition provision_get_tunnel_by_mac :: "'w prov \<Rightarrow> string \<Rightarrow> nat option" where
  "provision_get_tunnel_by_mac p mac =
     (case p_mac_index p of None \<Rightarrow> None | Some t \<Rightarrow> hashmap_lookup t mac)"

abbreviation provision_table :: "'w prov \<Rightarrow> (u32, nat) hashmap option" where
  "provision_table p \<equiv> p_tunnels p"

section \<open>Removing a tunnel\<close>

lemma hashmap_iter_next_progress:
  "hashmap_iter_next m it = (Some x, it') \<Longrightarrow> it_slot it < it_slot it' \<and> it_slot it' \<le> hm_cap m"
proof (induction m it rule: hashmap_iter_next.induct)
  case (1 m it)
  from "1.prems" "1.IH" [OF _ refl refl] show ?case
    by (auto simp: hashmap_iter_next.simps [of m it] Let_def split: if_splits)
qed

lemma hashmap_iter_remove_cap:
  "hashmap_iter_remove m it = Some (m', it', fr) \<Longrightarrow> hm_cap m' = hm_cap m \<and> it_slot it' = it_slot it"
  by (auto simp: hashmap_iter_remove_def clear_slot_def split: if_splits option.splits)

text \<open>
  The loop of \<open>provision_del\<close> over the clients of the tunnel: whether it came to the end, the
  tables \<open>tun->macs\<close> and \<open>mac_index\<close>, and the system state.
\<close>

function revoke_macs ::
  "'w env \<Rightarrow> softgred_config \<Rightarrow> string \<Rightarrow> hashmap_iter \<Rightarrow> (string, unit) hashmap \<Rightarrow> (string, nat) hashmap
     \<Rightarrow> 'w sys \<Rightarrow> (bool \<times> (string, unit) hashmap \<times> (string, nat) hashmap \<times> 'w sys) option" where
  "revoke_macs env cfg ifgre it macs idx s =
     (case hashmap_iter_next macs it of
        (None, it') \<Rightarrow> Some (True, macs, idx, s)
      | (Some (None, v), it') \<Rightarrow> None
      | (Some (Some mac, v), it') \<Rightarrow>
          (case iface_ebtables_revoke env cfg ifgre mac s of
             None \<Rightarrow> None
           | Some (r, s') \<Rightarrow>
               if r \<noteq> 0 then Some (False, macs, idx, s')
               else
                 (case hashmap_iter_remove macs it' of
                    None \<Rightarrow> None
                  | Some (macs', it'', fr) \<Rightarrow>
                      revoke_macs env cfg ifgre it'' macs' (fst (snd (hashmap_remove idx mac))) s')))"
  by pat_completeness auto
termination
  by (relation "measure (\<lambda>(env, cfg, ifgre, it, macs, idx, s). hm_cap macs - it_slot it)")
    (auto dest!: hashmap_iter_next_progress [OF sym] hashmap_iter_remove_cap)

declare revoke_macs.simps [simp del]

definition provision_del ::
  "'w env \<Rightarrow> softgred_config \<Rightarrow> u32 \<Rightarrow> 'w prov \<Rightarrow> (int \<times> 'w prov) option" where
  "provision_del env cfg remote p =
     (case provision_get_tunnel_byip p remote of
        None \<Rightarrow> Some (0, p)
      | Some q \<Rightarrow> do {
          tun \<leftarrow> p_heap p q;
          (r, s1) \<leftarrow> iface_gre_del env (t_ifgre tun) (p_sys p);
          if r \<noteq> 0 \<and> s_errno s1 \<noteq> ENODEV then Some (-1, p\<lparr>p_sys := s1\<rparr>) else do {
          idx \<leftarrow> p_mac_index p;
          (fin, macs', idx', s2) \<leftarrow> revoke_macs env cfg (t_ifgre tun) hashmap_iter_init (t_macs tun) idx s1;
          let tun1 = tun\<lparr>t_macs := macs'\<rparr>;
          let p1 = set_tunnel q tun1 (p\<lparr>p_sys := s2, p_mac_index := Some idx'\<rparr>);
          if \<not> fin then Some (-1, p1) else do {
          (r3, hooks', s3) \<leftarrow> iface_ebtables_del_tunnel env cfg (t_ifgre tun) (t_firewall_hooks tun) s2;
          let p2 = set_tunnel q (tun1\<lparr>t_firewall_hooks := hooks'\<rparr>) (p1\<lparr>p_sys := s3\<rparr>);
          if r3 \<noteq> 0 then Some (-1, p2) else do {
          s4 \<leftarrow> D_INFO env cfg (''Tunnel removed remote='' @ inet_ntop remote @ '' interface='' @ t_ifgre tun) s3;
          tunnels \<leftarrow> p_tunnels p2;
          let (found, tunnels', fr) = hashmap_remove tunnels remote;
          heap' \<leftarrow> free_tunnels fr (p_heap p2);
          if t_id tun \<ge> length (p_slots p2) then None
          else Some (0, p2\<lparr>p_sys := s4, p_slots := (p_slots p2)[t_id tun := False],
            p_tunnels := Some tunnels', p_heap := heap'\<rparr>)
          }}}
        })"

section \<open>Creating a tunnel\<close>

definition tunnel_name :: "string \<Rightarrow> nat \<Rightarrow> string" where
  "tunnel_name prefix n = snprintf_buf IFNAMSIZ (prefix @ dec_str n)"

text \<open>The loop over the slots; \<open>n\<close> is \<open>id\<close>, which ends at the number of slots when none is free.\<close>

fun free_slot :: "'w env \<Rightarrow> string \<Rightarrow> nat \<Rightarrow> bool list \<Rightarrow> 'w sys \<Rightarrow> nat \<times> 'w sys" where
  "free_slot env prefix n [] s = (n, s)"
| "free_slot env prefix n (used # slots) s =
     (if used then free_slot env prefix (n + 1) slots s
      else
        (case if_nametoindex env (tunnel_name prefix n) s of (index, s') \<Rightarrow>
           if index = 0 then (n, s') else free_slot env prefix (n + 1) slots s'))"

text \<open>The loop that attaches the VLANs; \<open>False\<close> is \<open>goto fail_firewall\<close>.\<close>

fun attach_vlans ::
  "'w env \<Rightarrow> softgred_config \<Rightarrow> string \<Rightarrow> string \<Rightarrow> tunnel_bridge list \<Rightarrow> 'w sys \<Rightarrow> (bool \<times> 'w sys) option" where
  "attach_vlans env cfg ip ifgre [] s = Some (True, s)"
| "attach_vlans env cfg ip ifgre (b # bs) s =
     (case iface_bridge_attach env ifgre (br_ifname b) (br_vlan_id b) s of
        None \<Rightarrow> None
      | Some (r, s1) \<Rightarrow>
          if r \<noteq> 0 then Some (False, s1)
          else
            (case D_INFO env cfg (''VLAN attached remote='' @ ip @ '' interface='' @ ifgre @ ''.'' @
                dec_str (unat (br_vlan_id b)) @ '' vlan='' @ dec_str (unat (br_vlan_id b)) @ '' bridge='' @
                br_ifname b) s1 of
               None \<Rightarrow> None
             | Some s2 \<Rightarrow> attach_vlans env cfg ip ifgre bs s2))"

text \<open>From the tracked tunnel to the end of \<open>provision_add\<close>, with the rollback.\<close>

definition finish_tunnel ::
  "'w env \<Rightarrow> softgred_config \<Rightarrow> u32 \<Rightarrow> nat \<Rightarrow> tunnel_context \<Rightarrow> 'w prov \<Rightarrow> (nat option \<times> 'w prov) option" where
  "finish_tunnel env cfg remote q tun p = do {
     (r, hooks', s1) \<leftarrow> iface_ebtables_add_tunnel env cfg (t_ifgre tun) (t_firewall_hooks tun) (p_sys p);
     let tun1 = tun\<lparr>t_firewall_hooks := hooks'\<rparr>;
     let p1 = set_tunnel q tun1 (p\<lparr>p_sys := s1\<rparr>);
     (fin, s2) \<leftarrow>
       (if r \<noteq> 0 then Some (False, s1)
        else attach_vlans env cfg (inet_ntop remote) (t_ifgre tun) (c_bridge cfg) s1);
     if \<not> fin then do {
       (_, p2) \<leftarrow> provision_del env cfg remote (p1\<lparr>p_sys := s2\<rparr>);
       Some (None, p2)
     } else do {
       s3 \<leftarrow> D_INFO env cfg (''Tunnel ready remote='' @ inet_ntop remote @ '' interface='' @ t_ifgre tun) s2;
       Some (Some q, set_tunnel q (tun1\<lparr>t_ready := True\<rparr>) (p1\<lparr>p_sys := s3\<rparr>))
     }
   }"

definition create_tunnel ::
  "'w env \<Rightarrow> softgred_config \<Rightarrow> u32 \<Rightarrow> 'w prov \<Rightarrow> (nat option \<times> 'w prov) option" where
  "create_tunnel env cfg remote p = do {
     prefix \<leftarrow> c_tunnel_prefix cfg;
     ifname \<leftarrow> c_ifname cfg;
     let (n, s1) = free_slot env prefix 0 (p_slots p) (p_sys p);
     if n = SOFTGRED_MAX_SLOTS then Some (None, p\<lparr>p_sys := s1\<lparr>s_errno := ENOSPC\<rparr>\<rparr>) else do {
     let q = p_next p;
     let tun = \<lparr>t_ip_remote = remote, t_ifgre = tunnel_name prefix n, t_id = n, t_ready = False,
                t_firewall_hooks = 0, t_macs = new_mac_table\<rparr>;
     let p1 = set_tunnel q tun (p\<lparr>p_next := q + 1\<rparr>);
     (r, s2) \<leftarrow> iface_gre_add env (t_ifgre tun) ''gretap'' ifname (c_local cfg) remote s1;
     if r \<noteq> 0 then do {
       heap' \<leftarrow> tunnel_free q (p_heap p1);
       Some (None, p1\<lparr>p_sys := s2, p_heap := heap'\<rparr>)
     } else do {
     s3 \<leftarrow> D_INFO env cfg (''Tunnel created remote='' @ inet_ntop remote @ '' local='' @
       inet_ntop (c_local cfg) @ '' interface='' @ t_ifgre tun @ '' ingress='' @ ifname) s2;
     if n \<ge> length (p_slots p1) then None else do {
     tunnels \<leftarrow> p_tunnels p1;
     (tunnels', fr) \<leftarrow> hashmap_insert tunnels remote (Some q);
     heap' \<leftarrow> free_tunnels fr (p_heap p1);
     finish_tunnel env cfg remote q tun
       (p1\<lparr>p_sys := s3, p_slots := (p_slots p1)[n := True], p_tunnels := Some tunnels', p_heap := heap'\<rparr>)
     }}}
   }"

definition provision_add ::
  "'w env \<Rightarrow> softgred_config \<Rightarrow> u32 \<Rightarrow> 'w prov \<Rightarrow> (nat option \<times> 'w prov) option" where
  "provision_add env cfg remote p =
     (if p_cleanup_pending p then Some (None, p)
      else
        (case provision_get_tunnel_byip p remote of
           None \<Rightarrow> create_tunnel env cfg remote p
         | Some q \<Rightarrow> do {
             existing \<leftarrow> p_heap p q;
             if t_ready existing then Some (Some q, p) else do {
             (r, p1) \<leftarrow> provision_del env cfg remote p;
             if r \<noteq> 0 then Some (None, p1) else create_tunnel env cfg remote p1
             }
           }))"

section \<open>Clients\<close>

definition provision_tunnel_allow_mac ::
  "'w env \<Rightarrow> softgred_config \<Rightarrow> nat \<Rightarrow> string \<Rightarrow> 'w prov \<Rightarrow> (bool \<times> 'w prov) option" where
  "provision_tunnel_allow_mac env cfg q mac p = do {
     tun \<leftarrow> p_heap p q;
     if \<not> t_ready tun then Some (False, p)
     else if hashmap_contains (t_macs tun) mac then Some (True, p)
     else if hashmap_size (t_macs tun) \<ge> PROVISION_MAX_CLIENTS
     then Some (False, p\<lparr>p_sys := (p_sys p)\<lparr>s_errno := ENOSPC\<rparr>\<rparr>)
     else if provision_get_tunnel_by_mac p mac \<noteq> None then Some (False, p)
     else do {
     (r, s1) \<leftarrow> iface_ebtables_allow env cfg (t_ifgre tun) mac (p_sys p);
     if r \<noteq> 0 then Some (False, p\<lparr>p_sys := s1\<rparr>) else do {
     (macs', fr) \<leftarrow> hashmap_insert (t_macs tun) mac None;
     idx \<leftarrow> p_mac_index p;
     (idx', fr') \<leftarrow> hashmap_insert idx mac (Some q);
     s2 \<leftarrow> D_INFO env cfg (''Client learned remote='' @ inet_ntop (t_ip_remote tun) @ '' mac='' @ mac @
       '' tunnel='' @ t_ifgre tun @ '' clients='' @ dec_str (hashmap_size macs')) s1;
     Some (True, set_tunnel q (tun\<lparr>t_macs := macs'\<rparr>) (p\<lparr>p_sys := s2, p_mac_index := Some idx'\<rparr>))
     }}
   }"

text \<open>\<open>%02x:%02x:%02x:%02x:%02x:%02x\<close>\<close>

definition mac_text :: "byte list \<Rightarrow> string" where
  "mac_text m =
     hex2 (m ! 0) @ '':'' @ hex2 (m ! 1) @ '':'' @ hex2 (m ! 2) @ '':'' @
     hex2 (m ! 3) @ '':'' @ hex2 (m ! 4) @ '':'' @ hex2 (m ! 5)"

text \<open>The conditions on the outer addresses that make a packet worth looking at.\<close>

definition packet_addressed :: "softgred_config \<Rightarrow> payload_packet \<Rightarrow> bool" where
  "packet_addressed cfg packet =
     (let host = ntohl (p_remote packet)
      in \<not> (p_local packet \<noteq> c_local cfg \<or> p_remote packet = c_local cfg \<or> host = 0 \<or>
             drop_bit 24 host = 127 \<or> drop_bit 24 host = 0 \<or> drop_bit 28 host \<ge> 14))"

definition ignore_packet :: "'w prov \<Rightarrow> 'w prov" where
  "ignore_packet p = p\<lparr>p_ignored := p_ignored p + 1\<rparr>"

text \<open>The part of \<open>provision_packet\<close> behind the backoff check.\<close>

definition learn_client ::
  "'w env \<Rightarrow> softgred_config \<Rightarrow> payload_packet \<Rightarrow> string \<Rightarrow> nat option \<Rightarrow> int \<Rightarrow> 'w prov \<Rightarrow> 'w prov option" where
  "learn_client env cfg packet mac tun0 now p0 = do {
     let p = p0\<lparr>p_sys := (p_sys p0)\<lparr>s_errno := 0\<rparr>\<rparr>;
     usable \<leftarrow> (case tun0 of None \<Rightarrow> Some False | Some q \<Rightarrow> map_option t_ready (p_heap p q));
     (tun, p1) \<leftarrow> (if \<not> usable then provision_add env cfg (p_remote packet) p else Some (tun0, p));
     (learned, p2) \<leftarrow>
       (case tun of
          None \<Rightarrow> Some (False, p1)
        | Some q \<Rightarrow> do {
            t \<leftarrow> p_heap p1 q;
            if t_ready t then provision_tunnel_allow_mac env cfg q mac p1 else Some (False, p1)
          });
     if learned then Some p2
     else if s_errno (p_sys p2) = ENOSPC then Some (ignore_packet p2)
     else do {
       s3 \<leftarrow> D_WARNING env cfg (''Provisioning failed remote='' @ inet_ntop (p_remote packet) @ '' mac='' @ mac @
         '' vlan='' @ dec_str (unat (p_vlan packet)) @ '' retry=1s'') (p_sys p2);
       Some (p2\<lparr>p_sys := s3, p_failures := p_failures p2 + 1, p_retry_after := now + USEC_PER_SEC\<rparr>)
     }
   }"

definition provision_packet ::
  "'w env \<Rightarrow> softgred_config \<Rightarrow> payload_packet \<Rightarrow> 'w prov \<Rightarrow> 'w prov option" where
  "provision_packet env cfg packet p0 = do {
     let p = p0\<lparr>p_packets := p_packets p0 + 1\<rparr>;
     if p_cleanup_pending p then Some (ignore_packet p)
     else if \<not> packet_addressed cfg packet then Some (ignore_packet p)
     else if \<not> config_remote_allowed cfg (ntohl (p_remote packet)) then Some (ignore_packet p)
     else if \<not> list_ex (\<lambda>b. br_vlan_id b = p_vlan packet) (c_bridge cfg) then Some (ignore_packet p)
     else do {
     let mac = mac_text (p_mac packet);
     let tun = provision_get_tunnel_byip p (p_remote packet);
     known \<leftarrow> (case tun of
        None \<Rightarrow> Some False | Some q \<Rightarrow> map_option (\<lambda>t. hashmap_contains (t_macs t) mac) (p_heap p q));
     if known then Some p
     else if provision_get_tunnel_by_mac p mac \<noteq> None then Some (ignore_packet p)
     else let now = monotonic_usec env (p_sys p)
     in if now < p_retry_after p then Some p
        else learn_client env cfg packet mac tun now p
     }
   }"

section \<open>Removing everything\<close>

text \<open>The loop of \<open>provision_delall\<close>: the flag \<open>ok\<close>, the heap and the system state.\<close>

function cleanup_loop ::
  "'w env \<Rightarrow> softgred_config \<Rightarrow> (u32, nat) hashmap \<Rightarrow> hashmap_iter \<Rightarrow> bool \<Rightarrow> (nat \<rightharpoonup> tunnel_context) \<Rightarrow> 'w sys
     \<Rightarrow> (bool \<times> (nat \<rightharpoonup> tunnel_context) \<times> 'w sys) option" where
  "cleanup_loop env cfg tunnels it ok heap s =
     (case hashmap_iter_next tunnels it of
        (None, it') \<Rightarrow> Some (ok, heap, s)
      | (Some (k, None), it') \<Rightarrow> None
      | (Some (k, Some q), it') \<Rightarrow>
          (case heap q of
             None \<Rightarrow> None
           | Some tun0 \<Rightarrow>
               let tun = tun0\<lparr>t_ready := False\<rparr>
               in (case iface_gre_del env (t_ifgre tun) s of
                  None \<Rightarrow> None
                | Some (r, s1) \<Rightarrow>
                    if r \<noteq> 0 \<and> s_errno s1 \<noteq> ENODEV
                    then cleanup_loop env cfg tunnels it' False (heap(q \<mapsto> tun)) s1
                    else
                      (case iface_ebtables_del_tunnel env cfg (t_ifgre tun) (t_firewall_hooks tun) s1 of
                         None \<Rightarrow> None
                       | Some (r2, hooks', s2) \<Rightarrow>
                           if r2 \<noteq> 0
                           then cleanup_loop env cfg tunnels it' False (heap(q \<mapsto> tun\<lparr>t_firewall_hooks := hooks'\<rparr>)) s2
                           else
                             (case D_INFO env cfg (''Tunnel removed remote='' @ inet_ntop (t_ip_remote tun) @
                                 '' interface='' @ t_ifgre tun @ '' clients='' @
                                 dec_str (hashmap_size (t_macs tun))) s2 of
                                None \<Rightarrow> None
                              | Some s3 \<Rightarrow>
                                  cleanup_loop env cfg tunnels it' ok
                                    (heap(q \<mapsto> tun\<lparr>t_firewall_hooks := hooks'\<rparr>)) s3)))))"
  by pat_completeness auto
termination
  by (relation "measure (\<lambda>(env, cfg, tunnels, it, ok, heap, s). hm_cap tunnels - it_slot it)")
    (auto dest!: hashmap_iter_next_progress [OF sym])

declare cleanup_loop.simps [simp del]

definition provision_delall :: "'w env \<Rightarrow> softgred_config \<Rightarrow> 'w prov \<Rightarrow> 'w prov option" where
  "provision_delall env cfg p =
     (case p_tunnels p of
        None \<Rightarrow> Some p
      | Some tunnels \<Rightarrow> do {
          (ok, heap, s1) \<leftarrow> cleanup_loop env cfg tunnels hashmap_iter_init True (p_heap p) (p_sys p);
          let p1 = p\<lparr>p_cleanup_pending := True, p_heap := heap\<rparr>;
          (r, s2) \<leftarrow> (if ok then iface_ebtables_reset env cfg s1 else Some (-1, s1));
          if ok \<and> r = 0 then do {
            idx \<leftarrow> p_mac_index p1;
            let (idx', fr) = hashmap_remove_all idx;
            let (tunnels', fr') = hashmap_remove_all tunnels;
            heap' \<leftarrow> free_tunnels fr' heap;
            Some (p1\<lparr>p_sys := s2, p_mac_index := Some idx', p_tunnels := Some tunnels', p_heap := heap',
              p_slots := replicate SOFTGRED_MAX_SLOTS False, p_cleanup_pending := False, p_retry_after := 0\<rparr>)
          } else do {
            s3 \<leftarrow> D_WARNING env cfg ''Cleanup incomplete; send SIGUSR1 to retry before learning new peers'' s2;
            Some (p1\<lparr>p_sys := s3\<rparr>)
          }
        })"

definition provision_end :: "'w env \<Rightarrow> softgred_config \<Rightarrow> 'w prov \<Rightarrow> 'w prov option" where
  "provision_end env cfg p = do {
     p1 \<leftarrow> provision_delall env cfg p;
     heap' \<leftarrow> (case p_tunnels p1 of None \<Rightarrow> Some (p_heap p1) | Some t \<Rightarrow> free_tunnels (hashmap_destroy t) (p_heap p1));
     Some (p1\<lparr>p_mac_index := None, p_tunnels := None, p_heap := heap'\<rparr>)
   }"

definition provision_stats :: "'w env \<Rightarrow> softgred_config \<Rightarrow> 'w prov \<Rightarrow> 'w prov option" where
  "provision_stats env cfg p = do {
     s \<leftarrow> D_INFO env cfg
       (''Tunnels='' @ dec_str (case p_tunnels p of None \<Rightarrow> 0 | Some t \<Rightarrow> hashmap_size t) @
        '' MACs='' @ dec_str (case p_mac_index p of None \<Rightarrow> 0 | Some t \<Rightarrow> hashmap_size t) @
        '' packets='' @ dec_str (unat (p_packets p)) @ '' ignored='' @ dec_str (unat (p_ignored p)) @
        '' failures='' @ dec_str (unat (p_failures p))) (p_sys p);
     Some (p\<lparr>p_sys := s\<rparr>)
   }"

end
