(* ===== verification/Io.thy ===== *)
theory Io
  imports Provision Compat
begin

text \<open>
  Descriptors, files and sockets: the system calls of the status API, the capture socket, the log
  and PID files and the start-up of the daemon, and the static variables of the program.

  As in \<open>Os\<close> the world is of any type, and the record \<open>io\<close> says what each call returns in it;
  \<open>Inl\<close> is a failure with its error number. The record \<open>daemon\<close> holds the statics of the program:
  the tunnel state with the process state, the service's listener and clients, the capture socket,
  the PID file, and the descriptors of \<open>main\<close>. \<open>-1\<close> as a descriptor is \<^const>\<open>None\<close>.

  Two fields are not in the program: \<open>g_fds\<close> lists the descriptors that were opened and not closed,
  and \<open>g_unlinked\<close> the paths that were unlinked. Closing or using a descriptor that is not in
  \<open>g_fds\<close> is the result \<^const>\<open>None\<close>.
\<close>

section \<open>System calls\<close>

record file_stat =
  st_regular :: bool
  st_nlink :: nat
  st_uid :: nat
  st_mode :: u32

definition S_IWGRP :: u32 where "S_IWGRP = 0x10"
definition S_IWOTH :: u32 where "S_IWOTH = 0x2"

datatype open_mode = Open_log | Open_pid | Open_null
datatype socket_kind = Listening_socket | Capture_socket

datatype socket_option = Reuse_address | Bind_to_device string | Receive_buffer nat | Ignore_outgoing | Attach_filter

datatype socket_address = Inet_address u32 nat | Link_address u32

record ifaddr =
  ifa_name :: string
  ifa_inet :: "u32 option"

record pollfd =
  pf_fd :: nat
  pf_events :: u16
  pf_revents :: u16

definition POLLIN :: u16 where "POLLIN = 0x1"
definition POLLOUT :: u16 where "POLLOUT = 0x4"
definition POLLERR :: u16 where "POLLERR = 0x8"
definition POLLHUP :: u16 where "POLLHUP = 0x10"
definition POLLNVAL :: u16 where "POLLNVAL = 0x20"

datatype fork_result = Fork_child | Fork_parent nat

record 'w io =
  io_euid :: nat
  io_open :: "open_mode \<Rightarrow> string \<Rightarrow> 'w \<Rightarrow> (int + nat) \<times> 'w"
  io_close :: "nat \<Rightarrow> 'w \<Rightarrow> (int + unit) \<times> 'w"
  io_fstat :: "nat \<Rightarrow> 'w \<Rightarrow> (int + file_stat) \<times> 'w"
  io_lock :: "nat \<Rightarrow> 'w \<Rightarrow> (int + unit) \<times> 'w"
  io_truncate :: "nat \<Rightarrow> 'w \<Rightarrow> (int + unit) \<times> 'w"
  io_write :: "nat \<Rightarrow> string \<Rightarrow> 'w \<Rightarrow> (int + nat) \<times> 'w"
  io_unlink :: "string \<Rightarrow> 'w \<Rightarrow> (int + unit) \<times> 'w"
  io_socket :: "socket_kind \<Rightarrow> 'w \<Rightarrow> (int + nat) \<times> 'w"
  io_setsockopt :: "nat \<Rightarrow> socket_option \<Rightarrow> 'w \<Rightarrow> (int + unit) \<times> 'w"
  io_bind :: "nat \<Rightarrow> socket_address \<Rightarrow> 'w \<Rightarrow> (int + unit) \<times> 'w"
  io_listen :: "nat \<Rightarrow> nat \<Rightarrow> 'w \<Rightarrow> (int + unit) \<times> 'w"
  io_accept :: "nat \<Rightarrow> 'w \<Rightarrow> (int + nat) \<times> 'w"
  io_recv :: "nat \<Rightarrow> nat \<Rightarrow> 'w \<Rightarrow> (int + string) \<times> 'w"
  io_send :: "nat \<Rightarrow> string \<Rightarrow> 'w \<Rightarrow> (int + nat) \<times> 'w"
  io_frame :: "nat \<Rightarrow> nat \<Rightarrow> 'w \<Rightarrow> (int + bool \<times> byte list) \<times> 'w"
  io_ifaddrs :: "'w \<Rightarrow> (int + ifaddr list) \<times> 'w"
  io_uptime :: "'w \<Rightarrow> int"
  io_pipe :: "'w \<Rightarrow> (int + nat \<times> nat) \<times> 'w"
  io_fork :: "'w \<Rightarrow> (int + fork_result) \<times> 'w"
  io_read_status :: "nat \<Rightarrow> 'w \<Rightarrow> (int + nat option) \<times> 'w"
  io_setsid :: "'w \<Rightarrow> (int + unit) \<times> 'w"
  io_dup_stdin :: "nat \<Rightarrow> 'w \<Rightarrow> (int + unit) \<times> 'w"
  io_sigprocmask :: "'w \<Rightarrow> (int + unit) \<times> 'w"
  io_signalfd :: "'w \<Rightarrow> (int + nat) \<times> 'w"
  io_read_signal :: "nat \<Rightarrow> 'w \<Rightarrow> (int + nat) \<times> 'w"
  io_poll :: "pollfd list \<Rightarrow> 'w \<Rightarrow> (int + u16 list) \<times> 'w"

section \<open>The statics of the program\<close>

record client =
  cl_fd :: "nat option"
  cl_input :: string
  cl_used :: nat
  cl_sent :: nat
  cl_response :: "strbuf option"
  cl_deadline :: int

record 'w daemon =
  g_prov :: "'w prov"
  g_listener :: "nat option"
  g_clients :: "client list"
  g_poll_slots :: "nat list"
  g_limit :: nat
  g_capture :: "nat option"
  g_pid :: "nat option"
  g_signal :: "nat option"
  g_notify :: "nat option"
  g_fds :: "nat list"
  g_unlinked :: "string list"

abbreviation g_sys :: "'w daemon \<Rightarrow> 'w sys" where "g_sys d \<equiv> p_sys (g_prov d)"
abbreviation set_sys :: "'w sys \<Rightarrow> 'w daemon \<Rightarrow> 'w daemon" where "set_sys s d \<equiv> d\<lparr>g_prov := (g_prov d)\<lparr>p_sys := s\<rparr>\<rparr>"
abbreviation set_errno :: "int \<Rightarrow> 'w daemon \<Rightarrow> 'w daemon" where "set_errno e d \<equiv> set_sys ((g_sys d)\<lparr>s_errno := e\<rparr>) d"

text \<open>A system call: a failure sets \<open>errno\<close>.\<close>

definition sys_call :: "('w \<Rightarrow> (int + 'a) \<times> 'w) \<Rightarrow> 'w daemon \<Rightarrow> (int + 'a) \<times> 'w daemon" where
  "sys_call f d =
     (case f (s_world (g_sys d)) of
        (Inl e, w) \<Rightarrow> (Inl e, set_sys ((g_sys d)\<lparr>s_world := w, s_errno := e\<rparr>) d)
      | (Inr v, w) \<Rightarrow> (Inr v, set_sys ((g_sys d)\<lparr>s_world := w\<rparr>) d))"

definition open_call :: "('w \<Rightarrow> (int + nat) \<times> 'w) \<Rightarrow> 'w daemon \<Rightarrow> nat option \<times> 'w daemon" where
  "open_call f d =
     (case sys_call f d of
        (Inl e, d') \<Rightarrow> (None, d')
      | (Inr fd, d') \<Rightarrow> (Some fd, d'\<lparr>g_fds := fd # g_fds d'\<rparr>))"

definition close_fd :: "'w io \<Rightarrow> nat \<Rightarrow> 'w daemon \<Rightarrow> 'w daemon option" where
  "close_fd io fd d =
     (if fd \<in> set (g_fds d) then Some (snd (sys_call (io_close io fd) (d\<lparr>g_fds := remove1 fd (g_fds d)\<rparr>))) else None)"

definition held_fd :: "'w daemon \<Rightarrow> nat option \<Rightarrow> nat option" where
  "held_fd d fd = (case fd of None \<Rightarrow> None | Some n \<Rightarrow> if n \<in> set (g_fds d) then Some n else None)"

text \<open>A log call in the middle of an operation of the daemon.\<close>

definition log_info :: "'w env \<Rightarrow> softgred_config \<Rightarrow> string \<Rightarrow> 'w daemon \<Rightarrow> 'w daemon option" where
  "log_info env cfg m d = do { s \<leftarrow> D_INFO env cfg m (g_sys d); Some (set_sys s d) }"

definition log_crit :: "'w env \<Rightarrow> softgred_config \<Rightarrow> string \<Rightarrow> 'w daemon \<Rightarrow> 'w daemon option" where
  "log_crit env cfg m d = do { s \<leftarrow> D_CRIT env cfg m (g_sys d); Some (set_sys s d) }"

text \<open>The first IPv4 address of an interface in the list of \<open>getifaddrs\<close>.\<close>

fun find_inet :: "string \<Rightarrow> ifaddr list \<Rightarrow> u32 option" where
  "find_inet name [] = None"
| "find_inet name (a # as) =
     (case ifa_inet a of
        Some ip \<Rightarrow> if ifa_name a = name then Some ip else find_inet name as
      | None \<Rightarrow> find_inet name as)"

abbreviation (input) EADDRNOTAVAIL :: int where "EADDRNOTAVAIL \<equiv> 99"

section \<open>What the calls preserve\<close>

text \<open>Everything but the process state, in which the log stays the same file, no command is run and the
  firewall keeps its state.\<close>

definition same_but_sys :: "'w daemon \<Rightarrow> 'w daemon \<Rightarrow> bool" where
  "same_but_sys d d' \<longleftrightarrow> (\<exists>s. d' = set_sys s d \<and> s_log_fd s = s_log_fd (g_sys d) \<and>
     s_initialized s = s_initialized (g_sys d) \<and> s_execs s = s_execs (g_sys d))"

lemma sys_call_same:
  assumes "sys_call f d = (r, d')"
  shows "same_but_sys d d'"
  using assms unfolding same_but_sys_def
  by (cases "f (s_world (g_sys d))"; cases "fst (f (s_world (g_sys d)))") (auto simp: sys_call_def)

lemma same_but_sysD:
  assumes "same_but_sys d d'"
  shows "g_listener d' = g_listener d" "g_clients d' = g_clients d" "g_poll_slots d' = g_poll_slots d"
    "g_limit d' = g_limit d" "g_capture d' = g_capture d" "g_pid d' = g_pid d" "g_signal d' = g_signal d"
    "g_notify d' = g_notify d" "g_fds d' = g_fds d" "g_unlinked d' = g_unlinked d"
    "s_log_fd (g_sys d') = s_log_fd (g_sys d)" "\<exists>s. g_prov d' = (g_prov d)\<lparr>p_sys := s\<rparr>"
    "s_initialized (g_sys d') = s_initialized (g_sys d)" "s_execs (g_sys d') = s_execs (g_sys d)"
  using assms by (auto simp: same_but_sys_def)

lemma same_but_sys_refl [simp]: "same_but_sys d d"
proof -
  have "d = set_sys (g_sys d) d" by (cases d; cases "g_prov d") simp
  then show ?thesis unfolding same_but_sys_def by blast
qed

lemma same_but_sys_trans: "same_but_sys d d' \<Longrightarrow> same_but_sys d' d'' \<Longrightarrow> same_but_sys d d''"
  by (auto simp: same_but_sys_def)

lemma set_sys_same: "s_log_fd s = s_log_fd (g_sys d) \<Longrightarrow> s_initialized s = s_initialized (g_sys d) \<Longrightarrow>
  s_execs s = s_execs (g_sys d) \<Longrightarrow> same_but_sys d (set_sys s d)"
  by (auto simp: same_but_sys_def)

lemma open_call_cases:
  obtains d' where "open_call f d = (None, d')" "same_but_sys d d'"
  | fd d' where "open_call f d = (Some fd, d'\<lparr>g_fds := fd # g_fds d\<rparr>)" "same_but_sys d d'"
proof (cases "sys_call f d")
  case (Pair r d')
  then have s: "same_but_sys d d'" by (rule sys_call_same)
  show ?thesis
  proof (cases r)
    case (Inl e)
    with Pair have "open_call f d = (None, d')" by (simp add: open_call_def)
    then show ?thesis using s that(1) by blast
  next
    case (Inr fd)
    with Pair have "open_call f d = (Some fd, d'\<lparr>g_fds := fd # g_fds d\<rparr>)"
      using same_but_sysD(9) [OF s] by (simp add: open_call_def)
    then show ?thesis using s that(2) by blast
  qed
qed

lemma close_fd_ok:
  assumes "fd \<in> set (g_fds d)"
  obtains d' where "close_fd io fd d = Some d'" "same_but_sys (d\<lparr>g_fds := remove1 fd (g_fds d)\<rparr>) d'"
  using assms sys_call_same [of "io_close io fd" "d\<lparr>g_fds := remove1 fd (g_fds d)\<rparr>"]
  by (cases "sys_call (io_close io fd) (d\<lparr>g_fds := remove1 fd (g_fds d)\<rparr>)") (auto simp: close_fd_def)

end
