(* ===== verification/Capture.thy ===== *)
theory Capture
  imports Io Payload
begin

text \<open>
  The capture socket of \<open>src/src/payload.c\<close>: opening it with the filter attached, receiving a bounded
  batch of frames, and closing it. The build has \<open>PACKET_IGNORE_OUTGOING\<close>. \<open>io_frame\<close> is \<open>recvfrom\<close>
  on the capture socket: whether the frame is outgoing, and its bytes.
\<close>

definition payload_loop_end :: "'w io \<Rightarrow> 'w daemon \<Rightarrow> 'w daemon option" where
  "payload_loop_end io d = do {
     d1 \<leftarrow> (case g_capture d of None \<Rightarrow> Some d | Some fd \<Rightarrow> close_fd io fd d);
     Some (d1\<lparr>g_capture := None\<rparr>)
   }"

definition payload_loop_init ::
  "'w env \<Rightarrow> 'w io \<Rightarrow> softgred_config \<Rightarrow> 'w daemon \<Rightarrow> (nat option \<times> 'w daemon) option" where
  "payload_loop_init env io cfg d = do {
     name \<leftarrow> c_ifname cfg;
     let (index, s1) = if_nametoindex env name (g_sys d);
     let d1 = set_sys s1 d;
     if index = 0 then Some (None, d1)
     else
       (case open_call (io_socket io Capture_socket) d1 of
          (None, d2) \<Rightarrow> Some (None, d2\<lparr>g_capture := None\<rparr>)
        | (Some fd, d2) \<Rightarrow>
            let d3 = d2\<lparr>g_capture := Some fd\<rparr>;
                d4 = snd (sys_call (io_setsockopt io fd (Receive_buffer (4 * 1024 * 1024))) d3);
                d5 = snd (sys_call (io_setsockopt io fd Ignore_outgoing) d4)
            in (case sys_call (io_bind io fd (Link_address index)) d5 of
                  (Inl e, d6) \<Rightarrow> do { d7 \<leftarrow> payload_loop_end io d6; Some (None, d7) }
                | (Inr _, d6) \<Rightarrow>
                    (case sys_call (io_setsockopt io fd Attach_filter) d6 of
                       (Inl e, d7) \<Rightarrow> do { d8 \<leftarrow> payload_loop_end io d7; Some (None, d8) }
                     | (Inr _, d7) \<Rightarrow> Some (Some fd, d7))))
   }"

text \<open>The batch; \<open>packet\<close> is the variable on the stack, \<open>rounds\<close> what is left of the 64 rounds.\<close>

fun receive_frames ::
  "'w env \<Rightarrow> 'w io \<Rightarrow> softgred_config \<Rightarrow> payload_packet \<Rightarrow> nat \<Rightarrow> 'w daemon \<Rightarrow> (int \<times> 'w daemon) option" where
  "receive_frames env io cfg packet 0 d = Some (0, d)"
| "receive_frames env io cfg packet (Suc rounds) d = do {
     fd \<leftarrow> held_fd d (g_capture d);
     (case sys_call (io_frame io fd 65536) d of
        (Inl e, d1) \<Rightarrow> Some (if e = EAGAIN \<or> e = EINTR then 0 else -1, d1)
      | (Inr (outgoing, frame), d1) \<Rightarrow>
          if outgoing then receive_frames env io cfg packet rounds d1
          else do {
            (ok, out) \<leftarrow> payload_parse (Some frame) (length frame) (Some packet);
            if ok then do {
              x \<leftarrow> out;
              p \<leftarrow> provision_packet env cfg x (g_prov d1);
              receive_frames env io cfg packet rounds (d1\<lparr>g_prov := p\<rparr>)
            } else receive_frames env io cfg packet rounds d1
          })
   }"

definition payload_receive ::
  "'w env \<Rightarrow> 'w io \<Rightarrow> softgred_config \<Rightarrow> payload_packet \<Rightarrow> 'w daemon \<Rightarrow> (int \<times> 'w daemon) option" where
  "payload_receive env io cfg packet d = receive_frames env io cfg packet 64 d"

end
