(* ===== verification/Files.thy ===== *)
theory Files
  imports Io
begin

unbundle bit_operations_syntax

text \<open>
  The log file of \<open>src/src/log.c\<close> (\<open>log_open\<close>, \<open>log_close\<close>) and the locked PID file of
  \<open>src/src/softgred_config.c\<close>. The log belongs to the process state of \<open>Os\<close>; as a ghost result its two
  operations list the descriptors they close. The PID file is a static of the daemon.
\<close>

definition call :: "('w \<Rightarrow> (int + 'a) \<times> 'w) \<Rightarrow> 'w sys \<Rightarrow> (int + 'a) \<times> 'w sys" where
  "call f s =
     (case f (s_world s) of
        (Inl e, w) \<Rightarrow> (Inl e, s\<lparr>s_world := w, s_errno := e\<rparr>)
      | (Inr v, w) \<Rightarrow> (Inr v, s\<lparr>s_world := w\<rparr>))"

section \<open>The log file\<close>

definition log_file_ok :: "nat \<Rightarrow> file_stat \<Rightarrow> bool" where
  "log_file_ok euid st \<longleftrightarrow> st_regular st \<and> st_nlink st = 1 \<and> st_uid st = euid \<and> st_mode st AND S_IWOTH = 0"

definition log_open :: "'w io \<Rightarrow> string option \<Rightarrow> 'w sys \<Rightarrow> int \<times> nat list \<times> 'w sys" where
  "log_open io path s =
     (if \<not> path_is_absolute path then (-1, [], s\<lparr>s_errno := EINVAL\<rparr>)
      else
        (case call (io_open io Open_log (the path)) s of
           (Inl e, s1) \<Rightarrow> (-1, [], s1)
         | (Inr fd, s1) \<Rightarrow>
             let (error, s2) =
               (case call (io_fstat io fd) s1 of
                  (Inl e, s2) \<Rightarrow> (e, s2)
                | (Inr st, s2) \<Rightarrow> (if log_file_ok (io_euid io) st then 0 else EPERM, s2))
             in if error \<noteq> 0 then (-1, [fd], (snd (call (io_close io fd) s2))\<lparr>s_errno := error\<rparr>)
                else
                  let old = s_log_fd s2;
                      s3 = (if old \<ge> 0 then snd (call (io_close io (nat old)) s2) else s2)
                  in (0, if old \<ge> 0 then [nat old] else [], s3\<lparr>s_log_fd := int fd, s_write_failed := False\<rparr>)))"

definition log_close :: "'w io \<Rightarrow> 'w sys \<Rightarrow> nat list \<times> 'w sys" where
  "log_close io s =
     (let old = s_log_fd s;
          s1 = (if old \<ge> 0 then snd (call (io_close io (nat old)) s) else s)
      in (if old \<ge> 0 then [nat old] else [], s1\<lparr>s_log_fd := -1, s_write_failed := False\<rparr>))"

section \<open>The PID file\<close>

definition pid_file_ok :: "nat \<Rightarrow> file_stat \<Rightarrow> bool" where
  "pid_file_ok euid st \<longleftrightarrow> st_regular st \<and> st_nlink st = 1 \<and> st_uid st = euid \<and> st_mode st AND (S_IWGRP OR S_IWOTH) = 0"

definition pid_fail :: "'w io \<Rightarrow> nat \<Rightarrow> 'w daemon \<Rightarrow> (int \<times> 'w daemon) option" where
  "pid_fail io fd d = do { d1 \<leftarrow> close_fd io fd d; Some (-1, d1\<lparr>g_pid := None\<rparr>) }"

definition softgred_config_create_pid_file ::
  "'w io \<Rightarrow> softgred_config \<Rightarrow> nat \<Rightarrow> 'w daemon \<Rightarrow> (int \<times> 'w daemon) option" where
  "softgred_config_create_pid_file io cfg pid d = do {
     path \<leftarrow> c_pid_file cfg;
     (case open_call (io_open io Open_pid path) d of
        (None, d1) \<Rightarrow> Some (-1, d1\<lparr>g_pid := None\<rparr>)
      | (Some fd, d1) \<Rightarrow>
          let d2 = d1\<lparr>g_pid := Some fd\<rparr> in
          (case sys_call (io_fstat io fd) d2 of
             (Inl e, d3) \<Rightarrow> pid_fail io fd d3
           | (Inr st, d3) \<Rightarrow>
               if \<not> pid_file_ok (io_euid io) st then pid_fail io fd (set_errno EPERM d3)
               else
                 (case sys_call (io_lock io fd) d3 of
                    (Inl e, d4) \<Rightarrow> pid_fail io fd d4
                  | (Inr _, d4) \<Rightarrow>
                      let buf = dec_str pid @ [CHR 0x0A] in
                      (case sys_call (io_truncate io fd) d4 of
                         (Inl e, d5) \<Rightarrow> pid_fail io fd d5
                       | (Inr _, d5) \<Rightarrow>
                           (case sys_call (io_write io fd buf) d5 of
                              (Inl e, d6) \<Rightarrow> pid_fail io fd d6
                            | (Inr n, d6) \<Rightarrow> if n \<noteq> length buf then pid_fail io fd d6 else Some (0, d6))))))
   }"

definition softgred_config_remove_pid_file :: "'w io \<Rightarrow> softgred_config \<Rightarrow> 'w daemon \<Rightarrow> 'w daemon option" where
  "softgred_config_remove_pid_file io cfg d =
     (case g_pid d of
        None \<Rightarrow> Some d
      | Some fd \<Rightarrow> do {
          path \<leftarrow> c_pid_file cfg;
          let d1 = (snd (sys_call (io_unlink io path) d))\<lparr>g_unlinked := g_unlinked d @ [path]\<rparr>;
          d2 \<leftarrow> close_fd io fd d1;
          Some (d2\<lparr>g_pid := None\<rparr>)
        })"

end
