(* ===== verification/Service_Cmd.thy ===== *)
theory Service_Cmd
  imports Provision Compat "HOL-Library.Char_ord" "HOL-Library.List_Lexorder"
begin

text \<open>
  The status commands of \<open>src/src/service_cmd.c\<close>. A response is built in the growable buffer; the
  tables of the tunnel state are only read. What the build and the system provide is an argument:
  \<open>PACKAGE_VERSION\<close> (in \<open>build\<close>) and the uptime that \<open>sysinfo\<close> reports, 0 when it fails.

  A command is a C string, so it has no NUL. \<open>qsort\<close> with \<open>compare_mac\<close> sorts by the bytes as
  \<open>unsigned char\<close>, which is the lexicographic order of the strings; the result is the same for every
  sorting algorithm (\<open>compare_mac_sorts\<close> in \<open>Service_Cmd_Correct\<close>).
\<close>

definition SERVICE_MAX_REQUEST :: nat where "SERVICE_MAX_REQUEST = 256"
definition SERVICE_MAX_RESPONSE :: nat where "SERVICE_MAX_RESPONSE = 1024 * 1024"

abbreviation (input) nl :: string where "nl \<equiv> [CHR 0x0A]"

definition valid_mac :: "string \<Rightarrow> string option" where
  "valid_mac text =
     (if length text \<noteq> 17 then None
      else if list_all (\<lambda>i. if i mod 3 = 2 then text ! i = CHR '':'' else ascii_isxdigit (text ! i)) [0..<17]
      then Some (map ascii_tolower text) else None)"

fun strcmp :: "string \<Rightarrow> string \<Rightarrow> int" where
  "strcmp [] [] = 0"
| "strcmp [] (d # ds) = - int (ch d)"
| "strcmp (c # cs) [] = int (ch c)"
| "strcmp (c # cs) (d # ds) = (if c = d then strcmp cs ds else int (ch c) - int (ch d))"

definition compare_mac :: "string \<Rightarrow> string \<Rightarrow> int" where
  "compare_mac a b = strcmp a b"

text \<open>The tokens that successive calls of \<open>strtok_r\<close> return.\<close>

definition is_delim :: "char \<Rightarrow> bool" where
  "is_delim c \<longleftrightarrow> c \<in> {CHR '' '', CHR 0x09, CHR 0x0D, CHR 0x0A}"

lemma dropWhile_shorter: "s \<noteq> [] \<Longrightarrow> P (hd s) \<Longrightarrow> length (dropWhile P s) < length s"
  by (cases s) (auto simp: le_imp_less_Suc length_dropWhile_le)

function strtok_all :: "string \<Rightarrow> string list" where
  "strtok_all s =
     (case dropWhile is_delim s of
        [] \<Rightarrow> []
      | c # t \<Rightarrow> takeWhile (\<lambda>c. \<not> is_delim c) (c # t) # strtok_all (dropWhile (\<lambda>c. \<not> is_delim c) (c # t)))"
  by pat_completeness auto
termination
proof (relation "measure length")
  fix s c t
  assume d: "dropWhile is_delim s = c # t"
  then have "\<not> is_delim c" by (metis hd_dropWhile list.distinct(1) list.sel(1))
  then have "length (dropWhile (\<lambda>c. \<not> is_delim c) (c # t)) < length (c # t)" by (intro dropWhile_shorter) auto
  also have "\<dots> \<le> length s" using length_dropWhile_le [of is_delim s] d by simp
  finally show "(dropWhile (\<lambda>c. \<not> is_delim c) (c # t), s) \<in> measure length" by simp
qed simp

declare strtok_all.simps [simp del]

text \<open>\<open>%ld\<close>\<close>

definition long_str :: "int \<Rightarrow> string" where
  "long_str i = (if i < 0 then CHR ''-'' # dec_str (nat (- i)) else dec_str (nat i))"

definition invalid_reply :: "strbuf \<Rightarrow> strbuf option" where
  "invalid_reply out = strbuf_assign out (''RESULT: INVALID'' @ nl @ ''BODY: Use HELP for command syntax'' @ nl)"

fun append_macs :: "strbuf \<Rightarrow> string list \<Rightarrow> strbuf option" where
  "append_macs out [] = Some out"
| "append_macs out (mac # macs) = do {
     out' \<leftarrow> strbuf_appendf out (mac @ (if macs \<noteq> [] then '';'' else nl));
     append_macs out' macs
   }"

definition reply_lmip :: "'w prov \<Rightarrow> strbuf \<Rightarrow> nat option \<Rightarrow> strbuf option" where
  "reply_lmip p out found =
     (case found of
        None \<Rightarrow> strbuf_append out (''RESULT: NOTFOUND'' @ nl)
      | Some q \<Rightarrow> do {
          tun \<leftarrow> p_heap p q;
          out1 \<leftarrow> strbuf_append out (''RESULT: OK'' @ nl @ ''BODY: '');
          keys \<leftarrow> hashmap_keys (t_macs tun);
          macs \<leftarrow> those keys;
          out2 \<leftarrow> append_macs out1 (sort macs);
          if macs = [] then strbuf_append_char out2 (CHR 0x0A) else Some out2
        })"

definition reply_gtmc :: "'w prov \<Rightarrow> strbuf \<Rightarrow> nat option \<Rightarrow> strbuf option" where
  "reply_gtmc p out found =
     (case found of
        None \<Rightarrow> strbuf_append out (''RESULT: NOTFOUND'' @ nl)
      | Some q \<Rightarrow> do {
          tun \<leftarrow> p_heap p q;
          strbuf_appendf out (''RESULT: OK'' @ nl @ ''BODY: '' @ inet_ntop (t_ip_remote tun) @ ''@'' @ t_ifgre tun @ nl)
        })"

function append_tunnels :: "'w prov \<Rightarrow> (u32, nat) hashmap \<Rightarrow> hashmap_iter \<Rightarrow> strbuf \<Rightarrow> strbuf option" where
  "append_tunnels p table it out =
     (case hashmap_iter_next table it of
        (None, it') \<Rightarrow> Some out
      | (Some (k, None), it') \<Rightarrow> None
      | (Some (k, Some q), it') \<Rightarrow>
          (case p_heap p q of
             None \<Rightarrow> None
           | Some tun \<Rightarrow>
               (case strbuf_appendf out (inet_ntop (t_ip_remote tun) @ ''@'' @ t_ifgre tun @ '';'') of
                  None \<Rightarrow> None
                | Some out' \<Rightarrow> append_tunnels p table it' out')))"
  by pat_completeness auto
termination
  by (relation "measure (\<lambda>(p, table, it, out). hm_cap table - it_slot it)")
    (auto dest!: hashmap_iter_next_progress [OF sym])

declare append_tunnels.simps [simp del]

definition reply_stun :: "'w prov \<Rightarrow> strbuf \<Rightarrow> strbuf option" where
  "reply_stun p out =
     (case provision_table p of
        None \<Rightarrow> strbuf_append out (''RESULT: NULL'' @ nl)
      | Some table \<Rightarrow>
          if hashmap_size table = 0 then strbuf_append out (''RESULT: NULL'' @ nl)
          else do {
            out1 \<leftarrow> strbuf_append out (''RESULT: OK'' @ nl @ ''BODY: '');
            out2 \<leftarrow> append_tunnels p table hashmap_iter_init out1;
            strbuf_append_char out2 (CHR 0x0A)
          })"

definition help_text :: string where
  "help_text = ''HELP - command list'' @ nl @ ''VERS - version'' @ nl @ ''QUIT - close'' @ nl @
     ''LMIP <IPv4> - list MACs'' @ nl @ ''GTMC <MAC> - find tunnel'' @ nl @
     ''STUN - list tunnels'' @ nl @ ''STAT - system status'' @ nl"

definition stat_text :: "build \<Rightarrow> softgred_config \<Rightarrow> int \<Rightarrow> string" where
  "stat_text bld cfg uptime =
     ''RESULT: OK'' @ nl @ ''BODY: '' @ u_sysname (c_uts cfg) @ '' '' @ u_release (c_uts cfg) @ '';'' @
     u_version (c_uts cfg) @ '';'' @ u_machine (c_uts cfg) @ '';'' @ long_str uptime @ '';'' @
     b_package_version bld @ '';'' @ long_str (c_started_time cfg) @ nl"

definition service_command :: "build \<Rightarrow> softgred_config \<Rightarrow> int \<Rightarrow> 'w prov \<Rightarrow> string \<Rightarrow> strbuf option" where
  "service_command bld cfg uptime p command = do {
     out \<leftarrow> strbuf_new None;
     if length command \<ge> SERVICE_MAX_REQUEST then invalid_reply out
     else do {
     let copy = snd (str_lcpy [] command SERVICE_MAX_REQUEST);
     let argv = strtok_all copy;
     let argc = length argv;
     if argc = 0 \<or> argc > 2 then invalid_reply out
     else if argv ! 0 = ''LMIP'' \<or> argv ! 0 = ''GTMC'' then
       (if argc \<noteq> 2 then invalid_reply out
        else if argv ! 0 = ''LMIP'' then
          (case inet_pton (argv ! 1) of
             None \<Rightarrow> invalid_reply out
           | Some addr \<Rightarrow> reply_lmip p out (provision_get_tunnel_byip p addr))
        else
          (case valid_mac (argv ! 1) of
             None \<Rightarrow> invalid_reply out
           | Some mac \<Rightarrow> reply_gtmc p out (provision_get_tunnel_by_mac p mac)))
     else if argc \<noteq> 1 then invalid_reply out
     else if argv ! 0 = ''VERS'' then
       strbuf_appendf out (''RESULT: OK'' @ nl @ ''BODY: '' @ b_package_version bld @ nl)
     else if argv ! 0 = ''QUIT'' then Some out
     else if argv ! 0 = ''HELP'' then strbuf_append out help_text
     else if argv ! 0 = ''STAT'' then strbuf_appendf out (stat_text bld cfg uptime)
     else if argv ! 0 = ''STUN'' then reply_stun p out
     else invalid_reply out
     }
   }"

end
