(* ===== verification/Service.thy ===== *)
theory Service
  imports Io Service_Cmd
begin

unbundle bit_operations_syntax

text \<open>
  The status API of \<open>src/src/service.c\<close>, in the build that enables it, and at the end in the build that
  does not: a table of 128 clients, each
  with its request buffer, its response and its deadline, served from the poll loop. The poll
  entries are the part of the caller's array that belongs to the service, entry 0 the listener.

  A \<open>char\<close> array is a list of its length; an index or a copy outside of it is the result
  \<^const>\<open>None\<close>, and so is an operation on a descriptor that is not open.
\<close>

definition SERVICE_MAX_CLIENTS :: nat where "SERVICE_MAX_CLIENTS = 128"

abbreviation nul_char :: char where "nul_char \<equiv> CHR 0x00"

definition flag :: "u16 \<Rightarrow> u16 \<Rightarrow> bool" where "flag events mask_bits \<longleftrightarrow> events AND mask_bits \<noteq> 0"

text \<open>A client after \<open>memset\<close>; its descriptor is 0 then.\<close>

definition zero_client :: client where
  "zero_client = \<lparr>cl_fd = Some 0, cl_input = replicate SERVICE_MAX_REQUEST nul_char, cl_used = 0, cl_sent = 0,
     cl_response = None, cl_deadline = 0\<rparr>"

abbreviation set_client :: "nat \<Rightarrow> client \<Rightarrow> 'w daemon \<Rightarrow> 'w daemon" where
  "set_client i cl d \<equiv> d\<lparr>g_clients := (g_clients d)[i := cl]\<rparr>"

definition close_client :: "'w io \<Rightarrow> nat \<Rightarrow> 'w daemon \<Rightarrow> 'w daemon option" where
  "close_client io i d =
     (if i < length (g_clients d) then do {
        d1 \<leftarrow> (case cl_fd (g_clients d ! i) of None \<Rightarrow> Some d | Some fd \<Rightarrow> close_fd io fd d);
        Some (set_client i (zero_client\<lparr>cl_fd := None\<rparr>) d1)
      } else None)"

section \<open>Start\<close>

text \<open>\<open>fail\<close>: close the listener and keep \<open>errno\<close>.\<close>

definition service_fail :: "'w io \<Rightarrow> nat \<Rightarrow> 'w daemon \<Rightarrow> (int \<times> 'w daemon) option" where
  "service_fail io fd d = do {
     let saved = s_errno (g_sys d);
     d1 \<leftarrow> close_fd io fd d;
     Some (-1, set_errno saved (d1\<lparr>g_listener := None\<rparr>))
   }"

text \<open>The address that the listener binds to; \<open>htonl\<close> is the same function as \<open>ntohl\<close>.\<close>

definition service_address :: "'w env \<Rightarrow> 'w io \<Rightarrow> string \<Rightarrow> nat \<Rightarrow> 'w daemon \<Rightarrow> u32 option \<times> 'w daemon" where
  "service_address env io name fd d =
     (if name = ''lo'' then (Some (ntohl 0x7F000001), d)
      else if name = ''any'' then (Some 0, d)
      else
        (case if_nametoindex env name (g_sys d) of
           (index, s1) \<Rightarrow>
             let d1 = set_sys s1 d in
             if index = 0 then (None, d1)
             else
               (case sys_call (io_setsockopt io fd (Bind_to_device name)) d1 of
                  (Inl e, d2) \<Rightarrow> (None, d2)
                | (Inr _, d2) \<Rightarrow>
                    (case sys_call (io_ifaddrs io) d2 of
                       (Inl e, d3) \<Rightarrow> (None, d3)
                     | (Inr addresses, d3) \<Rightarrow>
                         (case find_inet name addresses of
                            None \<Rightarrow> (None, set_errno EADDRNOTAVAIL d3)
                          | Some ip \<Rightarrow> (Some ip, d3))))))"

text \<open>The listener \<open>fd\<close> gets its address and listens.\<close>

definition service_listen :: "'w env \<Rightarrow> 'w io \<Rightarrow> softgred_config \<Rightarrow> string \<Rightarrow> nat \<Rightarrow> 'w daemon \<Rightarrow> (int \<times> 'w daemon) option" where
  "service_listen env io cfg name fd d =
     (case service_address env io name fd d of
        (None, d1) \<Rightarrow> service_fail io fd d1
      | (Some ip, d1) \<Rightarrow>
          (case sys_call (io_bind io fd (Inet_address ip (c_srv_port cfg))) d1 of
             (Inl e, d2) \<Rightarrow> service_fail io fd d2
           | (Inr _, d2) \<Rightarrow>
               (case sys_call (io_listen io fd (g_limit d2)) d2 of
                  (Inl e, d3) \<Rightarrow> service_fail io fd d3
                | (Inr _, d3) \<Rightarrow> do {
                    d4 \<leftarrow> log_info env cfg (''Status API on '' @ name @ '':'' @ dec_str (c_srv_port cfg) @
                      '' (limit '' @ dec_str (g_limit d3) @ '')'') d3;
                    Some (0, d4)
                  })))"

definition service_init :: "'w env \<Rightarrow> 'w io \<Rightarrow> softgred_config \<Rightarrow> 'w daemon \<Rightarrow> (int \<times> 'w daemon) option" where
  "service_init env io cfg d = do {
     let d0 = d\<lparr>g_limit := c_srv_max_listen cfg, g_clients := map (\<lambda>cl. cl\<lparr>cl_fd := None\<rparr>) (g_clients d)\<rparr>;
     (case open_call (io_socket io Listening_socket) d0 of
        (None, d1) \<Rightarrow> Some (-1, d1\<lparr>g_listener := None\<rparr>)
      | (Some fd, d1) \<Rightarrow> do {
          let d2 = d1\<lparr>g_listener := Some fd\<rparr>;
          let d3 = snd (sys_call (io_setsockopt io fd Reuse_address) d2);
          name \<leftarrow> c_srv_bind_in cfg;
          service_listen env io cfg name fd d3
        })
   }"

section \<open>The poll entries\<close>

fun collect_clients :: "nat list \<Rightarrow> pollfd list \<Rightarrow> 'w daemon \<Rightarrow> (pollfd list \<times> 'w daemon) option" where
  "collect_clients [] fds d = Some (fds, d)"
| "collect_clients (i # is) fds d =
     (if i < length (g_clients d) then
        (case cl_fd (g_clients d ! i) of
           None \<Rightarrow> collect_clients is fds d
         | Some fd \<Rightarrow>
             if length fds - 1 < length (g_poll_slots d) then
               collect_clients is
                 (fds @ [\<lparr>pf_fd = fd, pf_events = (if cl_response (g_clients d ! i) \<noteq> None then POLLOUT else POLLIN), pf_revents = 0\<rparr>])
                 (d\<lparr>g_poll_slots := (g_poll_slots d)[length fds - 1 := i]\<rparr>)
             else None)
      else None)"

definition service_pollfds :: "'w daemon \<Rightarrow> (pollfd list \<times> 'w daemon) option" where
  "service_pollfds d =
     (case g_listener d of
        None \<Rightarrow> Some ([], d)
      | Some l \<Rightarrow> collect_clients [0..<g_limit d] [\<lparr>pf_fd = l, pf_events = POLLIN, pf_revents = 0\<rparr>] d)"

section \<open>Serving a client\<close>

text \<open>A copy into an array.\<close>

definition put_input :: "string \<Rightarrow> nat \<Rightarrow> string \<Rightarrow> string option" where
  "put_input input off s =
     (if off + length s \<le> length input then Some (take off input @ s @ drop (off + length s) input) else None)"

text \<open>\<open>memchr\<close>\<close>

fun memchr :: "char \<Rightarrow> string \<Rightarrow> nat option" where
  "memchr c [] = None"
| "memchr c (x # xs) = (if x = c then Some 0 else map_option Suc (memchr c xs))"

text \<open>The response to a complete request; \<open>line_end\<close> is the position of the newline.\<close>

definition build_response :: "(string \<Rightarrow> strbuf option) \<Rightarrow> string \<Rightarrow> nat \<Rightarrow> nat option \<Rightarrow> (string \<times> strbuf) option" where
  "build_response answer input used line_end = do {
     let input' = (case line_end of Some k \<Rightarrow> input[k := nul_char] | None \<Rightarrow> input);
     response \<leftarrow>
       (if line_end = None \<and> used = SERVICE_MAX_REQUEST - 1
        then strbuf_new (Some (''RESULT: INVALID'' @ nl @ ''BODY: Request too large'' @ nl))
        else answer (takeWhile (\<lambda>c. c \<noteq> nul_char) input'));
     response' \<leftarrow>
       (if sb_len response > SERVICE_MAX_RESPONSE
        then strbuf_assign response (''RESULT: INVALID'' @ nl @ ''BODY: Response too large'' @ nl)
        else Some response);
     Some (input', response')
   }"

text \<open>The flag of the next steps says that the loop goes on with the next client.\<close>

definition take_input ::
  "'w io \<Rightarrow> build \<Rightarrow> softgred_config \<Rightarrow> nat \<Rightarrow> string \<Rightarrow> 'w daemon \<Rightarrow> (bool \<times> 'w daemon) option" where
  "take_input io bld cfg i got d = do {
     let cl = g_clients d ! i;
     input1 \<leftarrow> put_input (cl_input cl) (cl_used cl) got;
     let used = cl_used cl + length got;
     input2 \<leftarrow> put_input input1 used [nul_char];
     let d1 = set_client i (cl\<lparr>cl_input := input2, cl_used := used\<rparr>) d;
     if memchr nul_char (take used input2) \<noteq> None then do { d2 \<leftarrow> close_client io i d1; Some (True, d2) }
     else do {
       let line_end = memchr (CHR 0x0A) (take used input2);
       if line_end \<noteq> None \<or> got = [] \<or> used = SERVICE_MAX_REQUEST - 1 then do {
         (input3, response) \<leftarrow>
           build_response (service_command bld cfg (io_uptime io (s_world (g_sys d))) (g_prov d)) input2 used line_end;
         Some (False, set_client i (cl\<lparr>cl_input := input3, cl_used := used, cl_response := Some response\<rparr>) d)
       } else Some (False, d1)
     }
   }"

definition read_client ::
  "'w io \<Rightarrow> build \<Rightarrow> softgred_config \<Rightarrow> nat \<Rightarrow> 'w daemon \<Rightarrow> (bool \<times> 'w daemon) option" where
  "read_client io bld cfg i d = do {
     fd \<leftarrow> held_fd d (cl_fd (g_clients d ! i));
     (case sys_call (io_recv io fd (SERVICE_MAX_REQUEST - 1 - cl_used (g_clients d ! i))) d of
        (Inl e, d1) \<Rightarrow>
          if e = EAGAIN \<or> e = EINTR then Some (True, d1)
          else do { d2 \<leftarrow> close_client io i d1; Some (True, d2) }
      | (Inr got, d1) \<Rightarrow> take_input io bld cfg i got d1)
   }"

definition write_client :: "'w io \<Rightarrow> nat \<Rightarrow> 'w daemon \<Rightarrow> (bool \<times> 'w daemon) option" where
  "write_client io i d = do {
     let cl = g_clients d ! i;
     fd \<leftarrow> held_fd d (cl_fd cl);
     response \<leftarrow> cl_response cl;
     if cl_sent cl \<le> sb_len response then
       (case sys_call (io_send io fd (drop (cl_sent cl) (strbuf_text response))) d of
          (Inl e, d1) \<Rightarrow>
            if e = EAGAIN \<or> e = EINTR then Some (True, d1)
            else do { d2 \<leftarrow> close_client io i d1; Some (True, d2) }
        | (Inr n, d1) \<Rightarrow>
            if n = 0 then do { d2 \<leftarrow> close_client io i d1; Some (True, d2) }
            else do {
              let sent = cl_sent cl + n;
              let d2 = set_client i (cl\<lparr>cl_sent := sent\<rparr>) d1;
              if sent = sb_len response then do { d3 \<leftarrow> close_client io i d2; Some (False, d3) }
              else Some (False, d2)
            })
     else None
   }"

definition serve_client ::
  "'w io \<Rightarrow> build \<Rightarrow> softgred_config \<Rightarrow> int \<Rightarrow> nat \<Rightarrow> u16 \<Rightarrow> 'w daemon \<Rightarrow> 'w daemon option" where
  "serve_client io bld cfg now i events d =
     (if i < length (g_clients d) then
        if now \<ge> cl_deadline (g_clients d ! i) \<or> flag events (POLLERR OR POLLNVAL) then close_client io i d
        else do {
          (next1, d1) \<leftarrow>
            (if cl_response (g_clients d ! i) = None \<and> flag events (POLLIN OR POLLHUP) then read_client io bld cfg i d
             else Some (False, d));
          if next1 then Some d1
          else do {
            (next2, d2) \<leftarrow>
              (if cl_response (g_clients d1 ! i) \<noteq> None \<and> flag events (POLLOUT OR POLLHUP) then write_client io i d1
               else Some (False, d1));
            if next2 then Some d2
            else
              (case cl_response (g_clients d2 ! i) of
                 None \<Rightarrow> Some d2
               | Some response \<Rightarrow> if sb_len response = 0 then close_client io i d2 else Some d2)
          }
        }
      else None)"

section \<open>Dispatch\<close>

fun serve_clients ::
  "'w io \<Rightarrow> build \<Rightarrow> softgred_config \<Rightarrow> int \<Rightarrow> nat \<Rightarrow> pollfd list \<Rightarrow> 'w daemon \<Rightarrow> 'w daemon option" where
  "serve_clients io bld cfg now n [] d = Some d"
| "serve_clients io bld cfg now n (p # ps) d =
     (if n - 1 < length (g_poll_slots d) then do {
        d1 \<leftarrow> serve_client io bld cfg now (g_poll_slots d ! (n - 1)) (pf_revents p) d;
        serve_clients io bld cfg now (n + 1) ps d1
      } else None)"

fun accept_clients :: "'w io \<Rightarrow> int \<Rightarrow> nat \<Rightarrow> nat \<Rightarrow> 'w daemon \<Rightarrow> 'w daemon option" where
  "accept_clients io now l 0 d = Some d"
| "accept_clients io now l (Suc batch) d =
     (case open_call (io_accept io l) d of
        (None, d1) \<Rightarrow> Some d1
      | (Some fd, d1) \<Rightarrow>
          if g_limit d1 \<le> length (g_clients d1) then do {
            let slot = length (takeWhile (\<lambda>cl. cl_fd cl \<noteq> None) (take (g_limit d1) (g_clients d1)));
            if slot = g_limit d1 then do { d2 \<leftarrow> close_fd io fd d1; accept_clients io now l batch d2 }
            else accept_clients io now l batch
              (set_client slot ((g_clients d1 ! slot)\<lparr>cl_fd := Some fd, cl_deadline := now + 5 * USEC_PER_SEC\<rparr>) d1)
          } else None)"

definition service_dispatch ::
  "'w env \<Rightarrow> 'w io \<Rightarrow> build \<Rightarrow> softgred_config \<Rightarrow> pollfd list \<Rightarrow> 'w daemon \<Rightarrow> 'w daemon option" where
  "service_dispatch env io bld cfg fds d =
     (case fds of
        [] \<Rightarrow> Some d
      | p # ps \<Rightarrow> do {
          let now = monotonic_usec env (g_sys d);
          d1 \<leftarrow> serve_clients io bld cfg now 1 ps d;
          if flag (pf_revents p) POLLIN then do {
            l \<leftarrow> held_fd d1 (g_listener d1);
            accept_clients io now l 16 d1
          } else Some d1
        })"

section \<open>End\<close>

fun close_clients :: "'w io \<Rightarrow> nat list \<Rightarrow> 'w daemon \<Rightarrow> 'w daemon option" where
  "close_clients io [] d = Some d"
| "close_clients io (i # is) d = do { d1 \<leftarrow> close_client io i d; close_clients io is d1 }"

definition service_end :: "'w io \<Rightarrow> 'w daemon \<Rightarrow> 'w daemon option" where
  "service_end io d =
     (case g_listener d of
        None \<Rightarrow> Some d
      | Some l \<Rightarrow> do {
          d1 \<leftarrow> close_clients io [0..<g_limit d] d;
          d2 \<leftarrow> close_fd io l d1;
          Some (d2\<lparr>g_listener := None\<rparr>)
        })"

section \<open>The build without the status API\<close>

text \<open>The four functions behind \<open>#else\<close>, for a build without \<open>SOFTGRED_ENABLE_SERVICE\<close>.\<close>

definition service_init_disabled :: "'w daemon \<Rightarrow> (int \<times> 'w daemon) option" where
  "service_init_disabled d = Some (0, d)"

definition service_pollfds_disabled :: "'w daemon \<Rightarrow> (pollfd list \<times> 'w daemon) option" where
  "service_pollfds_disabled d = Some ([], d)"

definition service_dispatch_disabled :: "pollfd list \<Rightarrow> 'w daemon \<Rightarrow> 'w daemon option" where
  "service_dispatch_disabled fds d = Some d"

definition service_end_disabled :: "'w daemon \<Rightarrow> 'w daemon option" where
  "service_end_disabled d = Some d"

text \<open>What the rest of the program links to, as the build decides.\<close>

definition api_init :: "'w env \<Rightarrow> 'w io \<Rightarrow> build \<Rightarrow> softgred_config \<Rightarrow> 'w daemon \<Rightarrow> (int \<times> 'w daemon) option" where
  "api_init env io bld cfg d = (if b_service bld then service_init env io cfg d else service_init_disabled d)"

definition api_pollfds :: "build \<Rightarrow> 'w daemon \<Rightarrow> (pollfd list \<times> 'w daemon) option" where
  "api_pollfds bld d = (if b_service bld then service_pollfds d else service_pollfds_disabled d)"

definition api_dispatch ::
  "'w env \<Rightarrow> 'w io \<Rightarrow> build \<Rightarrow> softgred_config \<Rightarrow> pollfd list \<Rightarrow> 'w daemon \<Rightarrow> 'w daemon option" where
  "api_dispatch env io bld cfg fds d =
     (if b_service bld then service_dispatch env io bld cfg fds d else service_dispatch_disabled fds d)"

definition api_end :: "'w io \<Rightarrow> build \<Rightarrow> 'w daemon \<Rightarrow> 'w daemon option" where
  "api_end io bld d = (if b_service bld then service_end io d else service_end_disabled d)"

lemmas api_disabled =
  api_init_def service_init_disabled_def api_pollfds_def service_pollfds_disabled_def
  api_dispatch_def service_dispatch_disabled_def api_end_def service_end_disabled_def

end
