(* ===== verification/Daemon.thy ===== *)
theory Daemon
  imports Capture Files Service Ebtables
begin

unbundle bit_operations_syntax

text \<open>
  The daemon of \<open>src/src/softgred.c\<close>: the start-up in the order of \<open>main\<close>, the poll loop with its
  signals, and the shutdown behind the label \<open>end\<close>; the build decides whether there is a status API.

  A start-up step goes on, jumps to \<open>end\<close>, or returns from \<open>main\<close> (the parent of the daemon after
  \<open>fork\<close>). The local variables of \<open>main\<close> are the record \<open>main\<close>; its descriptors are in the record
  of the statics. Bytes for the parent are strings of length one. The loop that reads the pending
  signals ends when no signal is pending; as in \<open>Os\<close> a loop that does not end is \<^const>\<open>None\<close>.
\<close>

definition EXIT_SUCCESS :: int where "EXIT_SUCCESS = 0"
definition EXIT_FAILURE :: int where "EXIT_FAILURE = 1"

abbreviation (input) SIGHUP :: nat where "SIGHUP \<equiv> 1"
abbreviation (input) SIGUSR1 :: nat where "SIGUSR1 \<equiv> 10"
abbreviation (input) SIGUSR2 :: nat where "SIGUSR2 \<equiv> 12"

datatype flow = Go | End | Return int

record 'w main =
  m_daemon :: "'w daemon"
  m_cfg :: softgred_config
  m_provision_ready :: bool
  m_firewall_ready :: bool

abbreviation set_daemon :: "'w daemon \<Rightarrow> 'w main \<Rightarrow> 'w main" where "set_daemon d m \<equiv> m\<lparr>m_daemon := d\<rparr>"

definition print_str :: "string option \<Rightarrow> string" where
  "print_str s = (case s of None \<Rightarrow> ''(null)'' | Some t \<Rightarrow> t)"

definition errno_text :: "'w env \<Rightarrow> 'w daemon \<Rightarrow> string" where
  "errno_text env d = e_strerror env (s_errno (g_sys d))"

text \<open>\<open>D_CRIT(...); goto end\<close>\<close>

definition crit_end :: "'w env \<Rightarrow> string \<Rightarrow> 'w daemon \<Rightarrow> 'w main \<Rightarrow> (flow \<times> 'w main) option" where
  "crit_end env t d m = do { d1 \<leftarrow> log_crit env (m_cfg m) t d; Some (End, set_daemon d1 m) }"

section \<open>Start-up\<close>

definition check_root :: "'w env \<Rightarrow> 'w io \<Rightarrow> 'w main \<Rightarrow> (flow \<times> 'w main) option" where
  "check_root env io m =
     (if io_euid io \<noteq> 0
      then crit_end env ''Run as root (packet capture and network administration)'' (m_daemon m) m
      else Some (Go, m))"

definition start_log :: "'w env \<Rightarrow> 'w io \<Rightarrow> build \<Rightarrow> 'w main \<Rightarrow> (flow \<times> 'w main) option" where
  "start_log env io bld m = do {
     let cfg = m_cfg m;
     let (r, closed, s1) = log_open io (c_log_file cfg) (g_sys (m_daemon m));
     let d1 = set_sys s1 (m_daemon m);
     if r \<noteq> 0 then crit_end env (''Log file '' @ print_str (c_log_file cfg) @ '': '' @ errno_text env d1) d1 m
     else do {
       d2 \<leftarrow> log_info env cfg (''Starting '' @ b_package_string bld @ '' capture='' @ print_str (c_ifname cfg) @
         '' log='' @ print_str (c_log_file cfg)) d1;
       Some (Go, set_daemon d2 m)
     }
   }"

definition local_address :: "'w io \<Rightarrow> softgred_config \<Rightarrow> 'w daemon \<Rightarrow> (int \<times> softgred_config \<times> 'w daemon) option" where
  "local_address io cfg d =
     (case sys_call (io_ifaddrs io) d of
        (Inl e, d1) \<Rightarrow> Some (-1, cfg, d1)
      | (Inr addresses, d1) \<Rightarrow> do {
          name \<leftarrow> c_ifname cfg;
          Some (case find_inet name addresses of
             Some ip \<Rightarrow> (0, cfg\<lparr>c_local := ip\<rparr>, d1)
           | None \<Rightarrow> (-1, cfg, set_errno EADDRNOTAVAIL d1))
        })"

definition start_address :: "'w env \<Rightarrow> 'w io \<Rightarrow> 'w main \<Rightarrow> (flow \<times> 'w main) option" where
  "start_address env io m = do {
     (r, cfg, d1) \<leftarrow> local_address io (m_cfg m) (m_daemon m);
     if r \<noteq> 0 then crit_end env (''Capture interface: '' @ errno_text env d1) d1 m
     else Some (Go, m\<lparr>m_cfg := cfg, m_daemon := d1\<rparr>)
   }"

text \<open>\<open>do got = read(...) while (got < 0 && errno == EINTR)\<close> in the parent.\<close>

partial_function (option) await_child :: "'w io \<Rightarrow> nat \<Rightarrow> 'w daemon \<Rightarrow> (nat option \<times> 'w daemon) option" where
  "await_child io fd d =
     (case sys_call (io_read_status io fd) d of
        (Inl e, d1) \<Rightarrow> if e = EINTR then await_child io fd d1 else Some (None, d1)
      | (Inr v, d1) \<Rightarrow> Some (v, d1))"

definition parent_wait :: "'w io \<Rightarrow> nat \<Rightarrow> nat \<Rightarrow> 'w main \<Rightarrow> 'w daemon \<Rightarrow> (flow \<times> 'w main) option" where
  "parent_wait io rfd wfd m d = do {
     d1 \<leftarrow> close_fd io wfd d;
     (status, d2) \<leftarrow> await_child io rfd d1;
     d3 \<leftarrow> close_fd io rfd d2;
     let (closed, s4) = log_close io (g_sys d3);
     let d4 = set_sys s4 d3;
     Some (Return (case status of None \<Rightarrow> EXIT_FAILURE | Some n \<Rightarrow> int n),
       m\<lparr>m_cfg := softgred_config_release (m_cfg m), m_daemon := d4\<rparr>)
   }"

definition child_detach :: "'w io \<Rightarrow> nat \<Rightarrow> nat \<Rightarrow> 'w main \<Rightarrow> 'w daemon \<Rightarrow> (flow \<times> 'w main) option" where
  "child_detach io rfd wfd m d = do {
     d1 \<leftarrow> close_fd io rfd d;
     let d2 = d1\<lparr>g_notify := Some wfd\<rparr>;
     (case sys_call (io_setsid io) d2 of
        (Inl e, d3) \<Rightarrow> Some (End, set_daemon d3 m)
      | (Inr _, d3) \<Rightarrow>
          (case open_call (io_open io Open_null ''/dev/null'') d3 of
             (None, d4) \<Rightarrow> Some (End, set_daemon d4 m)
           | (Some nullfd, d4) \<Rightarrow>
               (case sys_call (io_dup_stdin io nullfd) d4 of
                  (Inl e, d5) \<Rightarrow> Some (End, set_daemon d5 m)
                | (Inr _, d5) \<Rightarrow>
                    if nullfd \<noteq> 0 then do { d6 \<leftarrow> close_fd io nullfd d5; Some (Go, set_daemon d6 m) }
                    else Some (Go, set_daemon d5 m))))
   }"

definition detach :: "'w io \<Rightarrow> 'w main \<Rightarrow> (flow \<times> 'w main) option" where
  "detach io m =
     (if c_is_foreground (m_cfg m) then Some (Go, m)
      else
        (case sys_call (io_pipe io) (m_daemon m) of
           (Inl e, d1) \<Rightarrow> Some (End, set_daemon d1 m)
         | (Inr (rfd, wfd), d1) \<Rightarrow>
             let d2 = d1\<lparr>g_fds := rfd # wfd # g_fds d1\<rparr> in
             (case sys_call (io_fork io) d2 of
                (Inl e, d3) \<Rightarrow> do { d4 \<leftarrow> close_fd io rfd d3; d5 \<leftarrow> close_fd io wfd d4; Some (End, set_daemon d5 m) }
              | (Inr (Fork_parent child), d3) \<Rightarrow> parent_wait io rfd wfd m d3
              | (Inr Fork_child, d3) \<Rightarrow> child_detach io rfd wfd m d3)))"

definition start_pid :: "'w env \<Rightarrow> 'w io \<Rightarrow> 'w main \<Rightarrow> (flow \<times> 'w main) option" where
  "start_pid env io m = do {
     (r, d1) \<leftarrow> softgred_config_create_pid_file io (m_cfg m) (e_pid env) (m_daemon m);
     if r \<noteq> 0 then crit_end env (''PID file: '' @ errno_text env d1) d1 m else Some (Go, set_daemon d1 m)
   }"

definition start_signals :: "'w io \<Rightarrow> 'w main \<Rightarrow> (flow \<times> 'w main) option" where
  "start_signals io m =
     (case sys_call (io_sigprocmask io) (m_daemon m) of
        (Inl e, d1) \<Rightarrow> Some (End, set_daemon d1 m)
      | (Inr _, d1) \<Rightarrow>
          (case open_call (io_signalfd io) d1 of
             (None, d2) \<Rightarrow> Some (End, set_daemon (d2\<lparr>g_signal := None\<rparr>) m)
           | (Some fd, d2) \<Rightarrow> Some (Go, set_daemon (d2\<lparr>g_signal := Some fd\<rparr>) m)))"

definition start_capture :: "'w env \<Rightarrow> 'w io \<Rightarrow> 'w main \<Rightarrow> (flow \<times> 'w main) option" where
  "start_capture env io m = do {
     (fd, d1) \<leftarrow> payload_loop_init env io (m_cfg m) (m_daemon m);
     if fd = None then crit_end env (''Capture: '' @ errno_text env d1) d1 m else Some (Go, set_daemon d1 m)
   }"

definition start_service :: "'w env \<Rightarrow> 'w io \<Rightarrow> build \<Rightarrow> 'w main \<Rightarrow> (flow \<times> 'w main) option" where
  "start_service env io bld m = do {
     (r, d1) \<leftarrow> api_init env io bld (m_cfg m) (m_daemon m);
     if r \<noteq> 0 then crit_end env (''Status API: '' @ errno_text env d1) d1 m else Some (Go, set_daemon d1 m)
   }"

fun prepare_bridges :: "'w env \<Rightarrow> tunnel_bridge list \<Rightarrow> 'w main \<Rightarrow> (flow \<times> 'w main) option" where
  "prepare_bridges env [] m = Some (Go, m)"
| "prepare_bridges env (b # bs) m = do {
     let name = br_ifname b;
     let (index, s1) = if_nametoindex env name (g_sys (m_daemon m));
     (r, s2) \<leftarrow> iface_bridge_prepare env name (c_bridge_force (m_cfg m)) s1;
     let d2 = set_sys s2 (m_daemon m);
     if r \<noteq> 0 then crit_end env (''Bridge '' @ name @ '': '' @ errno_text env d2) d2 m
     else do {
       d3 \<leftarrow> log_info env (m_cfg m) (''Bridge ready interface='' @ name @ '' created='' @
         (if index \<noteq> 0 then ''false'' else ''true'')) d2;
       prepare_bridges env bs (set_daemon d3 m)
     }
   }"

definition start_firewall :: "'w env \<Rightarrow> 'w main \<Rightarrow> (flow \<times> 'w main) option" where
  "start_firewall env m = do {
     (r, s1) \<leftarrow> iface_ebtables_init env (m_cfg m) (g_sys (m_daemon m));
     let d1 = set_sys s1 (m_daemon m);
     if r \<noteq> 0 then crit_end env ''Cannot initialize owned firewall chains'' d1 m
     else Some (Go, m\<lparr>m_daemon := d1, m_firewall_ready := True\<rparr>)
   }"

definition start_provision :: "'w main \<Rightarrow> (flow \<times> 'w main) option" where
  "start_provision m =
     (let d = m_daemon m; (r, p) = provision_init (g_prov d)
      in Some (Go, m\<lparr>m_daemon := d\<lparr>g_prov := p\<rparr>, m_provision_ready := True\<rparr>))"

definition notify_parent :: "'w env \<Rightarrow> 'w io \<Rightarrow> build \<Rightarrow> 'w main \<Rightarrow> (flow \<times> 'w main) option" where
  "notify_parent env io bld m = do {
     (go, d2) \<leftarrow>
       (case g_notify (m_daemon m) of
          None \<Rightarrow> Some (True, m_daemon m)
        | Some fd \<Rightarrow>
            (case sys_call (io_write io fd [CHR 0x00]) (m_daemon m) of
               (Inl e, d1) \<Rightarrow> Some (False, d1)
             | (Inr n, d1) \<Rightarrow>
                 if n \<noteq> 1 then Some (False, d1)
                 else do { d2 \<leftarrow> close_fd io fd d1; Some (True, d2\<lparr>g_notify := None\<rparr>) }));
     if \<not> go then Some (End, set_daemon d2 m)
     else do {
       d3 \<leftarrow> log_info env (m_cfg m) (b_package_string bld @ '' listening on '' @ print_str (c_ifname (m_cfg m))) d2;
       Some (Go, set_daemon d3 m)
     }
   }"

fun run_steps :: "('w main \<Rightarrow> (flow \<times> 'w main) option) list \<Rightarrow> 'w main \<Rightarrow> (flow \<times> 'w main) option" where
  "run_steps [] m = Some (Go, m)"
| "run_steps (f # fs) m = do { (flow, m1) \<leftarrow> f m; if flow = Go then run_steps fs m1 else Some (flow, m1) }"

definition start_up :: "'w env \<Rightarrow> 'w io \<Rightarrow> build \<Rightarrow> 'w main \<Rightarrow> (flow \<times> 'w main) option" where
  "start_up env io bld = run_steps
     [check_root env io, start_log env io bld, start_address env io, detach io, start_pid env io, start_signals io,
      start_capture env io, start_service env io bld, \<lambda>m. prepare_bridges env (c_bridge (m_cfg m)) m,
      start_firewall env, start_provision, notify_parent env io bld]"

section \<open>The loop\<close>

definition handle_signal ::
  "'w env \<Rightarrow> 'w io \<Rightarrow> softgred_config \<Rightarrow> nat \<Rightarrow> 'w daemon \<Rightarrow> (bool \<times> 'w daemon) option" where
  "handle_signal env io cfg signo d =
     (if signo = SIGHUP then do {
        let (r, closed, s1) = log_open io (c_log_file cfg) (g_sys d);
        let d1 = set_sys s1 d;
        d2 \<leftarrow> (if r \<noteq> 0
          then log_crit env cfg (''Log reopen failed path='' @ print_str (c_log_file cfg) @ '' error='' @ errno_text env d1) d1
          else log_info env cfg (''Log reopened path='' @ print_str (c_log_file cfg)) d1);
        Some (True, d2)
      }
      else if signo = SIGUSR1 then do { p \<leftarrow> provision_delall env cfg (g_prov d); Some (True, d\<lparr>g_prov := p\<rparr>) }
      else if signo = SIGUSR2 then do { p \<leftarrow> provision_stats env cfg (g_prov d); Some (True, d\<lparr>g_prov := p\<rparr>) }
      else do { d1 \<leftarrow> log_info env cfg (''Stopping signal='' @ dec_str signo) d; Some (False, d1) })"

partial_function (option) read_signals ::
  "'w env \<Rightarrow> 'w io \<Rightarrow> softgred_config \<Rightarrow> nat \<Rightarrow> bool \<Rightarrow> 'w daemon \<Rightarrow> (bool \<times> 'w daemon) option" where
  "read_signals env io cfg fd running d =
     (case sys_call (io_read_signal io fd) d of
        (Inl e, d1) \<Rightarrow> Some (running, d1)
      | (Inr signo, d1) \<Rightarrow>
          (case handle_signal env io cfg signo d1 of
             None \<Rightarrow> None
           | Some (go, d2) \<Rightarrow> read_signals env io cfg fd (running \<and> go) d2))"

text \<open>One round: \<^const>\<open>None\<close> as the first component is to continue, otherwise the result of \<open>main\<close>.\<close>

definition loop_round ::
  "'w env \<Rightarrow> 'w io \<Rightarrow> build \<Rightarrow> softgred_config \<Rightarrow> payload_packet \<Rightarrow> 'w daemon \<Rightarrow> (int option \<times> 'w daemon) option" where
  "loop_round env io bld cfg packet d = do {
     signal_fd \<leftarrow> held_fd d (g_signal d);
     capture_fd \<leftarrow> held_fd d (g_capture d);
     (fds, d1) \<leftarrow> api_pollfds bld d;
     let polled_fds = [\<lparr>pf_fd = signal_fd, pf_events = POLLIN, pf_revents = 0\<rparr>,
                       \<lparr>pf_fd = capture_fd, pf_events = POLLIN, pf_revents = 0\<rparr>] @ fds;
     (case sys_call (io_poll io polled_fds) d1 of
        (Inl e, d2) \<Rightarrow> Some (if e = EINTR then None else Some EXIT_FAILURE, d2)
      | (Inr revents, d2) \<Rightarrow>
          if length revents \<noteq> length polled_fds then None
          else do {
            (running, d3) \<leftarrow> (if flag (revents ! 0) POLLIN then read_signals env io cfg signal_fd True d2 else Some (True, d2));
            if \<not> running then Some (Some EXIT_SUCCESS, d3)
            else do {
              (broken, d4) \<leftarrow>
                (if flag (revents ! 1) (POLLERR OR POLLHUP OR POLLNVAL) then Some (True, d3)
                 else if flag (revents ! 1) POLLIN
                 then do { (r, d4) \<leftarrow> payload_receive env io cfg packet d3; Some (r \<noteq> 0, d4) }
                 else Some (False, d3));
              if broken then do {
                d5 \<leftarrow> log_crit env cfg (''Capture stopped: '' @ errno_text env d4) d4;
                Some (Some EXIT_FAILURE, d5)
              } else do {
                d5 \<leftarrow> api_dispatch env io bld cfg (map2 (\<lambda>p e. p\<lparr>pf_revents := e\<rparr>) fds (drop 2 revents)) d4;
                Some (None, d5)
              }
            }
          })
   }"

partial_function (option) daemon_loop ::
  "'w env \<Rightarrow> 'w io \<Rightarrow> build \<Rightarrow> softgred_config \<Rightarrow> payload_packet \<Rightarrow> 'w daemon \<Rightarrow> (int \<times> 'w daemon) option" where
  "daemon_loop env io bld cfg packet d =
     (case loop_round env io bld cfg packet d of
        None \<Rightarrow> None
      | Some (None, d1) \<Rightarrow> daemon_loop env io bld cfg packet d1
      | Some (Some result, d1) \<Rightarrow> Some (result, d1))"

section \<open>Shutdown\<close>

definition close_opt :: "'w io \<Rightarrow> nat option \<Rightarrow> 'w daemon \<Rightarrow> 'w daemon option" where
  "close_opt io fd d = (case fd of None \<Rightarrow> Some d | Some n \<Rightarrow> close_fd io n d)"

definition report_failure :: "'w env \<Rightarrow> 'w io \<Rightarrow> softgred_config \<Rightarrow> 'w daemon \<Rightarrow> 'w daemon option" where
  "report_failure env io cfg d =
     (case g_notify d of
        None \<Rightarrow> Some d
      | Some fd \<Rightarrow> do {
          let (r, d1) = sys_call (io_write io fd [CHR 0x01]) d;
          d2 \<leftarrow> (if r = Inr 1 then Some d1
            else do { s \<leftarrow> D_WARNING env cfg ''Startup failure could not be reported to parent'' (g_sys d1); Some (set_sys s d1) });
          d3 \<leftarrow> close_fd io fd d2;
          Some (d3\<lparr>g_notify := None\<rparr>)
        })"

definition shutdown :: "'w env \<Rightarrow> 'w io \<Rightarrow> build \<Rightarrow> int \<Rightarrow> 'w main \<Rightarrow> (int \<times> 'w main) option" where
  "shutdown env io bld result m = do {
     let cfg = m_cfg m;
     d1 \<leftarrow> api_end io bld (m_daemon m);
     d2 \<leftarrow> payload_loop_end io d1;
     d3 \<leftarrow> (if m_provision_ready m then do { p \<leftarrow> provision_end env cfg (g_prov d2); Some (d2\<lparr>g_prov := p\<rparr>) } else Some d2);
     (result1, d4) \<leftarrow>
       (if m_firewall_ready m then do {
          (r, s) \<leftarrow> iface_ebtables_end env cfg (g_sys d3);
          Some (if r \<noteq> 0 then EXIT_FAILURE else result, set_sys s d3)
        } else Some (result, d3));
     d5 \<leftarrow> close_opt io (g_signal d4) d4;
     d6 \<leftarrow> softgred_config_remove_pid_file io cfg (d5\<lparr>g_signal := None\<rparr>);
     d7 \<leftarrow> report_failure env io cfg d6;
     d8 \<leftarrow> log_info env cfg (''Daemon stopped exit='' @ long_str result1) d7;
     let (closed, s9) = log_close io (g_sys d8);
     Some (result1, m\<lparr>m_daemon := set_sys s9 d8, m_cfg := softgred_config_release cfg\<rparr>)
   }"

text \<open>\<open>main\<close> after the command line and the configuration file.\<close>

definition run_daemon :: "'w env \<Rightarrow> 'w io \<Rightarrow> build \<Rightarrow> payload_packet \<Rightarrow> 'w main \<Rightarrow> (int \<times> 'w main) option" where
  "run_daemon env io bld packet m = do {
     (flow, m1) \<leftarrow> start_up env io bld m;
     (case flow of
        Return r \<Rightarrow> Some (r, m1)
      | End \<Rightarrow> shutdown env io bld EXIT_FAILURE m1
      | Go \<Rightarrow> do {
          (result, d1) \<leftarrow> daemon_loop env io bld (m_cfg m1) packet (m_daemon m1);
          shutdown env io bld result (set_daemon d1 m1)
        })
   }"

text \<open>\<open>main\<close>: the parsed options, the time, \<open>uname\<close> and the contents of the file are arguments.\<close>

definition softgred_main ::
  "'w env \<Rightarrow> 'w io \<Rightarrow> build \<Rightarrow> (char \<times> string) list \<Rightarrow> bool \<Rightarrow> int \<Rightarrow> utsname \<Rightarrow> (string \<Rightarrow> config_source) \<Rightarrow>
     payload_packet \<Rightarrow> 'w daemon \<Rightarrow> (int \<times> 'w daemon) option" where
  "softgred_main env io bld opts all_used now uts files packet d =
     (let (cli, cfg1, out1) = softgred_config_load_cli bld opts all_used softgred_config_ref
      in if cli \<le> 0 then Some (if cli \<noteq> 0 then EXIT_FAILURE else EXIT_SUCCESS, d)
         else
           let path = (case c_config_file cfg1 of Some f \<Rightarrow> f | None \<Rightarrow> SOFTGRED_DEFAULT_CONFFILE bld);
               (ok, cfg2, out2) = softgred_config_load_conf bld (e_strerror env) now uts path (files path) cfg1
           in if \<not> ok then Some (EXIT_FAILURE, d)
              else do {
                (result, m) \<leftarrow> run_daemon env io bld packet
                  \<lparr>m_daemon = d, m_cfg = cfg2, m_provision_ready = False, m_firewall_ready = False\<rparr>;
                Some (result, m_daemon m)
              })"

end
