(* ===== verification/Hashmap_Correct.thy ===== *)
theory Hashmap_Correct
  imports Hashmap
begin

unbundle bit_operations_syntax

text \<open>
  Correctness of the hash map: the representation invariant \<open>hm_inv\<close> (a power-of-two table,
  unbroken probe paths, distinct keys, exact counters, at least a quarter of the slots empty),
  the abstraction \<open>hm_abs\<close> to a partial function, one lemma per operation, the contract
  \<open>finite_map\<close> with its two interpretations, refinement of whole operation sequences against
  the reference map, and ownership of keys and values.
\<close>

section \<open>Invariant and abstraction\<close>

text \<open>The slot that a probe from home slot \<open>h\<close> visits after \<open>t\<close> steps.\<close>

definition pos :: "nat \<Rightarrow> nat \<Rightarrow> nat \<Rightarrow> nat" where
  "pos cap h t = (h + t) mod cap"

definition path_ok :: "('k, 'v) slot list \<Rightarrow> nat \<Rightarrow> bool" where
  "path_ok sl i \<longleftrightarrow>
     (\<exists>d < length sl. i = pos (length sl) (unat (s_hash (sl ! i))) d \<and>
        (\<forall>t < d. s_state (sl ! pos (length sl) (unat (s_hash (sl ! i))) t) \<noteq> SLOT_EMPTY))"

definition table_inv :: "('k \<Rightarrow> u32) \<Rightarrow> ('k, 'v) slot list \<Rightarrow> bool" where
  "table_inv hash sl \<longleftrightarrow>
     (\<exists>n. length sl = 2 ^ n) \<and>
     (\<forall>i < length sl. occupied (sl ! i) \<longrightarrow>
        (\<exists>k. s_key (sl ! i) = Some k \<and> s_hash (sl ! i) = hash k) \<and> path_ok sl i) \<and>
     distinct (map s_key (filter occupied sl))"

definition hm_inv :: "('k, 'v) hashmap \<Rightarrow> bool" where
  "hm_inv m \<longleftrightarrow>
     hm_cap m = length (hm_slots m) \<and> HASHMAP_MIN_CAP \<le> hm_cap m \<and>
     table_inv (hm_hash m) (hm_slots m) \<and>
     hm_count m = length (filter occupied (hm_slots m)) \<and>
     hm_occupied m = length (filter (\<lambda>s. s_state s \<noteq> SLOT_EMPTY) (hm_slots m)) \<and>
     hm_occupied m * 4 < hm_cap m * 3 \<and>
     hm_equal m = (=)"

definition entries :: "('k, 'v) hashmap \<Rightarrow> ('k \<times> 'v option) list" where
  "entries m = map (\<lambda>s. (the (s_key s), s_value s)) (filter occupied (hm_slots m))"

definition hm_abs :: "('k, 'v) hashmap \<Rightarrow> 'k \<Rightarrow> 'v option option" where
  "hm_abs m = map_of (entries m)"

lemma step_pos: "cap = 2 ^ n \<Longrightarrow> (pos cap h t + 1) AND (cap - 1) = pos cap h (t + 1)"
  by (simp only: nat_and_mask pos_def mod_add_left_eq add.assoc)

lemma home_pos: "cap = 2 ^ n \<Longrightarrow> h AND (cap - 1) = pos cap h 0"
  by (simp only: nat_and_mask pos_def add_0_right)

lemma pos_less: "0 < cap \<Longrightarrow> pos cap h t < cap"
  by (simp add: pos_def)

lemma pos_surj: 
  assumes "j < cap" shows "\<exists>t < cap. pos cap h t = j"
proof -
  let ?t = "(j + (cap - h mod cap)) mod cap"
  have "pos cap h ?t = (h + (j + (cap - h mod cap))) mod cap" 
    by (simp only: pos_def mod_add_right_eq)
  also have "\<dots> = (h mod cap + (j + (cap - h mod cap))) mod cap" by (simp only: mod_add_left_eq)
  also have "h mod cap + (j + (cap - h mod cap)) = j + cap"
    using assms mod_less_divisor [of cap h] by linarith
  finally have "pos cap h ?t = j" using assms by simp
  moreover have "?t < cap" using assms by simp
  ultimately show ?thesis by blast
qed

abbreviation matches :: "('k, 'v) hashmap \<Rightarrow> 'k \<Rightarrow> u32 \<Rightarrow> ('k, 'v) slot \<Rightarrow> bool" where
  "matches m key hash s \<equiv>
     occupied s \<and> s_hash s = hash \<and> (case s_key s of Some k \<Rightarrow> hm_equal m k key | None \<Rightarrow> False)"

lemma find_from_Suc:
  assumes "hm_cap m = 2 ^ n"
  shows "find_from m key hash r (pos (hm_cap m) h t) (Suc left) =
    (let i = pos (hm_cap m) h t; s = hm_slots m ! i; r' = (case r of Some x \<Rightarrow> Some x | None \<Rightarrow> Some i)
     in case s_state s of
          SLOT_EMPTY \<Rightarrow> (None, r')
        | SLOT_DELETED \<Rightarrow> find_from m key hash r' (pos (hm_cap m) h (Suc t)) left
        | SLOT_OCCUPIED \<Rightarrow>
            if matches m key hash s then (Some i, None)
            else find_from m key hash r (pos (hm_cap m) h (Suc t)) left)"
  using step_pos [OF assms, of h t] by (cases "s_state (hm_slots m ! pos (hm_cap m) h t)") (auto simp: Let_def)

lemma find_from_found:
  assumes "hm_cap m = 2 ^ n"
  shows "find_from m key hash r (pos (hm_cap m) h t) left = (Some j, q) \<Longrightarrow>
    \<exists>u. j = pos (hm_cap m) h u \<and> matches m key hash (hm_slots m ! j)"
  by (induction left arbitrary: r t)
    (auto simp: find_from_Suc [OF assms] Let_def simp del: find_from.simps(2)
      split: if_splits slot_state.splits)

text \<open>
  Where the key is not found, the probe stopped at an empty slot, or it saw no empty slot at
  all; in the first case it reports a slot that can be reused and lies on the probe path.
\<close>

lemma find_from_missing:
  assumes "hm_cap m = 2 ^ n"
  shows "find_from m key hash r (pos (hm_cap m) h t) left = (None, q) \<Longrightarrow>
    (\<exists>e < left. s_state (hm_slots m ! pos (hm_cap m) h (t + e)) = SLOT_EMPTY \<and> q \<noteq> None \<and>
       (\<forall>u < e. \<not> matches m key hash (hm_slots m ! pos (hm_cap m) h (t + u)))) \<or>
    (\<forall>e < left. s_state (hm_slots m ! pos (hm_cap m) h (t + e)) \<noteq> SLOT_EMPTY)"
proof (induction left arbitrary: r t)
  case 0
  then show ?case by simp
next
  case (Suc left)
  let ?s = "hm_slots m ! pos (hm_cap m) h t"
  show ?case
  proof (cases "s_state ?s = SLOT_EMPTY \<or> matches m key hash ?s")
    case True
    with Suc.prems show ?thesis
      by (auto simp: find_from_Suc [OF assms] Let_def Ex_less_Suc2 simp del: find_from.simps(2)
          split: option.splits)
  next
    case False
    then obtain r' where "find_from m key hash r' (pos (hm_cap m) h (Suc t)) left = (None, q)"
      using Suc.prems
      by (cases "s_state ?s") (auto simp: find_from_Suc [OF assms] Let_def simp del: find_from.simps(2))
    from Suc.IH [OF this] False show ?thesis
      by (auto simp: Ex_less_Suc2 All_less_Suc2)
  qed
qed

lemma find_from_reusable:
  assumes "hm_cap m = 2 ^ n"
  shows "find_from m key hash (Some x) (pos (hm_cap m) h t) left = (None, q) \<Longrightarrow> q = Some x"
  by (induction left arbitrary: t)
    (auto simp: find_from_Suc [OF assms] Let_def simp del: find_from.simps(2)
      split: if_splits slot_state.splits)

lemma find_from_insert_at:
  assumes "hm_cap m = 2 ^ n"
  shows "find_from m key hash None (pos (hm_cap m) h t) left = (None, Some j) \<Longrightarrow>
    \<exists>u < left. j = pos (hm_cap m) h (t + u) \<and> \<not> occupied (hm_slots m ! j) \<and>
      (\<forall>v < u. s_state (hm_slots m ! pos (hm_cap m) h (t + v)) \<noteq> SLOT_EMPTY)"
proof (induction left arbitrary: t)
  case 0
  then show ?case by simp
next
  case (Suc left)
  show ?case
  proof (cases "s_state (hm_slots m ! pos (hm_cap m) h t)")
    case SLOT_OCCUPIED
    with Suc.prems have "find_from m key hash None (pos (hm_cap m) h (Suc t)) left = (None, Some j)"
      by (simp add: find_from_Suc [OF assms] Let_def del: find_from.simps(2) split: if_splits)
    from Suc.IH [OF this] SLOT_OCCUPIED show ?thesis 
      by (auto simp: Ex_less_Suc2 All_less_Suc2)
  next
    case SLOT_DELETED
    with Suc.prems have "find_from m key hash (Some (pos (hm_cap m) h t)) (pos (hm_cap m) h (Suc t)) left = (None, Some j)"
      by (simp add: find_from_Suc [OF assms] Let_def del: find_from.simps(2))
    from find_from_reusable [OF assms this] SLOT_DELETED show ?thesis by (auto intro!: exI [of _ 0])
  next
    case SLOT_EMPTY
    with Suc.prems show ?thesis by (auto simp: Let_def intro!: exI [of _ 0])
  qed
qed
section \<open>Correctness of the search\<close>

lemma hm_invD:
  assumes "hm_inv m"
  shows "hm_cap m = length (hm_slots m)" "\<exists>n. hm_cap m = 2 ^ n" "16 \<le> hm_cap m"
    and "\<exists>i < hm_cap m. s_state (hm_slots m ! i) = SLOT_EMPTY"
    and "hm_equal m = (=)"
proof -
  let ?full = "filter (\<lambda>s. s_state s \<noteq> SLOT_EMPTY) (hm_slots m)"
  show "hm_cap m = length (hm_slots m)" "\<exists>n. hm_cap m = 2 ^ n" "16 \<le> hm_cap m" "hm_equal m = (=)"
    using assms by (auto simp: hm_inv_def table_inv_def HASHMAP_MIN_CAP_def)
  have "length ?full < length (hm_slots m)"
    using assms by (auto simp: hm_inv_def)
  then obtain s where "s \<in> set (hm_slots m)" "s_state s = SLOT_EMPTY"
    by (metis (mono_tags, lifting) filter_True less_irrefl)
  then show "\<exists>i < hm_cap m. s_state (hm_slots m ! i) = SLOT_EMPTY"
    using \<open>hm_cap m = length (hm_slots m)\<close> by (auto simp: in_set_conv_nth)
qed

definition at :: "('k, 'v) hashmap \<Rightarrow> nat \<Rightarrow> 'k \<Rightarrow> bool" where
  "at m i k \<longleftrightarrow> i < hm_cap m \<and> occupied (hm_slots m ! i) \<and> s_key (hm_slots m ! i) = Some k"

lemma find_slot_Some:
  assumes inv: "hm_inv m" and f: "find_slot m k (hm_hash m k) = (Some i, q)"
  shows "at m i k"
proof -
  obtain n where cap: "hm_cap m = 2 ^ n" using hm_invD(2) [OF inv] ..
  from f have "find_from m k (hm_hash m k) None (pos (hm_cap m) (unat (hm_hash m k)) 0) (hm_cap m) = (Some i, q)"
    by (simp only: find_slot_def home_pos [OF cap])
  from find_from_found [OF cap this] show ?thesis
    using hm_invD(3,5) [OF inv] by (auto simp: at_def pos_less split: option.splits)
qed

lemma find_slot_None:
  assumes inv: "hm_inv m" and f: "find_slot m k (hm_hash m k) = (None, q)"
  shows "\<not> at m i k"
    and "\<exists>u < hm_cap m. q = Some (pos (hm_cap m) (unat (hm_hash m k)) u) \<and>
      \<not> occupied (hm_slots m ! pos (hm_cap m) (unat (hm_hash m k)) u) \<and>
      (\<forall>v < u. s_state (hm_slots m ! pos (hm_cap m) (unat (hm_hash m k)) v) \<noteq> SLOT_EMPTY)"
proof -
  obtain n where cap: "hm_cap m = 2 ^ n" using hm_invD(2) [OF inv] ..
  let ?p = "pos (hm_cap m) (unat (hm_hash m k))"
  obtain z where "z < hm_cap m" "s_state (hm_slots m ! z) = SLOT_EMPTY"
    using hm_invD(4) [OF inv] by blast
  then have "\<exists>t < hm_cap m. s_state (hm_slots m ! ?p t) = SLOT_EMPTY"
    using pos_surj by metis
  moreover from f have ff: "find_from m k (hm_hash m k) None (?p 0) (hm_cap m) = (None, q)"
    by (simp only: find_slot_def home_pos [OF cap])
  ultimately obtain e where e: "e < hm_cap m" "s_state (hm_slots m ! ?p e) = SLOT_EMPTY" "q \<noteq> None"
    "\<forall>u < e. \<not> matches m k (hm_hash m k) (hm_slots m ! ?p u)"
    using find_from_missing [OF cap ff] by auto
  from e(3) ff obtain j where "find_from m k (hm_hash m k) None (?p 0) (hm_cap m) = (None, Some j)" "q = Some j"
    by auto
  from find_from_insert_at [OF cap this(1)] this(2)
  show "\<exists>u < hm_cap m. q = Some (?p u) \<and> \<not> occupied (hm_slots m ! ?p u) \<and>
      (\<forall>v < u. s_state (hm_slots m ! ?p v) \<noteq> SLOT_EMPTY)" by auto
  show "\<not> at m i k"
  proof
    assume a: "at m i k"
    then have h: "s_hash (hm_slots m ! i) = hm_hash m k" and "path_ok (hm_slots m) i"
      using inv by (auto simp: at_def hm_inv_def table_inv_def)
    then obtain d where d: "i = ?p d" "\<forall>t < d. s_state (hm_slots m ! ?p t) \<noteq> SLOT_EMPTY"
      using hm_invD(1) [OF inv] by (auto simp: path_ok_def)
    have "matches m k (hm_hash m k) (hm_slots m ! ?p d)"
      using a h d(1) hm_invD(5) [OF inv] by (simp add: at_def)
    then have "\<not> d < e" "d \<noteq> e" using e by auto
    then have "e < d" by simp
    with d(2) e(2) show False by simp
  qed
qed

lemma find_slot_iff:
  assumes "hm_inv m"
  shows "fst (find_slot m k (hm_hash m k)) \<noteq> None \<longleftrightarrow> (\<exists>i. at m i k)"
  using find_slot_Some [OF assms] find_slot_None(1) [OF assms]
  by (cases "find_slot m k (hm_hash m k)"; cases "fst (find_slot m k (hm_hash m k))") auto

lemma at_unique: "hm_inv m \<Longrightarrow> at m i k \<Longrightarrow> at m j k \<Longrightarrow> i = j"
  by (auto simp: hm_inv_def table_inv_def at_def distinct_map_filter_iff)

lemma entries_iff:
  assumes "hm_inv m"
  shows "(k, v) \<in> set (entries m) \<longleftrightarrow> (\<exists>i. at m i k \<and> s_value (hm_slots m ! i) = v)"
proof -
  have "(k, v) \<in> set (entries m) \<longleftrightarrow>
      (\<exists>i < hm_cap m. occupied (hm_slots m ! i) \<and> k = the (s_key (hm_slots m ! i)) \<and> v = s_value (hm_slots m ! i))"
    using hm_invD(1) [OF assms] by (auto simp: entries_def image_iff in_set_conv_nth)
  also have "\<dots> \<longleftrightarrow> (\<exists>i. at m i k \<and> s_value (hm_slots m ! i) = v)"
    using assms by (fastforce simp: at_def hm_inv_def table_inv_def)
  finally show ?thesis .
qed

lemma distinct_entries:
  assumes "hm_inv m"
  shows "distinct (map fst (entries m))"
proof -
  have "map Some (map fst (entries m)) = map s_key (filter occupied (hm_slots m))"
    using assms by (auto simp: entries_def hm_inv_def table_inv_def in_set_conv_nth)
  then have "distinct (map Some (map fst (entries m)))"
    using assms by (simp add: hm_inv_def table_inv_def)
  then show ?thesis by (auto simp: distinct_map inj_on_def)
qed

lemma hm_abs_Some:
  assumes "hm_inv m"
  shows "hm_abs m k = Some v \<longleftrightarrow> (\<exists>i. at m i k \<and> s_value (hm_slots m ! i) = v)"
  by (simp add: hm_abs_def map_of_eq_Some_iff distinct_entries [OF assms] entries_iff [OF assms])

lemma hm_abs_at: "hm_inv m \<Longrightarrow> at m i k \<Longrightarrow> hm_abs m k = Some (s_value (hm_slots m ! i))"
  by (auto simp: hm_abs_Some)

lemma hm_abs_None: "hm_inv m \<Longrightarrow> hm_abs m k = None \<longleftrightarrow> (\<forall>i. \<not> at m i k)"
  by (metis hm_abs_Some not_None_eq)

section \<open>Reading\<close>

lemma hashmap_lookup_correct:
  assumes "hm_inv m"
  shows "hashmap_lookup m k = (case hm_abs m k of None \<Rightarrow> None | Some v \<Rightarrow> v)"
proof (cases "find_slot m k (hm_hash m k)")
  case (Pair f q)
  show ?thesis
  proof (cases f)
    case None
    with Pair have "hm_abs m k = None"
      using find_slot_None(1) [OF assms] by (auto simp: hm_abs_None [OF assms])
    with None Pair show ?thesis by (simp add: hashmap_lookup_def)
  next
    case (Some i)
    with Pair have "hm_abs m k = Some (s_value (hm_slots m ! i))"
      using find_slot_Some [OF assms] hm_abs_at [OF assms] by blast
    with Some Pair show ?thesis by (simp add: hashmap_lookup_def)
  qed
qed

lemma hashmap_contains_correct:
  assumes "hm_inv m"
  shows "hashmap_contains m k \<longleftrightarrow> k \<in> dom (hm_abs m)"
  using find_slot_iff [OF assms] hm_abs_None [OF assms]
  by (auto simp: hashmap_contains_def dom_def)

lemma hashmap_size_correct:
  assumes "hm_inv m"
  shows "hashmap_size m = card (dom (hm_abs m))"
proof -
  have "hashmap_size m = length (map fst (entries m))"
    using assms by (simp add: hashmap_size_def hm_inv_def entries_def)
  also have "\<dots> = card (set (map fst (entries m)))"
    using distinct_card [OF distinct_entries [OF assms]] by simp
  finally show ?thesis by (simp add: hm_abs_def dom_map_of_conv_image_fst)
qed

section \<open>Creation\<close>

lemma hm_inv_new: "equal = (=) \<Longrightarrow> hm_inv (hashmap_new hash equal kf vf)"
proof -
  have "(16::nat) = 2 ^ 4" by simp
  then have "\<exists>n. (16::nat) = 2 ^ n" ..
  then show "equal = (=) \<Longrightarrow> hm_inv (hashmap_new hash equal kf vf)"
    by (auto simp: hm_inv_def hashmap_new_def HASHMAP_MIN_CAP_def table_inv_def zero_slot_def)
qed

lemma hm_abs_new [simp]: "hm_abs (hashmap_new hash equal kf vf) = Map.empty"
  by (simp add: hm_abs_def entries_def hashmap_new_def zero_slot_def)

section \<open>Updating one slot\<close>

text \<open>
  Storing an occupied slot, or turning an occupied slot into a tombstone, keeps every probe
  path: no slot becomes empty.
\<close>

lemma path_ok_mono:
  assumes "path_ok sl i" "length sl' = length sl" "s_hash (sl' ! i) = s_hash (sl ! i)"
    and keep: "\<And>t. t < length sl \<Longrightarrow> s_state (sl ! t) \<noteq> SLOT_EMPTY \<Longrightarrow> s_state (sl' ! t) \<noteq> SLOT_EMPTY"
  shows "path_ok sl' i"
proof -
  let ?p = "pos (length sl) (unat (s_hash (sl ! i)))"
  from assms(1) obtain d where d: "d < length sl" "i = ?p d"
    "\<forall>t < d. s_state (sl ! ?p t) \<noteq> SLOT_EMPTY"
    unfolding path_ok_def by blast
  then have "\<forall>t < d. s_state (sl' ! ?p t) \<noteq> SLOT_EMPTY"
    by (metis keep pos_less less_nat_zero_code not_gr_zero)
  with d(1,2) show ?thesis unfolding path_ok_def assms(2,3) by blast
qed

lemma path_ok_update:
  assumes "path_ok sl i" "j < length sl" "i \<noteq> j \<or> s_hash s = s_hash (sl ! j)" "s_state s \<noteq> SLOT_EMPTY"
  shows "path_ok (sl[j := s]) i"
  by (rule path_ok_mono [OF assms(1)]) (use assms in \<open>auto simp: nth_list_update\<close>)

lemma table_inv_occupy:
  assumes inv: "table_inv hash sl" and j: "j < length sl" "\<not> occupied (sl ! j)"
    and new: "occupied s" "s_key s = Some k" "s_hash s = hash k"
    and fresh: "Some k \<notin> s_key ` set (filter occupied sl)"
    and path: "d < length sl" "j = pos (length sl) (unat (hash k)) d"
      "\<forall>t < d. s_state (sl ! pos (length sl) (unat (hash k)) t) \<noteq> SLOT_EMPTY"
  shows "table_inv hash (sl[j := s])"
proof -
  have "path_ok (sl[j := s]) j"
    using j path new by (auto simp: path_ok_def nth_list_update)
  moreover have "path_ok (sl[j := s]) i" if "i < length sl" "i \<noteq> j" "occupied (sl ! i)" for i
    using inv that j new by (intro path_ok_update) (auto simp: table_inv_def)
  moreover have "distinct (map s_key (filter occupied (sl[j := s])))"
    using inv j new fresh
    by (auto simp: table_inv_def distinct_map_filter_iff nth_list_update image_iff in_set_conv_nth)
  ultimately show ?thesis
    using inv new j by (auto simp: table_inv_def nth_list_update)
qed

lemma table_inv_tombstone:
  assumes inv: "table_inv hash sl" and j: "j < length sl" and s: "s_state s = SLOT_DELETED"
  shows "table_inv hash (sl[j := s])"
proof -
  have "path_ok (sl[j := s]) i" if "i < length sl" "i \<noteq> j" "occupied (sl ! i)" for i
    using inv that j s by (intro path_ok_update) (auto simp: table_inv_def)
  moreover have "distinct (map s_key (filter occupied (sl[j := s])))"
    using inv j s by (auto simp: table_inv_def distinct_map_filter_iff nth_list_update)
  ultimately show ?thesis
    using inv j s by (auto simp: table_inv_def nth_list_update)
qed

lemma table_inv_revalue:
  assumes inv: "table_inv hash sl" and j: "j < length sl" "occupied (sl ! j)"
  shows "table_inv hash (sl[j := (sl ! j)\<lparr>s_value := v\<rparr>])"
proof -
  have "path_ok (sl[j := (sl ! j)\<lparr>s_value := v\<rparr>]) i" if "i < length sl" "occupied (sl ! i)" for i
    using inv that j by (intro path_ok_update) (auto simp: table_inv_def)
  moreover have "distinct (map s_key (filter occupied (sl[j := (sl ! j)\<lparr>s_value := v\<rparr>])))"
    using inv j by (simp add: table_inv_def map_filter_update)
  ultimately show ?thesis
    using inv j by (auto simp: table_inv_def nth_list_update)
qed

section \<open>Rehashing\<close>

lemma probe_free_correct:
  assumes cap: "length sl = 2 ^ n"
  shows "\<exists>u < left. \<not> occupied (sl ! pos (length sl) h (t + u)) \<Longrightarrow>
    \<exists>u < left. probe_free sl (length sl - 1) (pos (length sl) h t) left = Some (pos (length sl) h (t + u)) \<and>
      \<not> occupied (sl ! pos (length sl) h (t + u)) \<and> (\<forall>v < u. occupied (sl ! pos (length sl) h (t + v)))"
proof (induction left arbitrary: t)
  case 0
  then show ?case by simp
next
  case (Suc left)
  show ?case
  proof (cases "occupied (sl ! pos (length sl) h t)")
    case True
    with Suc.prems have "\<exists>u < left. \<not> occupied (sl ! pos (length sl) h (Suc t + u))"
      by (auto simp: Ex_less_Suc2)
    from Suc.IH [OF this] show ?thesis
      using True step_pos [OF cap, of h t] by (auto simp: Ex_less_Suc2 All_less_Suc2)
  next
    case False
    then show ?thesis by (auto simp: Ex_less_Suc2)
  qed
qed

definition no_tombstone :: "('k, 'v) slot list \<Rightarrow> bool" where
  "no_tombstone sl \<longleftrightarrow> (\<forall>s \<in> set sl. s_state s \<noteq> SLOT_DELETED)"

lemma resize_step:
  assumes inv: "table_inv hash new" and nt: "no_tombstone new"
    and room: "length (filter occupied new) < length new"
    and s: "occupied s" "s_key s = Some k" "s_hash s = hash k"
    and fresh: "Some k \<notin> s_key ` set (filter occupied new)"
  shows "\<exists>j. probe_free new (length new - 1) (unat (s_hash s) AND (length new - 1)) (length new) = Some j \<and>
    table_inv hash (new[j := s]) \<and> no_tombstone (new[j := s]) \<and>
    length (filter occupied (new[j := s])) = Suc (length (filter occupied new)) \<and>
    set (filter occupied (new[j := s])) = insert s (set (filter occupied new))"
proof -
  obtain n where n: "length new = 2 ^ n" using inv by (auto simp: table_inv_def)
  let ?p = "pos (length new) (unat (hash k))"
  from room obtain z where "z < length new" "\<not> occupied (new ! z)"
    by (metis (mono_tags, lifting) filter_True in_set_conv_nth less_irrefl)
  then have "\<exists>u < length new. \<not> occupied (new ! ?p (0 + u))" using pos_surj by (metis add_0)
  from probe_free_correct [OF n this] obtain u where u: "u < length new"
    "probe_free new (length new - 1) (?p 0) (length new) = Some (?p u)"
    "\<not> occupied (new ! ?p u)" "\<forall>v < u. occupied (new ! ?p v)" by auto
  have len: "?p u < length new" using u(1) by (intro pos_less) linarith
  have "table_inv hash (new[?p u := s])"
    using u by (intro table_inv_occupy [OF inv len u(3) s fresh u(1)]) auto
  moreover have "no_tombstone (new[?p u := s])"
    using nt s(1) by (auto simp: no_tombstone_def dest: set_update_subset_insert [THEN subsetD])
  moreover have "length (filter occupied (new[?p u := s])) = Suc (length (filter occupied new))"
    using length_filter_update [OF len, of occupied s] u(3) s(1) by simp
  moreover have "set (filter occupied (new[?p u := s])) = insert s (set (filter occupied new))"
    using len u(3) s(1) by (auto simp: in_set_conv_nth nth_list_update) metis+
  moreover have "probe_free new (length new - 1) (unat (s_hash s) AND (length new - 1)) (length new) = Some (?p u)"
    using u(2) s(3) by (simp only: home_pos [OF n])
  ultimately show ?thesis by blast
qed

lemma resize_loop_correct:
  assumes "table_inv hash new" "no_tombstone new"
    and "length (filter occupied old) + length (filter occupied new) < length new"
    and "\<forall>s \<in> set old. occupied s \<longrightarrow> (\<exists>k. s_key s = Some k \<and> s_hash s = hash k)"
    and "distinct (map s_key (filter occupied old))"
    and "s_key ` set (filter occupied old) \<inter> s_key ` set (filter occupied new) = {}"
  shows "\<exists>new'. resize_loop old (length new) new = Some new' \<and> length new' = length new \<and>
    table_inv hash new' \<and> no_tombstone new' \<and>
    length (filter occupied new') = length (filter occupied old) + length (filter occupied new) \<and>
    set (filter occupied new') = set (filter occupied old) \<union> set (filter occupied new)"
  using assms
proof (induction old arbitrary: new)
  case Nil
  then show ?case by simp
next
  case (Cons s old)
  show ?case
  proof (cases "occupied s")
    case False
    with Cons show ?thesis by simp
  next
    case True
    with Cons.prems obtain k where k: "s_key s = Some k" "s_hash s = hash k" by auto
    have "length (filter occupied new) < length new" using Cons.prems(3) True by simp
    moreover have "Some k \<notin> s_key ` set (filter occupied new)"
      using Cons.prems(6) True k(1) by auto
    ultimately obtain j where j:
      "probe_free new (length new - 1) (unat (s_hash s) AND (length new - 1)) (length new) = Some j"
      "table_inv hash (new[j := s])" "no_tombstone (new[j := s])"
      "length (filter occupied (new[j := s])) = Suc (length (filter occupied new))"
      "set (filter occupied (new[j := s])) = insert s (set (filter occupied new))"
      using resize_step [OF Cons.prems(1,2) _ True k] by blast
    have "\<exists>new'. resize_loop old (length (new[j := s])) (new[j := s]) = Some new' \<and>
       length new' = length (new[j := s]) \<and> table_inv hash new' \<and> no_tombstone new' \<and>
       length (filter occupied new') = length (filter occupied old) + length (filter occupied (new[j := s])) \<and>
       set (filter occupied new') = set (filter occupied old) \<union> set (filter occupied (new[j := s]))"
    proof (rule Cons.IH)
      show "s_key ` set (filter occupied old) \<inter> s_key ` set (filter occupied (new[j := s])) = {}"
        unfolding j(5) using Cons.prems(5,6) True by auto
    qed (use j(2-4) Cons.prems True in auto)
    with j True show ?thesis by auto
  qed
qed
lemma resize_correct:
  fixes m :: "('k, 'v) hashmap"
  assumes inv: "hm_inv m" and cap: "\<exists>n. new_cap = 2 ^ n" and room: "hm_count m < new_cap"
  shows "\<exists>sl. resize m new_cap = Some (m\<lparr>hm_slots := sl, hm_cap := new_cap, hm_occupied := hm_count m\<rparr>) \<and>
    length sl = new_cap \<and> table_inv (hm_hash m) sl \<and> no_tombstone sl \<and>
    length (filter occupied sl) = hm_count m \<and>
    set (filter occupied sl) = set (filter occupied (hm_slots m))"
proof -
  let ?new = "replicate new_cap zero_slot :: ('k, 'v) slot list"
  have new: "table_inv (hm_hash m) ?new" "no_tombstone ?new"
    using cap by (auto simp: table_inv_def no_tombstone_def zero_slot_def)
  have none: "filter occupied ?new = []"
    by (simp add: zero_slot_def)
  have "\<exists>sl. resize_loop (hm_slots m) (length ?new) ?new = Some sl \<and> length sl = length ?new \<and>
      table_inv (hm_hash m) sl \<and> no_tombstone sl \<and>
      length (filter occupied sl) = length (filter occupied (hm_slots m)) + length (filter occupied ?new) \<and>
      set (filter occupied sl) = set (filter occupied (hm_slots m)) \<union> set (filter occupied ?new)"
  proof (rule resize_loop_correct [OF new])
    show "\<forall>s \<in> set (hm_slots m). occupied s \<longrightarrow> (\<exists>k. s_key s = Some k \<and> s_hash s = hm_hash m k)"
      using inv by (auto simp: hm_inv_def table_inv_def in_set_conv_nth)
  qed (use inv room in \<open>auto simp: none hm_inv_def table_inv_def\<close>)
  then show ?thesis
    using inv by (auto simp: resize_def none hm_inv_def)
qed

lemma no_tombstone_full:
  "no_tombstone sl \<Longrightarrow> filter (\<lambda>s. s_state s \<noteq> SLOT_EMPTY) sl = filter occupied sl"
  by (rule filter_cong) (auto simp: no_tombstone_def intro: slot_state.exhaust)

lemma hm_abs_eqI:
  assumes "hm_inv m" "hm_inv m'"
    and "set (filter occupied (hm_slots m')) = set (filter occupied (hm_slots m))"
  shows "hm_abs m' = hm_abs m"
proof -
  have "set (entries m') = set (entries m)"
    using assms(3) by (simp add: entries_def)
  then show ?thesis
    using map_of_eqI distinct_entries assms(1,2) by (metis hm_abs_def map_of_inject_set)
qed

text \<open>The table size that \<open>hashmap_insert\<close> asks for leaves at least a quarter of it free.\<close>

lemma grow_correct:
  assumes inv: "hm_inv m"
    and c: "c = (if (hm_count m + 1) * 2 > hm_cap m then hm_cap m * 2 else hm_cap m)"
  shows "\<exists>m'. resize m c = Some m' \<and>
    hm_inv m' \<and> hm_abs m' = hm_abs m \<and> (hm_occupied m' + 1) * 4 < hm_cap m' * 3 \<and> hm_cap m' = c \<and>
    hm_count m' = hm_count m \<and> hm_hash m' = hm_hash m \<and> hm_key_free m' = hm_key_free m \<and>
    hm_value_free m' = hm_value_free m \<and>
    set (filter occupied (hm_slots m')) = set (filter occupied (hm_slots m))"
proof -
  obtain n where n: "hm_cap m = 2 ^ n" using hm_invD(2) [OF inv] ..
  then have "hm_cap m * 2 = 2 ^ Suc n" by simp
  with n have pow: "\<exists>k. c = 2 ^ k" unfolding c by metis
  have "hm_count m \<le> hm_occupied m"
    using inv by (auto simp: hm_inv_def length_filter_conv_card intro!: card_mono)
  then have cnt: "hm_count m < c" "(hm_count m + 1) * 4 < c * 3" "hm_cap m \<le> c"
    using inv hm_invD(3) [OF inv] by (auto simp: hm_inv_def c)
  from resize_correct [OF inv pow cnt(1)] obtain sl where sl:
    "resize m c = Some (m\<lparr>hm_slots := sl, hm_cap := c, hm_occupied := hm_count m\<rparr>)"
    "length sl = c" "table_inv (hm_hash m) sl" "no_tombstone sl" "length (filter occupied sl) = hm_count m"
    "set (filter occupied sl) = set (filter occupied (hm_slots m))" by blast
  let ?m = "m\<lparr>hm_slots := sl, hm_cap := c, hm_occupied := hm_count m\<rparr>"
  have "HASHMAP_MIN_CAP \<le> c" using cnt(3) inv by (simp add: hm_inv_def)
  then have i: "hm_inv ?m"
    using sl cnt(2) hm_invD(5) [OF inv] by (simp add: hm_inv_def no_tombstone_full)
  have "hm_abs ?m = hm_abs m"
    using hm_abs_eqI [OF inv i] sl(6) by simp
  with i sl cnt(2) show ?thesis by simp
qed

section \<open>Insertion\<close>

lemma at_occupy:
  "hm_inv m \<Longrightarrow> j < hm_cap m \<Longrightarrow>
   at (occupy_slot m j k v h) i x \<longleftrightarrow> (if i = j then x = k else at m i x)"
  by (auto simp: at_def hm_inv_def occupy_slot_def nth_list_update)

lemma store_new:
  assumes inv: "hm_inv m" and f: "find_slot m k (hm_hash m k) = (None, q)"
    and load: "(hm_occupied m + 1) * 4 < hm_cap m * 3"
  shows "\<exists>j. q = Some j \<and> hm_inv (occupy_slot m j k v (hm_hash m k)) \<and>
    hm_abs (occupy_slot m j k v (hm_hash m k)) = (hm_abs m)(k \<mapsto> v)"
proof -
  let ?p = "pos (hm_cap m) (unat (hm_hash m k))"
  let ?s = "\<lparr>s_key = Some k, s_value = v, s_hash = hm_hash m k, s_state = SLOT_OCCUPIED\<rparr>"
  note len = hm_invD(1) [OF inv, symmetric]
  from find_slot_None(2) [OF inv f] obtain u where u: "u < hm_cap m" "q = Some (?p u)"
    "\<not> occupied (hm_slots m ! ?p u)" "\<forall>v < u. s_state (hm_slots m ! ?p v) \<noteq> SLOT_EMPTY" by blast
  let ?m = "occupy_slot m (?p u) k v (hm_hash m k)"
  have j: "?p u < length (hm_slots m)" using u(1) unfolding len by (intro pos_less) linarith
  have fresh: "\<not> at m i k" for i by (rule find_slot_None(1) [OF inv f])
  have "Some k \<notin> s_key ` set (filter occupied (hm_slots m))"
    using fresh unfolding at_def len [symmetric] by (fastforce simp: in_set_conv_nth)
  then have "table_inv (hm_hash m) ((hm_slots m)[?p u := ?s])"
    using inv u j len by (intro table_inv_occupy [where d = u and k = k]) (auto simp: hm_inv_def)
  then have i: "hm_inv ?m"
    using inv load u(3) len length_filter_update [OF j, of occupied ?s]
      length_filter_update [OF j, of "\<lambda>s. s_state s \<noteq> SLOT_EMPTY" ?s]
    by (auto simp: hm_inv_def occupy_slot_def)
  have "hm_abs ?m x = Some w \<longleftrightarrow> ((hm_abs m)(k \<mapsto> v)) x = Some w" for x w
  proof (cases "x = k")
    case True
    have "at ?m (?p u) k" using at_occupy [OF inv] j len by simp
    from hm_abs_at [OF i this] True show ?thesis using j by (simp add: occupy_slot_def)
  next
    case False
    have "at m y x \<Longrightarrow> y \<noteq> ?p u \<and> s_value (hm_slots ?m ! y) = s_value (hm_slots m ! y)" for y
      using u(3) j by (auto simp: at_def occupy_slot_def nth_list_update)
    with False show ?thesis using j len
      by (auto simp: hm_abs_Some [OF i] hm_abs_Some [OF inv] at_occupy [OF inv])
  qed
  then have "hm_abs ?m = (hm_abs m)(k \<mapsto> v)" by (rule map_eqI_Some)
  with u(2) i show ?thesis by blast
qed

lemma store_existing:
  fixes m :: "('k, 'v) hashmap" and v :: "'v option"
  assumes inv: "hm_inv m" and a: "at m i k"
  defines "m' \<equiv> m\<lparr>hm_slots := (hm_slots m)[i := (hm_slots m ! i)\<lparr>s_value := v\<rparr>]\<rparr>"
  shows "hm_inv m'" "hm_abs m' = (hm_abs m)(k \<mapsto> v)"
proof -
  note len = hm_invD(1) [OF inv, symmetric]
  let ?s = "(hm_slots m ! i)\<lparr>s_value := v\<rparr>"
  have i: "i < length (hm_slots m)" using a len by (simp add: at_def)
  show inv': "hm_inv m'"
    using inv a i table_inv_revalue [OF _ i, of "hm_hash m" v] length_filter_update [OF i, of occupied ?s]
      length_filter_update [OF i, of "\<lambda>s. s_state s \<noteq> SLOT_EMPTY" ?s]
    by (auto simp: hm_inv_def m'_def at_def)
  have at: "at m' j x \<longleftrightarrow> at m j x" for j x
    using a i len by (auto simp: at_def m'_def nth_list_update)
  have "hm_abs m' x = Some w \<longleftrightarrow> ((hm_abs m)(k \<mapsto> v)) x = Some w" for x w
  proof (cases "x = k")
    case True
    have "hm_abs m' k = Some v" using hm_abs_at [OF inv', of i k] a at i by (simp add: m'_def)
    with True show ?thesis by simp
  next
    case False
    with a have "at m j x \<Longrightarrow> s_value (hm_slots m' ! j) = s_value (hm_slots m ! j)" for j
      using i by (auto simp: at_def m'_def nth_list_update)
    with False show ?thesis by (auto simp: hm_abs_Some [OF inv'] hm_abs_Some [OF inv] at)
  qed
  then show "hm_abs m' = (hm_abs m)(k \<mapsto> v)" by (rule map_eqI_Some)
qed

text \<open>
  The destructor calls for one entry, and those of an insertion: on a replace, the new key and
  the old value.
\<close>

definition setup_frees :: "bool \<Rightarrow> bool \<Rightarrow> 'k \<times> 'v option \<Rightarrow> ('k, 'v) freed list" where
  "setup_frees kf vf = (\<lambda>(k, v). (if kf then [Key_freed (Some k)] else []) @
     (if vf then [Value_freed v] else []))"

definition entry_frees :: "('k, 'v) hashmap \<Rightarrow> 'k \<times> 'v option \<Rightarrow> ('k, 'v) freed list" where
  "entry_frees m = setup_frees (hm_key_free m) (hm_value_free m)"

definition insert_frees :: "('k, 'v) hashmap \<Rightarrow> 'k \<Rightarrow> ('k, 'v) freed list" where
  "insert_frees m k = (case hm_abs m k of None \<Rightarrow> [] | Some old \<Rightarrow> entry_frees m (k, old))"

definition same_setup :: "('k, 'v) hashmap \<Rightarrow> ('k, 'v) hashmap \<Rightarrow> bool" where
  "same_setup m m' \<longleftrightarrow> hm_hash m' = hm_hash m \<and> hm_equal m' = hm_equal m \<and>
     hm_key_free m' = hm_key_free m \<and> hm_value_free m' = hm_value_free m"

lemma insert_no_grow:
  assumes inv: "hm_inv m" and load: "(hm_occupied m + 1) * 4 < hm_cap m * 3"
  shows "\<exists>m'. hashmap_insert m k v = Some (m', insert_frees m k) \<and> hm_inv m' \<and>
    hm_abs m' = (hm_abs m)(k \<mapsto> v) \<and> same_setup m m' \<and> hm_cap m' = hm_cap m"
proof (cases "find_slot m k (hm_hash m k)")
  case (Pair fd q)
  show ?thesis
  proof (cases fd)
    case None
    with Pair have f: "find_slot m k (hm_hash m k) = (None, q)" by simp
    have "hm_abs m k = None" using hm_abs_None [OF inv] find_slot_None(1) [OF inv f] by blast
    then show ?thesis
      using store_new [OF inv f load, of v] f load
      by (auto simp: hashmap_insert_def insert_frees_def same_setup_def occupy_slot_def Let_def)
  next
    case (Some i)
    with Pair have f: "find_slot m k (hm_hash m k) = (Some i, q)" by simp
    have a: "at m i k" by (rule find_slot_Some [OF inv f])
    then show ?thesis
      using store_existing [OF inv a, of v] hm_abs_at [OF inv a] f load
      by (auto simp: hashmap_insert_def insert_frees_def entry_frees_def setup_frees_def same_setup_def Let_def)
  qed
qed

lemma hashmap_insert_total:
  assumes inv: "hm_inv m"
  shows "\<exists>m'. hashmap_insert m k v = Some (m', insert_frees m k) \<and> hm_inv m' \<and>
    hm_abs m' = (hm_abs m)(k \<mapsto> v) \<and> same_setup m m' \<and>
    (hm_cap m' = hm_cap m \<or> hm_cap m' < 4 * (hashmap_size m + 1))"
proof (cases "(hm_occupied m + 1) * 4 \<ge> hm_cap m * 3")
  case False
  then show ?thesis using insert_no_grow [OF inv, of k v] by auto
next
  case True
  define c where "c = (if (hm_count m + 1) * 2 > hm_cap m then hm_cap m * 2 else hm_cap m)"
  obtain m1 where m1: "resize m c = Some m1" "hm_inv m1" "hm_abs m1 = hm_abs m"
    "(hm_occupied m1 + 1) * 4 < hm_cap m1 * 3" "hm_cap m1 = c" "hm_hash m1 = hm_hash m" 
    "hm_key_free m1 = hm_key_free m" "hm_value_free m1 = hm_value_free m"
    using grow_correct [OF inv c_def] by blast
  have "hashmap_insert m k v = hashmap_insert m1 k v"
    using True m1(1,4) by (auto simp: hashmap_insert_def c_def)
  moreover have "insert_frees m1 k = insert_frees m k"
    using m1 by (simp only: insert_frees_def entry_frees_def)
  moreover have "same_setup m m1"
    using m1 inv by (simp add: same_setup_def hm_invD(5))
  ultimately show ?thesis
    using insert_no_grow [OF m1(2,4), of k v] m1(3,5)
    by (auto simp: same_setup_def hashmap_size_def c_def)
qed

section \<open>Removal\<close>

lemma clear_slot_correct:
  assumes inv: "hm_inv m" and a: "at m i k"
  shows "hm_inv (clear_slot m i)" "hm_abs (clear_slot m i) = (hm_abs m)(k := None)"
proof -
  note len = hm_invD(1) [OF inv, symmetric]
  let ?s = "(hm_slots m ! i)\<lparr>s_key := None, s_value := None, s_state := SLOT_DELETED\<rparr>"
  have i: "i < length (hm_slots m)" using a len by (simp add: at_def)
  show inv': "hm_inv (clear_slot m i)"
    using inv a i table_inv_tombstone [OF _ i, of "hm_hash m" ?s] length_filter_update [OF i, of occupied ?s]
      length_filter_update [OF i, of "\<lambda>s. s_state s \<noteq> SLOT_EMPTY" ?s]
    by (auto simp: hm_inv_def clear_slot_def at_def)
  have "at (clear_slot m i) j x \<longleftrightarrow> at m j x \<and> j \<noteq> i" for j x
    using i by (auto simp: at_def clear_slot_def nth_list_update)
  moreover have "at m j x \<Longrightarrow> j \<noteq> i \<longleftrightarrow> x \<noteq> k" for j x
    using at_unique [OF inv a, of j] a by (auto simp: at_def)
  ultimately have at: "at (clear_slot m i) j x \<longleftrightarrow> at m j x \<and> x \<noteq> k" for j x by blast
  have val: "at m j x \<Longrightarrow> x \<noteq> k \<Longrightarrow> s_value (hm_slots (clear_slot m i) ! j) = s_value (hm_slots m ! j)" for j x
    using a i by (auto simp: at_def clear_slot_def nth_list_update)
  have "hm_abs (clear_slot m i) x = Some w \<longleftrightarrow> ((hm_abs m)(k := None)) x = Some w" for x w
    using val by (auto simp: hm_abs_Some [OF inv'] hm_abs_Some [OF inv] at)
  then show "hm_abs (clear_slot m i) = (hm_abs m)(k := None)" by (rule map_eqI_Some)
qed

lemma free_entry_at: "at m i k \<Longrightarrow> free_entry m (hm_slots m ! i) = entry_frees m (k, s_value (hm_slots m ! i))"
  by (simp add: free_entry_def entry_frees_def setup_frees_def at_def)

lemma same_setup_clear: "same_setup m (clear_slot m i)"
  by (simp add: same_setup_def clear_slot_def)

lemma hashmap_remove_correct:
  assumes inv: "hm_inv m"
  shows "\<exists>m'. hashmap_remove m k =
      (k \<in> dom (hm_abs m), m', case hm_abs m k of None \<Rightarrow> [] | Some v \<Rightarrow> entry_frees m (k, v)) \<and>
    hm_inv m' \<and> hm_abs m' = (hm_abs m)(k := None) \<and> same_setup m m'"
proof (cases "find_slot m k (hm_hash m k)")
  case (Pair fd q)
  show ?thesis
  proof (cases fd)
    case None
    with Pair have f: "find_slot m k (hm_hash m k) = (None, q)" by simp
    have "hm_abs m k = None" using hm_abs_None [OF inv] find_slot_None(1) [OF inv f] by blast
    with f show ?thesis using inv
      by (auto simp: hashmap_remove_def same_setup_def fun_upd_idem)
  next
    case (Some i)
    with Pair have f: "find_slot m k (hm_hash m k) = (Some i, q)" by simp
    have a: "at m i k" by (rule find_slot_Some [OF inv f])
    show ?thesis
      using clear_slot_correct [OF inv a] hm_abs_at [OF inv a] free_entry_at [OF a] f
      by (auto simp: hashmap_remove_def same_setup_clear)
  qed
qed

lemma free_all_entries:
  assumes "hm_inv m"
  shows "concat (map (free_entry m) (filter occupied (hm_slots m))) = concat (map (entry_frees m) (entries m))"
proof -
  have "free_entry m s = entry_frees m (the (s_key s), s_value s)" if "s \<in> set (filter occupied (hm_slots m))" for s
    using assms that by (auto simp: hm_inv_def table_inv_def in_set_conv_nth free_entry_def entry_frees_def setup_frees_def)
  then have "map (free_entry m) (filter occupied (hm_slots m)) =
      map (\<lambda>s. entry_frees m (the (s_key s), s_value s)) (filter occupied (hm_slots m))"
    by (rule map_cong [OF refl])
  then show ?thesis by (simp only: entries_def map_map comp_def)
qed

lemma hashmap_remove_all_correct:
  assumes inv: "hm_inv m"
  shows "\<exists>m'. hashmap_remove_all m = (m', concat (map (entry_frees m) (entries m))) \<and>
    hm_inv m' \<and> hm_abs m' = Map.empty \<and> same_setup m m'"
proof -
  let ?m = "m\<lparr>hm_count := 0, hm_cap := HASHMAP_MIN_CAP,
        hm_slots := replicate HASHMAP_MIN_CAP zero_slot, hm_occupied := 0\<rparr>"
  have "?m = hashmap_new (hm_hash m) (hm_equal m) (hm_key_free m) (hm_value_free m)"
    by (simp add: hashmap_new_def)
  then have "hm_inv ?m" "hm_abs ?m = Map.empty"
    using hm_inv_new [OF hm_invD(5) [OF inv]] hm_abs_new by metis+
  then show ?thesis
    using free_all_entries [OF inv] by (auto simp: hashmap_remove_all_def same_setup_def)
qed

section \<open>Iteration\<close>

text \<open>What an iterator has still to visit.\<close>

definition iter_rest :: "('k, 'v) hashmap \<Rightarrow> hashmap_iter \<Rightarrow> ('k \<times> 'v option) list" where
  "iter_rest m it = map (\<lambda>s. (the (s_key s), s_value s)) (filter occupied (drop (it_slot it) (hm_slots m)))"

lemma iter_rest_init [simp]: "iter_rest m hashmap_iter_init = entries m"
  by (simp add: iter_rest_def hashmap_iter_init_def entries_def)

lemma hashmap_iter_next_correct:
  assumes "hm_inv m"
  shows "case iter_rest m it of
      [] \<Rightarrow> (\<exists>it'. hashmap_iter_next m it = (None, it') \<and> \<not> it_valid it')
    | (k, v) # r \<Rightarrow> (\<exists>it' i. hashmap_iter_next m it = (Some (Some k, v), it') \<and> iter_rest m it' = r \<and>
        it_valid it' \<and> it_current it' = Some i \<and> i < it_slot it' \<and> at m i k \<and>
        s_value (hm_slots m ! i) = v \<and> it_slot it < it_slot it' \<and> it_slot it' \<le> hm_cap m)"
  using assms
proof (induction m it rule: hashmap_iter_next.induct)
  case (1 m it)
  have len: "length (hm_slots m) = hm_cap m" by (rule hm_invD(1) [OF "1.prems", symmetric])
  show ?case
  proof (cases "it_slot it < hm_cap m")
    case False
    then show ?thesis using len by (simp add: iter_rest_def hashmap_iter_next.simps [of m it])
  next
    case True
    let ?s = "hm_slots m ! it_slot it" and ?it = "it\<lparr>it_slot := it_slot it + 1\<rparr>"
    have d: "drop (it_slot it) (hm_slots m) = ?s # drop (Suc (it_slot it)) (hm_slots m)"
      using True len by (simp add: Cons_nth_drop_Suc)
    show ?thesis
    proof (cases "occupied ?s")
      case occ: True
      with True "1.prems" len obtain k where "s_key ?s = Some k"
        by (auto simp: hm_inv_def table_inv_def)
      with occ True show ?thesis
        by (auto simp: iter_rest_def d at_def hashmap_iter_next.simps [of m it] Let_def)
    next
      case free: False
      have "iter_rest m it = iter_rest m ?it" using free by (simp add: iter_rest_def d)
      moreover have "hashmap_iter_next m it = hashmap_iter_next m ?it"
        using True free by (simp add: hashmap_iter_next.simps [of m it] Let_def)
      ultimately show ?thesis
        using "1.IH" [OF True refl refl free "1.prems"] by (fastforce split: list.splits)
    qed
  qed
qed

lemma iter_rest_clear:
  assumes "i < it_slot it"
  shows "iter_rest (clear_slot m i) it = iter_rest m it"
  using assms by (simp add: iter_rest_def clear_slot_def drop_update_cancel)

text \<open>Removing the entry just returned is safe: the iterator still visits exactly the rest.\<close>

lemma hashmap_iter_remove_correct:
  assumes inv: "hm_inv m" and it: "it_valid it" "it_current it = Some i" "i < it_slot it" "at m i k"
  shows "\<exists>m' it'. hashmap_iter_remove m it = Some (m', it', entry_frees m (k, s_value (hm_slots m ! i))) \<and>
    hm_inv m' \<and> hm_abs m' = (hm_abs m)(k := None) \<and> same_setup m m' \<and> hm_cap m' = hm_cap m \<and>
    it_slot it' = it_slot it \<and> iter_rest m' it' = iter_rest m it"
  using it clear_slot_correct [OF inv it(4)] free_entry_at [OF it(4)]
  by (auto simp: hashmap_iter_remove_def same_setup_clear iter_rest_clear)
    (simp_all add: clear_slot_def iter_rest_def drop_update_cancel)

lemma hashmap_keys_correct:
  assumes "hm_inv m"
  shows "hashmap_keys m = Some (map Some (map fst (entries m)))"
  using assms by (auto simp: hashmap_keys_def Let_def entries_def hm_inv_def table_inv_def in_set_conv_nth)

section \<open>The contract of the map\<close>

text \<open>
  What the clients of the table rely on: an abstract finite map, operations that return under
  the invariant, and the destructor calls. The destructor of a table is the function
  \<open>frees\<close> from an entry to the calls made for it.
\<close>

locale finite_map =
  fixes new :: "'m"
    and insert :: "'m \<Rightarrow> 'k \<Rightarrow> 'v option \<Rightarrow> ('m \<times> 'f list) option"
    and remove :: "'m \<Rightarrow> 'k \<Rightarrow> bool \<times> 'm \<times> 'f list"
    and lookup :: "'m \<Rightarrow> 'k \<Rightarrow> 'v option"
    and contains :: "'m \<Rightarrow> 'k \<Rightarrow> bool"
    and tsize :: "'m \<Rightarrow> nat"
    and abs :: "'m \<Rightarrow> 'k \<Rightarrow> 'v option option"
    and inv :: "'m \<Rightarrow> bool"
    and frees :: "'k \<times> 'v option \<Rightarrow> 'f list"
  assumes new_inv: "inv new"
    and new_abs: "abs new = Map.empty"
    and insert_total: "inv m \<Longrightarrow> \<exists>m'. insert m k v =
          Some (m', case abs m k of None \<Rightarrow> [] | Some old \<Rightarrow> frees (k, old)) \<and>
          inv m' \<and> abs m' = (abs m)(k \<mapsto> v)"
    and remove_total: "inv m \<Longrightarrow> \<exists>m'. remove m k =
          (k \<in> dom (abs m), m', case abs m k of None \<Rightarrow> [] | Some v \<Rightarrow> frees (k, v)) \<and>
          inv m' \<and> abs m' = (abs m)(k := None)"
    and lookup_abs: "inv m \<Longrightarrow> lookup m k = (case abs m k of None \<Rightarrow> None | Some v \<Rightarrow> v)"
    and contains_abs: "inv m \<Longrightarrow> contains m k \<longleftrightarrow> k \<in> dom (abs m)"
    and tsize_abs: "inv m \<Longrightarrow> tsize m = card (dom (abs m))"
    and finite_abs: "inv m \<Longrightarrow> finite (dom (abs m))"
begin

lemma insert_elim:
  assumes "inv m" "insert m k v = Some (m', fr)"
  shows "inv m'" "abs m' = (abs m)(k \<mapsto> v)"
    "fr = (case abs m k of None \<Rightarrow> [] | Some old \<Rightarrow> frees (k, old))"
  using insert_total [OF assms(1), of k v] assms(2) by auto

lemma remove_elim:
  assumes "inv m" "remove m k = (b, m', fr)"
  shows "inv m'" "abs m' = (abs m)(k := None)" "b \<longleftrightarrow> k \<in> dom (abs m)"
    "fr = (case abs m k of None \<Rightarrow> [] | Some v \<Rightarrow> frees (k, v))"
  using remove_total [OF assms(1), of k] assms(2) by auto

lemma insert_lookup:
  assumes "inv m" "insert m k v = Some (m', fr)"
  shows "lookup m' x = (if x = k then v else lookup m x)"
  using insert_elim [OF assms] assms(1) by (simp add: lookup_abs)

lemma remove_contains:
  assumes "inv m" "remove m k = (b, m', fr)"
  shows "contains m' x \<longleftrightarrow> x \<noteq> k \<and> contains m x"
  using remove_elim [OF assms] assms(1) by (auto simp: contains_abs)

lemma insert_size:
  assumes "inv m" "insert m k v = Some (m', fr)"
  shows "tsize m' = (if contains m k then tsize m else tsize m + 1)"
  using insert_elim [OF assms] assms(1)
  by (auto simp: tsize_abs contains_abs finite_abs insert_absorb card_insert_if)

lemma lookup_Some_contains: "inv m \<Longrightarrow> lookup m k = Some v \<Longrightarrow> contains m k"
  by (auto simp: lookup_abs contains_abs split: option.splits)

end

lemma hm_abs_finite: "finite (dom (hm_abs m))"
  by (simp add: hm_abs_def finite_dom_map_of)

definition setup_inv ::
  "('k \<Rightarrow> u32) \<Rightarrow> bool \<Rightarrow> bool \<Rightarrow> ('k, 'v) hashmap \<Rightarrow> bool" where
  "setup_inv hash kf vf m \<longleftrightarrow>
     hm_inv m \<and> hm_hash m = hash \<and> hm_key_free m = kf \<and> hm_value_free m = vf"

lemma setup_finite_map:
  assumes "eq = (=)"
  shows "finite_map (hashmap_new hash eq kf vf) hashmap_insert hashmap_remove hashmap_lookup
    hashmap_contains hashmap_size hm_abs (setup_inv hash kf vf) (setup_frees kf vf)"
proof
  fix m :: "('a, 'b) hashmap" and k :: 'a and v :: "'b option"
  assume i: "setup_inv hash kf vf m"
  then have e: "entry_frees m = setup_frees kf vf" by (simp add: entry_frees_def setup_inv_def)
  show "\<exists>m'. hashmap_insert m k v =
          Some (m', case hm_abs m k of None \<Rightarrow> [] | Some old \<Rightarrow> setup_frees kf vf (k, old)) \<and>
          setup_inv hash kf vf m' \<and> hm_abs m' = (hm_abs m)(k \<mapsto> v)"
    using hashmap_insert_total [of m k v, unfolded insert_frees_def e] i
    by (auto simp: setup_inv_def same_setup_def)
  show "\<exists>m'. hashmap_remove m k =
          (k \<in> dom (hm_abs m), m', case hm_abs m k of None \<Rightarrow> [] | Some v \<Rightarrow> setup_frees kf vf (k, v)) \<and>
          setup_inv hash kf vf m' \<and> hm_abs m' = (hm_abs m)(k := None)"
    using hashmap_remove_correct [of m k, unfolded e] i
    by (auto simp: setup_inv_def same_setup_def)
qed (use assms in \<open>auto simp: setup_inv_def hm_inv_new hashmap_lookup_correct hashmap_contains_correct
      hashmap_size_correct hm_abs_finite\<close>, simp_all add: hashmap_new_def)

text \<open>
  The tables of the daemon: tunnels by remote address (\<open>tunnels\<close>, whose values are freed by
  \<open>tunnel_free\<close>) and clients by MAC address (\<open>mac_index\<close> and the \<open>macs\<close> of a tunnel, whose
  keys are freed).
\<close>

interpretation by_ip: finite_map
  "hashmap_new hashmap_hash_u32 hashmap_equal_u32 False True" hashmap_insert hashmap_remove
  hashmap_lookup hashmap_contains hashmap_size hm_abs "setup_inv hashmap_hash_u32 False True"
  "setup_frees False True"
  by (rule setup_finite_map) (simp add: fun_eq_iff hashmap_equal_u32_def)

interpretation by_mac: finite_map
  "hashmap_new hashmap_hash_str hashmap_equal_str True False" hashmap_insert hashmap_remove
  hashmap_lookup hashmap_contains hashmap_size hm_abs "setup_inv hashmap_hash_str True False"
  "setup_frees True False"
  by (rule setup_finite_map) (simp add: fun_eq_iff hashmap_equal_str_def)

section \<open>Sequences of operations against a reference map\<close>

datatype ('k, 'v) hm_op =
  Op_insert 'k "'v option" | Op_remove 'k | Op_remove_all | Op_lookup 'k | Op_contains 'k | Op_size

datatype 'v hm_obs = Obs_unit | Obs_bool bool | Obs_value "'v option" | Obs_nat nat

fun hm_step ::
  "('k, 'v) hashmap \<Rightarrow> ('k, 'v) hm_op \<Rightarrow> (('k, 'v) hashmap \<times> ('k, 'v) freed list \<times> 'v hm_obs) option" where
  "hm_step m (Op_insert k v) = do { (m', fr) \<leftarrow> hashmap_insert m k v; Some (m', fr, Obs_unit) }"
| "hm_step m (Op_remove k) = (case hashmap_remove m k of (b, m', fr) \<Rightarrow> Some (m', fr, Obs_bool b))"
| "hm_step m Op_remove_all = (case hashmap_remove_all m of (m', fr) \<Rightarrow> Some (m', fr, Obs_unit))"
| "hm_step m (Op_lookup k) = Some (m, [], Obs_value (hashmap_lookup m k))"
| "hm_step m (Op_contains k) = Some (m, [], Obs_bool (hashmap_contains m k))"
| "hm_step m Op_size = Some (m, [], Obs_nat (hashmap_size m))"

fun hm_run ::
  "('k, 'v) hashmap \<Rightarrow> ('k, 'v) hm_op list \<Rightarrow> (('k, 'v) hashmap \<times> ('k, 'v) freed list \<times> 'v hm_obs list) option" where
  "hm_run m [] = Some (m, [], [])"
| "hm_run m (x # xs) = do {
     (m', fr, ob) \<leftarrow> hm_step m x;
     (m'', frs, obs) \<leftarrow> hm_run m' xs;
     Some (m'', fr @ frs, ob # obs)
   }"

text \<open>The reference: a partial function from keys to (possibly \<open>NULL\<close>) values.\<close>

fun spec_step :: "('k \<rightharpoonup> 'v option) \<Rightarrow> ('k, 'v) hm_op \<Rightarrow> ('k \<rightharpoonup> 'v option) \<times> 'v hm_obs" where
  "spec_step a (Op_insert k v) = (a(k \<mapsto> v), Obs_unit)"
| "spec_step a (Op_remove k) = (a(k := None), Obs_bool (k \<in> dom a))"
| "spec_step a Op_remove_all = (Map.empty, Obs_unit)"
| "spec_step a (Op_lookup k) = (a, Obs_value (case a k of None \<Rightarrow> None | Some v \<Rightarrow> v))"
| "spec_step a (Op_contains k) = (a, Obs_bool (k \<in> dom a))"
| "spec_step a Op_size = (a, Obs_nat (card (dom a)))"

fun spec_run :: "('k \<rightharpoonup> 'v option) \<Rightarrow> ('k, 'v) hm_op list \<Rightarrow> ('k \<rightharpoonup> 'v option) \<times> 'v hm_obs list" where
  "spec_run a [] = (a, [])"
| "spec_run a (x # xs) =
     (case spec_step a x of (a', ob) \<Rightarrow> case spec_run a' xs of (a'', obs) \<Rightarrow> (a'', ob # obs))"

lemma hm_step_refines:
  assumes "hm_inv m"
  shows "\<exists>m' fr. hm_step m x = Some (m', fr, snd (spec_step (hm_abs m) x)) \<and> hm_inv m' \<and>
    hm_abs m' = fst (spec_step (hm_abs m) x)"
proof (cases x)
  case (Op_insert k v)
  then show ?thesis using hashmap_insert_total [OF assms, of k v] by auto
next
  case (Op_remove k)
  then show ?thesis using hashmap_remove_correct [OF assms, of k] by auto
next
  case Op_remove_all
  then show ?thesis using hashmap_remove_all_correct [OF assms] by auto
qed (use assms in \<open>auto simp: hashmap_lookup_correct hashmap_contains_correct hashmap_size_correct\<close>)

lemma hm_run_refines_from:
  "hm_inv m \<Longrightarrow> \<exists>m' fr. hm_run m xs = Some (m', fr, snd (spec_run (hm_abs m) xs)) \<and> hm_inv m' \<and>
    hm_abs m' = fst (spec_run (hm_abs m) xs)"
proof (induction xs arbitrary: m)
  case Nil
  then show ?case by simp
next
  case (Cons x xs)
  from hm_step_refines [OF Cons.prems, of x] obtain m1 fr1 where
    1: "hm_step m x = Some (m1, fr1, snd (spec_step (hm_abs m) x))" "hm_inv m1"
    "hm_abs m1 = fst (spec_step (hm_abs m) x)" by blast
  from Cons.IH [OF 1(2)] 1 show ?case
    by (auto split: prod.splits)
qed

section \<open>Ownership\<close>

fun freed_keys :: "('k, 'v) freed list \<Rightarrow> 'k multiset" where
  "freed_keys [] = {#}"
| "freed_keys (Key_freed (Some k) # fr) = add_mset k (freed_keys fr)"
| "freed_keys (_ # fr) = freed_keys fr"

fun freed_values :: "('k, 'v) freed list \<Rightarrow> 'v option multiset" where
  "freed_values [] = {#}"
| "freed_values (Value_freed v # fr) = add_mset v (freed_values fr)"
| "freed_values (_ # fr) = freed_values fr"

fun inserted_keys :: "('k, 'v) hm_op list \<Rightarrow> 'k multiset" where
  "inserted_keys [] = {#}"
| "inserted_keys (Op_insert k v # xs) = add_mset k (inserted_keys xs)"
| "inserted_keys (_ # xs) = inserted_keys xs"

fun inserted_values :: "('k, 'v) hm_op list \<Rightarrow> 'v option multiset" where
  "inserted_values [] = {#}"
| "inserted_values (Op_insert k v # xs) = add_mset v (inserted_values xs)"
| "inserted_values (_ # xs) = inserted_values xs"

definition live_keys :: "('k, 'v) hashmap \<Rightarrow> 'k multiset" where
  "live_keys m = mset (map fst (entries m))"

definition live_values :: "('k, 'v) hashmap \<Rightarrow> 'v option multiset" where
  "live_values m = mset (map snd (entries m))"

lemma freed_keys_append [simp]: "freed_keys (xs @ ys) = freed_keys xs + freed_keys ys"
  by (induction xs rule: freed_keys.induct) auto

lemma freed_values_append [simp]: "freed_values (xs @ ys) = freed_values xs + freed_values ys"
  by (induction xs rule: freed_values.induct) auto

lemma frees_entry:
  "freed_keys (setup_frees kf vf (k, v)) = (if kf then {#k#} else {#})"
  "freed_values (setup_frees kf vf (k, v)) = (if vf then {#v#} else {#})"
  by (auto simp: setup_frees_def)

lemma frees_entries:
  "kf \<Longrightarrow> freed_keys (concat (map (setup_frees kf vf) es)) = mset (map fst es)"
  "vf \<Longrightarrow> freed_values (concat (map (setup_frees kf vf) es)) = mset (map snd es)"
  by (induction es) (auto simp: frees_entry)

text \<open>The live keys and values are determined by the abstract map.\<close>

lemma live_keys_abs: "hm_inv m \<Longrightarrow> live_keys m = mset_set (dom (hm_abs m))"
proof -
  assume i: "hm_inv m"
  have "set (map fst (entries m)) = dom (hm_abs m)"
    by (simp add: hm_abs_def dom_map_of_conv_image_fst)
  then show ?thesis
    using mset_set_set [OF distinct_entries [OF i]] by (simp add: live_keys_def)
qed

lemma live_values_abs:
  assumes i: "hm_inv m"
  shows "live_values m = {#the (hm_abs m k). k \<in># live_keys m#}"
proof -
  have "the (hm_abs m k) = v" if "(k, v) \<in> set (entries m)" for k v
    using that distinct_entries [OF i] by (simp add: hm_abs_def)
  then have "map snd (entries m) = map (\<lambda>k. the (hm_abs m k)) (map fst (entries m))"
    by auto
  then show ?thesis by (simp only: live_values_def live_keys_def mset_map)
qed

lemma live_update:
  assumes "hm_inv m" "hm_inv m'" "hm_abs m' = (hm_abs m)(k \<mapsto> v)"
  shows "live_keys m' + (if k \<in> dom (hm_abs m) then {#k#} else {#}) = add_mset k (live_keys m)"
    and "live_values m' + (case hm_abs m k of None \<Rightarrow> {#} | Some old \<Rightarrow> {#old#}) = add_mset v (live_values m)"
proof -
  let ?d = "dom (hm_abs m)"
  have fin: "finite ?d" by (rule hm_abs_finite)
  show "live_keys m' + (if k \<in> ?d then {#k#} else {#}) = add_mset k (live_keys m)"
    using assms fin by (auto simp: live_keys_abs insert_absorb)
  have rest: "{#the (hm_abs m' x). x \<in># mset_set (?d - {k})#} = {#the (hm_abs m x). x \<in># mset_set (?d - {k})#}"
    using fin assms(3) by (intro image_mset_cong) auto
  have "live_values m' = add_mset v {#the (hm_abs m x). x \<in># mset_set (?d - {k})#}"
  proof -
    have "dom (hm_abs m') = insert k ?d" using assms(3) by simp
    then have "mset_set (dom (hm_abs m')) = add_mset k (mset_set (?d - {k}))"
      using fin by (simp add: mset_set.insert_remove)
    then show ?thesis
      using rest assms(2,3) by (simp add: live_values_abs live_keys_abs)
  qed
  moreover have "live_values m = {#the (hm_abs m x). x \<in># mset_set (?d - {k})#} +
      (case hm_abs m k of None \<Rightarrow> {#} | Some old \<Rightarrow> {#old#})"
  proof (cases "hm_abs m k")
    case None
    then have "?d - {k} = ?d" by auto
    with None assms(1) show ?thesis by (simp add: live_values_abs live_keys_abs)
  next
    case (Some old)
    then have "mset_set ?d = add_mset k (mset_set (?d - {k}))"
      using fin by (metis domI mset_set.remove)
    with Some assms(1) show ?thesis by (simp add: live_values_abs live_keys_abs)
  qed
  ultimately show "live_values m' + (case hm_abs m k of None \<Rightarrow> {#} | Some old \<Rightarrow> {#old#}) = add_mset v (live_values m)"
    by simp
qed

lemma live_delete:
  assumes "hm_inv m" "hm_inv m'" "hm_abs m' = (hm_abs m)(k := None)"
  shows "live_keys m' + (if k \<in> dom (hm_abs m) then {#k#} else {#}) = live_keys m"
    and "live_values m' + (case hm_abs m k of None \<Rightarrow> {#} | Some old \<Rightarrow> {#old#}) = live_values m"
proof -
  let ?d = "dom (hm_abs m)"
  have fin: "finite ?d" by (rule hm_abs_finite)
  have d: "dom (hm_abs m') = ?d - {k}" using assms(3) by simp
  have "mset_set (?d - {k}) + (if k \<in> ?d then {#k#} else {#}) = mset_set ?d"
    using fin by (auto simp: mset_set.remove)
  then show keys: "live_keys m' + (if k \<in> ?d then {#k#} else {#}) = live_keys m"
    using assms d by (simp only: live_keys_abs)
  have "live_values m' = {#the (hm_abs m x). x \<in># live_keys m'#}"
    unfolding live_values_abs [OF assms(2)] using assms(3) d fin
    by (intro image_mset_cong) (auto simp: live_keys_abs [OF assms(2)])
  then show "live_values m' + (case hm_abs m k of None \<Rightarrow> {#} | Some old \<Rightarrow> {#old#}) = live_values m"
    unfolding live_values_abs [OF assms(1)] keys [symmetric] by (auto split: option.splits)
qed

lemma hm_step_ownership:
  assumes inv: "hm_inv m" and step: "hm_step m x = Some (m', fr, ob)"
  shows "hm_inv m' \<and> same_setup m m' \<and>
      (hm_key_free m \<longrightarrow> live_keys m' + freed_keys fr = live_keys m + inserted_keys [x]) \<and>
      (hm_value_free m \<longrightarrow> live_values m' + freed_values fr = live_values m + inserted_values [x])"
proof (cases x)
  case (Op_insert k v)
  with step hashmap_insert_total [OF inv, of k v]
  have "hm_inv m'" "hm_abs m' = (hm_abs m)(k \<mapsto> v)" "same_setup m m'" "fr = insert_frees m k" by auto
  with Op_insert live_update [OF inv this(1,2)]
  show ?thesis
    by (cases "hm_abs m k") (auto simp: insert_frees_def entry_frees_def frees_entry domIff)
next
  case (Op_remove k)
  with step hashmap_remove_correct [OF inv, of k]
  have "hm_inv m'" "hm_abs m' = (hm_abs m)(k := None)" "same_setup m m'"
    "fr = (case hm_abs m k of None \<Rightarrow> [] | Some v \<Rightarrow> entry_frees m (k, v))" by auto
  with Op_remove live_delete [OF inv this(1,2)]
  show ?thesis
    by (cases "hm_abs m k") (auto simp: entry_frees_def frees_entry domIff)
next
  case Op_remove_all
  with step hashmap_remove_all_correct [OF inv]
  have "hm_inv m'" "hm_abs m' = Map.empty" "same_setup m m'"
    "fr = concat (map (entry_frees m) (entries m))" by auto
  with Op_remove_all
  show ?thesis
    by (simp add: entry_frees_def frees_entries live_values_abs live_keys_abs [of m'])
      (simp add: live_keys_def live_values_def flip: live_values_abs [OF inv])
qed (use inv step in \<open>auto simp: same_setup_def\<close>)

lemma inserted_Cons:
  "inserted_keys (x # xs) = inserted_keys [x] + inserted_keys xs"
  "inserted_values (x # xs) = inserted_values [x] + inserted_values xs"
  by (cases x; simp)+

lemma hm_run_ownership:
  assumes "hm_inv m" "hm_run m xs = Some (m', fr, obs)"
  shows "(hm_key_free m \<longrightarrow> live_keys m' + freed_keys fr = live_keys m + inserted_keys xs) \<and>
    (hm_value_free m \<longrightarrow> live_values m' + freed_values fr = live_values m + inserted_values xs)"
  using assms
proof (induction xs arbitrary: m fr obs)
  case Nil
  then show ?case by simp
next
  case (Cons x xs)
  from Cons.prems(2) obtain m1 fr1 ob1 fr2 obs2 where
    1: "hm_step m x = Some (m1, fr1, ob1)" "hm_run m1 xs = Some (m', fr2, obs2)" "fr = fr1 @ fr2"
    by (auto simp: bind_eq_Some_conv)
  note step = hm_step_ownership [OF Cons.prems(1) 1(1)]
  from Cons.IH [OF conjunct1 [OF step] 1(2)] step show ?case
    unfolding 1(3) inserted_Cons [of x xs]
    by (auto simp: same_setup_def add.assoc) (metis add.assoc add.commute)+
qed

lemma hm_run_setup:
  "hm_inv m \<Longrightarrow> hm_run m xs = Some (m', fr, obs) \<Longrightarrow> same_setup m m'"
proof (induction xs arbitrary: m fr obs)
  case Nil
  then show ?case by (simp add: same_setup_def)
next
  case (Cons x xs)
  then obtain m1 fr1 ob1 fr2 obs2 where
    "hm_step m x = Some (m1, fr1, ob1)" "hm_run m1 xs = Some (m', fr2, obs2)"
    by (auto simp: bind_eq_Some_conv)
  with Cons hm_step_ownership [OF Cons.prems(1) this(1)] show ?case
    by (fastforce simp: same_setup_def)
qed

section \<open>Properties\<close>

text \<open>
  C16. Whatever the hash function, every sequence of insert, remove, remove-all, lookup,
  contains and size calls on a new table returns (no write outside the table, no endless
  probe) and gives exactly the observations of a finite map.
\<close>

theorem hm_run_refines:
  "\<exists>m' fr. hm_run (hashmap_new h hashmap_equal_u32 kf vf) xs =
      Some (m', fr, snd (spec_run Map.empty xs)) \<and> hm_abs m' = fst (spec_run Map.empty xs)"
  using hm_run_refines_from [OF hm_inv_new [of hashmap_equal_u32 h kf vf], of xs]
  by (auto simp: fun_eq_iff hashmap_equal_u32_def)

lemma hashmap_destroy_frees:
  assumes "hm_inv m" "hm_key_free m" "hm_value_free m"
  shows "freed_keys (hashmap_destroy m) = live_keys m"
    and "freed_values (hashmap_destroy m) = live_values m"
  using assms
  by (simp_all add: hashmap_destroy_def free_all_entries entry_frees_def frees_entries
      live_keys_def live_values_def)

text \<open>
  C17. Ownership: on a string-keyed table with both destructors, over any sequence of operations
  followed by \<open>hashmap_destroy\<close>, every key and every value that was inserted is freed exactly
  once: nothing leaks and nothing is freed twice.
\<close>

theorem hm_run_frees_once:
  "\<exists>m' fr. hm_run (hashmap_new h hashmap_equal_str True True) xs =
      Some (m', fr, snd (spec_run Map.empty xs)) \<and>
    freed_keys (fr @ hashmap_destroy m') = inserted_keys xs \<and>
    freed_values (fr @ hashmap_destroy m') = inserted_values xs"
proof -
  let ?m = "hashmap_new h hashmap_equal_str True True :: (string, 'v) hashmap"
  have inv: "hm_inv ?m" by (rule hm_inv_new) (simp add: fun_eq_iff hashmap_equal_str_def)
  from hm_run_refines_from [OF inv, of xs] obtain m' fr where
    r: "hm_run ?m xs = Some (m', fr, snd (spec_run Map.empty xs))" "hm_inv m'" by auto
  have "hm_key_free ?m" "hm_value_free ?m" "live_keys ?m = {#}" "live_values ?m = {#}"
    by (simp_all add: hashmap_new_def live_keys_def live_values_def entries_def zero_slot_def)
  moreover have "same_setup ?m m'" by (rule hm_run_setup [OF inv r(1)])
  ultimately show ?thesis
    using r hm_run_ownership [OF inv r(1)] hashmap_destroy_frees [OF r(2)]
    by (auto simp: same_setup_def add.commute)
qed

text \<open>
  C18. The representation is kept by every operation: on a table that satisfies \<open>hm_inv\<close> (a power-of-two
  number of slots, counters that agree with them, a free slot left, every entry reachable from the
  slot of its hash and no key twice) an insertion returns such a table and grows it only when live
  entries need the room, so that churn of distinct keys does not grow memory; a new table, a removal
  and a clean-up return such a table; and removing the entry that an iterator has just returned returns
  such a table on which the iterator goes on with exactly the entries it had not visited.
\<close>

theorem hashmap_representation:
  assumes "hm_inv m"
  shows "hm_inv (hashmap_new (hm_hash m) (hm_equal m) kf vf) \<and>
    (\<exists>m' fr. hashmap_insert m k v = Some (m', fr) \<and> hm_inv m' \<and> hm_abs m' = (hm_abs m)(k \<mapsto> v) \<and>
      (hm_cap m' = hm_cap m \<or> hm_cap m' < 4 * (hashmap_size m + 1))) \<and>
    hm_inv (fst (snd (hashmap_remove m k))) \<and> hm_inv (fst (hashmap_remove_all m)) \<and>
    (case hashmap_iter_next m it of
       (None, it') \<Rightarrow> iter_rest m it = [] \<and> hashmap_iter_remove m it' = Some (m, it', [])
     | (Some (key, val), it') \<Rightarrow> (\<exists>k' m' it'' fr. key = Some k' \<and> iter_rest m it = (k', val) # iter_rest m it' \<and>
         hashmap_iter_remove m it' = Some (m', it'', fr) \<and> hm_inv m' \<and> hm_abs m' = (hm_abs m)(k' := None) \<and> iter_rest m' it'' = iter_rest m it'))"
proof (intro conjI)
  show "hm_inv (hashmap_new (hm_hash m) (hm_equal m) kf vf)" by (rule hm_inv_new [OF hm_invD(5) [OF assms]])
  show "\<exists>m' fr. hashmap_insert m k v = Some (m', fr) \<and> hm_inv m' \<and> hm_abs m' = (hm_abs m)(k \<mapsto> v) \<and>
      (hm_cap m' = hm_cap m \<or> hm_cap m' < 4 * (hashmap_size m + 1))"
    using hashmap_insert_total [OF assms, of k v] by blast
  show "hm_inv (fst (snd (hashmap_remove m k)))" using hashmap_remove_correct [OF assms, of k] by auto
  show "hm_inv (fst (hashmap_remove_all m))" using hashmap_remove_all_correct [OF assms] by auto
  note nxt = hashmap_iter_next_correct [OF assms, of it]
  show "case hashmap_iter_next m it of
       (None, it') \<Rightarrow> iter_rest m it = [] \<and> hashmap_iter_remove m it' = Some (m, it', [])
     | (Some (key, val), it') \<Rightarrow> (\<exists>k' m' it'' fr. key = Some k' \<and> iter_rest m it = (k', val) # iter_rest m it' \<and>
         hashmap_iter_remove m it' = Some (m', it'', fr) \<and> hm_inv m' \<and> hm_abs m' = (hm_abs m)(k' := None) \<and> iter_rest m' it'' = iter_rest m it')"
  proof (cases "iter_rest m it")
    case Nil
    with nxt show ?thesis by (auto simp: hashmap_iter_remove_def)
  next
    case (Cons kv r)
    obtain k' val where kv: "kv = (k', val)" by (cases kv)
    with Cons nxt obtain it' i where i: "hashmap_iter_next m it = (Some (Some k', val), it')" "iter_rest m it' = r"
      "it_valid it'" "it_current it' = Some i" "i < it_slot it'" "at m i k'" by auto
    from hashmap_iter_remove_correct [OF assms i(3-6)] Cons kv i(1,2) show ?thesis by auto
  qed
qed

theorem hashmap_representation_witness:
  "\<exists>m' fr. hashmap_insert (hashmap_new hashmap_hash_u32 hashmap_equal_u32 False True) 7 (Some True) = Some (m', fr) \<and>
     hm_inv m' \<and> hm_abs m' = [7 \<mapsto> Some True]"
proof -
  have "hm_inv (hashmap_new hashmap_hash_u32 hashmap_equal_u32 False True)"
    by (rule hm_inv_new) (simp add: fun_eq_iff hashmap_equal_u32_def)
  from hashmap_representation [OF this, of False True 7 "Some True" hashmap_iter_init] show ?thesis by auto
qed

end
