(* ===== verification/Os_Correct.thy ===== *)
theory Os_Correct
  imports Os
begin

text \<open>
  What the daemon relies on from its environment, and that under it the log and the execution
  of commands return: a log message never changes \<open>errno\<close>, and a command is given up at the
  latest when its three seconds are over.
\<close>


section \<open>Assumptions on the environment\<close>

definition clock_ok :: "'w env \<Rightarrow> bool" where
  "clock_ok env \<longleftrightarrow>
     (\<forall>u w. 0 \<le> u \<longrightarrow> e_now env w + u \<le> e_now env (e_sleep env u w)) \<and>
     (\<forall>c w. e_now env w \<le> e_now env (snd (e_waitpid env c w)))"

definition interrupts_end :: "('w \<Rightarrow> nat) \<Rightarrow> 'w env \<Rightarrow> bool" where
  "interrupts_end pending env \<longleftrightarrow>
     (\<forall>fd t w w'. e_write env fd t w = (Inl EINTR, w') \<longrightarrow> pending w' < pending w) \<and>
     (\<forall>fd t w n w'. e_write env fd t w = (Inr n, w') \<longrightarrow> pending w' \<le> pending w) \<and>
     (\<forall>c w w'. e_wait env c w = (Inl EINTR, w') \<longrightarrow> pending w' < pending w) \<and>
     (\<forall>fd w w'. e_recvfrom env fd w = (Inl EINTR, w') \<longrightarrow> pending w' < pending w) \<and>
     (\<forall>fd w m w'. e_recvfrom env fd w = (Inr m, w') \<longrightarrow> pending w' < pending w)"

lemma interrupts_endD:
  assumes "interrupts_end pending env"
  shows "e_write env fd t w = (Inl EINTR, w') \<Longrightarrow> pending w' < pending w"
    "e_write env fd t w = (Inr n, w') \<Longrightarrow> pending w' \<le> pending w"
    "e_wait env c w = (Inl EINTR, w') \<Longrightarrow> pending w' < pending w"
    "e_recvfrom env sk w = (Inl EINTR, w') \<Longrightarrow> pending w' < pending w"
    "e_recvfrom env sk w = (Inr m, w') \<Longrightarrow> pending w' < pending w"
  using assms unfolding interrupts_end_def by blast+

definition env_ok :: "'w env \<Rightarrow> bool" where
  "env_ok env \<longleftrightarrow> clock_ok env \<and> (\<exists>pending. interrupts_end pending env)"

section \<open>The log returns and keeps \<open>errno\<close>\<close>

definition log_frame :: "'w sys \<Rightarrow> 'w sys \<Rightarrow> bool" where
  "log_frame s s' \<longleftrightarrow> s_execs s' = s_execs s \<and> s_log_fd s' = s_log_fd s \<and>
     s_initialized s' = s_initialized s \<and> s_binary s' = s_binary s"

lemma log_frame_refl [simp]: "log_frame s s"
  by (simp add: log_frame_def)

lemma log_frame_trans: "log_frame s s' \<Longrightarrow> log_frame s' s'' \<Longrightarrow> log_frame s s''"
  by (simp add: log_frame_def)

lemma log_frame_upd [simp]:
  "log_frame (s\<lparr>s_world := w\<rparr>) s' = log_frame s s'" "log_frame (s\<lparr>s_errno := e\<rparr>) s' = log_frame s s'"
  "log_frame s (s'\<lparr>s_world := w\<rparr>) = log_frame s s'" "log_frame s (s'\<lparr>s_errno := e\<rparr>) = log_frame s s'"
  "log_frame s (s'\<lparr>s_write_failed := b\<rparr>) = log_frame s s'" "log_frame s (print_err t s') = log_frame s s'"
  "log_frame (print_err t s) s' = log_frame s s'"
  by (simp_all add: log_frame_def print_err_def)

lemma log_write_total:
  assumes "interrupts_end pending env"
  shows "\<exists>b s'. log_write env line s = Some (b, s') \<and> log_frame s s'"
proof (induction "(pending (s_world s), length line)" arbitrary: line s
    rule: wf_induct_rule [OF wf_lex_prod [OF wf_less_than wf_less_than]])
  case 1
  note IH = 1
  show ?case
  proof (cases "line = []")
    case True
    then show ?thesis by (auto simp: log_write.simps)
  next
    case False
    obtain r w where r: "e_write env (s_log_fd s) line (s_world s) = (r, w)" by fastforce
    show ?thesis
    proof (cases r)
      case (Inl e)
      show ?thesis
      proof (cases "e = EINTR")
        case True
        with r Inl have "pending w < pending (s_world s)" by (auto intro: interrupts_endD(1) [OF assms])
        with IH [of "s\<lparr>s_world := w, s_errno := e\<rparr>" line] False r Inl True show ?thesis
          by (simp add: log_write.simps [of env line s])
      qed (use False r Inl in \<open>auto simp: log_write.simps [of env line s]\<close>)
    next
      case (Inr n)
      show ?thesis
      proof (cases "n = 0")
        case False': False
        have "pending w \<le> pending (s_world s)" using r Inr by (auto intro: interrupts_endD(2) [OF assms])
        moreover have "length (drop n line) < length line" using False False' by simp
        ultimately show ?thesis using IH [of "s\<lparr>s_world := w\<rparr>" "drop n line"] False False' r Inr
          by (auto simp: log_write.simps [of env line s] order_le_less)
      qed (use False r Inr in \<open>auto simp: log_write.simps [of env line s]\<close>)
    qed
  qed
qed

lemma log_message_total [ub_free]:
  assumes "env_ok env"
  shows "\<exists>s'. log_message env cfg level m s = Some s' \<and> s_errno s' = s_errno s \<and> log_frame s s'"
proof -
  obtain pending where "interrupts_end pending env" using assms by (auto simp: env_ok_def)
  note w = log_write_total [OF this]
  show ?thesis
  proof (cases "level < 5 \<and> level > c_dbg_mode cfg \<or> s_log_fd s < 0")
    case True
    then show ?thesis by (auto simp: log_message_def Let_def print_err_def log_frame_def)
  next
    case False
    define s2 where "s2 = print_err m (if c_dbg_time cfg then print_err (''['' @ e_stamp env (s_world s) @ ''] '') s else s)"
    have s2: "log_frame s s2" "0 \<le> s_log_fd s2" using False by (auto simp: s2_def print_err_def log_frame_def)
    define line where "line = ''['' @ e_stamp env (s_world s) @ ''] pid='' @ dec_str (e_pid env) @ '' level='' @
               log_severity level @ '' '' @ m @
               (if str_has_suffix (Some m) (Some [CHR 0x0A]) then [] else [CHR 0x0A])"
    obtain b s' where b: "log_write env line s2 = Some (b, s')" "log_frame s2 s'" using w by blast
    have "log_message env cfg level m s =
        Some ((if b then s'\<lparr>s_write_failed := False\<rparr> else s')\<lparr>s_errno := s_errno s\<rparr>)"
      using False s2(2) b(1) unfolding log_message_def s2_def line_def by (auto simp: Let_def)
    with s2(1) b(2) log_frame_trans show ?thesis by (auto simp del: log_frame_upd simp: log_frame_def)
  qed
qed


section \<open>Commands return, at the latest after the deadline\<close>

lemma reap_total:
  assumes "interrupts_end pending env"
  shows "\<exists>s'. reap env child s = Some s' \<and> log_frame s s'"
proof (induction "pending (s_world s)" arbitrary: s rule: less_induct)
  case less
  obtain r w where r: "e_wait env child (s_world s) = (r, w)" by fastforce
  show ?case
  proof (cases "\<exists>e. r = Inl e \<and> e = EINTR")
    case True
    with r have "pending w < pending (s_world s)" by (auto intro: interrupts_endD(3) [OF assms])
    with less [of "s\<lparr>s_world := w, s_errno := EINTR\<rparr>"] r True show ?thesis
      by (auto simp: reap.simps [of env child s])
  next
    case False
    with r show ?thesis by (cases r) (auto simp: reap.simps [of env child s])
  qed
qed

lemma exec_late_total:
  assumes ok: "env_ok env"
  shows "\<exists>s'. exec_late env cfg a child s = Some (None, s') \<and> log_frame s s'"
proof -
  obtain pending where pending: "interrupts_end pending env" using ok by (auto simp: env_ok_def)
  let ?s = "s\<lparr>s_world := e_kill env child (s_world s)\<rparr>" and ?m = "(a @ '': command exceeded three-second deadline'') @ [CHR 0x0A]"
  obtain s1 where 1: "reap env child ?s = Some s1" "log_frame ?s s1" using reap_total [OF pending] by blast
  obtain s2 where 2: "log_message env cfg 6 ?m s1 = Some s2" "log_frame s1 s2" using log_message_total [OF ok] by blast
  from 1 2 show ?thesis by (auto simp: exec_late_def intro: log_frame_trans)
qed

lemma exec_wait_total:
  assumes ok: "env_ok env"
  shows "\<exists>r s'. exec_wait env cfg a child deadline s = Some (r, s') \<and> log_frame s s'"
proof (induction "nat (deadline - e_now env (s_world s))" arbitrary: s rule: less_induct)
  case less
  have clock: "clock_ok env" using ok by (simp add: env_ok_def)
  obtain r w where r: "e_waitpid env child (s_world s) = (r, w)" by fastforce
  have now: "e_now env (s_world s) \<le> e_now env w"
    using clock r unfolding clock_ok_def by (metis snd_conv)
  have slept: "e_now env w + 1000 \<le> e_now env (e_sleep env 1000 w)"
    using clock unfolding clock_ok_def by (metis zero_le_numeral)
  have loop: "\<exists>r s'. (if deadline \<le> monotonic_usec env s1 then exec_late env cfg a child s1
      else exec_wait env cfg a child deadline (sleep_usec env 1000 s1)) = Some (r, s') \<and> log_frame s s'"
    if "s_world s1 = w" "log_frame s s1" for s1
  proof (cases "deadline \<le> monotonic_usec env s1")
    case True
    with exec_late_total [OF ok, of cfg a child s1] that(2) show ?thesis by (auto intro: log_frame_trans)
  next
    case False
    with now slept that(1) less [of "sleep_usec env 1000 s1"] have
      "\<exists>r s'. exec_wait env cfg a child deadline (sleep_usec env 1000 s1) = Some (r, s') \<and> log_frame (sleep_usec env 1000 s1) s'"
      by (auto simp: sleep_usec_def monotonic_usec_def)
    moreover have "log_frame s (sleep_usec env 1000 s1)" using that(2) by (simp add: sleep_usec_def log_frame_def)
    ultimately show ?thesis using False by (auto intro: log_frame_trans)
  qed
  note step = exec_wait.simps [of env cfg a child deadline s]
  show ?case
  proof (cases r)
    case (Wait_failed e)
    let ?s = "s\<lparr>s_world := w, s_errno := e\<rparr>"
    obtain s' where "D_WARNING env cfg (a @ '': waitpid: '' @ e_strerror env e) ?s = Some s'" "log_frame ?s s'"
      using log_message_total [OF ok] by blast
    with loop [of ?s] show ?thesis by (cases "deadline \<le> monotonic_usec env ?s") (auto simp: step r Wait_failed)
  next
    case Wait_running
    with loop [of "s\<lparr>s_world := w\<rparr>"] show ?thesis by (simp add: step r)
  next
    case (Wait_done st)
    then show ?thesis by (simp add: step r)
  qed
qed


lemma run_command_total:
  assumes "env_ok env"
  shows "\<exists>r s'. run_command env cfg argv s = Some (r, s') \<and> (r = 0 \<or> r = -1) \<and> log_frame s s'"
proof -
  obtain f w where f: "e_fork env argv (s_world s) = (f, w)" by fastforce
  have log: "\<exists>r s'. do { s' \<leftarrow> log_message env cfg l m s1; Some (-1, s') } = Some (r, s') \<and>
      (r = (0 :: int) \<or> r = -1) \<and> log_frame s s'" if "log_frame s s1" for l m s1
    using log_message_total [OF assms, of cfg l m s1] log_frame_trans [OF that] by auto
  show ?thesis
  proof (cases f)
    case (Inl e)
    show ?thesis unfolding run_command_def f Inl by simp (rule log, simp)
  next
    case (Inr child)
    obtain st s2 where x: "exec_wait env cfg (hd argv) child
        (monotonic_usec env (s\<lparr>s_world := w\<rparr>) + 3 * USEC_PER_SEC) (s\<lparr>s_world := w\<rparr>) = Some (st, s2)"
      "log_frame (s\<lparr>s_world := w\<rparr>) s2" using exec_wait_total [OF assms] by blast
    then have s2: "log_frame s s2" by simp
    note log' = log [OF s2]
    show ?thesis
    proof (cases st)
      case None
      with f Inr x s2 show ?thesis by (simp add: run_command_def)
    next
      case (Some status)
      show ?thesis
      proof (cases "status = Exited 0")
        case True
        with f Inr x(1) s2 Some show ?thesis by (simp add: run_command_def)
      next
        case False
        with f Inr x(1) Some show ?thesis
          by (cases status) (auto simp: run_command_def split: nat.split intro: log' simp del: append.append_Cons)
      qed
    qed
  qed
qed

lemma helper_exec_total [ub_free]:
  assumes "env_ok env"
  shows "\<exists>r s'. helper_exec env cfg argv s = Some (r, s') \<and> (r = 0 \<or> r = -1) \<and>
    s_execs s' = s_execs s @ [(argv, r = 0)] \<and> s_log_fd s' = s_log_fd s \<and>
    s_initialized s' = s_initialized s \<and> s_binary s' = s_binary s"
  using run_command_total [OF assms, of cfg argv s] by (auto simp: helper_exec_def log_frame_def)

section \<open>An example environment\<close>

text \<open>
  A small world that satisfies the assumptions: a clock, the number of netlink requests sent
  and the answers not yet read. Commands succeed, every request is acknowledged, and names
  that begin like tunnel names do not exist before the first request.
\<close>

record demo =
  d_clock :: int
  d_sent :: nat
  d_backlog :: nat

definition demo_ack :: "byte list" where
  "demo_ack = [36, 0, 0, 0, 2, 0, 0, 0, 1, 0, 0, 0, 0, 0, 0, 0, 0, 0, 0, 0] @ replicate 16 0"

definition demo_env :: "demo env" where
  "demo_env =
     \<lparr>e_strerror = \<lambda>_. ''error'', e_stamp = \<lambda>_. ''now'', e_pid = 1, e_now = d_clock,
      e_sleep = \<lambda>u w. w\<lparr>d_clock := d_clock w + u\<rparr>, e_write = \<lambda>fd t w. (Inr (length t), w),
      e_fork = \<lambda>argv w. (Inr 7, w), e_waitpid = \<lambda>c w. (Wait_done (Exited 0), w), e_kill = \<lambda>c w. w,
      e_wait = \<lambda>c w. (Inr (Signaled 9), w), e_path = Some ''/sbin'', e_access = \<lambda>p w. (None, w),
      e_access_x = \<lambda>p w. (None, w),
      e_if_nametoindex = \<lambda>n w. (if d_sent w = 0 \<and> take 4 n = ''sgre'' then Inl 19 else Inr 5, w),
      e_socket = \<lambda>w. (Inr 3, w),
      e_sendto = \<lambda>fd m w. (Inr (length m), w\<lparr>d_sent := d_sent w + 1, d_backlog := d_backlog w + 1\<rparr>),
      e_recvfrom = \<lambda>fd w. if d_backlog w = 0 then (Inl 11, w)
        else (Inr (0, demo_ack), w\<lparr>d_backlog := d_backlog w - 1\<rparr>)\<rparr>"

definition demo_sys :: "demo sys" where
  "demo_sys =
     \<lparr>s_world = \<lparr>d_clock = 0, d_sent = 0, d_backlog = 0\<rparr>, s_errno = 0, s_log_fd = -1, s_write_failed = False,
      s_initialized = False, s_binary = [], s_stderr = [], s_execs = []\<rparr>"

lemma demo_env_ok: "env_ok demo_env"
proof -
  have "interrupts_end d_backlog demo_env"
    by (auto simp: interrupts_end_def demo_env_def split: if_splits)
  moreover have "clock_ok demo_env" by (simp add: clock_ok_def demo_env_def)
  ultimately show ?thesis unfolding env_ok_def by blast
qed

text \<open>Printing a packet reads inside it and prints every byte once, in order: the printed digits are those of the packet.\<close>

fun print_spec :: "nat \<Rightarrow> byte list list \<Rightarrow> string" where
  "print_spec offset [] = []"
| "print_spec offset (row # rows) =
     dec5 offset @ ''  '' @ concat (map (\<lambda>b. hex2 b @ '' '') row) @ [CHR 0x0A] @ print_spec (offset + 16) rows"

lemma print_rows_ok:
  assumes "len \<le> length data"
  shows "\<exists>rows. print_rows data len offset = Some (print_spec offset rows) \<and> concat rows = drop offset (take len data) \<and>
    list_all (\<lambda>r. r \<noteq> [] \<and> length r \<le> 16) rows"
proof (induction "len - offset" arbitrary: offset rule: less_induct)
  case less
  show ?case
  proof (cases "offset < len")
    case True
    let ?row = "take (min (offset + 16) len - offset) (drop offset data)"
    have r: "rd_bytes data offset (min (offset + 16) len - offset) = Some ?row" using True assms by (simp add: rd_bytes_def)
    have lt: "len - (offset + 16) < len - offset" using True by simp
    from less [OF lt] obtain rows where rows: "print_rows data len (offset + 16) = Some (print_spec (offset + 16) rows)"
      "concat rows = drop (offset + 16) (take len data)" "list_all (\<lambda>r. r \<noteq> [] \<and> length r \<le> 16) rows" by blast
    have "?row = take 16 (drop offset (take len data))" by (simp add: drop_take min_def)
    moreover have "drop (offset + 16) (take len data) = drop 16 (drop offset (take len data))" by (simp add: add.commute)
    ultimately have "?row @ drop (offset + 16) (take len data) = drop offset (take len data)" by (metis append_take_drop_id)
    moreover have "?row \<noteq> []" "length ?row \<le> 16" using True assms by auto
    ultimately show ?thesis using True r rows by (subst print_rows.simps) (intro exI [of _ "?row # rows"], simp)
  qed (use assms in \<open>auto simp: print_rows.simps [of data len offset] intro: exI [of _ "[]"]\<close>)
qed

text \<open>A command is reported as successful only after its child was seen to exit with status 0.\<close>

lemma helper_exec_success:
  assumes "helper_exec env cfg argv s = Some (0, s')"
  shows "\<exists>child w s2. e_fork env argv (s_world s) = (Inr child, w) \<and>
    exec_wait env cfg (hd argv) child (e_now env w + 3000000) (s\<lparr>s_world := w\<rparr>) = Some (Some (Exited 0), s2)"
proof -
  obtain s1 where r: "run_command env cfg argv s = Some (0, s1)"
    using assms by (auto simp: helper_exec_def bind_eq_Some_conv)
  then obtain child w where f: "e_fork env argv (s_world s) = (Inr child, w)"
    by (auto simp: run_command_def bind_eq_Some_conv split: prod.splits sum.splits)
  with r obtain st s2 where x: "exec_wait env cfg (hd argv) child (e_now env w + 3000000) (s\<lparr>s_world := w\<rparr>) = Some (st, s2)"
    by (auto simp: run_command_def bind_eq_Some_conv monotonic_usec_def USEC_PER_SEC_def)
  have "st = Some (Exited 0)"
  proof (cases st)
    case None
    with r f x show ?thesis by (simp add: run_command_def monotonic_usec_def USEC_PER_SEC_def)
  next
    case (Some status)
    with r f x show ?thesis
      by (cases status)
        (auto simp: run_command_def monotonic_usec_def USEC_PER_SEC_def bind_eq_Some_conv split: nat.splits)
  qed
  with f x show ?thesis by blast
qed

section \<open>Properties\<close>



end
