(* ===== verification/Netlink_Correct.thy ===== *)
theory Netlink_Correct
  imports Netlink Os_Correct
begin

unbundle bit_operations_syntax

text \<open>
  Correctness of the netlink requests: every request is built inside its buffer and is the
  encoding of the intended tree of attributes; the scan of an answer stays inside the received
  bytes; every operation on interfaces returns.
\<close>

section \<open>Stores\<close>

lemma store_middle: "length b' = length b \<Longrightarrow> store (a @ b @ c) (length a) b' = Some (a @ b' @ c)"
  by (simp add: store_def)

lemma store_at:
  assumes "mem = a @ b @ c" "at = length a" "length b' = length b"
  shows "store mem at b' = Some (a @ b' @ c)"
  using assms by (simp add: store_middle)

lemma length_octets4 [simp]: "length (octets w) = 4"
  by (simp add: octets_def)

lemma length_le16 [simp]: "length (le16 w) = 2"
  by (simp add: le16_def)

lemma align4_ge: "n \<le> align4 n" "align4 n < n + 4" "align4 n mod 4 = 0"
  unfolding align4_def by linarith (presburger, simp)

lemma align4_id [simp]: "n mod 4 = 0 \<Longrightarrow> align4 n = n"
  unfolding align4_def by presburger

section \<open>A request is its header and the attributes so far\<close>

definition mk_req :: "byte list \<Rightarrow> byte list \<Rightarrow> byte list" where
  "mk_req hdr body = octets (of_nat (32 + length body)) @ hdr @ body @ replicate (1024 - length body) 0"

definition req_ok :: "byte list \<Rightarrow> byte list \<Rightarrow> bool" where
  "req_ok hdr body \<longleftrightarrow> length hdr = 28 \<and> length body mod 4 = 0 \<and> length body \<le> 1024"

definition encode_attr :: "u16 \<Rightarrow> byte list \<Rightarrow> byte list" where
  "encode_attr type data =
     le16 (of_nat (4 + length data)) @ le16 type @ data @
     replicate (align4 (4 + length data) - (4 + length data)) 0"

lemma length_encode_attr [simp]: "length (encode_attr t d) = align4 (4 + length d)"
  using align4_ge(1) [of "4 + length d"] by (simp add: encode_attr_def)

lemma nlmsg_len_mk: "req_ok hdr body \<Longrightarrow> nlmsg_len (mk_req hdr body) = Some (32 + length body)"
proof -
  assume r: "req_ok hdr body"
  have "rd_bytes (mk_req hdr body) 0 4 = Some (octets (of_nat (32 + length body)))"
    by (simp add: rd_bytes_def mk_req_def)
  moreover have "32 + length body < 2 ^ 32" using r by (simp add: req_ok_def)
  ultimately show ?thesis
    by (simp add: nlmsg_len_def load32_def le32_octets unat_of_nat del: of_nat_add)
qed

lemma link_attr_mk:
  assumes r: "req_ok hdr body"
  shows "link_attr (mk_req hdr body) t d =
    (if 32 + length body + align4 (4 + length d) > REQUEST_SIZE then Some (False, mk_req hdr body)
     else Some (True, mk_req hdr (body @ encode_attr t d)))"
proof (cases "32 + length body + align4 (4 + length d) > REQUEST_SIZE")
  case True
  have "align4 (32 + length body) = 32 + length body"
    using r unfolding req_ok_def by (intro align4_id) presburger
  with True show ?thesis by (simp add: link_attr_def nlmsg_len_mk [OF r] Let_def)
next
  case False
  let ?n = "length body" and ?a = "align4 (4 + length d)" and ?pad = "align4 (4 + length d) - (4 + length d)"
  let ?L = "octets (of_nat (32 + ?n))" and ?Z = "replicate (1024 - ?n - ?a) (0 :: byte)"
  have al: "align4 (32 + ?n) = 32 + ?n"
    using r unfolding req_ok_def by (intro align4_id) presburger
  have le: "4 + length d \<le> ?a" by (rule align4_ge)
  have fit: "?n + ?a \<le> 1024" "length hdr = 28" using False r by (simp_all add: REQUEST_SIZE_def req_ok_def)
  have z: "replicate (1024 - ?n) (0 :: byte) =
      replicate 2 0 @ replicate 2 0 @ replicate (length d) 0 @ replicate ?pad 0 @ ?Z"
    unfolding replicate_add [symmetric] using fit le by (intro arg_cong [where f = "\<lambda>k. replicate k 0"]) simp
  have m0: "mk_req hdr body = (?L @ hdr @ body @ replicate 2 0) @ replicate 2 0 @
      (replicate (length d) 0 @ replicate ?pad 0 @ ?Z)"
    unfolding mk_req_def z by simp
  define m1 where "m1 = (?L @ hdr @ body @ replicate 2 0) @ le16 t @ (replicate (length d) 0 @ replicate ?pad 0 @ ?Z)"
  have s1: "store (mk_req hdr body) (32 + ?n + 2) (le16 t) = Some m1"
    unfolding m1_def by (rule store_at [OF m0]) (simp_all add: fit)
  define m2 where "m2 = (?L @ hdr @ body) @ le16 (of_nat (4 + length d)) @
      (le16 t @ replicate (length d) 0 @ replicate ?pad 0 @ ?Z)"
  have s2: "store m1 (32 + ?n) (le16 (of_nat (4 + length d))) = Some m2"
    unfolding m2_def m1_def by (rule store_at [where b = "replicate 2 0"]) (simp_all add: fit)
  define m3 where "m3 = (?L @ hdr @ body @ le16 (of_nat (4 + length d)) @ le16 t) @ d @ (replicate ?pad 0 @ ?Z)"
  have s3: "(if length d \<noteq> 0 then store m2 (32 + ?n + 4) d else Some m2) = Some m3"
  proof (cases "d = []")
    case False
    have "store m2 (32 + ?n + 4) d = Some m3"
      unfolding m3_def m2_def by (rule store_at [where b = "replicate (length d) 0"]) (simp_all add: fit)
    with False show ?thesis by simp
  qed (simp add: m2_def m3_def)
  have s4: "store m3 0 (octets (of_nat (32 + ?n + ?a))) = Some (mk_req hdr (body @ encode_attr t d))"
  proof -
    have "mk_req hdr (body @ encode_attr t d) = octets (of_nat (32 + ?n + ?a)) @ hdr @ body @ encode_attr t d @ ?Z"
      by (simp add: mk_req_def add.assoc del: of_nat_add)
    then have e: "mk_req hdr (body @ encode_attr t d) = [] @ octets (of_nat (32 + ?n + ?a)) @
        (hdr @ body @ le16 (of_nat (4 + length d)) @ le16 t @ d @ replicate ?pad 0 @ ?Z)"
      by (simp only: encode_attr_def append.assoc append_Nil)
    show ?thesis
      unfolding m3_def e by (rule store_at [where b = ?L]) simp_all
  qed
  show ?thesis
    by (simp only: link_attr_def nlmsg_len_mk [OF r] bind.bind_lunit Let_def al if_not_P [OF False] s1 s2 s3 s4)
qed


lemma req_ok_attr:
  assumes "req_ok hdr body" "32 + length body + align4 (4 + length d) \<le> REQUEST_SIZE"
  shows "req_ok hdr (body @ encode_attr t d)"
  using assms align4_ge(3) [of "4 + length d"] by (simp add: req_ok_def REQUEST_SIZE_def mod_add_eq [symmetric])

lemma link_attr_fits:
  assumes "req_ok hdr body" "length body + align4 (4 + length d) \<le> 1024"
  shows "link_attr (mk_req hdr body) t d = Some (True, mk_req hdr (body @ encode_attr t d))"
    and "req_ok hdr (body @ encode_attr t d)"
  using assms by (simp_all add: link_attr_mk req_ok_attr REQUEST_SIZE_def)

lemma link_nest_fits:
  assumes "req_ok hdr body" "length body + 4 \<le> 1024"
  shows "link_nest (mk_req hdr body) t =
    Some (Some (32 + length body), mk_req hdr (body @ encode_attr (t OR NLA_F_NESTED) []))"
    and "req_ok hdr (body @ encode_attr (t OR NLA_F_NESTED) [])"
proof -
  have "align4 (32 + length body) = 32 + length body"
    using assms(1) unfolding req_ok_def by (intro align4_id) presburger
  then show "link_nest (mk_req hdr body) t =
    Some (Some (32 + length body), mk_req hdr (body @ encode_attr (t OR NLA_F_NESTED) []))"
    using assms link_attr_fits(1) [OF assms(1), of "[]"]
    by (simp add: link_nest_def nlmsg_len_mk)
  show "req_ok hdr (body @ encode_attr (t OR NLA_F_NESTED) [])"
    using link_attr_fits(2) [OF assms(1), of "[]"] assms(2) by simp
qed

text \<open>The bytes of a nested attribute once its length is patched.\<close>

definition encode_nest :: "u16 \<Rightarrow> byte list \<Rightarrow> byte list" where
  "encode_nest t inner = le16 (of_nat (4 + length inner)) @ le16 (t OR NLA_F_NESTED) @ inner"

lemma length_encode_nest [simp]: "length (encode_nest t inner) = 4 + length inner"
  by (simp add: encode_nest_def)

lemma encode_attr_Nil: "encode_attr t [] = le16 4 @ le16 t"
  by (simp add: encode_attr_def)

lemma link_nest_end_mk:
  assumes r: "req_ok hdr (pre @ encode_attr (t OR NLA_F_NESTED) [] @ inner)"
  shows "link_nest_end (mk_req hdr (pre @ encode_attr (t OR NLA_F_NESTED) [] @ inner)) (32 + length pre) =
    Some (mk_req hdr (pre @ encode_nest t inner))"
proof -
  let ?body = "pre @ encode_attr (t OR NLA_F_NESTED) [] @ inner"
  let ?L = "octets (of_nat (32 + length ?body))"
  have n: "length ?body = length pre + (4 + length inner)" by simp
  have m: "mk_req hdr ?body = (?L @ hdr @ pre) @ le16 4 @ (le16 (t OR NLA_F_NESTED) @ inner @ replicate (1024 - length ?body) 0)"
    unfolding mk_req_def encode_attr_Nil by simp
  have e: "mk_req hdr (pre @ encode_nest t inner) = (?L @ hdr @ pre) @ le16 (of_nat (4 + length inner)) @
      (le16 (t OR NLA_F_NESTED) @ inner @ replicate (1024 - length ?body) 0)"
    unfolding mk_req_def encode_nest_def by simp
  have "store (mk_req hdr ?body) (32 + length pre) (le16 (of_nat (4 + length inner))) =
      Some (mk_req hdr (pre @ encode_nest t inner))"
    unfolding e by (rule store_at [OF m]) (use r in \<open>simp_all add: req_ok_def\<close>)
  with nlmsg_len_mk [OF r] show ?thesis
    by (simp add: link_nest_end_def n del: of_nat_add)
qed

lemma req_ok_nest:
  "req_ok hdr (pre @ encode_attr (t OR NLA_F_NESTED) [] @ inner) \<longleftrightarrow> req_ok hdr (pre @ encode_nest t inner)"
  by (simp add: req_ok_def)

text \<open>The header after \<open>nlmsg_len\<close>.\<close>

definition link_header :: "u16 \<Rightarrow> u16 \<Rightarrow> u32 \<Rightarrow> u32 \<Rightarrow> byte list" where
  "link_header type flags index up =
     le16 type @ le16 (NLM_F_REQUEST OR NLM_F_ACK OR flags) @ octets 1 @ octets 0 @
     [0, 0, 0, 0] @ octets index @ octets up @ octets up"

lemma length_link_header [simp]: "length (link_header t f i u) = 28"
  by (simp add: link_header_def)

lemma link_request_init_mk: "link_request_init t f i = mk_req (link_header t f i 0) []"
  by (simp add: link_request_init_def mk_req_def link_header_def)

lemma req_ok_Nil [simp]: "req_ok (link_header t f i u) []"
  by (simp add: req_ok_def)

lemma link_up_mk: "link_up (link_request_init t f i) = Some (mk_req (link_header t f i IFF_UP) [])"
proof -
  let ?h = "le16 t @ le16 (NLM_F_REQUEST OR NLM_F_ACK OR f) @ octets 1 @ octets 0 @ [0, 0, 0, 0] @ octets i"
  let ?z = "replicate 1024 0"
  have i: "link_request_init t f i = (octets 32 @ ?h) @ octets 0 @ (octets 0 @ ?z)"
    by (simp add: link_request_init_def)
  have "store (link_request_init t f i) 24 (octets IFF_UP) = Some ((octets 32 @ ?h) @ octets IFF_UP @ (octets 0 @ ?z))"
    by (rule store_at [OF i]) simp_all
  moreover have "store ((octets 32 @ ?h) @ octets IFF_UP @ (octets 0 @ ?z)) 28 (octets IFF_UP) =
      Some ((octets 32 @ ?h @ octets IFF_UP) @ octets IFF_UP @ ?z)"
    by (rule store_at [where b = "octets 0"]) simp_all
  ultimately show ?thesis by (simp add: link_up_def mk_req_def link_header_def)
qed

section \<open>The requests are encodings of attribute trees\<close>

lemma length_cstr_bytes [simp]: "length (cstr_bytes s) = length s + 1"
  by (simp add: cstr_bytes_def)

lemma then_attr_True [simp]: "then_attr (True, req) t d = link_attr req t d"
  by (simp add: then_attr_def)

definition gre_attrs :: "u32 \<Rightarrow> u32 \<Rightarrow> u32 \<Rightarrow> byte list" where
  "gre_attrs index loc remote =
     encode_attr IFLA_GRE_LINK (octets index) @ encode_attr IFLA_GRE_LOCAL (octets loc) @
     encode_attr IFLA_GRE_REMOTE (octets remote) @ encode_attr IFLA_GRE_PMTUDISC [0]"

definition gre_body :: "u32 \<Rightarrow> string \<Rightarrow> string \<Rightarrow> u32 \<Rightarrow> u32 \<Rightarrow> byte list" where
  "gre_body index name kind loc remote =
     encode_attr IFLA_IFNAME (cstr_bytes name) @
     encode_nest IFLA_LINKINFO
       (encode_attr IFLA_INFO_KIND (cstr_bytes kind) @
        encode_nest IFLA_INFO_DATA (gre_attrs index loc remote))"

lemma align4_8: "align4 8 = 8" "align4 5 = 8" "align4 (Suc (Suc (Suc (Suc (Suc 0))))) = 8" "align4 6 = 8"
  by (simp_all add: align4_def)

lemma gre_add_request_mk:
  assumes "length name + length kind \<le> 900"
  shows "gre_add_request index name kind loc remote =
    Some (Some (mk_req (link_header RTM_NEWLINK (NLM_F_CREATE OR NLM_F_EXCL) 0 IFF_UP)
      (gre_body index name kind loc remote)))"
    and "req_ok (link_header RTM_NEWLINK (NLM_F_CREATE OR NLM_F_EXCL) 0 IFF_UP) (gre_body index name kind loc remote)"
proof -
  let ?h = "link_header RTM_NEWLINK (NLM_F_CREATE OR NLM_F_EXCL) 0 IFF_UP"
  let ?N = "encode_attr IFLA_IFNAME (cstr_bytes name)" and ?K = "encode_attr IFLA_INFO_KIND (cstr_bytes kind)"
  let ?I = "encode_attr (IFLA_LINKINFO OR NLA_F_NESTED) []" and ?D = "encode_attr (IFLA_INFO_DATA OR NLA_F_NESTED) []"
  let ?A = "encode_attr IFLA_GRE_LINK (octets index)" and ?B = "encode_attr IFLA_GRE_LOCAL (octets loc)"
  let ?C = "encode_attr IFLA_GRE_REMOTE (octets remote)" and ?E = "encode_attr IFLA_GRE_PMTUDISC [0]"
  have ln: "length ?N \<le> length name + 8" "length ?K \<le> length kind + 8"
    using align4_ge(2) [of "4 + length (cstr_bytes name)"] align4_ge(2) [of "4 + length (cstr_bytes kind)"]
    by simp_all
  then have fit: "length ?N + length ?K \<le> 916" using assms by linarith
  note 0 = req_ok_Nil [of RTM_NEWLINK "NLM_F_CREATE OR NLM_F_EXCL" 0 IFF_UP]
  have f1: "length ([] :: byte list) + align4 (4 + length (cstr_bytes name)) \<le> 1024" using ln(1) assms by simp
  note 1 = link_attr_fits [OF 0 f1, of IFLA_IFNAME, unfolded append_Nil]
  have f2: "length ?N + 4 \<le> 1024" using fit by linarith
  note 2 = link_nest_fits [OF 1(2) f2, of IFLA_LINKINFO]
  have f3: "length (?N @ ?I) + align4 (4 + length (cstr_bytes kind)) \<le> 1024" using fit by simp
  note 3 = link_attr_fits [OF 2(2) f3, of IFLA_INFO_KIND]
  have f4: "length ((?N @ ?I) @ ?K) + 4 \<le> 1024" using fit by simp
  note 4 = link_nest_fits [OF 3(2) f4, of IFLA_INFO_DATA]
  let ?P = "((?N @ ?I) @ ?K) @ ?D"
  have f5: "length ?P + align4 (4 + length (octets index)) \<le> 1024" using fit by (simp add: align4_8)
  note 5 = link_attr_fits [OF 4(2) f5, of IFLA_GRE_LINK]
  have f6: "length (?P @ ?A) + align4 (4 + length (octets loc)) \<le> 1024" using fit by (simp add: align4_8)
  note 6 = link_attr_fits [OF 5(2) f6, of IFLA_GRE_LOCAL]
  have f7: "length ((?P @ ?A) @ ?B) + align4 (4 + length (octets remote)) \<le> 1024" using fit by (simp add: align4_8)
  note 7 = link_attr_fits [OF 6(2) f7, of IFLA_GRE_REMOTE]
  have f8: "length (((?P @ ?A) @ ?B) @ ?C) + align4 (4 + length [0 :: byte]) \<le> 1024" using fit by (simp add: align4_8)
  note 8 = link_attr_fits [OF 7(2) f8, of IFLA_GRE_PMTUDISC]
  let ?G = "gre_attrs index loc remote"
  have b8: "((((?P @ ?A) @ ?B) @ ?C) @ ?E) = ((?N @ ?I) @ ?K) @ ?D @ ?G" by (simp add: gre_attrs_def)
  note 9 = link_nest_end_mk [OF 8(2) [unfolded b8]]
  let ?inner = "?K @ encode_nest IFLA_INFO_DATA ?G"
  have b9: "((?N @ ?I) @ ?K) @ encode_nest IFLA_INFO_DATA ?G = ?N @ ?I @ ?inner" by simp
  have r9: "req_ok ?h (?N @ ?I @ ?inner)" using 8(2) unfolding b8 req_ok_nest b9 .
  note 10 = link_nest_end_mk [OF r9]
  show "req_ok ?h (gre_body index name kind loc remote)"
    using r9 unfolding gre_body_def req_ok_nest .
  show "gre_add_request index name kind loc remote = Some (Some (mk_req ?h (gre_body index name kind loc remote)))"
    unfolding gre_add_request_def link_up_mk bind.bind_lunit 1(1) 2(1) 3(1) 4(1) 5(1) prod.case if_not_P [OF not_not [THEN iffD2, OF TrueI]]
      then_attr_True 6(1) 7(1) 8(1) option.case fst_conv snd_conv b8 9 b9 10 gre_body_def
    by simp
qed

definition vlan_body :: "string \<Rightarrow> u32 \<Rightarrow> u16 \<Rightarrow> byte list" where
  "vlan_body name parent vlan =
     encode_attr IFLA_IFNAME (cstr_bytes name) @ encode_attr IFLA_LINK (octets parent) @
     encode_nest IFLA_LINKINFO
       (encode_attr IFLA_INFO_KIND (cstr_bytes ''vlan'') @
        encode_nest IFLA_INFO_DATA (encode_attr IFLA_VLAN_ID (le16 vlan)))"

lemma vlan_request_mk:
  assumes "length name \<le> 900"
  shows "vlan_request name parent vlan =
    Some (Some (mk_req (link_header RTM_NEWLINK (NLM_F_CREATE OR NLM_F_EXCL) 0 IFF_UP) (vlan_body name parent vlan)))"
    and "req_ok (link_header RTM_NEWLINK (NLM_F_CREATE OR NLM_F_EXCL) 0 IFF_UP) (vlan_body name parent vlan)"
proof -
  let ?h = "link_header RTM_NEWLINK (NLM_F_CREATE OR NLM_F_EXCL) 0 IFF_UP"
  let ?N = "encode_attr IFLA_IFNAME (cstr_bytes name)" and ?L = "encode_attr IFLA_LINK (octets parent)"
  let ?K = "encode_attr IFLA_INFO_KIND (cstr_bytes ''vlan'')" and ?V = "encode_attr IFLA_VLAN_ID (le16 vlan)"
  let ?I = "encode_attr (IFLA_LINKINFO OR NLA_F_NESTED) []" and ?D = "encode_attr (IFLA_INFO_DATA OR NLA_F_NESTED) []"
  have k: "align4 (4 + length (cstr_bytes ''vlan'')) = 12" by (simp add: align4_def)
  have fit: "length ?N \<le> 908" using align4_ge(2) [of "4 + length (cstr_bytes name)"] assms by simp
  note 0 = req_ok_Nil [of RTM_NEWLINK "NLM_F_CREATE OR NLM_F_EXCL" 0 IFF_UP]
  have f1: "length ([] :: byte list) + align4 (4 + length (cstr_bytes name)) \<le> 1024" using fit by simp
  note 1 = link_attr_fits [OF 0 f1, of IFLA_IFNAME, unfolded append_Nil]
  have f2: "length ?N + align4 (4 + length (octets parent)) \<le> 1024" using fit by (simp add: align4_8)
  note 2 = link_attr_fits [OF 1(2) f2, of IFLA_LINK]
  have f3: "length (?N @ ?L) + 4 \<le> 1024" using fit by (simp add: align4_8)
  note 3 = link_nest_fits [OF 2(2) f3, of IFLA_LINKINFO]
  have f4: "length ((?N @ ?L) @ ?I) + align4 (4 + length (cstr_bytes ''vlan'')) \<le> 1024"
    unfolding k using fit by (simp add: align4_8)
  note 4 = link_attr_fits [OF 3(2) f4, of IFLA_INFO_KIND]
  have f5: "length (((?N @ ?L) @ ?I) @ ?K) + 4 \<le> 1024" using fit k by (simp add: align4_8)
  note 5 = link_nest_fits [OF 4(2) f5, of IFLA_INFO_DATA]
  have f6: "length ((((?N @ ?L) @ ?I) @ ?K) @ ?D) + align4 (4 + length (le16 vlan)) \<le> 1024"
    using fit k by (simp add: align4_8)
  note 6 = link_attr_fits [OF 5(2) f6, of IFLA_VLAN_ID]
  have b6: "((((?N @ ?L) @ ?I) @ ?K) @ ?D) @ ?V = (((?N @ ?L) @ ?I) @ ?K) @ ?D @ ?V" by simp
  note 7 = link_nest_end_mk [OF 6(2) [unfolded b6]]
  let ?inner = "?K @ encode_nest IFLA_INFO_DATA ?V"
  have b7: "(((?N @ ?L) @ ?I) @ ?K) @ encode_nest IFLA_INFO_DATA ?V = (?N @ ?L) @ ?I @ ?inner" by simp
  have r7: "req_ok ?h ((?N @ ?L) @ ?I @ ?inner)" using 6(2) unfolding b6 req_ok_nest b7 .
  note 8 = link_nest_end_mk [OF r7]
  show "req_ok ?h (vlan_body name parent vlan)"
    using r7 unfolding vlan_body_def req_ok_nest by simp
  show "vlan_request name parent vlan = Some (Some (mk_req ?h (vlan_body name parent vlan)))"
    unfolding vlan_request_def link_up_mk bind.bind_lunit 1(1) then_attr_True 2(1) 3(1) 4(1) 5(1) 6(1) prod.case
      if_not_P [OF not_not [THEN iffD2, OF TrueI]] option.case b6 7 b7 8 vlan_body_def
    by simp
qed

lemma bridge_request_mk:
  assumes "length name \<le> 900"
  shows "\<exists>body. bridge_request name =
    Some (Some (mk_req (link_header RTM_NEWLINK (NLM_F_CREATE OR NLM_F_EXCL) 0 IFF_UP) body)) \<and>
    req_ok (link_header RTM_NEWLINK (NLM_F_CREATE OR NLM_F_EXCL) 0 IFF_UP) body"
proof -
  let ?h = "link_header RTM_NEWLINK (NLM_F_CREATE OR NLM_F_EXCL) 0 IFF_UP"
  let ?N = "encode_attr IFLA_IFNAME (cstr_bytes name)" and ?K = "encode_attr IFLA_INFO_KIND (cstr_bytes ''bridge'')"
  let ?I = "encode_attr (IFLA_LINKINFO OR NLA_F_NESTED) []"
  have k: "align4 (4 + length (cstr_bytes ''bridge'')) = 12" by (simp add: align4_def)
  have fit: "length ?N \<le> 908" using align4_ge(2) [of "4 + length (cstr_bytes name)"] assms by simp
  note 0 = req_ok_Nil [of RTM_NEWLINK "NLM_F_CREATE OR NLM_F_EXCL" 0 IFF_UP]
  have f1: "length ([] :: byte list) + align4 (4 + length (cstr_bytes name)) \<le> 1024" using fit by simp
  note 1 = link_attr_fits [OF 0 f1, of IFLA_IFNAME, unfolded append_Nil]
  have f2: "length ?N + 4 \<le> 1024" using fit by simp
  note 2 = link_nest_fits [OF 1(2) f2, of IFLA_LINKINFO]
  have f3: "length (?N @ ?I) + align4 (4 + length (cstr_bytes ''bridge'')) \<le> 1024" unfolding k using fit by simp
  note 3 = link_attr_fits [OF 2(2) f3, of IFLA_INFO_KIND]
  have b3: "(?N @ ?I) @ ?K = ?N @ ?I @ ?K" by simp
  note 4 = link_nest_end_mk [OF 3(2) [unfolded b3]]
  have "bridge_request name = Some (Some (mk_req ?h (?N @ encode_nest IFLA_LINKINFO ?K)))"
    unfolding bridge_request_def link_up_mk bind.bind_lunit 1(1) 2(1) 3(1) prod.case
      if_not_P [OF not_not [THEN iffD2, OF TrueI]] option.case b3 4
    by simp
  with 3(2) show ?thesis unfolding b3 req_ok_nest by blast
qed

lemma master_request_mk:
  "master_request index master = Some (Some (mk_req (link_header RTM_NEWLINK 0 index IFF_UP)
     (encode_attr IFLA_MASTER (octets master)))) \<and>
   req_ok (link_header RTM_NEWLINK 0 index IFF_UP) (encode_attr IFLA_MASTER (octets master))"
  using link_attr_fits [OF req_ok_Nil [of RTM_NEWLINK 0 index IFF_UP], of "octets master" IFLA_MASTER]
  by (simp add: master_request_def link_up_mk align4_8)

section \<open>The answer\<close>

lemma load32_inside: "h + 4 \<le> length buf \<Longrightarrow> \<exists>v. load32 buf h = Some v"
  by (simp add: load32_def rd_bytes_def)

lemma load16_inside: "h + 2 \<le> length buf \<Longrightarrow> \<exists>v. load16 buf h = Some v"
  by (simp add: load16_def rd_def)

lemma scan_reply_inside:
  "left \<le> int (length buf) - int h \<Longrightarrow> \<exists>r. scan_reply buf seq h left = Some r"
proof (induction buf seq h left rule: scan_reply.induct)
  case (1 buf seq h left)
  show ?case
  proof (cases "left < 16")
    case True
    then show ?thesis by (simp add: scan_reply.simps)
  next
    case False
    then have in16: "h + 16 \<le> length buf" using "1.prems" by linarith
    obtain len type seq' where l: "load32 buf h = Some len" "load16 buf (h + 4) = Some type"
      "load32 buf (h + 8) = Some seq'"
      using load32_inside [of h buf] load16_inside [of "h + 4" buf] load32_inside [of "h + 8" buf] in16 by auto
    have e: "\<exists>e. load32 buf (h + 16) = Some e" if "36 \<le> unat len" "int (unat len) \<le> left"
      using that "1.prems" by (intro load32_inside) linarith
    have n: "left - int (align4 (unat len)) \<le> int (length buf) - int (h + align4 (unat len))"
      using "1.prems" by simp
    show ?thesis
      using False l e n "1.IH"
      by (subst scan_reply.simps) (auto split: if_splits)
  qed
qed

section \<open>Every operation returns\<close>

definition returns :: "(int \<times> 'w sys) option \<Rightarrow> 'w sys \<Rightarrow> bool" where
  "returns res s \<longleftrightarrow> (\<exists>r s'. res = Some (r, s') \<and> (r = 0 \<or> r = -1) \<and> log_frame s s')"

lemma returnsI: "r = 0 \<or> r = -1 \<Longrightarrow> log_frame s s' \<Longrightarrow> returns (Some (r, s')) s"
  by (simp add: returns_def)

lemma returns_trans: "returns res s1 \<Longrightarrow> log_frame s s1 \<Longrightarrow> returns res s"
  unfolding returns_def using log_frame_trans by blast

lemma link_recv_total:
  assumes "interrupts_end pending env"
  shows "returns (link_recv env fd seq s) s"
proof (induction "pending (s_world s)" arbitrary: s rule: less_induct)
  case less
  obtain r w where r: "e_recvfrom env fd (s_world s) = (r, w)" by fastforce
  have again: "returns (link_recv env fd seq (s\<lparr>s_world := w, s_errno := e\<rparr>)) s" if "pending w < pending (s_world s)" for e
    by (rule returns_trans [OF less]) (use that in simp_all)
  show ?case
  proof (cases r)
    case (Inl e)
    show ?thesis
    proof (cases "e = EINTR")
      case True
      with r Inl have "pending w < pending (s_world s)" by (auto intro: interrupts_endD(4) [OF assms])
      from again [OF this, of e] r Inl True show ?thesis by (simp add: link_recv.simps [of env fd seq s])
    next
      case False
      with r Inl show ?thesis by (simp add: link_recv.simps [of env fd seq s] returns_def)
    qed
  next
    case (Inr m)
    obtain pid d where m: "m = (pid, d)" by (cases m)
    have p: "pending w < pending (s_world s)" using r Inr by (auto intro: interrupts_endD(5) [OF assms])
    obtain a where a: "scan_reply (take 8192 d) seq 0 (int (length (take 8192 d))) = Some a"
      using scan_reply_inside [of "int (length (take 8192 d))" "take 8192 d" 0] by auto
    from again [OF p, of "s_errno s"] a r Inr m show ?thesis
      by (subst link_recv.simps) (auto simp: returns_def split: option.split)
  qed
qed

lemma load_seq: "req_ok hdr body \<Longrightarrow> \<exists>seq. load32 (mk_req hdr body) 8 = Some seq"
  by (rule load32_inside) (simp add: mk_req_def req_ok_def)

lemma link_send_total:
  assumes "env_ok env" "req_ok hdr body"
  shows "returns (link_send env (mk_req hdr body) s) s"
proof -
  obtain pending where p: "interrupts_end pending env" using assms(1) by (auto simp: env_ok_def)
  obtain seq where seq: "load32 (mk_req hdr body) 8 = Some seq" using load_seq [OF assms(2)] by blast
  have recv: "returns (link_recv env fd seq (s\<lparr>s_world := w\<rparr>)) s" for fd w
    by (rule returns_trans [OF link_recv_total [OF p]]) simp
  show ?thesis
    by (auto simp: link_send_def nlmsg_len_mk [OF assms(2)] seq split: sum.split prod.split intro: recv returnsI)
qed

lemma if_nametoindex_frame: "if_nametoindex env name s = (i, s') \<Longrightarrow> log_frame s s'"
  by (auto simp: if_nametoindex_def split: prod.splits sum.splits)

lemma send_built_total:
  "env_ok env \<Longrightarrow> req_ok hdr body \<Longrightarrow> log_frame s s1 \<Longrightarrow>
   returns (send_built env (Some (Some (mk_req hdr body))) s1) s"
  by (simp add: send_built_def returns_trans [OF link_send_total])

lemma iface_gre_add_total [ub_free]:
  assumes "env_ok env" "length name + length kind \<le> 900"
  shows "returns (iface_gre_add env name kind dev loc remote s) s"
proof -
  obtain i s1 where i: "if_nametoindex env dev s = (i, s1)" by fastforce
  with if_nametoindex_frame [OF i] gre_add_request_mk [OF assms(2)] show ?thesis
    by (auto simp: iface_gre_add_def intro!: returnsI send_built_total [OF assms(1)])
qed

lemma iface_gre_del_total [ub_free]:
  assumes "env_ok env"
  shows "returns (iface_gre_del env name s) s"
proof -
  obtain i s1 where i: "if_nametoindex env name s = (i, s1)" by fastforce
  with if_nametoindex_frame [OF i] show ?thesis
    by (auto simp: iface_gre_del_def link_request_init_mk intro!: returnsI returns_trans [OF link_send_total [OF assms]])
qed

lemma set_master_total:
  assumes "env_ok env"
  shows "returns (set_master env index master s) s"
  using master_request_mk [of index master] by (simp add: set_master_def send_built_total [OF assms])

lemma iface_bridge_attach_total [ub_free]:
  assumes "env_ok env"
  shows "returns (iface_bridge_attach env gre bridge vlan s) s"
proof -
  let ?name = "snprintf_buf IFNAMSIZ (vlan_name gre vlan)"
  obtain p s1 where p: "if_nametoindex env gre s = (p, s1)" by fastforce
  obtain m s2 where m: "if_nametoindex env bridge s1 = (m, s2)" by fastforce
  have f: "log_frame s s2" using if_nametoindex_frame [OF p] if_nametoindex_frame [OF m] log_frame_trans by blast
  have "length ?name \<le> 900" using snprintf_buf_length [of IFNAMSIZ "vlan_name gre vlan"] by (simp add: IFNAMSIZ_def)
  note v = vlan_request_mk [OF this]
  from send_built_total [OF assms v(2) f] obtain r s3 where r: "send_built env (vlan_request ?name p vlan) s2 = Some (r, s3)"
    "r = 0 \<or> r = -1" "log_frame s s3" unfolding v(1) returns_def by blast
  obtain i s4 where i: "if_nametoindex env ?name s3 = (i, s4)" by fastforce
  have "log_frame s s4" using r(3) if_nametoindex_frame [OF i] log_frame_trans by blast
  with p m r i f show ?thesis
    by (auto simp: iface_bridge_attach_def Let_def intro!: returnsI returns_trans [OF set_master_total [OF assms]])
qed

lemma iface_bridge_prepare_total [ub_free]:
  assumes "env_ok env" "length name \<le> 900"
  shows "returns (iface_bridge_prepare env name create s) s"
proof -
  obtain i s1 where i: "if_nametoindex env name s = (i, s1)" by fastforce
  note f = if_nametoindex_frame [OF i]
  show ?thesis
    using i f bridge_request_mk [OF assms(2)]
    by (auto simp: iface_bridge_prepare_def link_up_mk split: prod.split option.split
        intro!: returnsI returns_trans [OF link_send_total [OF assms(1)]] send_built_total [OF assms(1)])
qed

section \<open>Properties\<close>

text \<open>C31. The request that creates a tunnel is exactly the kernel message for it: with a name and
  kind that fit, building never stores outside the 1056 bytes, and the bytes sent are the
  header (create, exclusive, up), the name, and the nested link information with the kind,
  the ingress index, the local and remote address and path MTU discovery off.\<close>

theorem gre_add_request_exact:
  assumes "length name + length kind \<le> 900"
  shows "\<exists>req. gre_add_request index name kind loc remote = Some (Some req) \<and> length req = REQUEST_SIZE \<and>
    nlmsg_len req = Some (32 + length (gre_body index name kind loc remote)) \<and>
    take (32 + length (gre_body index name kind loc remote)) req =
      octets (of_nat (32 + length (gre_body index name kind loc remote))) @
      link_header RTM_NEWLINK (NLM_F_CREATE OR NLM_F_EXCL) 0 IFF_UP @ gre_body index name kind loc remote"
proof -
  note g = gre_add_request_mk [OF assms, of index loc remote]
  show ?thesis
    unfolding g(1) using g(2) nlmsg_len_mk [OF g(2)]
    by (simp add: mk_req_def req_ok_def REQUEST_SIZE_def)
qed

theorem gre_add_request_exact_witness:
  "\<exists>req. gre_add_request 5 ''sgre0'' ''gretap'' 1 2 = Some (Some req) \<and> length req = REQUEST_SIZE"
  using gre_add_request_exact [of "''sgre0''" "''gretap''" 5 1 2] by (simp del: of_nat_add) blast

text \<open>C32. The scan of a netlink answer stays inside the received bytes, whatever lengths the
  messages claim.\<close>

theorem scan_reply_safe: "\<exists>r. scan_reply buf seq 0 (int (length buf)) = Some r"
  using scan_reply_inside [of "int (length buf)" buf 0 seq] by simp

end
