(* ===== verification/Ebtables_Correct.thy ===== *)
theory Ebtables_Correct
  imports Ebtables Os_Correct
begin

unbundle bit_operations_syntax

text \<open>
  Correctness of the firewall part: every operation returns, and the ledger of successful
  commands agrees with the bits and results that the code keeps: a bit of \<open>firewall_hooks\<close> is
  set exactly for a jump that has been inserted and not deleted, also after partial failures.
\<close>

section \<open>Every operation returns\<close>

lemma find_in_dirs_frame:
  "find_in_dirs env p name out n s = (b, out', s') \<Longrightarrow> log_frame s s'"
proof (induction env p name out n s rule: find_in_dirs.induct)
  case (1 env p name out n s)
  from "1.prems" show ?case
    by (subst (asm) find_in_dirs.simps)
      (auto simp: Let_def split: if_splits prod.splits option.splits dest!: "1.IH" [rotated -1])
qed

lemma ebtables_bin_frame:
  "ebtables_bin env s = (bin, s') \<Longrightarrow> s_execs s' = s_execs s \<and> s_initialized s' = s_initialized s \<and>
     s_log_fd s' = s_log_fd s"
  by (auto simp: ebtables_bin_def find_in_path_def Let_def log_frame_def split: if_splits prod.splits bool.splits
      dest!: find_in_dirs_frame)

text \<open>A run of commands: the ledger grows by the given entries.\<close>

definition runs :: "(int \<times> 'w sys) option \<Rightarrow> 'w sys \<Rightarrow> (int \<Rightarrow> (string list \<times> bool) list \<Rightarrow> bool) \<Rightarrow> bool" where
  "runs res s P \<longleftrightarrow> (\<exists>r s' ex. res = Some (r, s') \<and> (r = 0 \<or> r = -1) \<and> s_execs s' = s_execs s @ ex \<and> P r ex)"

lemma helper_exec_runs:
  assumes "env_ok env" "s_execs s1 = s_execs s"
  shows "runs (helper_exec env cfg argv s1) s (\<lambda>r ex. ex = [(argv, r = 0)])"
  using helper_exec_total [OF assms(1), of cfg argv s1] assms(2) by (auto simp: runs_def)

lemma chain_cmd_total [ub_free]:
  assumes "env_ok env"
  shows "\<exists>r s' ex. chain_cmd env cfg table op chain s = Some (r, s') \<and> (r = 0 \<or> r = -1) \<and>
    s_execs s' = s_execs s @ ex \<and> s_initialized s' = s_initialized s"
proof -
  obtain bin s1 where b: "ebtables_bin env s = (bin, s1)" by fastforce
  with ebtables_bin_frame [OF b] helper_exec_total [OF assms, of cfg "[bin, ''-t'', table, op, chain]" s1] show ?thesis
    by (auto simp: chain_cmd_def)
qed

lemma rule_cmd_runs:
  assumes "env_ok env"
  shows "\<exists>bin. runs (rule_cmd env cfg table op chain direction name None target s) s
    (\<lambda>r ex. ex = [([bin, ''-t'', table, op, chain, direction, name, ''-j'', target], r = 0)])"
proof -
  obtain bin s1 where b: "ebtables_bin env s = (bin, s1)" by fastforce
  with ebtables_bin_frame [OF b] helper_exec_runs [OF assms, of s1 s cfg] show ?thesis
    by (auto simp: rule_cmd_def)
qed

definition simple_total :: "(int \<times> 'w sys) option \<Rightarrow> bool" where
  "simple_total res \<longleftrightarrow> (\<exists>r s'. res = Some (r, s') \<and> (r = 0 \<or> r = -1))"

lemma or_else_total: "simple_total a \<Longrightarrow> (\<And>s. simple_total (b s)) \<Longrightarrow> simple_total (or_else a b)"
proof -
  assume a: "simple_total a" and b: "\<And>s. simple_total (b s)"
  from a obtain r s where r: "a = Some (r, s)" by (auto simp: simple_total_def)
  from b [of s] obtain r' s' where "b s = Some (r', s')" by (auto simp: simple_total_def)
  with r show ?thesis by (simp add: simple_total_def or_else_def)
qed

lemma both_cmds_total: "simple_total a \<Longrightarrow> (\<And>s. simple_total (b s)) \<Longrightarrow> simple_total (both_cmds a b)"
proof -
  assume a: "simple_total a" and b: "\<And>s. simple_total (b s)"
  from a obtain r s where r: "a = Some (r, s)" "r = 0 \<or> r = -1" by (auto simp: simple_total_def)
  from b [of s] obtain r' s' where "b s = Some (r', s')" "r' = 0 \<or> r' = -1" by (auto simp: simple_total_def)
  with r show ?thesis by (auto simp: simple_total_def both_cmds_def)
qed

lemma helper_exec_simple: "env_ok env \<Longrightarrow> simple_total (helper_exec env cfg argv s)"
  using helper_exec_total [of env cfg argv s] by (auto simp: simple_total_def)

lemma chain_cmd_simple: "env_ok env \<Longrightarrow> simple_total (chain_cmd env cfg table op chain s)"
  using chain_cmd_total [of env cfg table op chain s] by (auto simp: simple_total_def)

lemma chain_defaults_total: "env_ok env \<Longrightarrow> simple_total (chain_defaults env cfg s)"
  by (auto simp: chain_defaults_def split: prod.split intro!: or_else_total helper_exec_simple)

lemma iface_ebtables_reset_total [ub_free]: "env_ok env \<Longrightarrow> simple_total (iface_ebtables_reset env cfg s)"
proof -
  assume e: "env_ok env"
  from chain_cmd_simple [OF e] obtain r1 s1 where 1: "chain_cmd env cfg ''nat'' ''-F'' ''SOFTGRE_IN'' s = Some (r1, s1)"
    unfolding simple_total_def by blast
  from chain_cmd_simple [OF e] obtain r2 s2 where 2: "chain_cmd env cfg ''filter'' ''-F'' ''SOFTGRE_OUT'' s1 = Some (r2, s2)"
    unfolding simple_total_def by blast
  from 1 2 chain_defaults_total [OF e, of cfg s2] show ?thesis
    by (auto simp: iface_ebtables_reset_def simple_total_def)
qed

lemma iface_ebtables_end_total [ub_free]: "env_ok env \<Longrightarrow> simple_total (iface_ebtables_end env cfg s)"
proof -
  assume e: "env_ok env"
  have b: "simple_total (both_cmds (chain_cmd env cfg a o1 c s) (chain_cmd env cfg a' o2 c'))" for a o1 c a' o2 c' s
    by (intro both_cmds_total chain_cmd_simple e)
  obtain r1 s1 where 1: "both_cmds (chain_cmd env cfg ''nat'' ''-F'' ''SOFTGRE_IN'' s)
      (chain_cmd env cfg ''filter'' ''-F'' ''SOFTGRE_OUT'') = Some (r1, s1)" "r1 = 0 \<or> r1 = -1"
    using b unfolding simple_total_def by blast
  obtain r2 s2 where 2: "both_cmds (chain_cmd env cfg ''nat'' ''-X'' ''SOFTGRE_IN'' s1)
      (chain_cmd env cfg ''filter'' ''-X'' ''SOFTGRE_OUT'') = Some (r2, s2)" "r2 = 0 \<or> r2 = -1"
    using b unfolding simple_total_def by blast
  from 1 2 show ?thesis by (auto simp: iface_ebtables_end_def simple_total_def)
qed

lemma iface_ebtables_init_total [ub_free]: "env_ok env \<Longrightarrow> simple_total (iface_ebtables_init env cfg s)"
proof -
  assume e: "env_ok env"
  note c = chain_cmd_simple [OF e, of cfg, unfolded simple_total_def]
  obtain r1 s1 where 1: "chain_cmd env cfg ''nat'' ''-N'' ''SOFTGRE_IN'' s = Some (r1, s1)" using c by blast
  obtain r2 s2 where 2: "chain_cmd env cfg ''filter'' ''-N'' ''SOFTGRE_OUT'' s1 = Some (r2, s2)" using c by blast
  obtain r3 s3 where 3: "chain_cmd env cfg ''nat'' ''-X'' ''SOFTGRE_IN'' s2 = Some (r3, s3)" using c by blast
  obtain r4 s4 where 4: "chain_defaults env cfg (s2\<lparr>s_initialized := True\<rparr>) = Some (r4, s4)"
    using chain_defaults_total [OF e] unfolding simple_total_def by blast
  obtain r5 s5 where 5: "iface_ebtables_end env cfg s4 = Some (r5, s5)"
    using iface_ebtables_end_total [OF e] unfolding simple_total_def by blast
  from 1 2 3 4 5 show ?thesis by (auto simp: iface_ebtables_init_def simple_total_def)
qed

section \<open>The ledger of rules\<close>

text \<open>The commands that succeeded, without the program name.\<close>

definition successes :: "(string list \<times> bool) list \<Rightarrow> string list list" where
  "successes ex = map (tl \<circ> fst) (filter snd ex)"

text \<open>How often a rule was inserted minus how often it was deleted.\<close>

definition net :: "(string list \<times> bool) list \<Rightarrow> (string \<Rightarrow> string list) \<Rightarrow> int" where
  "net ex rule = int (count_list (successes ex) (rule ''-I'')) - int (count_list (successes ex) (rule ''-D''))"

lemma net_append: "net (a @ b) c = net a c + net b c"
  by (simp add: net_def successes_def)

lemma net_Nil [simp]: "net [] c = 0"
  by (simp add: net_def successes_def)

lemma net_single:
  "net [(argv, ok)] c = (if ok then of_bool (tl argv = c ''-I'') - of_bool (tl argv = c ''-D'') else 0)"
  by (auto simp: net_def successes_def)

definition jump :: "string \<Rightarrow> nat \<Rightarrow> string \<Rightarrow> string list" where
  "jump pattern j op =
     (case hooks ! j of (table, chain, direction, target) \<Rightarrow>
        [''-t'', table, op, chain, direction, pattern, ''-j'', target])"

lemma jump_eq: "i < 3 \<Longrightarrow> j < 3 \<Longrightarrow> jump p i a = jump p j b \<longleftrightarrow> i = j \<and> a = b"
  by (auto simp: jump_def hooks_def less_Suc_eq numeral_3_eq_3)

lemma net_jump:
  "i < 3 \<Longrightarrow> j < 3 \<Longrightarrow> net [(bin # jump p i ''-I'', ok)] (jump p j) = of_bool (ok \<and> i = j)"
  "i < 3 \<Longrightarrow> j < 3 \<Longrightarrow> net [(bin # jump p i ''-D'', ok)] (jump p j) = - of_bool (ok \<and> i = j)"
  by (auto simp: net_single jump_eq)


lemma rule_cmd_jump:
  assumes "env_ok env" "hooks ! i = (table, chain, direction, target)"
  shows "\<exists>r s' bin. rule_cmd env cfg table op chain direction p None target s = Some (r, s') \<and>
    (r = 0 \<or> r = -1) \<and> s_execs s' = s_execs s @ [(bin # jump p i op, r = 0)]"
  using rule_cmd_runs [OF assms(1), of cfg table op chain direction p target s] assms(2)
  by (auto simp: runs_def jump_def)

text \<open>
  What the two loops over the hooks keep: the ledger of a jump changes exactly as its bit does.
\<close>

definition balanced :: "string \<Rightarrow> u32 \<Rightarrow> u32 \<Rightarrow> (string list \<times> bool) list \<Rightarrow> bool" where
  "balanced p b b' ex \<longleftrightarrow> (\<forall>j < 3. net ex (jump p j) = of_bool (bit b' j) - of_bool (bit b j))"

lemma balanced_Nil [simp]: "balanced p b b []"
  by (simp add: balanced_def)

lemma balanced_append: "balanced p a b x \<Longrightarrow> balanced p b c y \<Longrightarrow> balanced p a c (x @ y)"
  by (simp add: balanced_def net_append)

lemma bit_hook: "(w :: u32) AND 2 ^ i = 0 \<longleftrightarrow> \<not> bit w i"
  using bit_iff_and_push_bit_not_eq_0 [of w i] by simp

lemma hooks_Cons: "h # hs = drop i hooks \<Longrightarrow> i < 3 \<and> hooks ! i = h \<and> hs = drop (i + 1) hooks"
proof -
  assume d: "h # hs = drop i hooks"
  then have "i < length hooks" by (metis drop_all leI list.distinct(1))
  with d show ?thesis by (auto simp: Cons_nth_drop_Suc [symmetric] hooks_def)
qed

definition same_above :: "nat \<Rightarrow> u32 \<Rightarrow> u32 \<Rightarrow> bool" where
  "same_above k b b' \<longleftrightarrow> (\<forall>j. j < k \<or> 3 \<le> j \<longrightarrow> bit b' j = bit b j)"

lemma add_hooks_ledger:
  assumes e: "env_ok env" and "hs = drop i hooks"
  shows "\<exists>r b' s' ex. add_hooks env cfg p i hs b s = Some (r, b', s') \<and> (r = 0 \<or> r = -1) \<and>
    s_execs s' = s_execs s @ ex \<and> balanced p b b' ex \<and> same_above i b b' \<and>
    (r = 0 \<longrightarrow> (\<forall>j. i \<le> j \<and> j < 3 \<longrightarrow> bit b' j))"
  using assms(2)
proof (induction hs arbitrary: i b s)
  case Nil
  then have "3 \<le> i" by (simp add: hooks_def)
  then show ?case by (auto simp: same_above_def)
next
  case (Cons h hs)
  obtain t c d g where h: "h = (t, c, d, g)" by (cases h)
  from hooks_Cons [OF Cons.prems] h have i: "i < 3" "hooks ! i = (t, c, d, g)" "hs = drop (i + 1) hooks" by auto
  note IH = Cons.IH [OF i(3)]
  show ?case
  proof (cases "bit b i")
    case True
    obtain r b' s' ex where x: "add_hooks env cfg p (i + 1) hs b s = Some (r, b', s')" "r = 0 \<or> r = -1"
      "s_execs s' = s_execs s @ ex" "balanced p b b' ex" "same_above (i + 1) b b'"
      "r = 0 \<longrightarrow> (\<forall>j. i + 1 \<le> j \<and> j < 3 \<longrightarrow> bit b' j)"
      using IH by blast
    have "bit b' i" "same_above i b b'" using x(5) True by (auto simp: same_above_def)
    moreover from this x(6) have "r = 0 \<longrightarrow> (\<forall>j. i \<le> j \<and> j < 3 \<longrightarrow> bit b' j)"
      by (metis Suc_eq_plus1 le_neq_implies_less Suc_leI)
    ultimately show ?thesis using x True h by (simp add: bit_hook)
  next
    case False
    obtain r s1 bin where r: "rule_cmd env cfg t ''-I'' c d p None g s = Some (r, s1)" "r = 0 \<or> r = -1"
      "s_execs s1 = s_execs s @ [(bin # jump p i ''-I'', r = 0)]"
      using rule_cmd_jump [OF e i(2)] by blast
    show ?thesis
    proof (cases "r = 0")
      case r0: False
      then have "balanced p b b [(bin # jump p i ''-I'', r = 0)]"
        using i(1) by (simp add: balanced_def net_jump)
      with r r0 False h show ?thesis by (auto simp: bit_hook same_above_def)
    next
      case True
      let ?b = "b OR push_bit i 1"
      have "balanced p b ?b [(bin # jump p i ''-I'', r = 0)]"
        using i(1) False True by (auto simp: balanced_def net_jump bit_simps)
      moreover obtain r' b' s' ex where x: "add_hooks env cfg p (i + 1) hs ?b s1 = Some (r', b', s')" "r' = 0 \<or> r' = -1"
        "s_execs s' = s_execs s1 @ ex" "balanced p ?b b' ex" "same_above (i + 1) ?b b'"
        "r' = 0 \<longrightarrow> (\<forall>j. i + 1 \<le> j \<and> j < 3 \<longrightarrow> bit b' j)"
        using IH by blast
      ultimately have "balanced p b b' ([(bin # jump p i ''-I'', r = 0)] @ ex)" using balanced_append by blast
      moreover have b': "bit b' i" "same_above i b b'"
        using x(5) i(1) by (auto simp: same_above_def bit_simps)
      moreover have "r' = 0 \<longrightarrow> (\<forall>j. i \<le> j \<and> j < 3 \<longrightarrow> bit b' j)"
        using x(6) b'(1) by (metis Suc_eq_plus1 le_neq_implies_less Suc_leI)
      ultimately show ?thesis using x r True False h by (auto simp: bit_hook)
    qed
  qed
qed

lemma del_hooks_ledger:
  assumes e: "env_ok env" and "hs = drop i hooks"
  shows "\<exists>b' s' ex. del_hooks env cfg p i hs b s = Some (b', s') \<and>
    s_execs s' = s_execs s @ ex \<and> balanced p b b' ex \<and> same_above i b b'"
  using assms(2)
proof (induction hs arbitrary: i b s)
  case Nil
  then show ?case by (auto simp: same_above_def)
next
  case (Cons h hs)
  obtain t c d g where h: "h = (t, c, d, g)" by (cases h)
  from hooks_Cons [OF Cons.prems] h have i: "i < 3" "hooks ! i = (t, c, d, g)" "hs = drop (i + 1) hooks" by auto
  note IH = Cons.IH [OF i(3)]
  show ?case
  proof (cases "bit b i")
    case False
    with IH [of b s] h show ?thesis by (auto simp: bit_hook same_above_def)
  next
    case True
    obtain r s1 bin where r: "rule_cmd env cfg t ''-D'' c d p None g s = Some (r, s1)" "r = 0 \<or> r = -1"
      "s_execs s1 = s_execs s @ [(bin # jump p i ''-D'', r = 0)]"
      using rule_cmd_jump [OF e i(2)] by blast
    let ?b = "if r = 0 then b AND NOT (push_bit i 1) else b"
    have "balanced p b ?b [(bin # jump p i ''-D'', r = 0)]"
      using i(1) True by (auto simp: balanced_def net_jump bit_simps)
    moreover obtain b' s' ex where x: "del_hooks env cfg p (i + 1) hs ?b s1 = Some (b', s')"
      "s_execs s' = s_execs s1 @ ex" "balanced p ?b b' ex" "same_above (i + 1) ?b b'"
      using IH by blast
    ultimately have "balanced p b b' ([(bin # jump p i ''-D'', r = 0)] @ ex)" using balanced_append by blast
    moreover have "same_above i b b'" using x(4) i(1) by (auto simp: same_above_def bit_simps split: if_splits dest: bit_imp_le_length)
    ultimately show ?thesis using x r True h by (auto simp: bit_hook)
  qed
qed


lemma iface_ebtables_add_tunnel_total [ub_free]:
  assumes "env_ok env"
  shows "\<exists>r b' s' ex. iface_ebtables_add_tunnel env cfg name b s = Some (r, b', s') \<and> (r = 0 \<or> r = -1) \<and>
    s_execs s' = s_execs s @ ex \<and> balanced (tunnel_pattern name) b b' ex \<and> same_above 0 b b' \<and>
    (r = 0 \<longrightarrow> (\<forall>j < 3. bit b' j))"
  using add_hooks_ledger [OF assms, of hooks 0 cfg "tunnel_pattern name" b s]
  by (auto simp: iface_ebtables_add_tunnel_def)

lemma iface_ebtables_del_tunnel_total [ub_free]:
  assumes "env_ok env"
  shows "\<exists>r b' s' ex. iface_ebtables_del_tunnel env cfg name b s = Some (r, b', s') \<and> (r = 0 \<or> r = -1) \<and>
    s_execs s' = s_execs s @ ex \<and> balanced (tunnel_pattern name) b b' ex \<and> same_above 0 b b' \<and>
    (r = 0 \<longleftrightarrow> b' = 0)"
  using del_hooks_ledger [OF assms, of hooks 0 cfg "tunnel_pattern name" b s]
  by (auto simp: iface_ebtables_del_tunnel_def)

section \<open>Client rules\<close>

definition in_rule :: "string \<Rightarrow> string \<Rightarrow> string \<Rightarrow> string list" where
  "in_rule p mac op = tl (client_in [] op p mac)"

definition out_rule :: "string \<Rightarrow> string \<Rightarrow> string \<Rightarrow> string list" where
  "out_rule p mac op = tl (client_out [] op p mac)"

lemma client_rules:
  "client_in bin op p mac = bin # in_rule p mac op" "client_out bin op p mac = bin # out_rule p mac op"
  "in_rule p mac a \<noteq> out_rule p mac b" "in_rule p mac a = in_rule p mac b \<longleftrightarrow> a = b"
  "out_rule p mac a \<noteq> in_rule p mac b" "out_rule p mac a = out_rule p mac b \<longleftrightarrow> a = b"
  by (simp_all add: client_in_def client_out_def in_rule_def out_rule_def)

text \<open>The effect of a command on the two rules of a client.\<close>

lemma net_client:
  "net [(bin # in_rule p m ''-I'', ok)] (in_rule p m) = of_bool ok"
  "net [(bin # in_rule p m ''-D'', ok)] (in_rule p m) = - of_bool ok"
  "net [(bin # out_rule p m ''-I'', ok)] (out_rule p m) = of_bool ok"
  "net [(bin # out_rule p m ''-D'', ok)] (out_rule p m) = - of_bool ok"
  "net [(bin # in_rule p m a, ok)] (out_rule p m) = 0" "net [(bin # out_rule p m a, ok)] (in_rule p m) = 0"
  by (auto simp: net_single client_rules)

lemma iface_ebtables_allow_total [ub_free]:
  assumes "env_ok env"
  shows "\<exists>r s' ex. iface_ebtables_allow env cfg name mac s = Some (r, s') \<and> (r = 0 \<or> r = -1) \<and>
    s_execs s' = s_execs s @ ex \<and>
    (r = 0 \<longrightarrow> net ex (in_rule (tunnel_pattern name) mac) = 1 \<and> net ex (out_rule (tunnel_pattern name) mac) = 1) \<and>
    (r \<noteq> 0 \<longrightarrow> net ex (out_rule (tunnel_pattern name) mac) = 0 \<and>
      (net ex (in_rule (tunnel_pattern name) mac) = 0 \<or>
       (\<exists>bin. last ex = (bin # in_rule (tunnel_pattern name) mac ''-D'', False))))"
proof -
  let ?p = "tunnel_pattern name"
  obtain bin s0 where b: "ebtables_bin env s = (bin, s0)" by fastforce
  obtain r1 s1 where 1: "helper_exec env cfg (bin # in_rule ?p mac ''-I'') s0 = Some (r1, s1)"
    "s_execs s1 = s_execs s0 @ [(bin # in_rule ?p mac ''-I'', r1 = 0)]"
    using helper_exec_total [OF assms] by blast
  obtain r2 s2 where 2: "helper_exec env cfg (bin # out_rule ?p mac ''-I'') s1 = Some (r2, s2)"
    "s_execs s2 = s_execs s1 @ [(bin # out_rule ?p mac ''-I'', r2 = 0)]"
    using helper_exec_total [OF assms] by blast
  obtain r3 s3 where 3: "helper_exec env cfg (bin # in_rule ?p mac ''-D'') s2 = Some (r3, s3)"
    "s_execs s3 = s_execs s2 @ [(bin # in_rule ?p mac ''-D'', r3 = 0)]"
    using helper_exec_total [OF assms] by blast
  have s0: "s_execs s0 = s_execs s" using ebtables_bin_frame [OF b] by simp
  note run = iface_ebtables_allow_def Let_def b 1(1) 2(1) 3(1)
  let ?e1 = "(bin # in_rule ?p mac ''-I'', r1 = 0)" and ?e2 = "(bin # out_rule ?p mac ''-I'', r2 = 0)"
  let ?e3 = "(bin # in_rule ?p mac ''-D'', r3 = 0)"
  note ex = 1(2) 2(2) 3(2) s0 client_rules(1,2)
  have app: "net [a, b] c = net [a] c + net [b] c" "net [a, b, e] c = net [a] c + net [b] c + net [e] c" for a b e c
    using net_append [of "[a]" "[b]" c] net_append [of "[a, b]" "[e]" c] by simp_all
  consider "r1 \<noteq> 0" | "r1 = 0" "r2 = 0" | "r1 = 0" "r2 \<noteq> 0" by blast
  then show ?thesis
  proof cases
    case 1
    then show ?thesis
      by (intro exI [of _ "-1"] exI [of _ s1] exI [of _ "[?e1]"]) (simp add: run ex net_client)
  next
    case 2
    then show ?thesis
      by (intro exI [of _ 0] exI [of _ s2] exI [of _ "[?e1, ?e2]"]) (simp add: run ex net_client app)
  next
    case 3
    then show ?thesis
      by (intro exI [of _ "-1"] exI [of _ s3] exI [of _ "[?e1, ?e2, ?e3]"]) (simp add: run ex net_client app)
  qed
qed

lemma iface_ebtables_revoke_total [ub_free]:
  assumes "env_ok env"
  shows "\<exists>r s' ex. iface_ebtables_revoke env cfg name mac s = Some (r, s') \<and> (r = 0 \<or> r = -1) \<and>
    s_execs s' = s_execs s @ ex \<and>
    (r = 0 \<longrightarrow> net ex (in_rule (tunnel_pattern name) mac) = -1 \<and> net ex (out_rule (tunnel_pattern name) mac) = -1)"
proof -
  let ?p = "tunnel_pattern name"
  obtain bin s0 where b: "ebtables_bin env s = (bin, s0)" by fastforce
  obtain r1 s1 where 1: "helper_exec env cfg (bin # in_rule ?p mac ''-D'') s0 = Some (r1, s1)"
    "s_execs s1 = s_execs s0 @ [(bin # in_rule ?p mac ''-D'', r1 = 0)]"
    using helper_exec_total [OF assms] by blast
  obtain r2 s2 where 2: "helper_exec env cfg (bin # out_rule ?p mac ''-D'') s1 = Some (r2, s2)"
    "s_execs s2 = s_execs s1 @ [(bin # out_rule ?p mac ''-D'', r2 = 0)]"
    using helper_exec_total [OF assms] by blast
  have s0: "s_execs s0 = s_execs s" using ebtables_bin_frame [OF b] by simp
  have app: "net [a, b] c = net [a] c + net [b] c" for a b c
    using net_append [of "[a]" "[b]" c] by simp
  show ?thesis
    by (intro exI [of _ "if r1 \<noteq> 0 \<or> r2 \<noteq> 0 then -1 else 0"] exI [of _ s2]
        exI [of _ "[(bin # in_rule ?p mac ''-D'', r1 = 0), (bin # out_rule ?p mac ''-D'', r2 = 0)]"])
      (simp add: iface_ebtables_revoke_def Let_def b 1 2 s0 client_rules(1,2) net_client app)
qed

section \<open>Properties\<close>

text \<open>C33. The hook bits tell the truth: after setting up or tearing down the jumps of a tunnel,
  completely or with failures in between, each of the three jumps has been inserted and deleted
  in balance with the change of its bit; set-up succeeds with all three bits set, and tear-down
  succeeds exactly when no bit is left.\<close>

theorem hook_bits_truthful:
  assumes "env_ok env"
  shows "(\<exists>r b' s' ex. iface_ebtables_add_tunnel env cfg name b s = Some (r, b', s') \<and>
      s_execs s' = s_execs s @ ex \<and> (r = 0 \<longrightarrow> bit b' 0 \<and> bit b' 1 \<and> bit b' 2) \<and>
      (\<forall>j < 3. net ex (jump (tunnel_pattern name) j) = of_bool (bit b' j) - of_bool (bit b j))) \<and>
    (\<exists>r b' s' ex. iface_ebtables_del_tunnel env cfg name b s = Some (r, b', s') \<and>
      s_execs s' = s_execs s @ ex \<and> (r = 0 \<longleftrightarrow> b' = 0) \<and>
      (\<forall>j < 3. net ex (jump (tunnel_pattern name) j) = of_bool (bit b' j) - of_bool (bit b j)))"
proof -
  have "bit b' 0 \<and> bit b' 1 \<and> bit b' 2" if "\<forall>j < 3. bit b' j" for b' :: u32 using that by simp
  then show ?thesis
    using iface_ebtables_add_tunnel_total [OF assms, of cfg name b s]
      iface_ebtables_del_tunnel_total [OF assms, of cfg name b s]
    unfolding balanced_def by metis
qed

theorem hook_bits_truthful_witness:
  "\<exists>r b' s' ex. iface_ebtables_add_tunnel demo_env softgred_config_ref ''sgre0'' 1 demo_sys = Some (r, b', s') \<and>
    s_execs s' = s_execs demo_sys @ ex \<and>
    (\<forall>j < 3. net ex (jump (tunnel_pattern ''sgre0'') j) = of_bool (bit b' j) - of_bool (bit (1 :: u32) j))"
  using hook_bits_truthful [OF demo_env_ok, of softgred_config_ref "''sgre0''" 1 demo_sys] by blast

text \<open>C34. Client rules: allowing a client succeeds exactly with both its accept rules inserted;
  when it fails, its outgoing rule is not there and its incoming rule has been taken back unless
  that last command failed too. Revoking succeeds exactly with both rules deleted.\<close>

theorem client_rules_balanced:
  assumes "env_ok env"
  shows "(\<exists>r s' ex. iface_ebtables_allow env cfg name mac s = Some (r, s') \<and> s_execs s' = s_execs s @ ex \<and>
      (r = 0 \<longrightarrow> net ex (in_rule (tunnel_pattern name) mac) = 1 \<and> net ex (out_rule (tunnel_pattern name) mac) = 1) \<and>
      (r \<noteq> 0 \<longrightarrow> net ex (out_rule (tunnel_pattern name) mac) = 0 \<and>
        (net ex (in_rule (tunnel_pattern name) mac) = 0 \<or>
         (\<exists>bin. last ex = (bin # in_rule (tunnel_pattern name) mac ''-D'', False))))) \<and>
    (\<exists>r s' ex. iface_ebtables_revoke env cfg name mac s = Some (r, s') \<and> s_execs s' = s_execs s @ ex \<and>
      (r = 0 \<longrightarrow> net ex (in_rule (tunnel_pattern name) mac) = -1 \<and> net ex (out_rule (tunnel_pattern name) mac) = -1))"
  using iface_ebtables_allow_total [OF assms, of cfg name mac s] iface_ebtables_revoke_total [OF assms, of cfg name mac s]
  by metis

theorem client_rules_balanced_witness:
  "\<exists>r s' ex. iface_ebtables_allow demo_env softgred_config_ref ''sgre0'' ''02:00:00:00:00:01'' demo_sys = Some (r, s') \<and>
     s_execs s' = s_execs demo_sys @ ex"
  using client_rules_balanced [OF demo_env_ok, of softgred_config_ref "''sgre0''" "''02:00:00:00:00:01''" demo_sys] by blast

end
