(* ===== verification/Config_Correct.thy ===== *)
theory Config_Correct
  imports Config
begin

unbundle bit_operations_syntax

text \<open>
  Correctness of the configuration: what the allowlist means (CIDR prefixes), what every
  configuration that loads satisfies, that a malformed line makes the load fail, and that a
  well-formed file is read back exactly.
\<close>

section \<open>Byte order and prefixes\<close>

lemma length_octets [simp]: "length (octets w) = 4"
  by (simp add: octets_def)

lemma ntohl_ntohl [simp]: "ntohl (ntohl w) = w"
  by (simp add: ntohl_def octets_le32 le32_octets)

definition prefix_mask :: "nat \<Rightarrow> u32" where
  "prefix_mask n = push_bit (32 - n) (NOT 0)"

definition in_prefix :: "nat \<Rightarrow> u32 \<Rightarrow> u32 \<Rightarrow> bool" where
  "in_prefix n net addr \<longleftrightarrow> drop_bit (32 - n) addr = drop_bit (32 - n) net"

lemma and_prefix_mask: "n \<le> 32 \<Longrightarrow> w AND prefix_mask n = push_bit (32 - n) (drop_bit (32 - n) w)"
  by (rule bit_word_eqI) (auto simp: prefix_mask_def bit_simps dest: bit_imp_le_length)

lemma prefix_match: "n \<le> 32 \<Longrightarrow> (a AND prefix_mask n = b AND prefix_mask n) \<longleftrightarrow> in_prefix n b a"
proof
  assume n: "n \<le> 32" and e: "a AND prefix_mask n = b AND prefix_mask n"
  have "drop_bit (32 - n) (push_bit (32 - n) (drop_bit (32 - n) w)) = drop_bit (32 - n) (w :: u32)" for w
    by (rule bit_word_eqI) (auto simp: bit_simps dest: bit_imp_le_length)
  with e show "in_prefix n b a" unfolding and_prefix_mask [OF n] in_prefix_def by metis
qed (simp add: and_prefix_mask in_prefix_def)

section \<open>The allowlist\<close>

text \<open>
  What an entry denotes, independently of the parser: an address, or an address, a slash and
  a number of bits in digits. The address is in host byte order.
\<close>

definition denotes :: "string \<Rightarrow> u32 \<Rightarrow> nat \<Rightarrow> bool" where
  "denotes e net n \<longleftrightarrow>
     (CHR ''/'' \<notin> set e \<and> inet_pton e = Some (ntohl net) \<and> n = 32) \<or>
     (\<exists>h b. e = h @ CHR ''/'' # b \<and> CHR ''/'' \<notin> set h \<and> inet_pton h = Some (ntohl net) \<and>
        b \<noteq> [] \<and> list_all ascii_isdigit b \<and> digits_val b = n \<and> n \<le> 32)"

lemma takeWhile_all: "list_all P s \<Longrightarrow> takeWhile P s = s"
  by (induction s) auto

lemma dropWhile_all: "list_all P s \<Longrightarrow> dropWhile P s = []"
  by (induction s) auto

text \<open>The test that the code makes on a number is that it is a nonempty string of digits.\<close>

lemma strtoul_number:
  "starts_with_digit s \<and> (case strtoul s of (v, rest, erange) \<Rightarrow> \<not> erange \<and> rest = [] \<and> lo \<le> v \<and> v \<le> hi) \<longleftrightarrow>
   s \<noteq> [] \<and> list_all ascii_isdigit s \<and> lo \<le> digits_val s \<and> digits_val s \<le> hi" if "hi < 2 ^ 64"
proof (cases "starts_with_digit s")
  case True
  then have "s \<noteq> []" "ascii_isdigit (hd s)" by (auto simp: starts_with_digit_def)
  note st = strtoul_digit [OF this]
  from \<open>s \<noteq> []\<close> True that show ?thesis
    unfolding st by (auto simp: Let_def list_all_iff takeWhile_all [unfolded list_all_iff])
next
  case False
  then show ?thesis by (cases s) (auto simp: starts_with_digit_def)
qed

lemma strtoul_number_val:
  assumes "s \<noteq> []" "list_all ascii_isdigit s" "digits_val s < 2 ^ 64"
  shows "strtoul s = (digits_val s, [], False)"
proof -
  have "ascii_isdigit (hd s)" using assms by (cases s) auto
  from strtoul_digit [OF assms(1) this] show ?thesis
    using assms by (simp add: takeWhile_all dropWhile_all)
qed

lemma prefix_mask_0: "prefix_mask 0 = 0"
  unfolding prefix_mask_def by (rule bit_word_eqI) (simp add: bit_simps)

lemma entry_mask: "ntohl (if n \<noteq> 0 then ntohl (push_bit (32 - n) (NOT 0)) else 0) = prefix_mask n"
proof (cases "n = 0")
  case True
  have "ntohl 0 = 0" by (simp add: ntohl_def octets_def le32_def)
  with True show ?thesis by (simp add: prefix_mask_0)
next
  case False
  then show ?thesis by (simp only: prefix_mask_def if_True ntohl_ntohl simp_thms)
qed

definition entry_of :: "string \<Rightarrow> nat \<Rightarrow> allow_remote option" where
  "entry_of host n = map_option
     (\<lambda>addr. \<lparr>ar_network = ntohl addr AND prefix_mask n, ar_mask = prefix_mask n\<rparr>) (inet_pton host)"

lemma parse_allow_entry_unfold:
  "parse_allow_entry e =
     (case strchr e (CHR ''/'') of
        None \<Rightarrow> entry_of e 32
      | Some (host, b) \<Rightarrow>
          if b \<noteq> [] \<and> list_all ascii_isdigit b \<and> digits_val b \<le> 32 then entry_of host (digits_val b) else None)"
proof (cases "strchr e (CHR ''/'')")
  case None
  then show ?thesis
    using entry_mask [of 32]
    by (simp add: parse_allow_entry_def Let_def entry_of_def map_option_case bind_split split: option.split
        del: bit.compl_zero)
next
  case (Some hb)
  then obtain h b where hb: "strchr e (CHR ''/'') = Some (h, b)" by (cases hb) auto
  obtain v r g where v: "strtoul b = (v, r, g)" by (cases "strtoul b") auto
  have num: "(\<not> starts_with_digit b \<or> g \<or> r \<noteq> [] \<or> v > 32) \<longleftrightarrow>
      \<not> (b \<noteq> [] \<and> list_all ascii_isdigit b \<and> digits_val b \<le> 32)"
    using strtoul_number [of 32 b 0] v by auto
  have val: "v = digits_val b" if "b \<noteq> [] \<and> list_all ascii_isdigit b \<and> digits_val b \<le> 32"
    using strtoul_number_val [of b] that v by simp
  show ?thesis
  proof (cases "b \<noteq> [] \<and> list_all ascii_isdigit b \<and> digits_val b \<le> 32")
    case True
    with num have "\<not> (\<not> starts_with_digit b \<or> g \<or> r \<noteq> [] \<or> v > 32)" by blast
    with True hb v val [OF True] show ?thesis
      using entry_mask [of "digits_val b"]
      by (cases "digits_val b = 0") (simp_all add: parse_allow_entry_def Let_def entry_of_def map_option_case
          bind_split split: option.split del: bit.compl_zero)
  next
    case False
    with num have "\<not> starts_with_digit b \<or> g \<or> r \<noteq> [] \<or> v > 32" by blast
    with False hb v show ?thesis by (auto simp: parse_allow_entry_def)
  qed
qed

lemma denotes_unfold:
  "denotes e net n \<longleftrightarrow>
     (case strchr e (CHR ''/'') of
        None \<Rightarrow> inet_pton e = Some (ntohl net) \<and> n = 32
      | Some (h, b) \<Rightarrow> inet_pton h = Some (ntohl net) \<and> b \<noteq> [] \<and> list_all ascii_isdigit b \<and>
          digits_val b = n \<and> n \<le> 32)"
proof (cases "strchr e (CHR ''/'')")
  case None
  then have "CHR ''/'' \<notin> set e" by (simp add: strchr_None)
  with None show ?thesis by (auto simp: denotes_def)
next
  case (Some hb)
  then obtain h b where hb: "strchr e (CHR ''/'') = Some (h, b)" by (cases hb) auto
  note e = strchr_Some [OF hb]
  have u: "h' = h \<and> b' = b" if "e = h' @ CHR ''/'' # b'" "CHR ''/'' \<notin> set h'" for h' b'
    using strchr_append [OF that(2), of b'] hb that(1) by simp
  have "(\<exists>h' b'. e = h' @ CHR ''/'' # b' \<and> CHR ''/'' \<notin> set h' \<and> P h' b') \<longleftrightarrow> P h b" for P
    using u e by blast
  moreover have "CHR ''/'' \<in> set e" using e by simp
  ultimately show ?thesis by (simp add: denotes_def hb)
qed

lemma parse_allow_entry_iff:
  "parse_allow_entry e = Some a \<longleftrightarrow>
   (\<exists>net n. denotes e net n \<and> a = \<lparr>ar_network = net AND prefix_mask n, ar_mask = prefix_mask n\<rparr>)"
proof -
  have "entry_of h n = Some a \<longleftrightarrow> (\<exists>net. inet_pton h = Some (ntohl net) \<and>
      a = \<lparr>ar_network = net AND prefix_mask n, ar_mask = prefix_mask n\<rparr>)" for h n
    unfolding entry_of_def by (auto, metis ntohl_ntohl)
  then show ?thesis
    by (auto simp: parse_allow_entry_unfold denotes_unfold split: option.split)
qed

lemma denotes_le: "denotes e net n \<Longrightarrow> n \<le> 32"
  by (auto simp: denotes_def)


text \<open>The loop over the fields, on the list of trimmed fields.\<close>

fun allow_all :: "string list \<Rightarrow> allow_remote list \<Rightarrow> bool \<times> allow_remote list" where
  "allow_all [] slots = (True, slots)"
| "allow_all (e # es) slots =
     (if e = [] \<or> length slots \<ge> SOFTGRED_MAX_ALLOW then (False, slots)
      else (case parse_allow_entry e of
              None \<Rightarrow> (False, slots) | Some a \<Rightarrow> allow_all es (slots @ [a])))"

lemma parse_allow_loop_fields:
  "parse_allow_loop (Some s) slots = allow_all (map str_trim (split_fields (CHR '','') s)) slots"
proof (induction s arbitrary: slots rule: length_induct)
  case (1 s)
  have fin: "parse_allow_loop None sl = (True, sl)" for sl
    by (simp add: parse_allow_loop.simps str_split_next_def)
  show ?case
  proof (cases "strchr s (CHR '','')")
    case None
    then show ?thesis
      by (subst parse_allow_loop.simps)
        (simp add: str_split_next_def split_fields.simps [of _ s] fin Let_def split: option.split)
  next
    case (Some ab)
    then obtain a b where ab: "strchr s (CHR '','') = Some (a, b)" by (cases ab) auto
    with 1 strchr_shorter [OF ab] show ?thesis
      by (subst parse_allow_loop.simps)
        (simp add: str_split_next_def split_fields.simps [of _ s] Let_def split: option.split)
  qed
qed

lemma inet_pton_Nil [simp]: "inet_pton [] = None"
  by (simp add: inet_pton_def)

lemma parse_allow_entry_Nil [simp]: "parse_allow_entry [] = None"
  by (simp add: parse_allow_entry_def)

lemma allow_all_Cons:
  "allow_all (e # es) slots =
     (case parse_allow_entry e of
        None \<Rightarrow> (False, slots)
      | Some a \<Rightarrow> if length slots \<ge> SOFTGRED_MAX_ALLOW then (False, slots) else allow_all es (slots @ [a]))"
  by (auto split: option.split)

lemma allow_all_iff:
  "allow_all es slots = (True, slots') \<longleftrightarrow>
   (\<exists>as. slots' = slots @ as \<and> list_all2 (\<lambda>e a. parse_allow_entry e = Some a) es as \<and>
      (es \<noteq> [] \<longrightarrow> length slots + length es \<le> SOFTGRED_MAX_ALLOW))"
proof (induction es arbitrary: slots)
  case (Cons e es)
  show ?case
  proof (cases "parse_allow_entry e")
    case None
    then show ?thesis by (simp add: allow_all_Cons list_all2_Cons1 del: allow_all.simps)
  next
    case (Some a)
    with Cons [of "slots @ [a]"] show ?thesis
      by (auto simp: allow_all_Cons list_all2_Cons1 simp del: allow_all.simps)
  qed
qed auto

lemma split_fields_nonempty: "split_fields d s \<noteq> []"
  by (subst split_fields.simps) (auto split: option.split)

definition allow_entries :: "string \<Rightarrow> string list" where
  "allow_entries list = map str_trim (split_fields (CHR '','') list)"

lemma parse_allow_iff:
  "fst (parse_allow cfg list err) \<longleftrightarrow>
     length (allow_entries list) \<le> SOFTGRED_MAX_ALLOW \<and>
     list_all (\<lambda>e. \<exists>net n. denotes e net n) (allow_entries list)"
proof -
  have "fst (parse_allow cfg list err) \<longleftrightarrow> (\<exists>slots. allow_all (allow_entries list) [] = (True, slots))"
    by (auto simp: parse_allow_def parse_allow_loop_fields allow_entries_def split: prod.split)
  also have "\<dots> \<longleftrightarrow> length (allow_entries list) \<le> SOFTGRED_MAX_ALLOW \<and>
      (\<exists>as. list_all2 (\<lambda>e a. parse_allow_entry e = Some a) (allow_entries list) as)"
    using split_fields_nonempty [of "CHR '',''" list] by (auto simp: allow_all_iff allow_entries_def)
  also have "(\<exists>as. list_all2 (\<lambda>e a. parse_allow_entry e = Some a) es as) \<longleftrightarrow>
      list_all (\<lambda>e. \<exists>a. parse_allow_entry e = Some a) es" for es
    by (induction es) (auto simp: list_all2_Cons1)
  finally show ?thesis by (simp add: parse_allow_entry_iff)
qed

lemma parse_allow_slots:
  assumes "parse_allow cfg list err = (True, cfg', err')"
  shows "\<exists>as. cfg' = cfg\<lparr>c_allow := as\<rparr> \<and>
    list_all2 (\<lambda>e a. parse_allow_entry e = Some a) (allow_entries list) as \<and> as \<noteq> [] \<and>
    length as \<le> SOFTGRED_MAX_ALLOW"
proof -
  obtain slots where s: "allow_all (allow_entries list) [] = (True, slots)" "cfg' = cfg\<lparr>c_allow := slots\<rparr>"
    using assms by (auto simp: parse_allow_def parse_allow_loop_fields allow_entries_def split: prod.splits)
  moreover have "allow_entries list \<noteq> []" using split_fields_nonempty by (simp add: allow_entries_def)
  ultimately show ?thesis by (auto simp: allow_all_iff list_all2_lengthD)
qed

lemma allow_match_denotes:
  assumes "parse_allow_entry e = Some a"
  shows "allow_match r a \<longleftrightarrow> (\<exists>net n. denotes e net n \<and> in_prefix n net r)"
proof -
  obtain net n where d: "denotes e net n" "a = \<lparr>ar_network = net AND prefix_mask n, ar_mask = prefix_mask n\<rparr>"
    using assms by (auto simp: parse_allow_entry_iff)
  have u: "net' = net \<and> n' = n" if "denotes e net' n'" for net' n'
    using that d(1) unfolding denotes_unfold by (auto split: option.splits) (metis ntohl_ntohl)+
  have "allow_match r a \<longleftrightarrow> in_prefix n net r"
    using prefix_match [OF denotes_le [OF d(1)]] d(2) by (simp add: allow_match_def)
  with d(1) u show ?thesis by metis
qed

lemma list_ex_all2:
  "list_all2 (\<lambda>e a. P e = Some a) es as \<Longrightarrow> list_ex Q as \<longleftrightarrow> (\<exists>e a. e \<in> set es \<and> P e = Some a \<and> Q a)"
  by (induction es as rule: list_all2_induct) auto

lemma parse_allow_semantics:
  assumes "parse_allow cfg list err = (True, cfg', err')"
  shows "c_allow cfg' \<noteq> []"
    and "config_remote_allowed cfg' r \<longleftrightarrow>
      (\<exists>e net n. e \<in> set (allow_entries list) \<and> denotes e net n \<and> in_prefix n net r)"
proof -
  obtain as where as: "cfg' = cfg\<lparr>c_allow := as\<rparr>" "as \<noteq> []"
    "list_all2 (\<lambda>e a. parse_allow_entry e = Some a) (allow_entries list) as"
    using parse_allow_slots [OF assms] by blast
  then show "c_allow cfg' \<noteq> []" by simp
  have "parse_allow_entry e \<noteq> None" if "e \<in> set (allow_entries list)" for e
    using as(3) that by (auto simp: list_all2_conv_all_nth in_set_conv_nth)
  then show "config_remote_allowed cfg' r \<longleftrightarrow>
      (\<exists>e net n. e \<in> set (allow_entries list) \<and> denotes e net n \<and> in_prefix n net r)"
    using as(1,2) list_ex_all2 [OF as(3), of "allow_match r"] allow_match_denotes
    by (auto simp: config_remote_allowed_def) blast+
qed

section \<open>The bridge map\<close>

definition bridge_ok :: "tunnel_bridge \<Rightarrow> bool" where
  "bridge_ok b \<longleftrightarrow> 1 \<le> unat (br_vlan_id b) \<and> unat (br_vlan_id b) \<le> 4094 \<and> config_valid_ifname (Some (br_ifname b))"

definition bridges_ok :: "tunnel_bridge list \<Rightarrow> bool" where
  "bridges_ok bs \<longleftrightarrow> length bs \<le> SOFTGRED_MAX_ATTACH \<and> distinct (map br_vlan_id bs) \<and> list_all bridge_ok bs"

lemma config_valid_ifname_length: "config_valid_ifname (Some s) \<Longrightarrow> length s < IFNAMSIZ"
  by (simp add: config_valid_ifname_def)

lemma parse_bridge_entry_ok:
  assumes "parse_bridge_entry e slots = Some b" "bridges_ok slots"
  shows "bridges_ok (slots @ [b])"
proof -
  obtain x y where xy: "strchr e (CHR ''@'') = Some (x, y)"
    using assms(1) by (auto simp: parse_bridge_entry_def split: option.splits)
  obtain n r g where n: "strtoul (str_trim x) = (n, r, g)" by (cases "strtoul (str_trim x)") auto
  from assms(1) xy n have c: "length slots < SOFTGRED_MAX_ATTACH" "1 \<le> n" "n \<le> 4094"
    "config_valid_ifname (Some (str_trim y))" "\<not> list_ex (\<lambda>b. unat (br_vlan_id b) = n) slots"
    "b = \<lparr>br_ifname = snd (str_lcpy [] (str_trim y) IFNAMSIZ), br_vlan_id = of_nat n\<rparr>"
    by (auto simp: parse_bridge_entry_def Let_def split: if_splits)
  then have b: "br_ifname b = str_trim y" "unat (br_vlan_id b) = n"
    by (simp_all add: str_lcpy_fits config_valid_ifname_length unat_of_nat)
  moreover have "br_vlan_id b \<notin> br_vlan_id ` set slots"
    using c(5) b(2) by (auto simp: list_ex_iff)
  ultimately show ?thesis using c assms(2) by (auto simp: bridges_ok_def bridge_ok_def)
qed

lemma parse_bridges_loop_ok:
  "bridges_ok slots \<Longrightarrow> parse_bridges_loop cursor slots = (ok, slots') \<Longrightarrow> bridges_ok slots'"
proof (induction cursor slots rule: parse_bridges_loop.induct)
  case (1 cursor slots)
  then show ?case
    using parse_bridge_entry_ok
    by (subst (asm) (2) parse_bridges_loop.simps) (auto split: prod.splits option.splits)
qed

text \<open>Writing a bridge map; reading it back gives the same bridges.\<close>

fun join_fields :: "char \<Rightarrow> string list \<Rightarrow> string" where
  "join_fields d [] = []"
| "join_fields d [s] = s"
| "join_fields d (s # r) = s @ d # join_fields d r"

lemma split_join_fields:
  "ss \<noteq> [] \<Longrightarrow> list_all (\<lambda>s. d \<notin> set s) ss \<Longrightarrow> split_fields d (join_fields d ss) = ss"
  by (induction d ss rule: join_fields.induct)
    (simp_all add: split_fields.simps strchr_append strchr_None [THEN iffD2])

definition bridge_text :: "tunnel_bridge \<Rightarrow> string" where
  "bridge_text b = dec_str (unat (br_vlan_id b)) @ CHR ''@'' # br_ifname b"

definition ifname_char :: "char \<Rightarrow> bool" where
  "ifname_char c \<longleftrightarrow> ascii_isalnum c \<or> c = CHR ''_'' \<or> c = CHR ''-'' \<or> c = CHR ''.''"

lemma ifname_chars: "config_valid_ifname (Some s) \<Longrightarrow> s \<noteq> [] \<and> list_all ifname_char s"
  by (simp add: config_valid_ifname_def ifname_char_def list_all_iff)

lemma ifname_char_not:
  "\<not> ifname_char (CHR '','')" "\<not> ifname_char (CHR ''@'')" "ifname_char c \<Longrightarrow> \<not> isspace c"
  by (auto simp: ifname_char_def ascii_isalnum_def isspace_def ch_def)

lemma ifname_list_not:
  assumes "list_all ifname_char s"
  shows "CHR '','' \<notin> set s" "CHR ''@'' \<notin> set s" "s \<noteq> [] \<Longrightarrow> \<not> isspace (hd s)" "s \<noteq> [] \<Longrightarrow> \<not> isspace (last s)"
proof -
  have a: "c \<in> set s \<Longrightarrow> ifname_char c" for c using assms by (simp add: list_all_iff)
  then show "CHR '','' \<notin> set s" "CHR ''@'' \<notin> set s" using ifname_char_not by blast+
  show "s \<noteq> [] \<Longrightarrow> \<not> isspace (hd s)" "s \<noteq> [] \<Longrightarrow> \<not> isspace (last s)"
    using a ifname_char_not(3) by simp_all
qed

lemma isdigit_ifname_char: "ascii_isdigit c \<Longrightarrow> ifname_char c"
  by (simp add: ifname_char_def ascii_isalnum_def ascii_isdigit_def)

lemma bridge_text_chars:
  assumes "bridge_ok b"
  shows "CHR '','' \<notin> set (bridge_text b)" "str_trim (bridge_text b) = bridge_text b"
    "strchr (bridge_text b) (CHR ''@'') = Some (dec_str (unat (br_vlan_id b)), br_ifname b)"
proof -
  have n: "br_ifname b \<noteq> []" "list_all ifname_char (br_ifname b)"
    using assms ifname_chars by (auto simp: bridge_ok_def)
  have d: "list_all ifname_char (dec_str n)" for n
    using dec_str_digits [of n] by (auto simp: list_all_iff intro: isdigit_ifname_char)
  show "CHR '','' \<notin> set (bridge_text b)"
    using ifname_list_not(1) [OF n(2)] ifname_list_not(1) [OF d] by (simp add: bridge_text_def)
  show "str_trim (bridge_text b) = bridge_text b"
    using n(1) ifname_list_not(4) [OF n(2)] ifname_list_not(3) [OF d] dec_str_nonempty
    by (intro str_trim_id) (simp add: bridge_text_def)
  show "strchr (bridge_text b) (CHR ''@'') = Some (dec_str (unat (br_vlan_id b)), br_ifname b)"
    unfolding bridge_text_def
    by (intro strchr_append ifname_list_not(2) d)
qed

lemma str_trim_ifname: "list_all ifname_char s \<Longrightarrow> str_trim s = s"
  by (rule str_trim_id) (simp add: ifname_list_not)

lemma dec_str_number: "starts_with_digit (dec_str n)" "str_trim (dec_str n) = dec_str n"
proof -
  have "list_all ifname_char (dec_str n)"
    using dec_str_digits [of n] by (auto simp: list_all_iff intro: isdigit_ifname_char)
  then show "str_trim (dec_str n) = dec_str n" by (rule str_trim_ifname)
  show "starts_with_digit (dec_str n)"
    using dec_str_digits [of n] dec_str_nonempty [of n] by (cases "dec_str n") (auto simp: starts_with_digit_def)
qed

lemma parse_bridge_entry_text:
  assumes "bridges_ok (slots @ [b])"
  shows "parse_bridge_entry (bridge_text b) slots = Some b"
proof -
  have b: "bridge_ok b" "length slots < SOFTGRED_MAX_ATTACH" "br_vlan_id b \<notin> br_vlan_id ` set slots"
    using assms by (auto simp: bridges_ok_def)
  then have v: "1 \<le> unat (br_vlan_id b)" "unat (br_vlan_id b) \<le> 4094" "config_valid_ifname (Some (br_ifname b))"
    by (auto simp: bridge_ok_def)
  have "\<not> list_ex (\<lambda>x. unat (br_vlan_id x) = unat (br_vlan_id b)) slots"
    using b(3) by (auto simp: list_ex_iff word_unat_eq_iff image_iff)
  moreover have "str_trim (br_ifname b) = br_ifname b" using ifname_chars [OF v(3)] str_trim_ifname by blast
  moreover have "strtoul (dec_str (unat (br_vlan_id b))) = (unat (br_vlan_id b), [], False)"
    using v(2) by (intro strtoul_dec_str) simp
  ultimately show ?thesis
    using b v bridge_text_chars(3) [OF b(1)]
    by (simp add: parse_bridge_entry_def dec_str_number str_lcpy_fits config_valid_ifname_length)
qed

fun bridges_all :: "string list \<Rightarrow> tunnel_bridge list \<Rightarrow> bool \<times> tunnel_bridge list" where
  "bridges_all [] slots = (True, slots)"
| "bridges_all (e # es) slots =
     (case parse_bridge_entry e slots of None \<Rightarrow> (False, slots) | Some b \<Rightarrow> bridges_all es (slots @ [b]))"

lemma parse_bridges_loop_fields:
  "parse_bridges_loop (Some s) slots = bridges_all (map str_trim (split_fields (CHR '','') s)) slots"
proof (induction s arbitrary: slots rule: length_induct)
  case (1 s)
  have fin: "parse_bridges_loop None sl = (True, sl)" for sl
    by (simp add: parse_bridges_loop.simps str_split_next_def)
  show ?case
  proof (cases "strchr s (CHR '','')")
    case None
    then show ?thesis
      by (subst parse_bridges_loop.simps)
        (simp add: str_split_next_def split_fields.simps [of _ s] fin split: option.split)
  next
    case (Some ab)
    then obtain a b where ab: "strchr s (CHR '','') = Some (a, b)" by (cases ab) auto
    with 1 strchr_shorter [OF ab] show ?thesis
      by (subst parse_bridges_loop.simps)
        (simp add: str_split_next_def split_fields.simps [of _ s] split: option.split)
  qed
qed

lemma bridges_ok_prefix: "bridges_ok (xs @ ys) \<Longrightarrow> bridges_ok xs"
  by (auto simp: bridges_ok_def)

lemma bridges_all_text:
  "bridges_ok (slots @ bs) \<Longrightarrow> bridges_all (map bridge_text bs) slots = (True, slots @ bs)"
proof (induction bs arbitrary: slots)
  case (Cons b bs)
  have "bridges_ok (slots @ [b])" using Cons.prems bridges_ok_prefix [of "slots @ [b]" bs] by simp
  with Cons show ?case by (simp add: parse_bridge_entry_text)
qed simp

lemma parse_bridges_text:
  assumes "bridges_ok bs" "bs \<noteq> []"
  shows "parse_bridges cfg (join_fields (CHR '','') (map bridge_text bs)) = (True, cfg\<lparr>c_bridge := bs\<rparr>)"
proof -
  have "\<forall>b \<in> set bs. bridge_ok b" using assms(1) by (simp add: bridges_ok_def list_all_iff)
  then have "map str_trim (map bridge_text bs) = map bridge_text bs"
    "list_all (\<lambda>s. CHR '','' \<notin> set s) (map bridge_text bs)"
    using bridge_text_chars by (auto simp: list_all_iff)
  with assms bridges_all_text [of "[]" bs] show ?thesis
    by (simp add: parse_bridges_def parse_bridges_loop_fields split_join_fields del: map_map)
qed

section \<open>Every configuration that loads\<close>

definition config_ok :: "softgred_config \<Rightarrow> bool" where
  "config_ok cfg \<longleftrightarrow>
     config_valid_ifname (c_ifname cfg) \<and> config_valid_ifname (c_tunnel_prefix cfg) \<and>
     length (the (c_tunnel_prefix cfg)) \<le> 6 \<and>
     c_bridge cfg \<noteq> [] \<and> bridges_ok (c_bridge cfg) \<and> length (c_allow cfg) \<le> SOFTGRED_MAX_ALLOW \<and>
     c_pid_file cfg \<noteq> None \<and> path_is_absolute (c_log_file cfg) \<and>
     CHR 0x0D \<notin> set (the (c_log_file cfg)) \<and> CHR 0x0A \<notin> set (the (c_log_file cfg)) \<and>
     (config_valid_ifname (c_srv_bind_in cfg) \<or> c_srv_bind_in cfg = Some ''any'') \<and>
     1 \<le> c_srv_port cfg \<and> c_srv_port cfg \<le> 65535 \<and>
     1 \<le> c_srv_max_listen cfg \<and> c_srv_max_listen cfg \<le> 128"

lemma read_uint_range:
  "read_uint ini g k lo hi v err = (True, v', err') \<Longrightarrow> v' = v \<or> lo \<le> v' \<and> v' \<le> hi"
  by (auto simp: read_uint_def split: option.splits prod.splits if_splits)

definition same_network :: "softgred_config \<Rightarrow> softgred_config \<Rightarrow> bool" where
  "same_network cfg cfg' \<longleftrightarrow>
     c_ifname cfg' = c_ifname cfg \<and> c_tunnel_prefix cfg' = c_tunnel_prefix cfg \<and>
     c_bridge cfg' = c_bridge cfg"

definition same_files :: "softgred_config \<Rightarrow> softgred_config \<Rightarrow> bool" where
  "same_files cfg cfg' \<longleftrightarrow> c_pid_file cfg' = c_pid_file cfg \<and> c_log_file cfg' = c_log_file cfg"

definition same_ports :: "softgred_config \<Rightarrow> softgred_config \<Rightarrow> bool" where
  "same_ports cfg cfg' \<longleftrightarrow> c_srv_port cfg' = c_srv_port cfg \<and> c_srv_max_listen cfg' = c_srv_max_listen cfg"

lemmas same_defs = same_network_def same_files_def same_ports_def

lemma load_typed_ok:
  assumes "load_typed file (ok, cfg, ts, err) = (True, cfg', ts', err')"
  shows "ok \<and> same_network cfg cfg' \<and> same_files cfg cfg' \<and> c_allow cfg' = c_allow cfg \<and>
    c_srv_bind_in cfg' = c_srv_bind_in cfg \<and>
    (c_srv_port cfg' = c_srv_port cfg \<or> 1 \<le> c_srv_port cfg' \<and> c_srv_port cfg' \<le> 65535) \<and>
    (c_srv_max_listen cfg' = c_srv_max_listen cfg \<or> 1 \<le> c_srv_max_listen cfg' \<and> c_srv_max_listen cfg' \<le> 128)"
  using assms unfolding load_typed_def and_then_def Let_def
  by (auto simp: same_defs split: if_splits prod.splits dest!: read_uint_range)

lemma load_service_ok:
  assumes "load_service file now uts (cfg, err) = (True, cfg', err')"
  shows "same_network cfg cfg' \<and> same_files cfg cfg' \<and> c_allow cfg' = c_allow cfg \<and>
    (config_valid_ifname (c_srv_bind_in cfg') \<or> c_srv_bind_in cfg' = Some ''any'') \<and>
    (c_srv_port cfg' = c_srv_port cfg \<or> 1 \<le> c_srv_port cfg' \<and> c_srv_port cfg' \<le> 65535) \<and>
    (c_srv_max_listen cfg' = c_srv_max_listen cfg \<or> 1 \<le> c_srv_max_listen cfg' \<and> c_srv_max_listen cfg' \<le> 128)"
proof -
  let ?c = "cfg\<lparr>c_srv_bind_in := read_string file ''service'' ''bind-in'' (Some ''lo'')\<rparr>"
  obtain ok c ts where t: "load_typed file (ok, ?c, False, err) = (True, c, ts, err')"
    and ok: "ok = (case c_srv_bind_in ?c of None \<Rightarrow> False | Some b \<Rightarrow> config_valid_ifname (Some b) \<or> b = ''any'')"
    and c: "cfg' = c\<lparr>c_dbg_time := c_dbg_time c \<or> ts,
       c_dbg_mode := (if c_dbg_enable c \<and> c_dbg_mode c = 0 then 1 else c_dbg_mode c),
       c_started_time := now, c_uts := uts\<rparr>"
    using assms by (auto simp: load_service_def Let_def split: prod.splits)
  have "config_valid_ifname (c_srv_bind_in ?c) \<or> c_srv_bind_in ?c = Some ''any''"
    using load_typed_ok [OF t] ok by (auto split: option.splits)
  with load_typed_ok [OF t] c show ?thesis by (simp add: same_defs)
qed

lemma parse_bridges_ok: "parse_bridges cfg t = (True, cfg') \<Longrightarrow> \<exists>bs. cfg' = cfg\<lparr>c_bridge := bs\<rparr> \<and> bs \<noteq> [] \<and> bridges_ok bs"
  using parse_bridges_loop_ok [of "[]" "Some t"]
  by (auto simp: parse_bridges_def bridges_ok_def split: prod.splits)

lemma load_names_ok:
  assumes "load_names file cfg = (True, cfg')"
  shows "config_valid_ifname (c_ifname cfg') \<and> config_valid_ifname (c_tunnel_prefix cfg') \<and>
    length (the (c_tunnel_prefix cfg')) \<le> 6 \<and> c_bridge cfg' \<noteq> [] \<and> bridges_ok (c_bridge cfg') \<and>
    same_files cfg cfg' \<and> same_ports cfg cfg'"
proof -
  let ?c = "cfg\<lparr>c_ifname := read_string file ''global'' ''interface'' None,
    c_tunnel_prefix := read_string file ''global'' ''tunnel-prefix'' (Some ''sgre'')\<rparr>"
  obtain t where "config_valid_ifname (c_ifname ?c)" "config_valid_ifname (c_tunnel_prefix ?c)"
    "length (the (c_tunnel_prefix ?c)) \<le> 6" and p: "parse_bridges ?c t = (True, cfg')"
    using assms by (simp add: load_names_def Let_def split: if_splits option.splits)
  with parse_bridges_ok [OF p] show ?thesis by (auto simp: same_defs)
qed

lemma load_allow_ok:
  assumes "load_allow file (cfg, err) = (True, cfg', err')"
  shows "length (c_allow cfg') \<le> SOFTGRED_MAX_ALLOW \<and> same_network cfg cfg' \<and> same_files cfg cfg' \<and>
    same_ports cfg cfg' \<and>
    (case ini_get file ''global'' ''allow-remotes'' of
       None \<Rightarrow> c_allow cfg' = []
     | Some list \<Rightarrow> parse_allow (cfg\<lparr>c_allow := []\<rparr>) list err = (True, cfg', err'))"
proof (cases "ini_get file ''global'' ''allow-remotes''")
  case None
  with assms show ?thesis by (auto simp: load_allow_def ini_has_def same_defs)
next
  case (Some list)
  with assms have p: "parse_allow (cfg\<lparr>c_allow := []\<rparr>) list err = (True, cfg', err')"
    by (simp add: load_allow_def ini_has_def read_string_def)
  from parse_allow_slots [OF p] Some p show ?thesis by (auto simp: same_defs)
qed

lemma load_paths_ok:
  assumes "load_paths bld file cfg = (True, cfg')"
  shows "c_pid_file cfg' \<noteq> None \<and> path_is_absolute (c_log_file cfg') \<and>
    CHR 0x0D \<notin> set (the (c_log_file cfg')) \<and> CHR 0x0A \<notin> set (the (c_log_file cfg')) \<and>
    same_network cfg cfg' \<and> same_ports cfg cfg' \<and> c_allow cfg' = c_allow cfg"
  using assms
  by (auto simp: load_paths_def Let_def read_string_def same_defs split: if_splits option.splits)

lemma load_conf_steps:
  assumes "softgred_config_load_conf bld se now uts path src cfg = (True, cfg', out)"
  obtains ini cfg1 cfg2 cfg3 err2 err' where
    "ini_load se src = Inr ini" "load_names ini cfg = (True, cfg1)"
    "load_allow ini (cfg1, []) = (True, cfg2, err2)" "load_paths bld ini cfg2 = (True, cfg3)"
    "load_service ini now uts (cfg3, err2) = (True, cfg', err')" "out = []"
  using assms unfolding softgred_config_load_conf_def Let_def
  by (auto split: sum.splits prod.splits if_splits)

lemma load_conf_ok:
  assumes "softgred_config_load_conf bld se now uts path src cfg = (True, cfg', out)"
    and "1 \<le> c_srv_port cfg" "c_srv_port cfg \<le> 65535" "1 \<le> c_srv_max_listen cfg" "c_srv_max_listen cfg \<le> 128"
  shows "config_ok cfg'"
proof -
  from assms(1) obtain ini cfg1 cfg2 cfg3 err2 err' where
    l: "load_names ini cfg = (True, cfg1)" "load_allow ini (cfg1, []) = (True, cfg2, err2)"
    "load_paths bld ini cfg2 = (True, cfg3)" "load_service ini now uts (cfg3, err2) = (True, cfg', err')"
    by (rule load_conf_steps) blast
  show ?thesis
    using load_names_ok [OF l(1)] load_allow_ok [OF l(2)] load_paths_ok [OF l(3)] load_service_ok [OF l(4)] assms(2-)
    by (simp add: config_ok_def same_defs) linarith
qed

lemma load_cli_ports:
  "softgred_config_load_cli bld opts used cfg = (r, cfg', out) \<Longrightarrow>
   c_srv_port cfg' = c_srv_port cfg \<and> c_srv_max_listen cfg' = c_srv_max_listen cfg"
  by (induction bld opts used cfg rule: softgred_config_load_cli.induct) (auto split: if_splits)


section \<open>The INI reader\<close>

function lines_of :: "string \<Rightarrow> string list" where
  "lines_of s = (if s = [] then [] else fst (getline s) # lines_of (snd (getline s)))"
  by pat_completeness auto
termination
  by (relation "measure length") (auto simp: getline_def dest: strchr_shorter split: option.splits)

declare lines_of.simps [simp del]

text \<open>The lines that the reader must refuse, described without the reader's own steps.\<close>

definition malformed :: "string \<Rightarrow> bool" where
  "malformed line \<longleftrightarrow> nul \<in> set line \<or>
     (let s = str_trim line
      in s \<noteq> [] \<and> hd s \<noteq> CHR ''#'' \<and> hd s \<noteq> CHR '';'' \<and>
         (if hd s = CHR ''[''
          then \<not> (\<exists>g. s = CHR ''['' # g @ [CHR '']''] \<and> CHR '']'' \<notin> set g \<and> 1 \<le> length g \<and> length g \<le> 63)
          else CHR ''='' \<notin> set s \<or> hd s = CHR ''=''))"

lemma str_trim_hd: "str_trim s \<noteq> [] \<Longrightarrow> \<not> isspace (hd (str_trim s))"
  using str_trim_spec [of s] by blast

lemma str_trim_not_Nil: "s \<noteq> [] \<Longrightarrow> \<not> isspace (hd s) \<Longrightarrow> str_trim s \<noteq> []"
proof
  assume s: "s \<noteq> []" "\<not> isspace (hd s)" and t: "str_trim s = []"
  obtain a b where "s = a @ b" "list_all isspace a" "list_all isspace b"
    using str_trim_spec [of s] t by auto
  then have "list_all isspace s" by simp
  with s show False by (cases s) auto
qed

lemma header_iff:
  assumes "s \<noteq> []" "hd s = CHR ''[''"
  shows "(\<exists>g. s = CHR ''['' # g @ [CHR '']''] \<and> CHR '']'' \<notin> set g \<and> 1 \<le> length g \<and> length g \<le> 63) \<longleftrightarrow>
    (\<exists>b. strchr s (CHR '']'') = Some (b, []) \<and> length b \<noteq> 1 \<and> length b - 1 < 64)" (is "?l \<longleftrightarrow> ?r")
proof
  assume ?l
  then obtain g where g: "s = (CHR ''['' # g) @ CHR '']'' # []" "CHR '']'' \<notin> set g" "1 \<le> length g" "length g \<le> 63"
    unfolding append_Cons by blast
  have "strchr s (CHR '']'') = Some (CHR ''['' # g, [])"
    unfolding g(1) by (rule strchr_append) (use g(2) in simp)
  with g(3,4) show ?r by (intro exI [of _ "CHR ''['' # g"]) auto
next
  assume ?r
  then obtain b where b: "strchr s (CHR '']'') = Some (b, [])" "length b \<noteq> 1" "length b - 1 < 64" by blast
  from strchr_Some [OF b(1)] have s: "s = b @ [CHR '']'']" "CHR '']'' \<notin> set b" by auto
  have "b \<noteq> []" using s(1) assms(2) by (cases b) simp_all
  then obtain c g where b': "b = c # g" by (cases b) simp_all
  with s(1) assms(2) have c: "c = CHR ''[''" by simp
  from b(2,3) have "1 \<le> length g" "length g \<le> 63" unfolding b' by (cases g; simp)+
  with s show ?l unfolding b' c by simp
qed

lemma ini_line_Inl: "(\<exists>e. ini_line line n g ps = Inl e) \<longleftrightarrow> malformed line"
proof (cases "nul \<in> set line")
  case True
  then show ?thesis by (simp add: ini_line_def malformed_def)
next
  case nul: False
  let ?s = "str_trim line"
  show ?thesis
  proof (cases "?s = [] \<or> hd ?s = CHR ''#'' \<or> hd ?s = CHR '';''")
    case True
    with nul show ?thesis by (auto simp: ini_line_def malformed_def)
  next
    case s: False
    show ?thesis
    proof (cases "hd ?s = CHR ''[''")
      case True
      have "(\<exists>e. ini_line line n g ps = Inl e) \<longleftrightarrow>
          \<not> (\<exists>b. strchr ?s (CHR '']'') = Some (b, []) \<and> length b \<noteq> 1 \<and> length b - 1 < 64)"
        using nul s True by (auto simp: ini_line_def Let_def split: option.splits if_splits)
      also have "\<dots> \<longleftrightarrow> malformed line"
        using header_iff [of ?s] nul s True by (simp add: malformed_def)
      finally show ?thesis .
    next
      case False
      show ?thesis
      proof (cases "strchr ?s (CHR ''='')")
        case None
        then have "CHR ''='' \<notin> set ?s" by (simp add: strchr_None)
        with None nul s False show ?thesis by (simp add: ini_line_def malformed_def Let_def)
      next
        case (Some ab)
        then obtain a b where ab: "strchr ?s (CHR ''='') = Some (a, b)" by (cases ab) auto
        note e = strchr_Some [OF ab]
        then have i: "CHR ''='' \<in> set ?s" by (metis in_set_conv_decomp)
        have "a = [] \<longleftrightarrow> hd ?s = CHR ''=''"
          using e by (metis append_Nil hd_append2 list.sel(1) list.set_sel(1))
        moreover have "str_trim a \<noteq> []" if "a \<noteq> []"
          using that e str_trim_hd [of line] s by (intro str_trim_not_Nil) (auto simp: hd_append)
        ultimately show ?thesis
          using ab nul s False i by (auto simp: ini_line_def malformed_def Let_def)
      qed
    qed
  qed
qed

lemma ini_read_Inl: "(\<exists>e. ini_read s n g ps = Inl e) \<longleftrightarrow> list_ex malformed (lines_of s)"
proof (induction s n g ps rule: ini_read.induct)
  case (1 s n g ps)
  show ?case
  proof (cases "s = []")
    case True
    then show ?thesis by (simp add: ini_read.simps lines_of.simps)
  next
    case False
    have l: "lines_of s = fst (getline s) # lines_of (snd (getline s))"
      using False by (simp add: lines_of.simps [of s])
    show ?thesis
    proof (cases "ini_line (fst (getline s)) (n + 1) g ps")
      case (Inl e)
      then have "malformed (fst (getline s))" using ini_line_Inl by blast
      with Inl l False show ?thesis by (simp add: ini_read.simps [of s])
    next
      case (Inr r)
      then obtain g' ps' where r: "ini_line (fst (getline s)) (n + 1) g ps = Inr (g', ps')" by (cases r) auto
      then have "\<not> malformed (fst (getline s))" using ini_line_Inl by (metis sum.distinct(1))
      with r l False 1 show ?thesis by (simp add: ini_read.simps [of s])
    qed
  qed
qed

text \<open>Writing a file: groups with their pairs, one line each.\<close>

definition pair_line :: "string \<times> string \<Rightarrow> string" where
  "pair_line = (\<lambda>(k, v). k @ CHR ''='' # v)"

definition ini_render :: "(string \<times> (string \<times> string) list) list \<Rightarrow> string" where
  "ini_render gs = concat (map (\<lambda>(g, kvs).
     concat (map (\<lambda>l. l @ [CHR 0x0A]) ((CHR ''['' # g @ [CHR '']'']) # map pair_line kvs))) gs)"

definition clean :: "string \<Rightarrow> bool" where
  "clean s \<longleftrightarrow> nul \<notin> set s \<and> CHR 0x0A \<notin> set s \<and> str_trim s = s"

definition wf_pair :: "string \<times> string \<Rightarrow> bool" where
  "wf_pair = (\<lambda>(k, v). clean k \<and> clean v \<and> k \<noteq> [] \<and> CHR ''='' \<notin> set k \<and>
     hd k \<noteq> CHR ''['' \<and> hd k \<noteq> CHR ''#'' \<and> hd k \<noteq> CHR '';'')"

definition wf_group :: "string \<times> (string \<times> string) list \<Rightarrow> bool" where
  "wf_group = (\<lambda>(g, kvs). nul \<notin> set g \<and> CHR 0x0A \<notin> set g \<and> CHR '']'' \<notin> set g \<and> 1 \<le> length g \<and>
     length g \<le> 63 \<and> list_all wf_pair kvs)"

definition group_pairs :: "string \<times> (string \<times> string) list \<Rightarrow> ini_pair list" where
  "group_pairs = (\<lambda>(g, kvs). map (\<lambda>(k, v). \<lparr>i_group = g, i_key = k, i_value = v\<rparr>) kvs)"


lemma getline_line: "CHR 0x0A \<notin> set l \<Longrightarrow> getline (l @ CHR 0x0A # r) = (l @ [CHR 0x0A], r)"
  by (simp add: getline_def strchr_append)

lemma ini_read_line:
  assumes "CHR 0x0A \<notin> set l" "ini_line (l @ [CHR 0x0A]) (n + 1) g ps = Inr (g', ps')"
  shows "ini_read (l @ CHR 0x0A # r) n g ps = ini_read r (n + 1) g' ps'"
  using assms by (simp add: ini_read.simps [of "l @ _"] getline_line)

lemma newline_space: "isspace (CHR 0x0A)"
  by (simp add: isspace_def ch_def)

lemma str_trim_newline:
  assumes "l \<noteq> []" "\<not> isspace (hd l)" "\<not> isspace (last l)"
  shows "str_trim (l @ [CHR 0x0A]) = l"
proof -
  have "dropWhile isspace (l @ [CHR 0x0A]) = l @ [CHR 0x0A]" using assms by (cases l) auto
  moreover have "trim_end (l @ [CHR 0x0A]) = trim_end l"
    using newline_space by (simp add: trim_end.simps [of "l @ [CHR 0x0A]"])
  moreover have "trim_end l = l" using assms by (simp add: trim_end.simps [of l])
  ultimately show ?thesis by (simp add: str_trim_def)
qed

lemma clean_ends: "clean s \<Longrightarrow> s \<noteq> [] \<Longrightarrow> \<not> isspace (hd s) \<and> \<not> isspace (last s)"
  using str_trim_spec [of s] unfolding clean_def by (metis)

lemma ini_line_header:
  assumes "nul \<notin> set g" "CHR '']'' \<notin> set g" "1 \<le> length g" "length g \<le> 63"
  shows "ini_line ((CHR ''['' # g @ [CHR '']'']) @ [CHR 0x0A]) n g0 ps = Inr (g, ps)"
proof -
  have t: "str_trim ((CHR ''['' # g @ [CHR '']'']) @ [CHR 0x0A]) = CHR ''['' # g @ [CHR '']'']"
    by (rule str_trim_newline) (simp_all add: isspace_def ch_def)
  have c: "strchr (CHR ''['' # g @ [CHR '']'']) (CHR '']'') = Some (CHR ''['' # g, [])"
    using strchr_append [of "CHR '']''" "CHR ''['' # g" "[]"] assms(2) by simp
  have nn: "nul \<notin> set ((CHR ''['' # g @ [CHR '']'']) @ [CHR 0x0A])" using assms(1) by (simp add: nul_def)
  have "g \<noteq> []" "length g < 64" using assms by auto
  then show ?thesis
    unfolding ini_line_def Let_def t c if_not_P [OF nn] by (simp add: str_lcpy_fits)
qed

lemma ini_line_pair:
  assumes "wf_pair (k, v)"
  shows "ini_line (pair_line (k, v) @ [CHR 0x0A]) n g ps =
    Inr (g, ps @ [\<lparr>i_group = g, i_key = k, i_value = v\<rparr>])"
proof -
  have w: "clean k" "clean v" "k \<noteq> []" "CHR ''='' \<notin> set k" "hd k \<noteq> CHR ''[''" "hd k \<noteq> CHR ''#''" "hd k \<noteq> CHR '';''"
    using assms by (auto simp: wf_pair_def)
  have e: "\<not> isspace (CHR ''='')" by (simp add: isspace_def ch_def)
  have t: "str_trim (pair_line (k, v) @ [CHR 0x0A]) = pair_line (k, v)"
    using clean_ends [OF w(1,3)] clean_ends [OF w(2)] w(3) e
    by (intro str_trim_newline) (auto simp: pair_line_def)
  have c: "strchr (pair_line (k, v)) (CHR ''='') = Some (k, v)"
    using w(4) by (simp add: pair_line_def strchr_append)
  have nn: "nul \<notin> set (pair_line (k, v) @ [CHR 0x0A])"
    using w(1,2) by (auto simp: pair_line_def clean_def nul_def)
  have h: "pair_line (k, v) \<noteq> []" "hd (pair_line (k, v)) = hd k" using w(3) by (simp_all add: pair_line_def)
  show ?thesis
    unfolding ini_line_def Let_def t c if_not_P [OF nn] h(2)
    using w h(1) by (simp add: clean_def)
qed

lemma ini_read_pairs:
  assumes "list_all wf_pair kvs"
  shows "ini_read (concat (map (\<lambda>l. l @ [CHR 0x0A]) (map pair_line kvs)) @ r) n g ps =
    ini_read r (n + length kvs) g (ps @ group_pairs (g, kvs))"
  using assms
proof (induction kvs arbitrary: n ps)
  case (Cons kv kvs)
  obtain k v where kv: "kv = (k, v)" by (cases kv)
  have nl: "CHR 0x0A \<notin> set (pair_line (k, v))"
    using Cons.prems kv by (auto simp: wf_pair_def clean_def pair_line_def)
  have "ini_read (concat (map (\<lambda>l. l @ [CHR 0x0A]) (map pair_line (kv # kvs))) @ r) n g ps =
      ini_read (pair_line (k, v) @ CHR 0x0A # (concat (map (\<lambda>l. l @ [CHR 0x0A]) (map pair_line kvs)) @ r)) n g ps"
    by (simp add: kv)
  also have "\<dots> = ini_read (concat (map (\<lambda>l. l @ [CHR 0x0A]) (map pair_line kvs)) @ r) (n + 1) g
      (ps @ [\<lparr>i_group = g, i_key = k, i_value = v\<rparr>])"
    using Cons.prems kv by (intro ini_read_line nl ini_line_pair) simp
  finally show ?case using Cons by (simp add: kv group_pairs_def)
qed (simp add: group_pairs_def)

lemma ini_read_group:
  assumes "wf_group (g, kvs)"
  shows "\<exists>m. ini_read (concat (map (\<lambda>l. l @ [CHR 0x0A]) ((CHR ''['' # g @ [CHR '']'']) # map pair_line kvs)) @ r) n g0 ps =
    ini_read r m g (ps @ group_pairs (g, kvs))"
proof -
  have w: "nul \<notin> set g" "CHR '']'' \<notin> set g" "1 \<le> length g" "length g \<le> 63" "CHR 0x0A \<notin> set g" "list_all wf_pair kvs"
    using assms by (auto simp: wf_group_def)
  then have nl: "CHR 0x0A \<notin> set (CHR ''['' # g @ [CHR '']''])" by simp
  have "ini_read ((CHR ''['' # g @ [CHR '']'']) @ CHR 0x0A # (concat (map (\<lambda>l. l @ [CHR 0x0A]) (map pair_line kvs)) @ r)) n g0 ps =
      ini_read (concat (map (\<lambda>l. l @ [CHR 0x0A]) (map pair_line kvs)) @ r) (n + 1) g ps"
    by (rule ini_read_line [OF nl ini_line_header [OF w(1-4)]])
  with ini_read_pairs [OF w(6)] show ?thesis by auto
qed

lemma ini_read_render:
  "list_all wf_group gs \<Longrightarrow> ini_read (ini_render gs) n g ps = Inr (ps @ concat (map group_pairs gs))"
proof (induction gs arbitrary: n g ps)
  case Nil
  then show ?case by (simp add: ini_render_def ini_read.simps)
next
  case (Cons x gs)
  obtain g' kvs where x: "x = (g', kvs)" by (cases x)
  have "ini_render (x # gs) =
      concat (map (\<lambda>l. l @ [CHR 0x0A]) ((CHR ''['' # g' @ [CHR '']'']) # map pair_line kvs)) @ ini_render gs"
    by (simp add: ini_render_def x)
  with ini_read_group [of g' kvs "ini_render gs" n g ps] Cons x show ?case by auto
qed


section \<open>An example configuration\<close>

definition example_build :: build where
  "example_build = \<lparr>b_confdir = ''/etc'', b_piddir = ''/run'', b_package_string = ''softgred'', b_package_version = ''1'', b_service = True\<rparr>"

definition example_uts :: utsname where
  "example_uts = \<lparr>u_sysname = ''Linux'', u_release = [], u_version = [], u_machine = []\<rparr>"

definition example_groups :: "(string \<times> (string \<times> string) list) list" where
  "example_groups =
     [(''global'', [(''interface'', ''eth0''), (''bridge-map'', ''10@br0''), (''allow-remotes'', ''10.0.0.0/8'')])]"

lemma example_groups_wf: "list_all wf_group example_groups"
  by (simp add: example_groups_def wf_group_def wf_pair_def clean_def str_trim_def trim_end.simps isspace_def
      ch_def nul_def)

lemma example_ini:
  "ini_load se (Readable (ini_render example_groups) None) = Inr
     [\<lparr>i_group = ''global'', i_key = ''interface'', i_value = ''eth0''\<rparr>,
      \<lparr>i_group = ''global'', i_key = ''bridge-map'', i_value = ''10@br0''\<rparr>,
      \<lparr>i_group = ''global'', i_key = ''allow-remotes'', i_value = ''10.0.0.0/8''\<rparr>]"
  by (simp add: ini_load_def ini_read_render [OF example_groups_wf])
    (simp add: example_groups_def group_pairs_def)

lemma example_bridges:
  "parse_bridges cfg ''10@br0'' = (True, cfg\<lparr>c_bridge := [\<lparr>br_ifname = ''br0'', br_vlan_id = 10\<rparr>]\<rparr>)"
proof -
  let ?b = "\<lparr>br_ifname = ''br0'', br_vlan_id = 10\<rparr> :: tunnel_bridge"
  have "bridges_ok [?b]"
    by (simp add: bridges_ok_def bridge_ok_def SOFTGRED_MAX_ATTACH_def config_valid_ifname_def IFNAMSIZ_def
        ascii_isalnum_def ch_def)
  moreover have "join_fields (CHR '','') (map bridge_text [?b]) = ''10@br0''"
    by (simp add: bridge_text_def dec_str.simps digit_char_def char_of_def bit_0)
  ultimately show ?thesis using parse_bridges_text [of "[?b]" cfg] by simp
qed

lemma example_entry: "parse_allow_entry ''10.0.0.0/8'' = Some \<lparr>ar_network = 0x0A000000, ar_mask = 0xFF000000\<rparr>"
proof -
  have "prefix_mask 8 = 0xFF000000" by (simp add: prefix_mask_def mask_eq_exp_minus_1)
  then show ?thesis
    by (simp add: parse_allow_entry_unfold entry_of_def inet_pton_def pton_octet_def ascii_isdigit_def ch_def
      digits_val_def digit_val_def le32_def ntohl_def octets_def)
qed

lemma example_allow:
  "parse_allow cfg ''10.0.0.0/8'' err = (True, cfg\<lparr>c_allow := [\<lparr>ar_network = 0x0A000000, ar_mask = 0xFF000000\<rparr>]\<rparr>, err)"
  by (simp add: parse_allow_def parse_allow_loop.simps str_split_next_def str_trim_def trim_end.simps isspace_def
     ch_def SOFTGRED_MAX_ALLOW_def example_entry)

definition example_config :: softgred_config where
  "example_config = softgred_config_ref
     \<lparr>c_ifname := Some ''eth0'', c_tunnel_prefix := Some ''sgre'',
      c_bridge := [\<lparr>br_ifname = ''br0'', br_vlan_id = 10\<rparr>],
      c_allow := [\<lparr>ar_network = 0x0A000000, ar_mask = 0xFF000000\<rparr>],
      c_pid_file := Some ''/run/softgred.pid'', c_log_file := Some ''/var/log/softgred.log'',
      c_srv_bind_in := Some ''lo'', c_uts := example_uts\<rparr>"

lemma example_load:
  "softgred_config_load_conf example_build se 0 example_uts path (Readable (ini_render example_groups) None)
     softgred_config_ref = (True, example_config, [])"
  by (simp add: softgred_config_load_conf_def example_ini load_names_def read_string_def ini_get_def
      config_valid_ifname_def IFNAMSIZ_def ascii_isalnum_def ch_def example_bridges load_allow_def ini_has_def
      example_allow load_paths_def softgred_config_ref_def zero_config_def SOFTGRED_DEFAULT_PIDFILE_def
      SOFTGRED_DEFAULT_LOGFILE_def example_build_def path_is_absolute_def load_service_def load_typed_def
      and_then_def read_bool_def read_uint_def example_config_def)
section \<open>Properties\<close>

text \<open>C23. Startup configuration: when the command line asks the daemon to run and the file loads,
  the interface and prefix are valid names with a prefix of at most six characters, there are
  between one and ten bridges with distinct VLAN ids between 1 and 4094 and valid names, the
  allowlist fits its array, the log path is absolute and on one line, and the port and client
  limit are in range.\<close>

theorem config_load_ok:
  assumes "softgred_config_load_cli bld opts used softgred_config_ref = (1, cfg1, out1)"
    and "softgred_config_load_conf bld se now uts path src cfg1 = (True, cfg2, out2)"
  shows "config_ok cfg2"
  using load_conf_ok [OF assms(2)] load_cli_ports [OF assms(1)]
  by (simp add: softgred_config_ref_def zero_config_def)

theorem config_load_ok_witness: "config_ok example_config"
  by (rule config_load_ok [OF _ example_load [where se = "\<lambda>_. []" and path = "[]"], of "[]" True "[]"]) simp

text \<open>C24. The allowlist, exactly: it is accepted when it has at most 64 comma-separated entries
  and each, with blanks trimmed, is an IPv4 address or an address with a prefix length of at
  most 32; then a remote address is allowed exactly when it lies in one of those prefixes.\<close>

theorem allow_remotes_exact:
  "(fst (parse_allow cfg list err) \<longleftrightarrow>
     length (allow_entries list) \<le> 64 \<and> list_all (\<lambda>e. \<exists>net n. denotes e net n) (allow_entries list)) \<and>
   (fst (parse_allow cfg list err) \<longrightarrow>
     (config_remote_allowed (fst (snd (parse_allow cfg list err))) r \<longleftrightarrow>
     (\<exists>e net n. e \<in> set (allow_entries list) \<and> denotes e net n \<and> in_prefix n net r)))"
proof -
  obtain ok cfg' err' where p: "parse_allow cfg list err = (ok, cfg', err')"
    by (cases "parse_allow cfg list err") auto
  with parse_allow_semantics(2) [of cfg list err cfg' err' r] parse_allow_iff [of cfg list err] show ?thesis
    by (simp add: SOFTGRED_MAX_ALLOW_def)
qed

theorem allow_remotes_exact_witness:
  "config_remote_allowed (softgred_config_ref\<lparr>c_allow := [\<lparr>ar_network = 0x0A000000, ar_mask = 0xFF000000\<rparr>]\<rparr>) 0x0A010203 \<longleftrightarrow>
   (\<exists>e net n. e \<in> set (allow_entries ''10.0.0.0/8'') \<and> denotes e net n \<and> in_prefix n net 0x0A010203)"
  using allow_remotes_exact [of softgred_config_ref "''10.0.0.0/8''" "[]"] by (simp add: example_allow)

text \<open>C25. The allowlist fails closed: when the file defines \<open>allow-remotes\<close> and the load
  succeeds, the allowlist is not empty, and only addresses in a prefix named by the file are
  allowed (no fall back to the permissive default).\<close>

theorem allow_remotes_fail_closed:
  assumes "softgred_config_load_conf bld se now uts path src cfg = (True, cfg', out)"
    and "ini_load se src = Inr ini" "ini_get ini ''global'' ''allow-remotes'' = Some list"
    and "config_remote_allowed cfg' r"
  shows "c_allow cfg' \<noteq> [] \<and> (\<exists>e net n. e \<in> set (allow_entries list) \<and> denotes e net n \<and> in_prefix n net r)"
proof -
  from assms(1) obtain ini' cfg1 cfg2 cfg3 err2 err' where
    l: "ini_load se src = Inr ini'" "load_allow ini' (cfg1, []) = (True, cfg2, err2)"
    "load_paths bld ini' cfg2 = (True, cfg3)" "load_service ini' now uts (cfg3, err2) = (True, cfg', err')"
    by (rule load_conf_steps) blast
  with assms(2) have "ini' = ini" by simp
  with load_allow_ok [OF l(2)] assms(3)
  have p: "parse_allow (cfg1\<lparr>c_allow := []\<rparr>) list [] = (True, cfg2, err2)" by simp
  have a: "c_allow cfg' = c_allow cfg2"
    using load_paths_ok [OF l(3)] load_service_ok [OF l(4)] by simp
  then have "config_remote_allowed cfg' r = config_remote_allowed cfg2 r"
    by (simp add: config_remote_allowed_def)
  with parse_allow_semantics [OF p] a assms(4) show ?thesis by simp
qed

theorem allow_remotes_fail_closed_witness:
  "c_allow example_config \<noteq> [] \<and>
   (\<exists>e net n. e \<in> set (allow_entries ''10.0.0.0/8'') \<and> denotes e net n \<and> in_prefix n net 0x0A010203)"
  by (rule allow_remotes_fail_closed [OF example_load [where se = "\<lambda>_. []" and path = "[]"] example_ini])
    (simp_all add: ini_get_def config_remote_allowed_def allow_match_def example_config_def)

text \<open>C26. The file is refused exactly when one of its lines is malformed: an embedded NUL byte, a
  group header that is not one nonempty name of at most 63 characters in brackets, or a line
  that is neither blank, comment, header nor a pair with a nonempty key. No line is skipped.\<close>

theorem ini_load_rejects:
  "(\<exists>e. ini_load se (Readable s None) = Inl e) \<longleftrightarrow> list_ex malformed (lines_of s)"
proof -
  have "(\<exists>e. ini_load se (Readable s None) = Inl e) \<longleftrightarrow> (\<exists>e. ini_read s 0 [] [] = Inl e)"
    by (auto simp: ini_load_def split: sum.splits)
  then show ?thesis by (simp add: ini_read_Inl)
qed

text \<open>C27. A written file is read back: for groups and pairs that can be written on lines of
  their own, loading the text gives the pairs in order, each with its group.\<close>

theorem ini_load_render:
  assumes "list_all wf_group gs"
  shows "ini_load se (Readable (ini_render gs) None) = Inr (concat (map group_pairs gs))"
  by (simp add: ini_load_def ini_read_render [OF assms])

theorem ini_load_render_witness:
  "ini_load (\<lambda>_. []) (Readable (ini_render example_groups) None) = Inr (concat (map group_pairs example_groups))"
  by (rule ini_load_render [OF example_groups_wf])

text \<open>C28. The bridge map is read back: for one to ten bridges with valid names and distinct VLAN
  ids in range, parsing the written map fills exactly these slots.\<close>

theorem bridge_map_roundtrip:
  assumes "bs \<noteq> []" "bridges_ok bs"
  shows "parse_bridges cfg (join_fields (CHR '','') (map bridge_text bs)) = (True, cfg\<lparr>c_bridge := bs\<rparr>)"
  using assms by (rule parse_bridges_text [rotated])

theorem bridge_map_roundtrip_witness:
  "parse_bridges softgred_config_ref
     (join_fields (CHR '','') (map bridge_text [\<lparr>br_ifname = ''br0'', br_vlan_id = 10\<rparr>])) =
   (True, softgred_config_ref\<lparr>c_bridge := [\<lparr>br_ifname = ''br0'', br_vlan_id = 10\<rparr>]\<rparr>)"
  by (rule bridge_map_roundtrip)
    (simp_all add: bridges_ok_def bridge_ok_def SOFTGRED_MAX_ATTACH_def config_valid_ifname_def IFNAMSIZ_def
      ascii_isalnum_def ch_def)

end
