(* ===== verification/Provision_Inv.thy ===== *)
theory Provision_Inv
  imports Provision Hashmap_Correct Netlink_Correct Ebtables_Correct Config_Correct
begin

text \<open>
  The invariant of the tunnel state and that every operation keeps it and returns: the table of
  tunnels and the heap name the same tunnels, the index of MAC addresses holds exactly the
  clients of the tunnels (so no address is on two of them), a slot is marked exactly when a
  tunnel has it, and no operation uses or frees a tunnel that is gone.
\<close>

section \<open>Invariant\<close>

abbreviation ip_inv :: "(u32, nat) hashmap \<Rightarrow> bool" where
  "ip_inv \<equiv> setup_inv hashmap_hash_u32 False True"

abbreviation mac_inv :: "(string, 'v) hashmap \<Rightarrow> bool" where
  "mac_inv \<equiv> setup_inv hashmap_hash_str True False"

definition clients :: "tunnel_context \<Rightarrow> string set" where
  "clients t = dom (hm_abs (t_macs t))"

text \<open>The two tables against the heap.\<close>

definition some_tunnel :: "(nat \<rightharpoonup> tunnel_context) \<Rightarrow> nat option \<Rightarrow> (tunnel_context \<Rightarrow> bool) \<Rightarrow> bool" where
  "some_tunnel H v P \<longleftrightarrow> (\<exists>q t. v = Some q \<and> H q = Some t \<and> P t)"

definition tab_inv :: "(u32, nat) hashmap \<Rightarrow> (string, nat) hashmap \<Rightarrow> (nat \<rightharpoonup> tunnel_context) \<Rightarrow> bool" where
  "tab_inv T I H \<longleftrightarrow>
     (\<forall>k v. hm_abs T k = Some v \<longleftrightarrow> some_tunnel H v (\<lambda>t. t_ip_remote t = k)) \<and>
     (\<forall>m v. hm_abs I m = Some v \<longleftrightarrow> some_tunnel H v (\<lambda>t. m \<in> clients t))"

definition slots_inv :: "bool list \<Rightarrow> (nat \<rightharpoonup> tunnel_context) \<Rightarrow> bool" where
  "slots_inv sl H \<longleftrightarrow>
     length sl = SOFTGRED_MAX_SLOTS \<and>
     (\<forall>i < SOFTGRED_MAX_SLOTS. sl ! i \<longleftrightarrow> (\<exists>v. some_tunnel H v (\<lambda>t. t_id t = i))) \<and>
     (\<forall>q q' t t'. H q = Some t \<and> H q' = Some t' \<and> t_id t = t_id t' \<longrightarrow> q = q')"

text \<open>One tunnel: a ready tunnel has its three jumps; while a clean-up is pending none is ready;
  otherwise a tunnel that is not ready has no clients.\<close>

definition tun_ok :: "softgred_config \<Rightarrow> bool \<Rightarrow> tunnel_context \<Rightarrow> bool" where
  "tun_ok cfg pending t \<longleftrightarrow>
     mac_inv (t_macs t) \<and> card (clients t) \<le> PROVISION_MAX_CLIENTS \<and> t_id t < SOFTGRED_MAX_SLOTS \<and>
     t_ifgre t = tunnel_name (the (c_tunnel_prefix cfg)) (t_id t) \<and>
     (\<forall>j \<ge> 3. \<not> bit (t_firewall_hooks t) j) \<and>
     (t_ready t \<longrightarrow> (\<forall>j < 3. bit (t_firewall_hooks t) j)) \<and>
     (pending \<longrightarrow> \<not> t_ready t) \<and> (\<not> pending \<and> \<not> t_ready t \<longrightarrow> clients t = {})"

definition heap_inv :: "softgred_config \<Rightarrow> bool \<Rightarrow> nat \<Rightarrow> (nat \<rightharpoonup> tunnel_context) \<Rightarrow> bool" where
  "heap_inv cfg pending nxt H \<longleftrightarrow> (\<forall>q t. H q = Some t \<longrightarrow> q < nxt \<and> tun_ok cfg pending t)"

definition prov_inv :: "softgred_config \<Rightarrow> 'w prov \<Rightarrow> bool" where
  "prov_inv cfg p \<longleftrightarrow>
     (\<exists>T I. p_tunnels p = Some T \<and> p_mac_index p = Some I \<and> ip_inv T \<and> mac_inv I \<and> tab_inv T I (p_heap p)) \<and>
     slots_inv (p_slots p) (p_heap p) \<and> heap_inv cfg (p_cleanup_pending p) (p_next p) (p_heap p)"

lemma prov_invD:
  assumes "prov_inv cfg p"
  obtains T I where "p_tunnels p = Some T" "p_mac_index p = Some I" "ip_inv T" "mac_inv I"
    "tab_inv T I (p_heap p)" "slots_inv (p_slots p) (p_heap p)"
    "heap_inv cfg (p_cleanup_pending p) (p_next p) (p_heap p)"
  using assms unfolding prov_inv_def by blast

lemma prov_invI:
  assumes "p_tunnels p = Some T" "p_mac_index p = Some I" "ip_inv T" "mac_inv I"
    "tab_inv T I (p_heap p)" "slots_inv (p_slots p) (p_heap p)"
    "heap_inv cfg (p_cleanup_pending p) (p_next p) (p_heap p)"
  shows "prov_inv cfg p"
  using assms unfolding prov_inv_def by blast

section \<open>Changes of the heap and the tables\<close>

text \<open>A tunnel with a property, before and after a change at one address.\<close>

definition others :: "(nat \<rightharpoonup> tunnel_context) \<Rightarrow> nat \<Rightarrow> nat option \<Rightarrow> (tunnel_context \<Rightarrow> bool) \<Rightarrow> bool" where
  "others H q v P \<longleftrightarrow> (\<exists>p u. p \<noteq> q \<and> v = Some p \<and> H p = Some u \<and> P u)"

lemma some_upd: "some_tunnel (H(q \<mapsto> t)) v P \<longleftrightarrow> v = Some q \<and> P t \<or> others H q v P"
  unfolding others_def some_tunnel_def by (auto split: if_splits)

lemma some_del: "some_tunnel (H(q := None)) v P \<longleftrightarrow> others H q v P"
  unfolding others_def some_tunnel_def by (auto split: if_splits)

lemma some_at: "H q = Some t \<Longrightarrow> some_tunnel H v P \<longleftrightarrow> v = Some q \<and> P t \<or> others H q v P"
  unfolding others_def some_tunnel_def by auto

lemma some_none: "H q = None \<Longrightarrow> some_tunnel H v P \<longleftrightarrow> others H q v P"
  unfolding others_def some_tunnel_def by auto

lemma some_tunnelI: "H q = Some t \<Longrightarrow> P t \<Longrightarrow> some_tunnel H (Some q) P"
  unfolding some_tunnel_def by blast

lemma others_cong: "(\<And>p u. H p = Some u \<Longrightarrow> p \<noteq> q \<Longrightarrow> P u = Q u) \<Longrightarrow> others H q v P = others H q v Q"
  unfolding others_def by blast

lemma others_not: "(\<And>p u. H p = Some u \<Longrightarrow> P u \<Longrightarrow> p = q) \<Longrightarrow> \<not> others H q v P"
  unfolding others_def by blast

definition same_key :: "tunnel_context \<Rightarrow> tunnel_context \<Rightarrow> bool" where
  "same_key t t' \<longleftrightarrow> t_ip_remote t' = t_ip_remote t \<and> t_id t' = t_id t"

lemma tab_inv_T: "tab_inv T I H \<Longrightarrow> hm_abs T k = Some v \<longleftrightarrow> some_tunnel H v (\<lambda>t. t_ip_remote t = k)"
  unfolding tab_inv_def by blast

lemma tab_inv_I: "tab_inv T I H \<Longrightarrow> hm_abs I m = Some v \<longleftrightarrow> some_tunnel H v (\<lambda>t. m \<in> clients t)"
  unfolding tab_inv_def by blast

lemma tab_inv_unique_ip:
  assumes "tab_inv T I H" "H q = Some t" "H q' = Some t'" "t_ip_remote t' = t_ip_remote t"
  shows "q' = q"
proof -
  have "hm_abs T (t_ip_remote t) = Some (Some q)" "hm_abs T (t_ip_remote t) = Some (Some q')"
    using assms tab_inv_T [OF assms(1)] by (auto intro: some_tunnelI)
  then show ?thesis by simp
qed

lemma tab_inv_unique_mac:
  assumes "tab_inv T I H" "H q = Some t" "H q' = Some t'" "m \<in> clients t" "m \<in> clients t'"
  shows "q' = q"
proof -
  have "hm_abs I m = Some (Some q)" "hm_abs I m = Some (Some q')"
    using assms tab_inv_I [OF assms(1)] by (auto intro: some_tunnelI)
  then show ?thesis by simp
qed

lemma tab_inv_update:
  assumes t: "tab_inv T I H" and q: "H q = Some t" and k: "same_key t t'"
    and c: "clients t' = clients t - R" and R: "R \<subseteq> clients t" and I': "hm_abs I' = hm_abs I |` (- R)"
  shows "tab_inv T I' (H(q \<mapsto> t'))"
  unfolding tab_inv_def
proof (intro conjI allI)
  fix k v
  show "hm_abs T k = Some v \<longleftrightarrow> some_tunnel (H(q \<mapsto> t')) v (\<lambda>u. t_ip_remote u = k)"
    using k unfolding some_upd tab_inv_T [OF t] some_at [of H q, OF q] by (simp add: same_key_def)
next
  fix m v
  show "hm_abs I' m = Some v \<longleftrightarrow> some_tunnel (H(q \<mapsto> t')) v (\<lambda>u. m \<in> clients u)"
  proof (cases "m \<in> R")
    case True
    then have "p = q" if "H p = Some u" "m \<in> clients u" for p u
      using tab_inv_unique_mac [OF t q that(1) _ that(2)] R by blast
    with True c others_not [of H "\<lambda>u. m \<in> clients u" q v] show ?thesis
      unfolding some_upd by (simp add: I' restrict_map_def)
  next
    case False
    then have "hm_abs I' m = hm_abs I m" by (simp add: I' restrict_map_def)
    with False c show ?thesis unfolding some_upd by (simp add: tab_inv_I [OF t] some_at [of H q, OF q])
  qed
qed

lemma tab_inv_same:
  assumes "tab_inv T I H" "H q = Some t" "same_key t t'" "t_macs t' = t_macs t"
  shows "tab_inv T I (H(q \<mapsto> t'))"
proof -
  have "clients t' = clients t - {}" using assms(4) by (simp add: clients_def)
  moreover have "hm_abs I = hm_abs I |` (- {})" by (auto simp: restrict_map_def)
  ultimately show ?thesis using tab_inv_update [OF assms(1-3)] by blast
qed

text \<open>Slots: marked exactly for the tunnels, no two tunnels on one slot.\<close>

lemma slots_invI:
  assumes "length sl = SOFTGRED_MAX_SLOTS"
    and "\<And>i. i < SOFTGRED_MAX_SLOTS \<Longrightarrow> sl ! i \<longleftrightarrow> (\<exists>v. some_tunnel H v (\<lambda>u. t_id u = i))"
    and "\<And>q q' t t'. H q = Some t \<Longrightarrow> H q' = Some t' \<Longrightarrow> t_id t = t_id t' \<Longrightarrow> q = q'"
  shows "slots_inv sl H"
  using assms unfolding slots_inv_def by blast

lemma slots_invD:
  assumes "slots_inv sl H"
  shows "length sl = SOFTGRED_MAX_SLOTS"
    "i < SOFTGRED_MAX_SLOTS \<Longrightarrow> sl ! i \<longleftrightarrow> (\<exists>v. some_tunnel H v (\<lambda>u. t_id u = i))"
    "H q = Some t \<Longrightarrow> H q' = Some t' \<Longrightarrow> t_id t = t_id t' \<Longrightarrow> q = q'"
  using assms unfolding slots_inv_def by blast+

lemma slots_inv_update:
  assumes s: "slots_inv sl H" and q: "H q = Some t" and k: "same_key t t'"
  shows "slots_inv sl (H(q \<mapsto> t'))"
proof (rule slots_invI)
  show "sl ! i \<longleftrightarrow> (\<exists>v. some_tunnel (H(q \<mapsto> t')) v (\<lambda>u. t_id u = i))" if "i < SOFTGRED_MAX_SLOTS" for i
    using k unfolding slots_invD(2) [OF s that] some_upd some_at [of H q, OF q] by (simp add: same_key_def)
  show "p = p'" if a: "(H(q \<mapsto> t')) p = Some u" "(H(q \<mapsto> t')) p' = Some u'" "t_id u = t_id u'" for p p' u u'
  proof -
    obtain w w' where "H p = Some w" "t_id w = t_id u" "H p' = Some w'" "t_id w' = t_id u'"
      using a(1,2) q k by (auto simp: same_key_def split: if_splits)
    with slots_invD(3) [OF s] a(3) show ?thesis by metis
  qed
qed (rule slots_invD(1) [OF s])

lemma heap_inv_update:
  "heap_inv cfg b n H \<Longrightarrow> H q = Some t \<Longrightarrow> tun_ok cfg b t' \<Longrightarrow> heap_inv cfg b n (H(q \<mapsto> t'))"
  by (auto simp: heap_inv_def)

lemma heap_inv_remove: "heap_inv cfg b n H \<Longrightarrow> heap_inv cfg b n (H(q := None))"
  by (auto simp: heap_inv_def)

lemma tab_inv_remove:
  assumes t: "tab_inv T I H" and q: "H q = Some t" and c: "clients t = {}"
    and T': "hm_abs T' = (hm_abs T)(t_ip_remote t := None)"
  shows "tab_inv T' I (H(q := None))"
  unfolding tab_inv_def
proof (intro conjI allI)
  fix k v
  show "hm_abs T' k = Some v \<longleftrightarrow> some_tunnel (H(q := None)) v (\<lambda>u. t_ip_remote u = k)"
  proof (cases "k = t_ip_remote t")
    case True
    have "\<not> others H q v (\<lambda>u. t_ip_remote u = k)"
      using tab_inv_unique_ip [OF t q] True by (intro others_not) simp
    with True show ?thesis unfolding some_del by (simp add: T')
  next
    case False
    then have "hm_abs T' k = hm_abs T k" by (simp add: T')
    with False show ?thesis unfolding some_del by (simp add: tab_inv_T [OF t] some_at [of H q, OF q])
  qed
next
  fix m v
  show "hm_abs I m = Some v \<longleftrightarrow> some_tunnel (H(q := None)) v (\<lambda>u. m \<in> clients u)"
    using c unfolding some_del tab_inv_I [OF t] some_at [of H q, OF q] by simp
qed

lemma slots_inv_remove:
  assumes s: "slots_inv sl H" and q: "H q = Some t"
  shows "slots_inv (sl[t_id t := False]) (H(q := None))"
proof (rule slots_invI)
  show "length (sl[t_id t := False]) = SOFTGRED_MAX_SLOTS" using slots_invD(1) [OF s] by simp
  show "sl[t_id t := False] ! i \<longleftrightarrow> (\<exists>v. some_tunnel (H(q := None)) v (\<lambda>u. t_id u = i))"
    if i: "i < SOFTGRED_MAX_SLOTS" for i
  proof (cases "i = t_id t")
    case True
    have "\<not> others H q v (\<lambda>u. t_id u = i)" for v
      using slots_invD(3) [OF s _ q] True by (intro others_not) simp
    with True i slots_invD(1) [OF s] show ?thesis unfolding some_del by simp
  next
    case False
    then have "sl[t_id t := False] ! i = sl ! i" by simp
    with False show ?thesis unfolding some_del by (simp add: slots_invD(2) [OF s i] some_at [of H q, OF q])
  qed
  show "p = p'" if "(H(q := None)) p = Some u" "(H(q := None)) p' = Some u'" "t_id u = t_id u'" for p p' u u'
    using that slots_invD(3) [OF s, of p u p' u'] by (simp split: if_splits)
qed

lemma tab_inv_add:
  assumes t: "tab_inv T I H" and q: "H q = None" and c: "clients t = {}" and n: "hm_abs T (t_ip_remote t) = None"
    and T': "hm_abs T' = (hm_abs T)(t_ip_remote t \<mapsto> Some q)"
  shows "tab_inv T' I (H(q \<mapsto> t))"
  unfolding tab_inv_def
proof (intro conjI allI)
  fix k v
  show "hm_abs T' k = Some v \<longleftrightarrow> some_tunnel (H(q \<mapsto> t)) v (\<lambda>u. t_ip_remote u = k)"
  proof (cases "k = t_ip_remote t")
    case True
    have "\<not> others H q v (\<lambda>u. t_ip_remote u = k)"
      using tab_inv_T [OF t, of k v] n True unfolding others_def some_tunnel_def by auto
    with True show ?thesis unfolding some_upd by (auto simp: T')
  next
    case False
    then have "hm_abs T' k = hm_abs T k" by (simp add: T')
    with False show ?thesis unfolding some_upd by (simp add: tab_inv_T [OF t] some_none [of H q, OF q])
  qed
next
  fix m v
  show "hm_abs I m = Some v \<longleftrightarrow> some_tunnel (H(q \<mapsto> t)) v (\<lambda>u. m \<in> clients u)"
    using c unfolding some_upd tab_inv_I [OF t] some_none [of H q, OF q] by simp
qed

lemma slots_inv_add:
  assumes s: "slots_inv sl H" and q: "H q = None" and n: "t_id t < SOFTGRED_MAX_SLOTS" "\<not> sl ! t_id t"
  shows "slots_inv (sl[t_id t := True]) (H(q \<mapsto> t))"
proof (rule slots_invI)
  have none: "t_id u \<noteq> t_id t" if "H p = Some u" for p u
    using slots_invD(2) [OF s n(1)] n(2) that by (auto intro: some_tunnelI)
  show "length (sl[t_id t := True]) = SOFTGRED_MAX_SLOTS" using slots_invD(1) [OF s] by simp
  show "sl[t_id t := True] ! i \<longleftrightarrow> (\<exists>v. some_tunnel (H(q \<mapsto> t)) v (\<lambda>u. t_id u = i))"
    if i: "i < SOFTGRED_MAX_SLOTS" for i
  proof (cases "i = t_id t")
    case True
    with n(1) slots_invD(1) [OF s] show ?thesis unfolding some_upd by auto
  next
    case False
    then have "sl[t_id t := True] ! i = sl ! i" by simp
    with False show ?thesis unfolding some_upd by (simp add: slots_invD(2) [OF s i] some_none [of H q, OF q])
  qed
  show "p = p'" if "(H(q \<mapsto> t)) p = Some u" "(H(q \<mapsto> t)) p' = Some u'" "t_id u = t_id u'" for p p' u u'
    using that none slots_invD(3) [OF s, of p u p' u'] by (auto split: if_splits)
qed

lemma tab_inv_learn:
  assumes t: "tab_inv T I H" and q: "H q = Some t" and k: "same_key t t'"
    and c: "clients t' = insert m (clients t)" and m: "hm_abs I m = None"
    and I': "hm_abs I' = (hm_abs I)(m \<mapsto> Some q)"
  shows "tab_inv T I' (H(q \<mapsto> t'))"
  unfolding tab_inv_def
proof (intro conjI allI)
  fix k v
  show "hm_abs T k = Some v \<longleftrightarrow> some_tunnel (H(q \<mapsto> t')) v (\<lambda>u. t_ip_remote u = k)"
    using k unfolding some_upd tab_inv_T [OF t] some_at [of H q, OF q] by (simp add: same_key_def)
next
  fix x v
  show "hm_abs I' x = Some v \<longleftrightarrow> some_tunnel (H(q \<mapsto> t')) v (\<lambda>u. x \<in> clients u)"
  proof (cases "x = m")
    case True
    have "\<not> others H q v (\<lambda>u. x \<in> clients u)"
      using tab_inv_I [OF t, of m v] m True unfolding others_def some_tunnel_def by auto
    with True c show ?thesis unfolding some_upd by (auto simp: I')
  next
    case False
    then have "hm_abs I' x = hm_abs I x" by (simp add: I')
    with False c show ?thesis unfolding some_upd by (simp add: tab_inv_I [OF t] some_at [of H q, OF q])
  qed
qed

section \<open>Removing the clients of a tunnel\<close>

lemma restrict_insert: "(f(k := None)) |` (- R) = f |` (- insert k R)"
  by (auto simp: restrict_map_def)

lemma revoke_macs_ok:
  assumes e: "env_ok env"
  shows "mac_inv macs \<Longrightarrow> mac_inv idx \<Longrightarrow>
    \<exists>fin macs' idx' s' R. revoke_macs env cfg ifgre it macs idx s = Some (fin, macs', idx', s') \<and>
      mac_inv macs' \<and> mac_inv idx' \<and> R \<subseteq> fst ` set (iter_rest macs it) \<and>
      hm_abs macs' = hm_abs macs |` (- R) \<and> hm_abs idx' = hm_abs idx |` (- R) \<and>
      (fin \<longrightarrow> R = fst ` set (iter_rest macs it))"
proof (induction "hm_cap macs - it_slot it" arbitrary: it macs idx s rule: less_induct)
  case less
  have inv: "hm_inv macs" using less.prems(1) by (simp add: setup_inv_def)
  note nx = hashmap_iter_next_correct [OF inv, of it]
  show ?case
  proof (cases "iter_rest macs it")
    case Nil
    with nx obtain it' where "hashmap_iter_next macs it = (None, it')" by auto
    with Nil less.prems show ?thesis
      by (intro exI [of _ True] exI [of _ macs] exI [of _ idx] exI [of _ s] exI [of _ "{}"])
        (simp add: revoke_macs.simps [of env cfg ifgre it] restrict_map_def)
  next
    case (Cons kv r)
    obtain k v where kv: "kv = (k, v)" by (cases kv)
    with Cons nx obtain it' i where n: "hashmap_iter_next macs it = (Some (Some k, v), it')" "iter_rest macs it' = r"
      "it_valid it'" "it_current it' = Some i" "i < it_slot it'" "at macs i k" "it_slot it < it_slot it'"
      "it_slot it' \<le> hm_cap macs" by auto
    obtain a s1 where a: "iface_ebtables_revoke env cfg ifgre k s = Some (a, s1)"
      using iface_ebtables_revoke_total [OF e, of cfg ifgre k s] by blast
    show ?thesis
    proof (cases "a = 0")
      case False
      with n(1) a less.prems show ?thesis
        by (intro exI [of _ False] exI [of _ macs] exI [of _ idx] exI [of _ s1] exI [of _ "{}"])
          (simp add: revoke_macs.simps [of env cfg ifgre it] restrict_map_def)
    next
      case True
      obtain macs1 it1 fr where m: "hashmap_iter_remove macs it' = Some (macs1, it1, fr)" "hm_inv macs1"
        "hm_abs macs1 = (hm_abs macs)(k := None)" "same_setup macs macs1" "hm_cap macs1 = hm_cap macs"
        "it_slot it1 = it_slot it'" "iter_rest macs1 it1 = r"
        using hashmap_iter_remove_correct [OF inv n(3-6)] n(2) by auto
      have m1: "mac_inv macs1" using m(2,4) less.prems(1) by (simp add: setup_inv_def same_setup_def)
      obtain idx1 b fr1 where x: "hashmap_remove idx k = (b, idx1, fr1)" "mac_inv idx1" "hm_abs idx1 = (hm_abs idx)(k := None)"
        using by_mac.remove_total [OF less.prems(2), of k] by blast
      have run: "revoke_macs env cfg ifgre it macs idx s = revoke_macs env cfg ifgre it1 macs1 idx1 s1"
        using n(1) a True m(1) x(1) by (simp add: revoke_macs.simps [of env cfg ifgre it])
      have dec: "hm_cap macs1 - it_slot it1 < hm_cap macs - it_slot it" using m(5,6) n(7,8) by simp
      obtain fin macs' idx' s' R where R: "revoke_macs env cfg ifgre it1 macs1 idx1 s1 = Some (fin, macs', idx', s')"
        "mac_inv macs'" "mac_inv idx'" "R \<subseteq> fst ` set r" "hm_abs macs' = hm_abs macs1 |` (- R)"
        "hm_abs idx' = hm_abs idx1 |` (- R)" "fin \<longrightarrow> R = fst ` set r"
        using less.hyps [OF dec m1 x(2), of s1] m(7) by blast
      have abs: "hm_abs macs' = hm_abs macs |` (- insert k R)" "hm_abs idx' = hm_abs idx |` (- insert k R)"
        using R(5,6) m(3) x(3) restrict_insert by metis+
      have keys: "fst ` set (iter_rest macs it) = insert k (fst ` set r)" using Cons kv by simp
      have R': "fin \<longrightarrow> insert k R = fst ` set (iter_rest macs it)" "insert k R \<subseteq> fst ` set (iter_rest macs it)"
        using R(4,7) keys by blast+
      show ?thesis unfolding run
        by (intro exI [of _ fin] exI [of _ macs'] exI [of _ idx'] exI [of _ s'] exI [of _ "insert k R"] conjI R abs R')
    qed
  qed
qed

lemma entries_keys: "hm_inv m \<Longrightarrow> fst ` set (entries m) = dom (hm_abs m)"
  unfolding hm_abs_def by (simp add: dom_map_of_conv_image_fst)

lemma revoke_all_macs:
  assumes "env_ok env" "mac_inv macs" "mac_inv idx"
  obtains fin macs' idx' s' R where
    "revoke_macs env cfg ifgre hashmap_iter_init macs idx s = Some (fin, macs', idx', s')"
    "mac_inv macs'" "mac_inv idx'" "R \<subseteq> dom (hm_abs macs)" "hm_abs macs' = hm_abs macs |` (- R)"
    "hm_abs idx' = hm_abs idx |` (- R)" "fin \<longrightarrow> R = dom (hm_abs macs)"
proof -
  have "fst ` set (iter_rest macs hashmap_iter_init) = dom (hm_abs macs)"
    using assms(2) entries_keys [of macs] by (simp add: setup_inv_def)
  then obtain fin macs' idx' s' R where
    a: "revoke_macs env cfg ifgre hashmap_iter_init macs idx s = Some (fin, macs', idx', s')"
    "mac_inv macs'" "mac_inv idx'" "R \<subseteq> dom (hm_abs macs)" "hm_abs macs' = hm_abs macs |` (- R)"
    "hm_abs idx' = hm_abs idx |` (- R)" "fin \<longrightarrow> R = dom (hm_abs macs)"
    using revoke_macs_ok [OF assms, of cfg ifgre hashmap_iter_init s] by metis
  show ?thesis by (rule that [OF a])
qed


section \<open>Steps on the whole state\<close>

lemma prov_inv_irrelevant [simp]:
  "prov_inv cfg (p\<lparr>p_sys := s\<rparr>) = prov_inv cfg p" "prov_inv cfg (p\<lparr>p_packets := a\<rparr>) = prov_inv cfg p"
  "prov_inv cfg (p\<lparr>p_ignored := b\<rparr>) = prov_inv cfg p" "prov_inv cfg (p\<lparr>p_failures := c\<rparr>) = prov_inv cfg p"
  "prov_inv cfg (p\<lparr>p_retry_after := d\<rparr>) = prov_inv cfg p"
  by (simp_all add: prov_inv_def)

lemma prov_inv_tun:
  assumes "prov_inv cfg p" "p_heap p q = Some t"
  shows "q < p_next p" "tun_ok cfg (p_cleanup_pending p) t"
  using assms unfolding prov_inv_def heap_inv_def by blast+

lemma prov_inv_set:
  assumes i: "prov_inv cfg p" and q: "p_heap p q = Some t" and k: "same_key t t'" "t_macs t' = t_macs t"
    and t: "tun_ok cfg (p_cleanup_pending p) t'"
  shows "prov_inv cfg (set_tunnel q t' p)"
proof -
  from i obtain T I where a: "p_tunnels p = Some T" "p_mac_index p = Some I" "ip_inv T" "mac_inv I"
    "tab_inv T I (p_heap p)" "slots_inv (p_slots p) (p_heap p)"
    "heap_inv cfg (p_cleanup_pending p) (p_next p) (p_heap p)" by (rule prov_invD)
  show ?thesis
    by (rule prov_invI [of _ T I])
      (use a tab_inv_same [OF a(5) q k] slots_inv_update [OF a(6) q k(1)] heap_inv_update [OF a(7) q t] in simp_all)
qed

lemma prov_inv_revoke:
  assumes i: "prov_inv cfg p" and q: "p_heap p q = Some t" and I: "p_mac_index p = Some I" "mac_inv I'"
    and M: "mac_inv macs'" "hm_abs macs' = hm_abs (t_macs t) |` (- R)" and R: "R \<subseteq> clients t"
    and I': "hm_abs I' = hm_abs I |` (- R)" and r: "\<not> t_ready t"
  shows "prov_inv cfg (set_tunnel q (t\<lparr>t_macs := macs'\<rparr>) (p\<lparr>p_mac_index := Some I'\<rparr>))"
proof -
  let ?t = "t\<lparr>t_macs := macs'\<rparr>"
  from i I(1) obtain T where a: "p_tunnels p = Some T" "ip_inv T"
    "tab_inv T I (p_heap p)" "slots_inv (p_slots p) (p_heap p)"
    "heap_inv cfg (p_cleanup_pending p) (p_next p) (p_heap p)" by (auto elim: prov_invD)
  have c: "clients ?t = clients t - R" by (auto simp: clients_def M(2))
  have k: "same_key t ?t" by (simp add: same_key_def)
  have ok: "tun_ok cfg (p_cleanup_pending p) t" by (rule prov_inv_tun [OF i q])
  have "finite (clients t)" by (simp add: clients_def hm_abs_finite)
  then have "card (clients ?t) \<le> card (clients t)" unfolding c by (intro card_mono) auto
  with ok M(1) r have t: "tun_ok cfg (p_cleanup_pending p) ?t" by (auto simp: tun_ok_def c)
  show ?thesis
    by (rule prov_invI [of _ T I'])
      (use a I(2) tab_inv_update [OF a(3) q k c R I'] slots_inv_update [OF a(4) q k] heap_inv_update [OF a(5) q t] in simp_all)
qed

lemma prov_inv_drop:
  assumes i: "prov_inv cfg p" and q: "p_heap p q = Some t" and c: "clients t = {}"
    and T: "p_tunnels p = Some T" "ip_inv T'" "hm_abs T' = (hm_abs T)(t_ip_remote t := None)"
  shows "prov_inv cfg (p\<lparr>p_slots := (p_slots p)[t_id t := False], p_tunnels := Some T', p_heap := (p_heap p)(q := None)\<rparr>)"
proof -
  from i T(1) obtain I where a: "p_mac_index p = Some I" "mac_inv I" "tab_inv T I (p_heap p)"
    "slots_inv (p_slots p) (p_heap p)" "heap_inv cfg (p_cleanup_pending p) (p_next p) (p_heap p)"
    by (auto elim: prov_invD)
  show ?thesis
    by (rule prov_invI [of _ T' I])
      (use a T(2) tab_inv_remove [OF a(3) q c T(3)] slots_inv_remove [OF a(4) q] heap_inv_remove [OF a(5)] in simp_all)
qed

lemma prov_inv_track:
  assumes i: "prov_inv cfg p" and c: "clients t = {}" and s: "\<not> p_slots p ! t_id t"
    and t: "tun_ok cfg (p_cleanup_pending p) t"
    and T: "p_tunnels p = Some T" "ip_inv T'" "hm_abs T (t_ip_remote t) = None"
      "hm_abs T' = (hm_abs T)(t_ip_remote t \<mapsto> Some (p_next p))"
  shows "prov_inv cfg (p\<lparr>p_next := p_next p + 1, p_slots := (p_slots p)[t_id t := True], p_tunnels := Some T',
    p_heap := (p_heap p)(p_next p \<mapsto> t)\<rparr>)"
proof -
  from i T(1) obtain I where a: "p_mac_index p = Some I" "mac_inv I" "tab_inv T I (p_heap p)"
    "slots_inv (p_slots p) (p_heap p)" "heap_inv cfg (p_cleanup_pending p) (p_next p) (p_heap p)"
    by (auto elim: prov_invD)
  have q: "p_heap p (p_next p) = None"
  proof (rule ccontr)
    assume "p_heap p (p_next p) \<noteq> None"
    with a(5) show False unfolding heap_inv_def by blast
  qed
  have id: "t_id t < SOFTGRED_MAX_SLOTS" using t by (simp add: tun_ok_def)
  have h: "heap_inv cfg (p_cleanup_pending p) (p_next p + 1) ((p_heap p)(p_next p \<mapsto> t))"
    using a(5) t by (auto simp: heap_inv_def less_SucI)
  show ?thesis
    by (rule prov_invI [of _ T' I])
      (use a T(2) h tab_inv_add [OF a(3) q c T(3,4)] slots_inv_add [OF a(4) q id s] in simp_all)
qed

lemma prov_inv_learn:
  assumes i: "prov_inv cfg p" and q: "p_heap p q = Some t" and r: "t_ready t"
    and I: "p_mac_index p = Some I" "mac_inv I'" "hm_abs I m = None" "hm_abs I' = (hm_abs I)(m \<mapsto> Some q)"
    and M: "mac_inv macs'" "hm_abs macs' = (hm_abs (t_macs t))(m \<mapsto> v)" "card (clients t) < PROVISION_MAX_CLIENTS"
  shows "prov_inv cfg (set_tunnel q (t\<lparr>t_macs := macs'\<rparr>) (p\<lparr>p_mac_index := Some I'\<rparr>))"
proof -
  let ?t = "t\<lparr>t_macs := macs'\<rparr>"
  from i I(1) obtain T where a: "p_tunnels p = Some T" "ip_inv T"
    "tab_inv T I (p_heap p)" "slots_inv (p_slots p) (p_heap p)"
    "heap_inv cfg (p_cleanup_pending p) (p_next p) (p_heap p)" by (auto elim: prov_invD)
  have c: "clients ?t = insert m (clients t)" by (auto simp: clients_def M(2))
  have k: "same_key t ?t" by (simp add: same_key_def)
  have ok: "tun_ok cfg (p_cleanup_pending p) t" by (rule prov_inv_tun [OF i q])
  have "card (clients ?t) \<le> PROVISION_MAX_CLIENTS" unfolding c using card_insert_le_m1 M(3)
    by (metis Suc_leI card_insert_le_m1 card_insert_if le_less_trans clients_def hm_abs_finite less_imp_le)
  with ok M(1) r have t: "tun_ok cfg (p_cleanup_pending p) ?t" by (auto simp: tun_ok_def)
  show ?thesis
    by (rule prov_invI [of _ T I'])
      (use a I(2) tab_inv_learn [OF a(3) q k c I(3,4)] slots_inv_update [OF a(4) q k] heap_inv_update [OF a(5) q t] in simp_all)
qed

section \<open>The abstract state\<close>

text \<open>Which remotes have a tunnel, and which remote each client address belongs to.\<close>

definition peer :: "'w prov \<Rightarrow> u32 \<Rightarrow> tunnel_context option" where
  "peer p k = (case provision_get_tunnel_byip p k of None \<Rightarrow> None | Some q \<Rightarrow> p_heap p q)"

definition owner :: "'w prov \<Rightarrow> string \<Rightarrow> u32 option" where
  "owner p m = (case provision_get_tunnel_by_mac p m of None \<Rightarrow> None | Some q \<Rightarrow> map_option t_ip_remote (p_heap p q))"

lemma peer_irrelevant [simp]:
  "peer (p\<lparr>p_sys := s\<rparr>) = peer p" "peer (p\<lparr>p_packets := a\<rparr>) = peer p" "peer (p\<lparr>p_ignored := b\<rparr>) = peer p"
  "peer (p\<lparr>p_failures := c\<rparr>) = peer p" "peer (p\<lparr>p_retry_after := d\<rparr>) = peer p"
  "peer (p\<lparr>p_next := n\<rparr>) = peer p"
  by (simp_all add: fun_eq_iff peer_def provision_get_tunnel_byip_def cong: option.case_cong)

lemma owner_irrelevant [simp]:
  "owner (p\<lparr>p_sys := s\<rparr>) = owner p" "owner (p\<lparr>p_packets := a\<rparr>) = owner p" "owner (p\<lparr>p_ignored := b\<rparr>) = owner p"
  "owner (p\<lparr>p_failures := c\<rparr>) = owner p" "owner (p\<lparr>p_retry_after := d\<rparr>) = owner p"
  by (simp_all add: fun_eq_iff owner_def provision_get_tunnel_by_mac_def cong: option.case_cong)

lemma byip_iff:
  assumes "prov_inv cfg p"
  shows "provision_get_tunnel_byip p k = Some q \<longleftrightarrow> (\<exists>t. p_heap p q = Some t \<and> t_ip_remote t = k)"
proof -
  from assms obtain T I where a: "p_tunnels p = Some T" "ip_inv T" "tab_inv T I (p_heap p)" by (rule prov_invD)
  have "provision_get_tunnel_byip p k = Some q \<longleftrightarrow> hm_abs T k = Some (Some q)"
    using a(1) by (simp add: provision_get_tunnel_byip_def by_ip.lookup_abs [OF a(2)] split: option.split)
  then show ?thesis by (simp add: tab_inv_T [OF a(3)] some_tunnel_def)
qed

lemma bymac_iff:
  assumes "prov_inv cfg p"
  shows "provision_get_tunnel_by_mac p m = Some q \<longleftrightarrow> (\<exists>t. p_heap p q = Some t \<and> m \<in> clients t)"
proof -
  from assms obtain T I where a: "p_mac_index p = Some I" "mac_inv I" "tab_inv T I (p_heap p)" by (rule prov_invD)
  have "provision_get_tunnel_by_mac p m = Some q \<longleftrightarrow> hm_abs I m = Some (Some q)"
    using a(1) by (simp add: provision_get_tunnel_by_mac_def by_mac.lookup_abs [OF a(2)] split: option.split)
  then show ?thesis by (simp add: tab_inv_I [OF a(3)] some_tunnel_def)
qed

lemma peer_iff:
  assumes "prov_inv cfg p"
  shows "peer p k = Some t \<longleftrightarrow> (\<exists>q. p_heap p q = Some t \<and> t_ip_remote t = k)"
proof
  assume "peer p k = Some t"
  then obtain q where q: "provision_get_tunnel_byip p k = Some q" "p_heap p q = Some t"
    by (auto simp: peer_def split: option.splits)
  then have "t_ip_remote t = k" using byip_iff [OF assms, of k q] by simp
  with q(2) show "\<exists>q. p_heap p q = Some t \<and> t_ip_remote t = k" by blast
next
  assume "\<exists>q. p_heap p q = Some t \<and> t_ip_remote t = k"
  then obtain q where q: "p_heap p q = Some t" "t_ip_remote t = k" by blast
  then have "provision_get_tunnel_byip p k = Some q" using byip_iff [OF assms, of k q] by blast
  with q show "peer p k = Some t" by (simp add: peer_def)
qed

lemma peer_none: "prov_inv cfg p \<Longrightarrow> peer p k = None \<longleftrightarrow> provision_get_tunnel_byip p k = None"
  using byip_iff [of cfg p k "the (provision_get_tunnel_byip p k)"]
  by (cases "provision_get_tunnel_byip p k") (auto simp: peer_def)

lemma owner_iff:
  assumes "prov_inv cfg p"
  shows "owner p m = Some k \<longleftrightarrow> (\<exists>t. peer p k = Some t \<and> m \<in> clients t)"
proof
  assume "owner p m = Some k"
  then obtain q t where "provision_get_tunnel_by_mac p m = Some q" "p_heap p q = Some t" "t_ip_remote t = k"
    by (auto simp: owner_def split: option.splits)
  moreover from this have "m \<in> clients t" using bymac_iff [OF assms, of m q] by simp
  ultimately show "\<exists>t. peer p k = Some t \<and> m \<in> clients t" using peer_iff [OF assms] by blast
next
  assume "\<exists>t. peer p k = Some t \<and> m \<in> clients t"
  then obtain t q where q: "p_heap p q = Some t" "t_ip_remote t = k" "m \<in> clients t" using peer_iff [OF assms] by blast
  then have "provision_get_tunnel_by_mac p m = Some q" using bymac_iff [OF assms] by blast
  with q show "owner p m = Some k" by (simp add: owner_def)
qed

lemma owner_none: "prov_inv cfg p \<Longrightarrow> owner p m = None \<longleftrightarrow> provision_get_tunnel_by_mac p m = None"
  using bymac_iff [of cfg p m "the (provision_get_tunnel_by_mac p m)"]
  by (cases "provision_get_tunnel_by_mac p m") (auto simp: owner_def)

lemma option_eqI: "(\<And>t. x = Some t \<longleftrightarrow> y = Some t) \<Longrightarrow> x = y"
  by (cases x; cases y) auto

lemma peer_set:
  assumes i: "prov_inv cfg p" "prov_inv cfg' p'" and h: "p_heap p q = Some t" "p_heap p' = (p_heap p)(q \<mapsto> t')" "t_ip_remote t' = t_ip_remote t"
  shows "peer p' = (peer p)(t_ip_remote t \<mapsto> t')"
proof (intro ext option_eqI)
  fix k u
  have one: "x = q" if "p_heap p x = Some u" "t_ip_remote u = t_ip_remote t" for x u
    using byip_iff [OF i(1), of "t_ip_remote t"] h(1) that by (metis option.inject)
  show "peer p' k = Some u \<longleftrightarrow> ((peer p)(t_ip_remote t \<mapsto> t')) k = Some u"
    using one h(3) unfolding peer_iff [OF i(2)] h(2)
    by (auto simp: peer_iff [OF i(1)] split: if_splits) (metis h(1) option.inject)+
qed

lemma peer_drop:
  assumes i: "prov_inv cfg p" "prov_inv cfg' p'" and h: "p_heap p q = Some t" "p_heap p' = (p_heap p)(q := None)"
  shows "peer p' = (peer p)(t_ip_remote t := None)"
proof (intro ext option_eqI)
  fix k u
  have one: "x = q" if "p_heap p x = Some u" "t_ip_remote u = t_ip_remote t" for x u
    using byip_iff [OF i(1), of "t_ip_remote t"] h(1) that by (metis option.inject)
  have "peer p' k = Some u \<longleftrightarrow> (\<exists>x. x \<noteq> q \<and> p_heap p x = Some u \<and> t_ip_remote u = k)"
    unfolding peer_iff [OF i(2)] h(2) by auto
  also have "\<dots> \<longleftrightarrow> k \<noteq> t_ip_remote t \<and> peer p k = Some u"
    unfolding peer_iff [OF i(1)] using one h(1) by (metis option.inject)
  finally show "peer p' k = Some u \<longleftrightarrow> ((peer p)(t_ip_remote t := None)) k = Some u" by simp
qed

lemma peer_track:
  assumes i: "prov_inv cfg p" "prov_inv cfg' p'" and h: "p_heap p q = None" "p_heap p' = (p_heap p)(q \<mapsto> t)"
    and n: "peer p (t_ip_remote t) = None"
  shows "peer p' = (peer p)(t_ip_remote t \<mapsto> t)"
proof (intro ext option_eqI)
  fix k u
  have none: "t_ip_remote v \<noteq> t_ip_remote t" if "p_heap p x = Some v" for x v
    using peer_iff [OF i(1), of "t_ip_remote t" v] n that by auto
  show "peer p' k = Some u \<longleftrightarrow> ((peer p)(t_ip_remote t \<mapsto> t)) k = Some u"
    unfolding peer_iff [OF i(2)] h(2) fun_upd_apply using none h(1) peer_iff [OF i(1), of k u]
    by (cases "k = t_ip_remote t") (simp_all, metis option.inject, metis option.distinct(1) option.inject)
qed

lemma peer_remote: "prov_inv cfg p \<Longrightarrow> peer p k = Some t \<Longrightarrow> t_ip_remote t = k"
  using peer_iff by blast

lemma peer_ok: "prov_inv cfg p \<Longrightarrow> peer p k = Some t \<Longrightarrow> tun_ok cfg (p_cleanup_pending p) t"
  using peer_iff prov_inv_tun by blast

end
