(* ===== verification/Provision_Tunnel.thy ===== *)
theory Provision_Tunnel
  imports Provision_Inv
begin

text \<open>
  Removing, adding and extending a tunnel: \<open>provision_del\<close>, \<open>provision_add\<close> with its rollback, and
  \<open>provision_tunnel_allow_mac\<close> return and keep the invariant, and what they do to the abstract
  state (the tunnel of a remote, the owner of an address).
\<close>

section \<open>Removing a tunnel\<close>

text \<open>The counters and the flags that only \<open>provision_packet\<close> and \<open>provision_delall\<close> write.\<close>

definition same_rest :: "'w prov \<Rightarrow> 'w prov \<Rightarrow> bool" where
  "same_rest p p' \<longleftrightarrow> p_packets p' = p_packets p \<and> p_ignored p' = p_ignored p \<and> p_failures p' = p_failures p \<and>
     p_retry_after p' = p_retry_after p \<and> p_cleanup_pending p' = p_cleanup_pending p"

lemma same_rest_refl [simp]: "same_rest p p"
  by (simp add: same_rest_def)

lemma same_rest_sys [simp]: "same_rest p (p'\<lparr>p_sys := s\<rparr>) = same_rest p p'" "same_rest (p\<lparr>p_sys := s\<rparr>) p' = same_rest p p'"
  by (simp_all add: same_rest_def)

lemma same_rest_trans: "same_rest p p' \<Longrightarrow> same_rest p' p'' \<Longrightarrow> same_rest p p''"
  by (simp add: same_rest_def)

text \<open>What is left of the tunnel of a remote that could not be removed.\<close>

definition shrunk :: "tunnel_context \<Rightarrow> tunnel_context \<Rightarrow> bool" where
  "shrunk t t' \<longleftrightarrow> t_ip_remote t' = t_ip_remote t \<and> t_ifgre t' = t_ifgre t \<and> t_id t' = t_id t \<and>
     t_ready t' = t_ready t \<and> clients t' \<subseteq> clients t"

lemma iface_gre_del_ret: "env_ok env \<Longrightarrow> \<exists>r s'. iface_gre_del env n s = Some (r, s')"
  using iface_gre_del_total [of env n s] by (auto simp: returns_def)

lemma tun_ok_hooks:
  assumes "tun_ok cfg b t" "\<not> t_ready t" "same_above 0 (t_firewall_hooks t) h'"
  shows "tun_ok cfg b (t\<lparr>t_firewall_hooks := h'\<rparr>)"
  using assms by (auto simp: tun_ok_def same_above_def clients_def)

lemma free_one: "H q = Some t \<Longrightarrow> free_tunnels (setup_frees False True (k, Some q)) H = Some (H(q := None))"
  by (simp add: setup_frees_def tunnel_free_def)

lemma del_clients:
  assumes e: "env_ok env" and i: "prov_inv cfg p" and q: "p_heap p q = Some t" and I: "p_mac_index p = Some I" and r: "\<not> t_ready t"
  obtains fin macs' idx' s' where
    "revoke_macs env cfg (t_ifgre t) hashmap_iter_init (t_macs t) I s = Some (fin, macs', idx', s')"
    "prov_inv cfg (set_tunnel q (t\<lparr>t_macs := macs'\<rparr>) (p\<lparr>p_mac_index := Some idx'\<rparr>))"
    "clients (t\<lparr>t_macs := macs'\<rparr>) \<subseteq> clients t" "fin \<longrightarrow> clients (t\<lparr>t_macs := macs'\<rparr>) = {}"
proof -
  have m: "mac_inv (t_macs t)" using prov_inv_tun(2) [OF i q] by (simp add: tun_ok_def)
  have mi: "mac_inv I" using i I by (auto elim: prov_invD)
  from revoke_all_macs [OF e m mi, of cfg "t_ifgre t" s] obtain fin macs' idx' s' R where
    2: "revoke_macs env cfg (t_ifgre t) hashmap_iter_init (t_macs t) I s = Some (fin, macs', idx', s')"
    "mac_inv macs'" "mac_inv idx'" "R \<subseteq> dom (hm_abs (t_macs t))" "hm_abs macs' = hm_abs (t_macs t) |` (- R)"
    "hm_abs idx' = hm_abs I |` (- R)" "fin \<longrightarrow> R = dom (hm_abs (t_macs t))" .
  have c: "clients (t\<lparr>t_macs := macs'\<rparr>) = clients t - R" by (auto simp: clients_def 2(5))
  have "prov_inv cfg (set_tunnel q (t\<lparr>t_macs := macs'\<rparr>) (p\<lparr>p_mac_index := Some idx'\<rparr>))"
    by (rule prov_inv_revoke [OF i q I 2(3) 2(2) 2(5) _ 2(6) r]) (use 2(4) in \<open>simp add: clients_def\<close>)
  with that [OF 2(1)] 2(4,7) c show ?thesis by (metis Diff_cancel Diff_subset clients_def)
qed

lemma del_hooks_inv:
  assumes e: "env_ok env" and i: "prov_inv cfg p" and q: "p_heap p q = Some t" and r: "\<not> t_ready t"
  obtains r' hooks' s' where
    "iface_ebtables_del_tunnel env cfg (t_ifgre t) (t_firewall_hooks t) s = Some (r', hooks', s')" "r' = 0 \<or> r' = -1"
    "prov_inv cfg (set_tunnel q (t\<lparr>t_firewall_hooks := hooks'\<rparr>) p)"
proof -
  obtain r' hooks' s' where 3: "iface_ebtables_del_tunnel env cfg (t_ifgre t) (t_firewall_hooks t) s = Some (r', hooks', s')"
    "r' = 0 \<or> r' = -1" "same_above 0 (t_firewall_hooks t) hooks'"
    using iface_ebtables_del_tunnel_total [OF e] by blast
  have "prov_inv cfg (set_tunnel q (t\<lparr>t_firewall_hooks := hooks'\<rparr>) p)"
    by (rule prov_inv_set [OF i q]) (use tun_ok_hooks [OF prov_inv_tun(2) [OF i q] r] 3(3) in \<open>simp_all add: same_key_def\<close>)
  from that [OF 3(1,2) this] show ?thesis .
qed

lemma del_drop:
  assumes i: "prov_inv cfg p" and q: "p_heap p q = Some t" and c: "clients t = {}"
  obtains T T' where "p_tunnels p = Some T" "t_id t < length (p_slots p)"
    "hashmap_remove T (t_ip_remote t) = (True, T', setup_frees False True (t_ip_remote t, Some q))"
    "prov_inv cfg (p\<lparr>p_slots := (p_slots p)[t_id t := False], p_tunnels := Some T', p_heap := (p_heap p)(q := None)\<rparr>)"
proof -
  from i obtain T I where a: "p_tunnels p = Some T" "ip_inv T" "tab_inv T I (p_heap p)" "slots_inv (p_slots p) (p_heap p)"
    by (rule prov_invD)
  have Tr: "hm_abs T (t_ip_remote t) = Some (Some q)" using q tab_inv_T [OF a(3)] by (auto simp: some_tunnel_def)
  then have d: "t_ip_remote t \<in> dom (hm_abs T)" by blast
  obtain T' where 5: "hashmap_remove T (t_ip_remote t) = (True, T', setup_frees False True (t_ip_remote t, Some q))" "ip_inv T'"
      "hm_abs T' = (hm_abs T)(t_ip_remote t := None)"
    using by_ip.remove_total [OF a(2), of "t_ip_remote t"] Tr d by auto
  have "t_id t < length (p_slots p)" using prov_inv_tun(2) [OF i q] slots_invD(1) [OF a(4)] by (simp add: tun_ok_def)
  from that [OF a(1) this 5(1) prov_inv_drop [OF i q c a(1) 5(2,3)]] show ?thesis .
qed

lemma provision_del_found:
  assumes e: "env_ok env" and i: "prov_inv cfg p" and q: "p_heap p q = Some t" and r: "\<not> t_ready t"
  shows "\<exists>r p'. provision_del env cfg (t_ip_remote t) p = Some (r, p') \<and> (r = 0 \<or> r = -1) \<and> prov_inv cfg p' \<and> same_rest p p' \<and>
    (r = 0 \<longrightarrow> peer p' = (peer p)(t_ip_remote t := None)) \<and>
    (r \<noteq> 0 \<longrightarrow> (\<exists>t'. shrunk t t' \<and> peer p' = (peer p)(t_ip_remote t \<mapsto> t')))"
proof -
  have ip: "provision_get_tunnel_byip p (t_ip_remote t) = Some q" using byip_iff [OF i] q by blast
  note pd = provision_del_def [of env cfg "t_ip_remote t" p, unfolded ip]
  obtain I where I: "p_mac_index p = Some I" using i by (auto elim: prov_invD)
  obtain r1 s1 where 1: "iface_gre_del env (t_ifgre t) (p_sys p) = Some (r1, s1)" using iface_gre_del_ret [OF e] by blast
  from del_clients [OF e i q I r, of s1] obtain fin macs' idx' s2 where
    2: "revoke_macs env cfg (t_ifgre t) hashmap_iter_init (t_macs t) I s1 = Some (fin, macs', idx', s2)"
    "prov_inv cfg (set_tunnel q (t\<lparr>t_macs := macs'\<rparr>) (p\<lparr>p_mac_index := Some idx'\<rparr>))"
    "clients (t\<lparr>t_macs := macs'\<rparr>) \<subseteq> clients t" "fin \<longrightarrow> clients (t\<lparr>t_macs := macs'\<rparr>) = {}" .
  let ?t1 = "t\<lparr>t_macs := macs'\<rparr>"
  let ?p1 = "set_tunnel q ?t1 (p\<lparr>p_mac_index := Some idx'\<rparr>)"
  obtain r3 hooks' s3 where 3: "iface_ebtables_del_tunnel env cfg (t_ifgre t) (t_firewall_hooks t) s2 = Some (r3, hooks', s3)"
    "r3 = 0 \<or> r3 = -1" "prov_inv cfg (set_tunnel q (?t1\<lparr>t_firewall_hooks := hooks'\<rparr>) ?p1)"
    using del_hooks_inv [OF e 2(2), of q ?t1 s2] r by auto
  let ?t2 = "?t1\<lparr>t_firewall_hooks := hooks'\<rparr>"
  let ?p2 = "set_tunnel q ?t2 ?p1"
  note P = peer_set [OF i _ q]
  show ?thesis
  proof (cases "r1 \<noteq> 0 \<and> s_errno s1 \<noteq> ENODEV \<or> \<not> fin \<or> r3 \<noteq> 0")
    case True
    have "peer p (t_ip_remote t) = Some t" using peer_iff [OF i] q by blast
    then have "peer (p\<lparr>p_sys := s1\<rparr>) = (peer p)(t_ip_remote t \<mapsto> t)" by (simp add: fun_upd_idem)
    moreover have "shrunk t t" "shrunk t ?t1" "shrunk t ?t2" using 2(3) by (simp_all add: shrunk_def clients_def)
    moreover have "peer ?p1 = (peer p)(t_ip_remote t \<mapsto> ?t1)" "peer ?p2 = (peer p)(t_ip_remote t \<mapsto> ?t2)"
      using P [OF 2(2), of ?t1] P [OF 3(3), of ?t2] by simp_all
    moreover have "provision_del env cfg (t_ip_remote t) p \<in> Some ` Pair (-1) ` {p\<lparr>p_sys := s1\<rparr>, ?p1\<lparr>p_sys := s2\<rparr>, ?p2\<lparr>p_sys := s3\<rparr>}"
      using True q 1 2(1) 3(1) I by (auto simp: pd Let_def)
    ultimately show ?thesis using i 2(2) 3(3) by (auto simp: same_rest_def)
  next
    case False
    obtain s4 where 4: "D_INFO env cfg (''Tunnel removed remote='' @ inet_ntop (t_ip_remote t) @ '' interface='' @ t_ifgre t) s3 = Some s4"
      using log_message_total [OF e] by blast
    from del_drop [OF 3(3), of q ?t2] False 2(4) obtain T T' where
      5: "p_tunnels p = Some T" "t_id t < length (p_slots p)"
      "hashmap_remove T (t_ip_remote t) = (True, T', setup_frees False True (t_ip_remote t, Some q))"
      "prov_inv cfg (?p2\<lparr>p_slots := (p_slots p)[t_id t := False], p_tunnels := Some T', p_heap := (p_heap p)(q := None)\<rparr>)"
      by (auto simp: clients_def)
    let ?p3 = "?p2\<lparr>p_slots := (p_slots p)[t_id t := False], p_tunnels := Some T', p_heap := (p_heap p)(q := None)\<rparr>"
    have "provision_del env cfg (t_ip_remote t) p = Some (0, ?p3\<lparr>p_sys := s4\<rparr>)"
      using False q 1 2(1) 3(1) 4 5(1-3) I by (simp add: pd Let_def setup_frees_def tunnel_free_def)
    with 5(4) peer_drop [OF i 5(4) q] show ?thesis by (auto simp: same_rest_def)
  qed
qed

lemma provision_del_ok:
  assumes e: "env_ok env" and i: "prov_inv cfg p" and r: "\<And>t. peer p remote = Some t \<Longrightarrow> \<not> t_ready t"
  obtains r p' where "provision_del env cfg remote p = Some (r, p')" "r = 0 \<or> r = -1" "prov_inv cfg p'" "same_rest p p'"
    "r = 0 \<longrightarrow> peer p' = (peer p)(remote := None)"
    "r \<noteq> 0 \<longrightarrow> (\<exists>t t'. peer p remote = Some t \<and> shrunk t t' \<and> peer p' = (peer p)(remote \<mapsto> t'))"
proof (cases "peer p remote")
  case None
  then have "provision_del env cfg remote p = Some (0, p)" using peer_none [OF i] by (simp add: provision_del_def)
  from that [OF this] i None show ?thesis by (simp add: fun_upd_idem)
next
  case (Some t)
  then obtain q where q: "p_heap p q = Some t" "t_ip_remote t = remote" using peer_iff [OF i] by blast
  with provision_del_found [OF e i q(1) r [OF Some]] that Some show ?thesis by blast
qed

section \<open>Clients of a remote\<close>

definition members :: "'w prov \<Rightarrow> u32 \<Rightarrow> string set" where
  "members p k = (case peer p k of None \<Rightarrow> {} | Some t \<Rightarrow> clients t)"

lemma owner_members: "prov_inv cfg p \<Longrightarrow> owner p m = Some k \<longleftrightarrow> m \<in> members p k"
  by (auto simp: owner_iff members_def split: option.splits)

lemma not_ready_no_members:
  assumes "prov_inv cfg p" "\<not> p_cleanup_pending p" "peer p k = Some t" "\<not> t_ready t"
  shows "clients t = {}"
  using peer_ok [OF assms(1,3)] assms(2,4) by (simp add: tun_ok_def)

text \<open>
  What \<open>provision_add\<close> and its parts do outside a clean-up: other remotes keep their tunnels, no
  client is learned or forgotten, and a tunnel is returned exactly when it is ready.
\<close>

definition added :: "softgred_config \<Rightarrow> u32 \<Rightarrow> 'w prov \<Rightarrow> (nat option \<times> 'w prov) option \<Rightarrow> bool" where
  "added cfg remote p res \<longleftrightarrow> (\<exists>v p'. res = Some (v, p') \<and> prov_inv cfg p' \<and> same_rest p p' \<and>
     (\<forall>k. k \<noteq> remote \<longrightarrow> peer p' k = peer p k) \<and> members p' = members p \<and>
     (case v of None \<Rightarrow> (\<forall>t. peer p' remote = Some t \<longrightarrow> \<not> t_ready t)
      | Some q \<Rightarrow> (\<exists>t. p_heap p' q = Some t \<and> t_ip_remote t = remote \<and> t_ready t)))"

lemma addedI_none:
  assumes "prov_inv cfg p'" "same_rest p p'" "\<And>k. k \<noteq> remote \<Longrightarrow> peer p' k = peer p k" "members p remote = {}"
    "\<And>t. peer p' remote = Some t \<Longrightarrow> \<not> t_ready t \<and> clients t = {}"
  shows "added cfg remote p (Some (None, p'))"
proof -
  have "members p' k = members p k" for k
    using assms(3-5) by (cases "k = remote") (auto simp: members_def split: option.splits)
  with assms show ?thesis by (auto simp: added_def)
qed

lemma members_set:
  "peer p' = (peer p)(k \<mapsto> t') \<Longrightarrow> peer p k = Some t \<Longrightarrow> clients t' = clients t \<Longrightarrow> members p' = members p"
  by (simp add: members_def fun_eq_iff)

lemma members_sys [simp]: "members (p\<lparr>p_sys := s\<rparr>) = members p"
  by (simp add: members_def fun_eq_iff)

lemma members_gone: "\<not> t_ready t \<Longrightarrow> peer p k = Some t \<Longrightarrow> prov_inv cfg p \<Longrightarrow> \<not> p_cleanup_pending p \<Longrightarrow> members p k = {}"
  by (simp add: members_def not_ready_no_members)

lemma added_trans:
  assumes "added cfg remote p1 res" "same_rest p p1" "\<And>k. k \<noteq> remote \<Longrightarrow> peer p1 k = peer p k" "members p1 = members p"
  shows "added cfg remote p res"
  using assms unfolding added_def by (auto intro: same_rest_trans)

section \<open>Creating a tunnel\<close>

lemma free_slot_range:
  "free_slot env prefix n slots s = (m, s') \<Longrightarrow>
     n \<le> m \<and> m \<le> n + length slots \<and> (m < n + length slots \<longrightarrow> \<not> slots ! (m - n))"
proof (induction env prefix n slots s arbitrary: m s' rule: free_slot.induct)
  case (2 env prefix n used slots s)
  show ?case
  proof (cases "m = n")
    case True
    with 2 show ?thesis by (fastforce split: if_splits prod.splits)
  next
    case False
    with "2.prems" obtain s1 where r: "free_slot env prefix (n + 1) slots s1 = (m, s')"
      by (auto split: if_splits prod.splits)
    with 2 False have "n + 1 \<le> m \<and> m \<le> n + 1 + length slots \<and> (m < n + 1 + length slots \<longrightarrow> \<not> slots ! (m - (n + 1)))"
      by (auto split: if_splits prod.splits)
    then show ?thesis by (auto simp: nth_Cons')
  qed
qed simp

lemma case_returns:
  "x \<noteq> None \<Longrightarrow> (\<And>s. \<exists>a b. f s = Some (a, b)) \<Longrightarrow> \<exists>a b. (case x of None \<Rightarrow> None | Some s \<Rightarrow> f s) = Some (a, b)"
  by (cases x) auto

lemma attach_vlans_ret:
  assumes "env_ok env"
  shows "\<exists>fin s'. attach_vlans env cfg ip ifgre bs s = Some (fin, s')"
proof (induction bs arbitrary: s)
  case (Cons b bs)
  obtain r s1 where r: "iface_bridge_attach env ifgre (br_ifname b) (br_vlan_id b) s = Some (r, s1)"
    using iface_bridge_attach_total [OF assms] unfolding returns_def by blast
  have l: "log_message env cfg n m s1 \<noteq> None" for n m using log_message_total [OF assms, of cfg n m s1] by auto
  show ?case by (cases "r = 0") (auto simp: r case_returns [OF l Cons.IH])
qed auto

lemma shrunk_clients: "shrunk t t' \<Longrightarrow> clients t = {} \<Longrightarrow> clients t' = {}" 
  by (auto simp: shrunk_def)

lemma rollback_added:
  assumes e: "env_ok env" and i: "prov_inv cfg p" and np: "\<not> p_cleanup_pending p" and t: "peer p remote = Some t" "\<not> t_ready t"
  shows "added cfg remote p (do { (_, p2) \<leftarrow> provision_del env cfg remote p; Some (None, p2) })"
proof -
  have c: "clients t = {}" by (rule not_ready_no_members [OF i np t])
  obtain r p' where d: "provision_del env cfg remote p = Some (r, p')" "r = 0 \<or> r = -1" "prov_inv cfg p'" "same_rest p p'"
    "r = 0 \<longrightarrow> peer p' = (peer p)(remote := None)"
    "r \<noteq> 0 \<longrightarrow> (\<exists>t t'. peer p remote = Some t \<and> shrunk t t' \<and> peer p' = (peer p)(remote \<mapsto> t'))"
    by (rule provision_del_ok [OF e i, of remote]) (use t in simp)
  have "added cfg remote p (Some (None, p'))"
  proof (rule addedI_none [OF d(3,4)])
    show "members p remote = {}" using t c by (simp add: members_def)
    obtain v where v: "peer p' = (peer p)(remote := v)" "v = None \<or> (\<exists>t'. v = Some t' \<and> shrunk t t')"
      using d(5,6) t(1) by (metis option.inject)
    show "peer p' k = peer p k" if "k \<noteq> remote" for k using v(1) that by simp
    show "\<not> t_ready u \<and> clients u = {}" if "peer p' remote = Some u" for u
      using v that t(2) shrunk_clients [OF _ c, of u] by (auto simp: shrunk_def)
  qed
  with d(1) show ?thesis by simp
qed


lemma finish_tunnel_added:
  assumes e: "env_ok env" and i: "prov_inv cfg p" and np: "\<not> p_cleanup_pending p" and q: "p_heap p q = Some t" "\<not> t_ready t"
  shows "added cfg (t_ip_remote t) p (finish_tunnel env cfg (t_ip_remote t) q t p)"
proof -
  let ?k = "t_ip_remote t"
  have pt: "peer p ?k = Some t" using peer_iff [OF i] q by blast
  have c: "clients t = {}" by (rule not_ready_no_members [OF i np pt q(2)])
  have ok: "tun_ok cfg (p_cleanup_pending p) t" by (rule prov_inv_tun [OF i q(1)])
  obtain r hooks' s1 ex where 1: "iface_ebtables_add_tunnel env cfg (t_ifgre t) (t_firewall_hooks t) (p_sys p) = Some (r, hooks', s1)"
    "same_above 0 (t_firewall_hooks t) hooks'" "r = 0 \<longrightarrow> (\<forall>j < 3. bit hooks' j)"
    using iface_ebtables_add_tunnel_total [OF e] by blast
  let ?t1 = "t\<lparr>t_firewall_hooks := hooks'\<rparr>"
  let ?p1 = "set_tunnel q ?t1 p"
  have t1: "tun_ok cfg (p_cleanup_pending p) ?t1" by (rule tun_ok_hooks [OF ok q(2) 1(2)])
  have i1: "prov_inv cfg ?p1" by (rule prov_inv_set [OF i q(1)]) (use t1 in \<open>simp_all add: same_key_def\<close>)
  have P1: "peer ?p1 = (peer p)(?k \<mapsto> ?t1)" using peer_set [OF i i1 q(1), of ?t1] by simp
  have m1: "members ?p1 = members p" by (rule members_set [OF P1 pt]) (simp add: clients_def)
  obtain fin s2 where 2: "(if r \<noteq> 0 then Some (False, s1) else attach_vlans env cfg (inet_ntop ?k) (t_ifgre t) (c_bridge cfg) s1)
     = Some (fin, s2)" using attach_vlans_ret [OF e, of cfg "inet_ntop ?k" "t_ifgre t" "c_bridge cfg" s1] by (cases "r = 0") auto
  note ft = finish_tunnel_def [of env cfg ?k q t p]
  show ?thesis
  proof (cases fin)
    case False
    have "added cfg ?k (?p1\<lparr>p_sys := s2\<rparr>) (do { (_, p2) \<leftarrow> provision_del env cfg ?k (?p1\<lparr>p_sys := s2\<rparr>); Some (None, p2) })"
      by (rule rollback_added [OF e, of _ _ _ ?t1]) (use i1 np P1 q(2) in simp_all)
    then have "added cfg ?k p (do { (_, p2) \<leftarrow> provision_del env cfg ?k (?p1\<lparr>p_sys := s2\<rparr>); Some (None, p2) })"
      by (rule added_trans) (use P1 m1 in \<open>simp_all add: same_rest_def\<close>)
    with 1(1) 2 False show ?thesis by (simp add: ft Let_def)
  next
    case True
    obtain s3 where 3: "D_INFO env cfg (''Tunnel ready remote='' @ inet_ntop ?k @ '' interface='' @ t_ifgre t) s2 = Some s3"
      using log_message_total [OF e] by blast
    let ?t2 = "?t1\<lparr>t_ready := True\<rparr>"
    let ?p2 = "set_tunnel q ?t2 ?p1"
    have r0: "r = 0" using 2 True by (cases "r = 0") auto
    have t2: "tun_ok cfg (p_cleanup_pending p) ?t2" using t1 np r0 1(3) c by (auto simp: tun_ok_def clients_def)
    have i2: "prov_inv cfg ?p2" by (rule prov_inv_set [OF i1, of q ?t1]) (use t2 in \<open>simp_all add: same_key_def\<close>)
    have P2: "peer ?p2 = (peer p)(?k \<mapsto> ?t2)" using peer_set [OF i i2 q(1), of ?t2] by simp
    have "members ?p2 = members p" by (rule members_set [OF P2 pt]) (simp add: clients_def)
    moreover have "finish_tunnel env cfg ?k q t p = Some (Some q, ?p2\<lparr>p_sys := s3\<rparr>)"
      using 1(1) 2 3 True by (simp add: ft Let_def)
    ultimately show ?thesis using i2 P2 by (simp add: added_def same_rest_def)
  qed
qed

lemma tunnel_name_short: "length (tunnel_name prefix n) \<le> 15"
  using snprintf_buf_length [of IFNAMSIZ "prefix @ dec_str n"] by (simp add: tunnel_name_def IFNAMSIZ_def)

lemma new_mac_table: "mac_inv new_mac_table" "hm_abs new_mac_table = Map.empty"
  unfolding new_mac_table_def by (rule by_mac.new_inv, rule by_mac.new_abs)

lemma track_tunnel:
  assumes i: "prov_inv cfg p" and np: "\<not> p_cleanup_pending p" and k: "peer p remote = None"
    and n: "n < SOFTGRED_MAX_SLOTS" "\<not> p_slots p ! n" and pre: "c_tunnel_prefix cfg = Some prefix"
    and t: "t = \<lparr>t_ip_remote = remote, t_ifgre = tunnel_name prefix n, t_id = n, t_ready = False,
                t_firewall_hooks = 0, t_macs = new_mac_table\<rparr>"
  obtains T T' where "p_tunnels p = Some T" "hashmap_insert T remote (Some (p_next p)) = Some (T', [])"
    "prov_inv cfg (p\<lparr>p_next := p_next p + 1, p_slots := (p_slots p)[n := True], p_tunnels := Some T',
       p_heap := (p_heap p)(p_next p \<mapsto> t)\<rparr>)"
    "p_heap p (p_next p) = None" "length (p_slots p) = SOFTGRED_MAX_SLOTS"
proof -
  from i obtain T I where a: "p_tunnels p = Some T" "ip_inv T" "tab_inv T I (p_heap p)" "slots_inv (p_slots p) (p_heap p)"
    by (rule prov_invD)
  have none: "hm_abs T remote = None"
  proof (cases "hm_abs T remote")
    case (Some v)
    then obtain q u where "p_heap p q = Some u" "t_ip_remote u = remote"
      using tab_inv_T [OF a(3), of remote v] by (auto simp: some_tunnel_def)
    then have "peer p remote = Some u" using peer_iff [OF i] by blast
    with k show ?thesis by simp
  qed
  obtain T' where T': "hashmap_insert T remote (Some (p_next p)) = Some (T', [])" "ip_inv T'"
    "hm_abs T' = (hm_abs T)(remote \<mapsto> Some (p_next p))"
    using by_ip.insert_total [OF a(2), of remote "Some (p_next p)"] none by auto
  have ok: "tun_ok cfg (p_cleanup_pending p) t" using n(1) np pre by (simp add: t tun_ok_def new_mac_table clients_def)
  have inv: "prov_inv cfg (p\<lparr>p_next := p_next p + 1, p_slots := (p_slots p)[n := True], p_tunnels := Some T',
       p_heap := (p_heap p)(p_next p \<mapsto> t)\<rparr>)"
    using prov_inv_track [OF i _ _ ok a(1) T'(2)] none T'(3) n(2) by (simp add: t clients_def new_mac_table)
  have "p_heap p (p_next p) = None" using prov_inv_tun(1) [OF i, of "p_next p"] by fastforce
  from that [OF a(1) T'(1) inv this slots_invD(1) [OF a(4)]] show ?thesis .
qed

lemma create_tunnel_added:
  assumes e: "env_ok env" and i: "prov_inv cfg p" and np: "\<not> p_cleanup_pending p" and k: "peer p remote = None"
    and c: "c_tunnel_prefix cfg = Some prefix" "c_ifname cfg = Some ifname"
  shows "added cfg remote p (create_tunnel env cfg remote p)"
proof -
  obtain n s1 where n: "free_slot env prefix 0 (p_slots p) (p_sys p) = (n, s1)" by fastforce
  have len: "length (p_slots p) = SOFTGRED_MAX_SLOTS" using i by (simp add: prov_inv_def slots_inv_def)
  note ct = create_tunnel_def [of env cfg remote p]
  have mem: "members p remote = {}" using k by (simp add: members_def)
  note stay = addedI_none [OF _ _ _ mem]
  show ?thesis
  proof (cases "n = SOFTGRED_MAX_SLOTS")
    case True
    have "added cfg remote p (Some (None, p\<lparr>p_sys := s1\<lparr>s_errno := ENOSPC\<rparr>\<rparr>))" by (rule stay) (use i k in simp_all)
    with c n True show ?thesis by (simp add: ct)
  next
    case False
    with free_slot_range [OF n] len have free: "n < SOFTGRED_MAX_SLOTS" "\<not> p_slots p ! n" by auto
    define t where "t = \<lparr>t_ip_remote = remote, t_ifgre = tunnel_name prefix n, t_id = n, t_ready = False,
                t_firewall_hooks = 0, t_macs = new_mac_table\<rparr>"
    obtain T T' where T: "p_tunnels p = Some T" "hashmap_insert T remote (Some (p_next p)) = Some (T', [])"
      "prov_inv cfg (p\<lparr>p_next := p_next p + 1, p_slots := (p_slots p)[n := True], p_tunnels := Some T',
         p_heap := (p_heap p)(p_next p \<mapsto> t)\<rparr>)" "p_heap p (p_next p) = None"
      using track_tunnel [OF i np k free c(1) t_def] by metis
    let ?p1 = "p\<lparr>p_next := p_next p + 1, p_slots := (p_slots p)[n := True], p_tunnels := Some T',
         p_heap := (p_heap p)(p_next p \<mapsto> t)\<rparr>"
    obtain r s2 where 2: "iface_gre_add env (t_ifgre t) ''gretap'' ifname (c_local cfg) remote s1 = Some (r, s2)"
      using iface_gre_add_total [OF e, of "t_ifgre t" "''gretap''" ifname "c_local cfg" remote s1] tunnel_name_short [of prefix n]
      by (auto simp: returns_def t_def)
    show ?thesis
    proof (cases "r = 0")
      case False
      have nxt: "prov_inv cfg (p\<lparr>p_sys := s2, p_next := p_next p + 1\<rparr>)"
        using i by (auto simp: prov_inv_def heap_inv_def less_SucI)
      have "added cfg remote p (Some (None, p\<lparr>p_sys := s2, p_next := p_next p + 1\<rparr>))"
        by (rule stay [OF nxt]) (use k in \<open>simp_all add: same_rest_def\<close>)
      moreover have same: "p\<lparr>p_next := Suc (p_next p), p_sys := s2, p_heap := (p_heap p)(p_next p := None)\<rparr> =
          p\<lparr>p_sys := s2, p_next := Suc (p_next p)\<rparr>" using T(4) by (cases p) (simp add: fun_upd_idem)
      ultimately show ?thesis using c n \<open>n \<noteq> SOFTGRED_MAX_SLOTS\<close> 2 False
        by (simp add: ct Let_def t_def [symmetric] tunnel_free_def same)
    next
      case True
      obtain s3 where 3: "D_INFO env cfg (''Tunnel created remote='' @ inet_ntop remote @ '' local='' @
         inet_ntop (c_local cfg) @ '' interface='' @ t_ifgre t @ '' ingress='' @ ifname) s2 = Some s3"
        using log_message_total [OF e] by blast
      have P1: "peer ?p1 = (peer p)(remote \<mapsto> t)" using peer_track [OF i T(3) T(4), of t] k by (simp add: t_def)
      have "added cfg (t_ip_remote t) (?p1\<lparr>p_sys := s3\<rparr>) (finish_tunnel env cfg (t_ip_remote t) (p_next p) t (?p1\<lparr>p_sys := s3\<rparr>))"
        by (rule finish_tunnel_added [OF e]) (use T(3) np in \<open>simp_all add: t_def\<close>)
      then have "added cfg remote (?p1\<lparr>p_sys := s3\<rparr>) (finish_tunnel env cfg remote (p_next p) t (?p1\<lparr>p_sys := s3\<rparr>))"
        by (simp add: t_def)
      then have fin: "added cfg remote p (finish_tunnel env cfg remote (p_next p) t (?p1\<lparr>p_sys := s3\<rparr>))"
        by (rule added_trans) (use P1 k in \<open>simp_all add: same_rest_def members_def fun_eq_iff t_def clients_def new_mac_table\<close>)
      have same: "?p1\<lparr>p_sys := s3\<rparr> = p\<lparr>p_next := Suc (p_next p), p_sys := s3, p_slots := (p_slots p)[n := True],
          p_tunnels := Some T', p_heap := (p_heap p)(p_next p \<mapsto> t)\<rparr>" by (cases p) simp
      from fin [unfolded same] show ?thesis using c n \<open>n \<noteq> SOFTGRED_MAX_SLOTS\<close> 2 True 3 T(1,2) len free(1)
        by (simp add: ct Let_def t_def [symmetric])
    qed
  qed
qed


lemma provision_add_added:
  assumes e: "env_ok env" and i: "prov_inv cfg p" and np: "\<not> p_cleanup_pending p"
    and c: "c_tunnel_prefix cfg = Some prefix" "c_ifname cfg = Some ifname"
  shows "added cfg remote p (provision_add env cfg remote p)"
proof (cases "peer p remote")
  case None
  with peer_none [OF i] np create_tunnel_added [OF e i np None c] show ?thesis by (simp add: provision_add_def)
next
  case (Some t)
  then obtain q where q: "p_heap p q = Some t" "t_ip_remote t = remote" using peer_iff [OF i] by blast
  then have ip: "provision_get_tunnel_byip p remote = Some q" using byip_iff [OF i] by blast
  note pa = provision_add_def [of env cfg remote p, unfolded ip]
  show ?thesis
  proof (cases "t_ready t")
    case True
    with np q i Some show ?thesis by (simp add: pa added_def)
  next
    case False
    obtain r p' where d: "provision_del env cfg remote p = Some (r, p')" "r = 0 \<or> r = -1" "prov_inv cfg p'" "same_rest p p'"
      "r = 0 \<longrightarrow> peer p' = (peer p)(remote := None)"
      "r \<noteq> 0 \<longrightarrow> (\<exists>t t'. peer p remote = Some t \<and> shrunk t t' \<and> peer p' = (peer p)(remote \<mapsto> t'))"
      by (rule provision_del_ok [OF e i, of remote]) (use Some False in simp)
    have np': "\<not> p_cleanup_pending p'" using np d(4) by (simp add: same_rest_def)
    have mem: "members p remote = {}" by (rule members_gone [OF False Some i np])
    show ?thesis
    proof (cases "r = 0")
      case True
      with d(5) have P: "peer p' = (peer p)(remote := None)" by simp
      have m: "members p' = members p" using mem by (auto simp: members_def P fun_eq_iff)
      have "added cfg remote p (create_tunnel env cfg remote p')"
        by (rule added_trans [OF create_tunnel_added [OF e d(3) np' _ c] d(4) _ m]) (simp_all add: P)
      with np q(1) False d(1) True show ?thesis by (simp add: pa)
    next
      case r: False
      have "added cfg remote p (do { (_, p2) \<leftarrow> provision_del env cfg remote p; Some (None, p2) })"
        by (rule rollback_added [OF e i np Some False])
      with np q(1) False d(1) r show ?thesis by (simp add: pa)
    qed
  qed
qed

section \<open>Learning a client\<close>

lemma learn_insert:
  assumes i: "prov_inv cfg p" and q: "p_heap p q = Some t" and r: "t_ready t"
    and n: "card (clients t) < PROVISION_MAX_CLIENTS" "owner p mac = None"
  obtains I macs' idx' fr fr' where "hashmap_insert (t_macs t) mac None = Some (macs', fr)" "p_mac_index p = Some I"
    "hashmap_insert I mac (Some q) = Some (idx', fr')"
    "prov_inv cfg (set_tunnel q (t\<lparr>t_macs := macs'\<rparr>) (p\<lparr>p_mac_index := Some idx'\<rparr>))"
    "clients (t\<lparr>t_macs := macs'\<rparr>) = insert mac (clients t)"
proof -
  from i obtain T I where a: "p_mac_index p = Some I" "mac_inv I" "tab_inv T I (p_heap p)" by (rule prov_invD)
  have m: "mac_inv (t_macs t)" using prov_inv_tun(2) [OF i q] by (simp add: tun_ok_def)
  obtain macs' where M: "hashmap_insert (t_macs t) mac None =
      Some (macs', case hm_abs (t_macs t) mac of None \<Rightarrow> [] | Some old \<Rightarrow> setup_frees True False (mac, old))"
      "mac_inv macs'" "hm_abs macs' = (hm_abs (t_macs t))(mac \<mapsto> None)"
    using by_mac.insert_total [OF m] by blast
  obtain idx' where I': "hashmap_insert I mac (Some q) =
      Some (idx', case hm_abs I mac of None \<Rightarrow> [] | Some old \<Rightarrow> setup_frees True False (mac, old))"
      "mac_inv idx'" "hm_abs idx' = (hm_abs I)(mac \<mapsto> Some q)"
    using by_mac.insert_total [OF a(2)] by blast
  have none: "hm_abs I mac = None"
  proof (cases "hm_abs I mac")
    case (Some v)
    then obtain x u where "p_heap p x = Some u" "mac \<in> clients u"
      using tab_inv_I [OF a(3), of mac v] by (auto simp: some_tunnel_def)
    then have "provision_get_tunnel_by_mac p mac = Some x" using bymac_iff [OF i] by blast
    with n(2) owner_none [OF i] show ?thesis by simp
  qed
  have "clients (t\<lparr>t_macs := macs'\<rparr>) = insert mac (clients t)" by (simp add: clients_def M(3))
  from that [OF M(1) a(1) I'(1) prov_inv_learn [OF i q r a(1) I'(2) none I'(3) M(2,3) n(1)] this] show ?thesis .
qed

text \<open>The outcomes of \<open>provision_tunnel_allow_mac\<close> on a tracked tunnel.\<close>

definition learned :: "softgred_config \<Rightarrow> tunnel_context \<Rightarrow> string \<Rightarrow> 'w prov \<Rightarrow> (bool \<times> 'w prov) option \<Rightarrow> bool" where
  "learned cfg t mac p res \<longleftrightarrow> (\<exists>b p'. res = Some (b, p') \<and> prov_inv cfg p' \<and> same_rest p p' \<and>
     (b \<longrightarrow> t_ready t \<and> (mac \<in> clients t \<or> owner p mac = None) \<and>
        (\<exists>t'. peer p' = (peer p)(t_ip_remote t \<mapsto> t') \<and> t_ready t' \<and> clients t' = insert mac (clients t))) \<and>
     (\<not> b \<longrightarrow> peer p' = peer p))"

lemma learned_no: "prov_inv cfg p' \<Longrightarrow> same_rest p p' \<Longrightarrow> peer p' = peer p \<Longrightarrow> learned cfg t mac p (Some (False, p'))"
  by (auto simp: learned_def)

lemma learned_yes:
  "prov_inv cfg p' \<Longrightarrow> same_rest p p' \<Longrightarrow> t_ready t \<Longrightarrow> mac \<in> clients t \<or> owner p mac = None \<Longrightarrow>
   peer p' = (peer p)(t_ip_remote t \<mapsto> t') \<Longrightarrow> t_ready t' \<Longrightarrow> clients t' = insert mac (clients t) \<Longrightarrow>
   learned cfg t mac p (Some (True, p'))"
  unfolding learned_def by blast

lemma allow_mac_new:
  assumes e: "env_ok env" and i: "prov_inv cfg p" and q: "p_heap p q = Some t" and r: "t_ready t"
    and n: "\<not> hashmap_contains (t_macs t) mac" "hashmap_size (t_macs t) < PROVISION_MAX_CLIENTS"
      "card (clients t) < PROVISION_MAX_CLIENTS" "owner p mac = None"
  shows "learned cfg t mac p (provision_tunnel_allow_mac env cfg q mac p)"
proof -
  have bm: "provision_get_tunnel_by_mac p mac = None" using owner_none [OF i] n(4) by blast
  note am = provision_tunnel_allow_mac_def [of env cfg q mac p]
  obtain r1 s1 where 1: "iface_ebtables_allow env cfg (t_ifgre t) mac (p_sys p) = Some (r1, s1)"
    using iface_ebtables_allow_total [OF e] by blast
  show ?thesis
  proof (cases "r1 = 0")
    case False
    with 1 q r n bm i show ?thesis by (simp add: am learned_no)
  next
    case True
    obtain I macs' idx' fr fr' where M: "hashmap_insert (t_macs t) mac None = Some (macs', fr)" "p_mac_index p = Some I"
      "hashmap_insert I mac (Some q) = Some (idx', fr')"
      "prov_inv cfg (set_tunnel q (t\<lparr>t_macs := macs'\<rparr>) (p\<lparr>p_mac_index := Some idx'\<rparr>))"
      "clients (t\<lparr>t_macs := macs'\<rparr>) = insert mac (clients t)" by (rule learn_insert [OF i q r n(3,4)])
    let ?p = "set_tunnel q (t\<lparr>t_macs := macs'\<rparr>) (p\<lparr>p_mac_index := Some idx'\<rparr>)"
    obtain s2 where 2: "D_INFO env cfg (''Client learned remote='' @ inet_ntop (t_ip_remote t) @ '' mac='' @ mac @
       '' tunnel='' @ t_ifgre t @ '' clients='' @ dec_str (hashmap_size macs')) s1 = Some s2"
      using log_message_total [OF e] by blast
    have same: "?p\<lparr>p_sys := s2\<rparr> = p\<lparr>p_sys := s2, p_mac_index := Some idx', p_heap := (p_heap p)(q \<mapsto> t\<lparr>t_macs := macs'\<rparr>)\<rparr>"
      by (cases p) simp
    have "provision_tunnel_allow_mac env cfg q mac p = Some (True, ?p\<lparr>p_sys := s2\<rparr>)"
      unfolding same using 1 2 True q r n bm M(1-3) by (simp add: am)
    moreover have "peer ?p = (peer p)(t_ip_remote t \<mapsto> t\<lparr>t_macs := macs'\<rparr>)"
      using peer_set [OF i M(4) q, of "t\<lparr>t_macs := macs'\<rparr>"] by simp
    then have "learned cfg t mac p (Some (True, ?p\<lparr>p_sys := s2\<rparr>))"
      by (intro learned_yes [OF _ _ r _ _ _ M(5)]) (use M(4) n(4) r in \<open>simp_all add: same_rest_def\<close>)
    ultimately show ?thesis by simp
  qed
qed

lemma allow_mac_learned:
  assumes e: "env_ok env" and i: "prov_inv cfg p" and q: "p_heap p q = Some t"
  shows "learned cfg t mac p (provision_tunnel_allow_mac env cfg q mac p)"
proof -
  note am = provision_tunnel_allow_mac_def [of env cfg q mac p]
  have m: "mac_inv (t_macs t)" using prov_inv_tun(2) [OF i q] by (simp add: tun_ok_def)
  have pt: "peer p (t_ip_remote t) = Some t" using peer_iff [OF i] q by blast
  have known: "hashmap_contains (t_macs t) mac \<longleftrightarrow> mac \<in> clients t" by (simp add: by_mac.contains_abs [OF m] clients_def)
  have sz: "hashmap_size (t_macs t) = card (clients t)" by (simp add: by_mac.tsize_abs [OF m] clients_def)
  consider (off) "\<not> t_ready t" | (old) "t_ready t" "mac \<in> clients t"
    | (full) "t_ready t" "mac \<notin> clients t" "PROVISION_MAX_CLIENTS \<le> card (clients t)"
    | (taken) "t_ready t" "mac \<notin> clients t" "card (clients t) < PROVISION_MAX_CLIENTS" "provision_get_tunnel_by_mac p mac \<noteq> None"
    | (new) "t_ready t" "mac \<notin> clients t" "card (clients t) < PROVISION_MAX_CLIENTS" "owner p mac = None"
    using owner_none [OF i] by (meson not_le)
  then show ?thesis
  proof cases
    case old
    have "peer p = (peer p)(t_ip_remote t \<mapsto> t)" using pt by (simp add: fun_upd_idem)
    then have "learned cfg t mac p (Some (True, p))"
      by (intro learned_yes [OF i]) (use old in \<open>simp_all add: insert_absorb\<close>)
    with old q show ?thesis by (simp add: am known)
  next
    case new
    then show ?thesis using allow_mac_new [OF e i q] by (simp add: known sz)
  qed (use q i in \<open>auto simp: am known sz intro!: learned_no\<close>)
qed

end
