(* ===== verification/Provision_Packet.thy ===== *)
theory Provision_Packet
  imports Provision_Tunnel
begin

text \<open>
  \<open>provision_packet\<close>: the abstract learning table and its six kinds of step, and that the code makes
  one of them for every packet.
\<close>

section \<open>Packets\<close>

lemma owner_eqI:
  assumes "prov_inv cfg p" "prov_inv cfg' p'" "members p' = members p"
  shows "owner p' = owner p"
proof
  fix m
  show "owner p' m = owner p m"
    by (rule option_eqI) (simp add: owner_members [OF assms(1)] owner_members [OF assms(2)] assms(3))
qed

lemma owner_learn:
  assumes "prov_inv cfg p" "prov_inv cfg' p'" "members p' = (members p)(k := insert m (members p k))" "owner p m = None"
  shows "owner p' = (owner p)(m \<mapsto> k)"
proof
  fix x
  have o: "owner p x = Some j \<longleftrightarrow> x \<in> members p j" "owner p' x = Some j \<longleftrightarrow> x \<in> members p' j" for j
    using owner_members [OF assms(1)] owner_members [OF assms(2)] by blast+
  show "owner p' x = ((owner p)(m \<mapsto> k)) x"
  proof (cases "x = m")
    case True
    have "owner p' x = Some k" unfolding o(2) assms(3) using True by simp
    with True show ?thesis by simp
  next
    case False
    then have "owner p' x = Some j \<longleftrightarrow> owner p x = Some j" for j unfolding o assms(3) by simp
    with False show ?thesis by (simp add: option_eqI)
  qed
qed

definition counters :: "'w prov \<Rightarrow> u64 \<times> u64 \<times> u64 \<times> int \<times> bool" where
  "counters p = (p_packets p, p_ignored p, p_failures p, p_retry_after p, p_cleanup_pending p)"

lemma same_rest_counters: "same_rest p p' \<longleftrightarrow> counters p' = counters p"
  by (auto simp: same_rest_def counters_def)

definition packet_learned :: "softgred_config \<Rightarrow> u32 \<Rightarrow> string \<Rightarrow> 'w prov \<Rightarrow> 'w prov \<Rightarrow> bool" where
  "packet_learned cfg remote mac p p' \<longleftrightarrow>
     prov_inv cfg p' \<and> same_rest p p' \<and> owner p' = (owner p)(mac \<mapsto> remote) \<and>
     (\<forall>k. k \<noteq> remote \<longrightarrow> peer p' k = peer p k) \<and> (\<exists>t. peer p' remote = Some t \<and> t_ready t)"

definition packet_dropped :: "softgred_config \<Rightarrow> u32 \<Rightarrow> 'w prov \<Rightarrow> 'w prov \<Rightarrow> bool" where
  "packet_dropped cfg remote p p' \<longleftrightarrow> prov_inv cfg p' \<and> same_rest p p' \<and> owner p' = owner p \<and>
     (\<forall>k. k \<noteq> remote \<longrightarrow> peer p' k = peer p k)"

lemma allow_on_added:
  assumes e: "env_ok env" and i: "prov_inv cfg p" and a: "added cfg remote p (Some (v, p1))" and o: "owner p mac = None"
  obtains b p2 where
    "(case v of None \<Rightarrow> Some (False, p1) | Some q \<Rightarrow> do {
        t \<leftarrow> p_heap p1 q; if t_ready t then provision_tunnel_allow_mac env cfg q mac p1 else Some (False, p1) }) = Some (b, p2)"
    "if b then packet_learned cfg remote mac p p2 else packet_dropped cfg remote p p2"
proof -
  from a have a: "prov_inv cfg p1" "same_rest p p1" "members p1 = members p"
    "\<forall>k. k \<noteq> remote \<longrightarrow> peer p1 k = peer p k"
    "case v of None \<Rightarrow> True | Some q \<Rightarrow> (\<exists>t. p_heap p1 q = Some t \<and> t_ip_remote t = remote \<and> t_ready t)"
    by (auto simp: added_def split: option.splits)
  have o1: "owner p1 = owner p" by (rule owner_eqI [OF i a(1,3)])
  show ?thesis
  proof (cases v)
    case None
    with a o1 that [of False p1] show ?thesis by (simp add: packet_dropped_def)
  next
    case (Some q)
    with a(5) obtain t where q: "p_heap p1 q = Some t" "t_ip_remote t = remote" "t_ready t" by auto
    obtain b p2 where l: "provision_tunnel_allow_mac env cfg q mac p1 = Some (b, p2)" "prov_inv cfg p2" "same_rest p1 p2"
      "b \<longrightarrow> (\<exists>t'. peer p2 = (peer p1)(remote \<mapsto> t') \<and> t_ready t' \<and> clients t' = insert mac (clients t))"
      "\<not> b \<longrightarrow> peer p2 = peer p1"
      using allow_mac_learned [OF e a(1) q(1), of mac] q(2) unfolding learned_def by blast
    have sr: "same_rest p p2" by (rule same_rest_trans [OF a(2) l(3)])
    have "if b then packet_learned cfg remote mac p p2 else packet_dropped cfg remote p p2"
    proof (cases b)
      case True
      with l(4) obtain t' where t': "peer p2 = (peer p1)(remote \<mapsto> t')" "t_ready t'" "clients t' = insert mac (clients t)" by blast
      have "peer p1 remote = Some t" using peer_iff [OF a(1)] q by blast
      then have "members p2 = (members p1)(remote := insert mac (members p1 remote))"
        by (simp add: members_def fun_eq_iff t')
      from owner_learn [OF a(1) l(2) this] o o1 l(2) sr t' True a(4) show ?thesis by (simp add: packet_learned_def)
    next
      case False
      then have "members p2 = members p1" using l(5) by (simp add: members_def fun_eq_iff)
      from owner_eqI [OF a(1) l(2) this] o1 l(2) sr False a(4) l(5) show ?thesis by (simp add: packet_dropped_def)
    qed
    with that [OF _ this] Some q l(1) show ?thesis by simp
  qed
qed

section \<open>The abstract learning table\<close>

text \<open>
  What a peer or an operator can see of the daemon: which remote each client address belongs
  to, whether a clean-up is pending, the end of the backoff, and the counters. A packet makes one
  of six steps on it.
\<close>

record learning =
  l_owner :: "string \<rightharpoonup> u32"
  l_pending :: bool
  l_retry :: int
  l_packets :: u64
  l_ignored :: u64
  l_failures :: u64

definition learning_of :: "'w prov \<Rightarrow> learning" where
  "learning_of p = \<lparr>l_owner = owner p, l_pending = p_cleanup_pending p, l_retry = p_retry_after p,
     l_packets = p_packets p, l_ignored = p_ignored p, l_failures = p_failures p\<rparr>"

definition admitted :: "softgred_config \<Rightarrow> payload_packet \<Rightarrow> bool" where
  "admitted cfg packet \<longleftrightarrow> packet_addressed cfg packet \<and> config_remote_allowed cfg (ntohl (p_remote packet)) \<and>
     (\<exists>b \<in> set (c_bridge cfg). br_vlan_id b = p_vlan packet)"

abbreviation (input) packet_mac :: "payload_packet \<Rightarrow> string" where
  "packet_mac packet \<equiv> mac_text (p_mac packet)"

inductive packet_step :: "softgred_config \<Rightarrow> payload_packet \<Rightarrow> int \<Rightarrow> learning \<Rightarrow> learning \<Rightarrow> bool"
  for cfg packet now where
  refused: "l_pending a \<or> \<not> admitted cfg packet \<or> (\<exists>k. l_owner a (packet_mac packet) = Some k \<and> k \<noteq> p_remote packet) \<Longrightarrow>
    packet_step cfg packet now a (a\<lparr>l_packets := l_packets a + 1, l_ignored := l_ignored a + 1\<rparr>)"
| known: "\<not> l_pending a \<Longrightarrow> admitted cfg packet \<Longrightarrow> l_owner a (packet_mac packet) = Some (p_remote packet) \<Longrightarrow>
    packet_step cfg packet now a (a\<lparr>l_packets := l_packets a + 1\<rparr>)"
| backoff: "\<not> l_pending a \<Longrightarrow> admitted cfg packet \<Longrightarrow> l_owner a (packet_mac packet) = None \<Longrightarrow> now < l_retry a \<Longrightarrow>
    packet_step cfg packet now a (a\<lparr>l_packets := l_packets a + 1\<rparr>)"
| learned: "\<not> l_pending a \<Longrightarrow> admitted cfg packet \<Longrightarrow> l_owner a (packet_mac packet) = None \<Longrightarrow> l_retry a \<le> now \<Longrightarrow>
    packet_step cfg packet now a
      (a\<lparr>l_packets := l_packets a + 1, l_owner := (l_owner a)(packet_mac packet \<mapsto> p_remote packet)\<rparr>)"
| capacity: "\<not> l_pending a \<Longrightarrow> admitted cfg packet \<Longrightarrow> l_owner a (packet_mac packet) = None \<Longrightarrow> l_retry a \<le> now \<Longrightarrow>
    packet_step cfg packet now a (a\<lparr>l_packets := l_packets a + 1, l_ignored := l_ignored a + 1\<rparr>)"
| failed: "\<not> l_pending a \<Longrightarrow> admitted cfg packet \<Longrightarrow> l_owner a (packet_mac packet) = None \<Longrightarrow> l_retry a \<le> now \<Longrightarrow>
    packet_step cfg packet now a
      (a\<lparr>l_packets := l_packets a + 1, l_failures := l_failures a + 1, l_retry := now + USEC_PER_SEC\<rparr>)"

inductive_cases packet_stepE: "packet_step cfg packet now a b"

text \<open>The three ways in which the part behind the backoff ends.\<close>

definition learn_outcome :: "softgred_config \<Rightarrow> payload_packet \<Rightarrow> string \<Rightarrow> int \<Rightarrow> 'w prov \<Rightarrow> 'w prov \<Rightarrow> bool" where
  "learn_outcome cfg packet mac now p p' \<longleftrightarrow> prov_inv cfg p' \<and>
     (\<forall>k. k \<noteq> p_remote packet \<longrightarrow> peer p' k = peer p k) \<and>
     learning_of p' \<in>
       {(learning_of p)\<lparr>l_owner := (owner p)(mac \<mapsto> p_remote packet)\<rparr>,
        (learning_of p)\<lparr>l_ignored := p_ignored p + 1\<rparr>,
        (learning_of p)\<lparr>l_failures := p_failures p + 1, l_retry := now + USEC_PER_SEC\<rparr>}"

lemma learn_client_ok:
  assumes e: "env_ok env" and i: "prov_inv cfg p" and np: "\<not> p_cleanup_pending p" and o: "owner p mac = None"
    and c: "c_tunnel_prefix cfg = Some prefix" "c_ifname cfg = Some ifname"
  shows "\<exists>p'. learn_client env cfg packet mac (provision_get_tunnel_byip p (p_remote packet)) now p = Some p' \<and>
    learn_outcome cfg packet mac now p p'"
proof -
  let ?k = "p_remote packet" let ?p = "p\<lparr>p_sys := (p_sys p)\<lparr>s_errno := 0\<rparr>\<rparr>"
  let ?tun = "provision_get_tunnel_byip p ?k"
  have i0: "prov_inv cfg ?p" using i by simp
  obtain u where u: "(case ?tun of None \<Rightarrow> Some False | Some q \<Rightarrow> map_option t_ready (p_heap ?p q)) = Some u"
    using byip_iff [OF i, of ?k "the ?tun"] by (cases ?tun) auto
  have "added cfg ?k ?p (if \<not> u then provision_add env cfg ?k ?p else Some (?tun, ?p))"
  proof (cases u)
    case False
    with provision_add_added [OF e i0 _ c] np show ?thesis by simp
  next
    case True
    with u obtain q t where "?tun = Some q" "p_heap p q = Some t" "t_ready t" by (cases ?tun) auto
    moreover from this have "t_ip_remote t = ?k" using byip_iff [OF i, of ?k q] by simp
    ultimately show ?thesis using True i0 by (simp add: added_def)
  qed
  then obtain v p1 where a: "(if \<not> u then provision_add env cfg ?k ?p else Some (?tun, ?p)) = Some (v, p1)"
    "added cfg ?k ?p (Some (v, p1))" by (auto simp: added_def)
  have o0: "owner ?p mac = None" using o by simp
  obtain b p2 where b: "(case v of None \<Rightarrow> Some (False, p1) | Some q \<Rightarrow> do {
        t \<leftarrow> p_heap p1 q; if t_ready t then provision_tunnel_allow_mac env cfg q mac p1 else Some (False, p1) }) = Some (b, p2)"
    "if b then packet_learned cfg ?k mac ?p p2 else packet_dropped cfg ?k ?p p2"
    by (rule allow_on_added [OF e i0 a(2) o0])
  obtain s3 where 3: "D_WARNING env cfg (''Provisioning failed remote='' @ inet_ntop ?k @ '' mac='' @ mac @
         '' vlan='' @ dec_str (unat (p_vlan packet)) @ '' retry=1s'') (p_sys p2) = Some s3"
    using log_message_total [OF e] by blast
  have run: "learn_client env cfg packet mac ?tun now p =
     (if b then Some p2 else if s_errno (p_sys p2) = ENOSPC then Some (ignore_packet p2)
      else Some (p2\<lparr>p_sys := s3, p_failures := p_failures p2 + 1, p_retry_after := now + USEC_PER_SEC\<rparr>))"
    using u a(1) b(1) 3 by (simp add: learn_client_def Let_def)
  show ?thesis
  proof (cases b)
    case True
    with b(2) have "learn_outcome cfg packet mac now p p2"
      by (simp add: learn_outcome_def packet_learned_def learning_of_def same_rest_def)
    with True show ?thesis by (simp add: run)
  next
    case False
    with b(2) have "prov_inv cfg p2" "learning_of p2 = learning_of p"
      "\<forall>k. k \<noteq> ?k \<longrightarrow> peer p2 k = peer p k"
      by (simp_all add: packet_dropped_def learning_of_def same_rest_def)
    then have "learn_outcome cfg packet mac now p (ignore_packet p2)"
      "learn_outcome cfg packet mac now p (p2\<lparr>p_sys := s3, p_failures := p_failures p2 + 1, p_retry_after := now + USEC_PER_SEC\<rparr>)"
      by (simp_all add: learn_outcome_def learning_of_def ignore_packet_def)
    with False show ?thesis by (simp add: run)
  qed
qed


lemma learning_of_sel [simp]:
  "l_owner (learning_of p) = owner p" "l_pending (learning_of p) = p_cleanup_pending p"
  "l_retry (learning_of p) = p_retry_after p" "l_packets (learning_of p) = p_packets p"
  "l_ignored (learning_of p) = p_ignored p" "l_failures (learning_of p) = p_failures p"
  by (simp_all add: learning_of_def)

lemma known_client:
  assumes i: "prov_inv cfg p"
  shows "(case provision_get_tunnel_byip p k of None \<Rightarrow> Some False
     | Some q \<Rightarrow> map_option (\<lambda>t. hashmap_contains (t_macs t) m) (p_heap p q)) = Some (owner p m = Some k)"
proof (cases "provision_get_tunnel_byip p k")
  case None
  then have "peer p k = None" using peer_none [OF i] by blast
  with None owner_iff [OF i, of m k] show ?thesis by simp
next
  case (Some q)
  then obtain t where t: "p_heap p q = Some t" "t_ip_remote t = k" using byip_iff [OF i, of k q] by blast
  then have "mac_inv (t_macs t)" using prov_inv_tun(2) [OF i t(1)] by (simp add: tun_ok_def)
  moreover have "peer p k = Some t" using peer_iff [OF i] t by blast
  ultimately show ?thesis using Some t(1) owner_iff [OF i, of m k] by (simp add: by_mac.contains_abs clients_def)
qed

text \<open>The branches of \<open>provision_packet\<close> in terms of the abstract state.\<close>

lemma provision_packet_cases:
  assumes i: "prov_inv cfg p"
  shows "provision_packet env cfg packet p =
     (let p1 = p\<lparr>p_packets := p_packets p + 1\<rparr>; m = packet_mac packet; k = p_remote packet; now = monotonic_usec env (p_sys p)
      in if p_cleanup_pending p \<or> \<not> admitted cfg packet then Some (ignore_packet p1)
         else if owner p m = Some k then Some p1 else if owner p m \<noteq> None then Some (ignore_packet p1)
         else if now < p_retry_after p then Some p1
         else learn_client env cfg packet m (provision_get_tunnel_byip p1 k) now p1)"
proof -
  let ?p = "p\<lparr>p_packets := p_packets p + 1\<rparr>"
  have "prov_inv cfg ?p" using i by simp
  note kn = known_client [OF this]
  have bm: "provision_get_tunnel_by_mac ?p m = None \<longleftrightarrow> owner p m = None" for m
    using owner_none [OF i] by (simp add: provision_get_tunnel_by_mac_def)
  show ?thesis
    by (simp add: provision_packet_def Let_def admitted_def list_ex_iff kn [simplified] bm [simplified])
qed

lemma provision_packet_step:
  assumes e: "env_ok env" and i: "prov_inv cfg p" and c: "c_tunnel_prefix cfg = Some prefix" "c_ifname cfg = Some ifname"
  shows "\<exists>p'. provision_packet env cfg packet p = Some p' \<and> prov_inv cfg p' \<and>
    (\<forall>k. peer p' k \<noteq> peer p k \<longrightarrow> k = p_remote packet \<and> admitted cfg packet) \<and>
    packet_step cfg packet (monotonic_usec env (p_sys p)) (learning_of p) (learning_of p')"
proof -
  let ?p = "p\<lparr>p_packets := p_packets p + 1\<rparr>" let ?m = "packet_mac packet" let ?k = "p_remote packet"
  let ?now = "monotonic_usec env (p_sys p)"
  have l: "learning_of ?p = (learning_of p)\<lparr>l_packets := p_packets p + 1\<rparr>"
     "learning_of (ignore_packet ?p) = (learning_of p)\<lparr>l_packets := p_packets p + 1, l_ignored := p_ignored p + 1\<rparr>"
    by (simp_all add: learning_of_def ignore_packet_def)
  have inv: "prov_inv cfg ?p" "prov_inv cfg (ignore_packet ?p)" "peer ?p = peer p" "peer (ignore_packet ?p) = peer p"
    using i by (simp_all add: ignore_packet_def)
  note st = packet_step.intros [of "learning_of p" cfg packet ?now, unfolded learning_of_sel]
  note pp = provision_packet_cases [OF i, of env packet, unfolded Let_def]
  show ?thesis
  proof (cases "p_cleanup_pending p \<or> \<not> admitted cfg packet \<or> owner p ?m \<noteq> None \<or> ?now < p_retry_after p")
    case True
    show ?thesis
    proof (cases "p_cleanup_pending p \<or> \<not> admitted cfg packet \<or> (\<exists>k. owner p ?m = Some k \<and> k \<noteq> ?k)")
      case True
      from st(1) [OF this] True inv(2,4) l(2) show ?thesis unfolding pp by fastforce
    next
      case False
      then have f: "\<not> p_cleanup_pending p" "admitted cfg packet" "owner p ?m = Some ?k \<or> owner p ?m = None" by auto
      then have "provision_packet env cfg packet p = Some ?p" using True unfolding pp by auto
      moreover have "packet_step cfg packet ?now (learning_of p) (learning_of ?p)"
        using f True st(2) [OF f(1,2)] st(3) [OF f(1,2)] unfolding l(1) by auto
      ultimately show ?thesis using inv(1,3) by simp
    qed
  next
    case False
    then have f: "\<not> p_cleanup_pending p" "admitted cfg packet" "owner p ?m = None" "p_retry_after p \<le> ?now" by auto
    obtain p' where p': "learn_client env cfg packet ?m (provision_get_tunnel_byip ?p ?k) ?now ?p = Some p'"
      "learn_outcome cfg packet ?m ?now ?p p'"
      using learn_client_ok [OF e inv(1) _ _ c, of ?m packet ?now] f by auto
    then show ?thesis unfolding pp using False st(4-6) [OF f] inv(3) by (auto simp: learn_outcome_def l(1))
  qed
qed

end
