(* ===== verification/Provision_Cleanup.thy ===== *)
theory Provision_Cleanup
  imports Provision_Packet
begin

text \<open>
  \<open>provision_delall\<close>, \<open>provision_end\<close>, \<open>provision_stats\<close> and \<open>provision_init\<close>: the loop over all tunnels
  keeps the tables in step with the heap, and the tables free each tunnel exactly once.
\<close>

section \<open>Clean-up\<close>

text \<open>How the clean-up may change a tunnel before it is freed.\<close>

definition weakened :: "tunnel_context \<Rightarrow> tunnel_context \<Rightarrow> bool" where
  "weakened t t' \<longleftrightarrow> t_ip_remote t' = t_ip_remote t \<and> t_id t' = t_id t \<and> t_ifgre t' = t_ifgre t \<and> t_macs t' = t_macs t \<and>
     (\<forall>j \<ge> 3. bit (t_firewall_hooks t') j = bit (t_firewall_hooks t) j) \<and> (t_ready t' \<longrightarrow> t_ready t)"

definition heap_weakened :: "(nat \<rightharpoonup> tunnel_context) \<Rightarrow> (nat \<rightharpoonup> tunnel_context) \<Rightarrow> bool" where
  "heap_weakened H H' \<longleftrightarrow> (\<forall>q. rel_option weakened (H q) (H' q))"

lemma weakened_refl [simp]: "weakened t t"
  by (simp add: weakened_def)

lemma weakened_trans: "weakened t t' \<Longrightarrow> weakened t' t'' \<Longrightarrow> weakened t t''"
  by (simp add: weakened_def)

lemma heap_weakened_refl [simp]: "heap_weakened H H"
  by (simp add: heap_weakened_def option.rel_refl)

lemma heap_weakened_trans:
  assumes "heap_weakened H H'" "heap_weakened H' H''"
  shows "heap_weakened H H''"
  unfolding heap_weakened_def
proof
  fix q
  show "rel_option weakened (H q) (H'' q)"
    using assms [unfolded heap_weakened_def, THEN spec, of q]
    by (cases "H q"; cases "H' q"; cases "H'' q") (simp_all add: weakened_trans)
qed

lemma heap_weakened_upd: "H q = Some t \<Longrightarrow> weakened t t' \<Longrightarrow> heap_weakened H (H(q \<mapsto> t'))"
  by (simp add: heap_weakened_def option.rel_refl)

lemma heap_weakenedD:
  assumes "heap_weakened H H'"
  shows "H q = Some t \<Longrightarrow> \<exists>t'. H' q = Some t' \<and> weakened t t'" "H' q = Some t' \<Longrightarrow> \<exists>t. H q = Some t \<and> weakened t t'"
  using assms unfolding heap_weakened_def by (metis option_rel_Some1, metis option_rel_Some2)


definition entry_tracked :: "(nat \<rightharpoonup> tunnel_context) \<Rightarrow> u32 \<times> nat option \<Rightarrow> bool" where
  "entry_tracked H e \<longleftrightarrow> (\<exists>q t. snd e = Some q \<and> H q = Some t \<and> t_ip_remote t = fst e)"

lemma entry_tracked_weakened: "heap_weakened H H' \<Longrightarrow> entry_tracked H e \<Longrightarrow> entry_tracked H' e"
  unfolding entry_tracked_def using heap_weakenedD(1) by (metis weakened_def)

text \<open>One tunnel of the loop.\<close>

lemma cleanup_one:
  assumes e: "env_ok env" and n: "hashmap_iter_next T it = (Some (k, Some q), it')" and q: "H q = Some t"
  obtains ok' t' s' where "cleanup_loop env cfg T it ok H s = cleanup_loop env cfg T it' ok' (H(q \<mapsto> t')) s'"
    "weakened t t'" "\<not> t_ready t'" "ok' \<longrightarrow> ok \<and> t_firewall_hooks t' = 0"
proof -
  let ?t = "t\<lparr>t_ready := False\<rparr>"
  note cl = cleanup_loop.simps [of env cfg T it ok H s]
  obtain r1 s1 where 1: "iface_gre_del env (t_ifgre t) s = Some (r1, s1)" using iface_gre_del_ret [OF e] by blast
  obtain r2 h s2 ex where 2: "iface_ebtables_del_tunnel env cfg (t_ifgre t) (t_firewall_hooks t) s1 = Some (r2, h, s2)"
    "same_above 0 (t_firewall_hooks t) h" "r2 = 0 \<longleftrightarrow> h = 0"
    using iface_ebtables_del_tunnel_total [OF e] by blast
  obtain s3 where 3: "D_INFO env cfg (''Tunnel removed remote='' @ inet_ntop (t_ip_remote t) @
       '' interface='' @ t_ifgre t @ '' clients='' @ dec_str (hashmap_size (t_macs t))) s2 = Some s3"
    using log_message_total [OF e] by blast
  have w: "weakened t ?t" "weakened t (?t\<lparr>t_firewall_hooks := h\<rparr>)" using 2(2) by (auto simp: weakened_def same_above_def)
  show ?thesis
  proof (cases "r1 \<noteq> 0 \<and> s_errno s1 \<noteq> ENODEV")
    case True
    with n q 1 have "cleanup_loop env cfg T it ok H s = cleanup_loop env cfg T it' False (H(q \<mapsto> ?t)) s1"
      by (simp add: cl Let_def)
    from that [OF this w(1)] show ?thesis by simp
  next
    case False
    show ?thesis
    proof (cases "r2 = 0")
      case r: True
      from False r n q 1 2(1) 3 have "cleanup_loop env cfg T it ok H s =
          cleanup_loop env cfg T it' ok (H(q \<mapsto> ?t\<lparr>t_firewall_hooks := h\<rparr>)) s3" by (auto simp: cl Let_def)
      from that [OF this w(2)] r 2(3) show ?thesis by simp
    next
      case r: False
      from False r n q 1 2(1) have "cleanup_loop env cfg T it ok H s =
          cleanup_loop env cfg T it' False (H(q \<mapsto> ?t\<lparr>t_firewall_hooks := h\<rparr>)) s2" by (auto simp: cl Let_def)
      from that [OF this w(2)] show ?thesis by simp
    qed
  qed
qed

lemma cleanup_loop_ok:
  assumes e: "env_ok env" and T: "hm_inv T"
  shows "(\<And>x. x \<in> set (iter_rest T it) \<Longrightarrow> entry_tracked H x) \<Longrightarrow>
    \<exists>ok' H' s'. cleanup_loop env cfg T it ok H s = Some (ok', H', s') \<and> heap_weakened H H' \<and>
      (\<forall>k q t. (k, Some q) \<in> set (iter_rest T it) \<and> H' q = Some t \<longrightarrow> \<not> t_ready t) \<and> (ok' \<longrightarrow> ok)"
proof (induction "hm_cap T - it_slot it" arbitrary: it ok H s rule: less_induct)
  case less
  note nx = hashmap_iter_next_correct [OF T, of it]
  show ?case
  proof (cases "iter_rest T it")
    case Nil
    with nx obtain it' where "hashmap_iter_next T it = (None, it')" by auto
    with Nil show ?thesis by (simp add: cleanup_loop.simps [of env cfg T it])
  next
    case (Cons kv r)
    with less.prems have "entry_tracked H kv" by simp
    then obtain k q t where kv: "kv = (k, Some q)" "H q = Some t" by (cases kv) (auto simp: entry_tracked_def)
    with Cons nx obtain it' where n: "hashmap_iter_next T it = (Some (Some k, Some q), it')" "iter_rest T it' = r"
      "it_slot it < it_slot it'" "it_slot it' \<le> hm_cap T" by auto
    obtain ok1 t1 s1 where 1: "cleanup_loop env cfg T it ok H s = cleanup_loop env cfg T it' ok1 (H(q \<mapsto> t1)) s1"
      "weakened t t1" "\<not> t_ready t1" "ok1 \<longrightarrow> ok" using cleanup_one [where H = H and t = t, OF e n(1) kv(2)] by metis
    have w1: "heap_weakened H (H(q \<mapsto> t1))" by (rule heap_weakened_upd) (use kv(2) 1(2) in auto)
    have dec: "hm_cap T - it_slot it' < hm_cap T - it_slot it" using n(3,4) by simp
    have "entry_tracked (H(q \<mapsto> t1)) x" if "x \<in> set (iter_rest T it')" for x
      using less.prems that n(2) Cons entry_tracked_weakened [OF w1] by simp
    from less.hyps [OF dec this, of ok1 s1] obtain ok' H' s' where
      h: "cleanup_loop env cfg T it' ok1 (H(q \<mapsto> t1)) s1 = Some (ok', H', s')" "heap_weakened (H(q \<mapsto> t1)) H'"
      "\<forall>k q t. (k, Some q) \<in> set (iter_rest T it') \<and> H' q = Some t \<longrightarrow> \<not> t_ready t" "ok' \<longrightarrow> ok1" by blast
    have "\<not> t_ready u" if "H' q = Some u" for u
      using heap_weakenedD(2) [OF h(2) that] 1(3) by (auto simp: weakened_def)
    with h 1(1,4) heap_weakened_trans [OF w1 h(2)] n(2) Cons kv(1) show ?thesis by auto
  qed
qed


lemma some_tunnel_weakened:
  assumes w: "heap_weakened H H'" and P: "\<And>t t'. weakened t t' \<Longrightarrow> P t' = P t"
  shows "some_tunnel H' v P = some_tunnel H v P"
  using heap_weakenedD [OF w] P unfolding some_tunnel_def by metis

lemma weakened_views:
  assumes "heap_weakened H H'"
  shows "some_tunnel H' v (\<lambda>t. t_ip_remote t = k) = some_tunnel H v (\<lambda>t. t_ip_remote t = k)"
    "some_tunnel H' v (\<lambda>t. m \<in> clients t) = some_tunnel H v (\<lambda>t. m \<in> clients t)"
    "some_tunnel H' v (\<lambda>t. t_id t = n) = some_tunnel H v (\<lambda>t. t_id t = n)"
  by (rule some_tunnel_weakened [OF assms], simp add: weakened_def clients_def)+

lemma tab_inv_weakened: "tab_inv T I H \<Longrightarrow> heap_weakened H H' \<Longrightarrow> tab_inv T I H'"
  unfolding tab_inv_def by (simp add: weakened_views)

lemma slots_inv_weakened:
  assumes s: "slots_inv sl H" and w: "heap_weakened H H'"
  shows "slots_inv sl H'"
proof (rule slots_invI)
  show "sl ! i \<longleftrightarrow> (\<exists>v. some_tunnel H' v (\<lambda>u. t_id u = i))" if "i < SOFTGRED_MAX_SLOTS" for i
    using slots_invD(2) [OF s that] by (simp add: weakened_views [OF w])
  show "p = p'" if "H' p = Some u" "H' p' = Some u'" "t_id u = t_id u'" for p p' u u'
    using heap_weakenedD(2) [OF w that(1)] heap_weakenedD(2) [OF w that(2)] that(3) slots_invD(3) [OF s]
    by (metis weakened_def)
qed (rule slots_invD(1) [OF s])

lemma entries_tracked:
  assumes "ip_inv T" "tab_inv T I H" "x \<in> set (entries T)"
  shows "entry_tracked H x"
proof -
  obtain k v where x: "x = (k, v)" by (cases x)
  have "hm_inv T" using assms(1) by (simp add: setup_inv_def)
  then have "hm_abs T k = Some v"
    using assms(3) x by (simp add: hm_abs_def map_of_eq_Some_iff [OF distinct_entries])
  then show ?thesis using tab_inv_T [OF assms(2)] by (auto simp: x entry_tracked_def some_tunnel_def)
qed

lemma tracked_entry:
  assumes "tab_inv T I H" "H q = Some t"
  shows "(t_ip_remote t, Some q) \<in> set (entries T)"
proof -
  have "hm_abs T (t_ip_remote t) = Some (Some q)" using tab_inv_T [OF assms(1)] assms(2) by (auto simp: some_tunnel_def)
  then show ?thesis by (simp add: hm_abs_def map_of_SomeD)
qed

text \<open>After the loop the state is the one of a pending clean-up, with the same clients.\<close>

lemma cleanup_loop_inv:
  assumes e: "env_ok env" and i: "prov_inv cfg p" and T: "p_tunnels p = Some T"
  obtains ok H' s' where "cleanup_loop env cfg T hashmap_iter_init True (p_heap p) (p_sys p) = Some (ok, H', s')"
    "prov_inv cfg (p\<lparr>p_cleanup_pending := True, p_heap := H'\<rparr>)" "heap_weakened (p_heap p) H'"
proof -
  from i T obtain I where a: "p_mac_index p = Some I" "ip_inv T" "mac_inv I"
    "tab_inv T I (p_heap p)" "slots_inv (p_slots p) (p_heap p)"
    "heap_inv cfg (p_cleanup_pending p) (p_next p) (p_heap p)" by (auto elim: prov_invD)
  have hi: "hm_inv T" using a(2) by (simp add: setup_inv_def)
  obtain ok H' s' where c: "cleanup_loop env cfg T hashmap_iter_init True (p_heap p) (p_sys p) = Some (ok, H', s')"
    "heap_weakened (p_heap p) H'" "\<forall>k q t. (k, Some q) \<in> set (entries T) \<and> H' q = Some t \<longrightarrow> \<not> t_ready t"
    using cleanup_loop_ok [OF e hi, of hashmap_iter_init "p_heap p" cfg True "p_sys p"] entries_tracked [OF a(2,4)] by auto
  have h: "heap_inv cfg True (p_next p) H'"
    unfolding heap_inv_def
  proof (intro allI impI)
    fix q t' assume q': "H' q = Some t'"
    then obtain t where t: "p_heap p q = Some t" "weakened t t'" using heap_weakenedD(2) [OF c(2)] by blast
    have "\<not> t_ready t'" using c(3) q' tracked_entry [OF a(4) t(1)] by blast
    with t a(6) show "q < p_next p \<and> tun_ok cfg True t'"
      by (auto simp: heap_inv_def tun_ok_def weakened_def clients_def)
  qed
  have "prov_inv cfg (p\<lparr>p_cleanup_pending := True, p_heap := H'\<rparr>)"
    by (rule prov_invI [of _ T I])
      (use T a h tab_inv_weakened [OF a(4) c(2)] slots_inv_weakened [OF a(5) c(2)] in simp_all)
  from that [OF c(1) this c(2)] show ?thesis .
qed

lemma free_all_tunnels:
  assumes "\<And>x. x \<in> set es \<Longrightarrow> entry_tracked H x" "distinct (map fst es)"
  shows "\<exists>H'. free_tunnels (concat (map (setup_frees False True) es)) H = Some H' \<and>
    (\<forall>q. H' q = (if Some q \<in> snd ` set es then None else H q))"
  using assms
proof (induction es arbitrary: H)
  case (Cons x es)
  obtain k q t where x: "x = (k, Some q)" "H q = Some t" "t_ip_remote t = k"
    using Cons.prems(1) [of x] by (cases x) (auto simp: entry_tracked_def)
  have "entry_tracked (H(q := None)) y" if "y \<in> set es" for y
  proof -
    have "entry_tracked H y" "fst y \<noteq> k" using Cons.prems that x(1) by auto
    then obtain q' u where "snd y = Some q'" "H q' = Some u" "t_ip_remote u = fst y" "q' \<noteq> q"
      using x(2,3) unfolding entry_tracked_def by force
    then show ?thesis by (simp add: entry_tracked_def)
  qed
  moreover have "distinct (map fst es)" using Cons.prems(2) by simp
  ultimately obtain H' where
    h: "free_tunnels (concat (map (setup_frees False True) es)) (H(q := None)) = Some H'"
    "\<forall>p. H' p = (if Some p \<in> snd ` set es then None else (H(q := None)) p)" using Cons.IH by blast
  then show ?case using x(1,2) by (auto simp: setup_frees_def tunnel_free_def)
qed simp

lemma free_table:
  assumes "ip_inv T" "tab_inv T I H"
  shows "free_tunnels (concat (map (setup_frees False True) (entries T))) H = Some Map.empty"
proof -
  have d: "distinct (map fst (entries T))" using assms(1) by (intro distinct_entries) (simp add: setup_inv_def)
  obtain H' where h: "free_tunnels (concat (map (setup_frees False True) (entries T))) H = Some H'"
    "\<forall>q. H' q = (if Some q \<in> snd ` set (entries T) then None else H q)"
    using free_all_tunnels [OF entries_tracked [OF assms] d] by blast
  have "H' q = None" for q
  proof (cases "H q")
    case (Some t)
    then have "Some q \<in> snd ` set (entries T)" using tracked_entry [OF assms(2)] by force
    with h(2) show ?thesis by simp
  qed (use h(2) in simp)
  then have "H' = Map.empty" by (simp add: fun_eq_iff)
  with h(1) show ?thesis by simp
qed

lemma empty_state:
  assumes "p_tunnels p = Some T" "p_mac_index p = Some I" "ip_inv T" "mac_inv I" "hm_abs T = Map.empty" "hm_abs I = Map.empty"
    "p_heap p = Map.empty" "p_slots p = replicate SOFTGRED_MAX_SLOTS False"
  shows "prov_inv cfg p" "owner p = Map.empty" "peer p = Map.empty"
proof -
  show i: "prov_inv cfg p"
    by (rule prov_invI [OF assms(1-4)])
      (use assms(5-8) in \<open>simp_all add: tab_inv_def slots_inv_def heap_inv_def some_tunnel_def\<close>)
  have "peer p k = None" for k using peer_iff [OF i, of k] assms(7) by (cases "peer p k") auto
  then show "peer p = Map.empty" by (simp add: fun_eq_iff)
  then have "owner p m = None" for m using owner_iff [OF i, of m] by (cases "owner p m") auto
  then show "owner p = Map.empty" by (simp add: fun_eq_iff)
qed

lemma remove_all_setup:
  assumes "setup_inv h kf vf m"
  obtains m' where "hashmap_remove_all m = (m', concat (map (setup_frees kf vf) (entries m)))" "setup_inv h kf vf m'" "hm_abs m' = Map.empty"
  using hashmap_remove_all_correct [of m] assms that by (auto simp: setup_inv_def same_setup_def entry_frees_def)

lemma peer_weakened:
  assumes i: "prov_inv cfg p" "prov_inv cfg' p'" and w: "heap_weakened (p_heap p) (p_heap p')"
  shows "peer p k = Some t \<Longrightarrow> \<exists>t'. peer p' k = Some t' \<and> clients t' = clients t" "peer p' k = Some t' \<Longrightarrow> \<exists>t. peer p k = Some t"
proof -
  assume "peer p k = Some t"
  then obtain q where q: "p_heap p q = Some t" "t_ip_remote t = k" unfolding peer_iff [OF i(1)] by blast
  with heap_weakenedD(1) [OF w] obtain t' where "p_heap p' q = Some t'" "weakened t t'" by blast
  with q show "\<exists>t'. peer p' k = Some t' \<and> clients t' = clients t"
    unfolding peer_iff [OF i(2)] by (auto simp: weakened_def clients_def)
next
  assume "peer p' k = Some t'"
  then obtain q where q: "p_heap p' q = Some t'" "t_ip_remote t' = k" unfolding peer_iff [OF i(2)] by blast
  with heap_weakenedD(2) [OF w] obtain t where "p_heap p q = Some t" "weakened t t'" by blast
  with q show "\<exists>t. peer p k = Some t" unfolding peer_iff [OF i(1)] by (auto simp: weakened_def)
qed

lemma owner_weakened:
  assumes i: "prov_inv cfg p" "prov_inv cfg' p'" and w: "heap_weakened (p_heap p) (p_heap p')"
  shows "owner p' = owner p"
proof (rule owner_eqI [OF i], rule ext)
  fix k
  show "members p' k = members p k"
    using peer_weakened [OF i w, of k] by (cases "peer p k"; cases "peer p' k") (auto simp: members_def)
qed

section \<open>Removing everything\<close>

definition cleaned :: "'w prov \<Rightarrow> 'w prov \<Rightarrow> bool" where
  "cleaned p p' \<longleftrightarrow> p_heap p' = Map.empty \<and> peer p' = Map.empty \<and>
     learning_of p' = (learning_of p)\<lparr>l_owner := Map.empty, l_pending := False, l_retry := 0\<rparr>"

definition cleanup_failed :: "'w prov \<Rightarrow> 'w prov \<Rightarrow> bool" where
  "cleanup_failed p p' \<longleftrightarrow> (\<forall>k t. peer p' k = Some t \<longrightarrow> \<not> t_ready t) \<and>
     learning_of p' = (learning_of p)\<lparr>l_pending := True\<rparr>"

lemma provision_delall_ok:
  assumes e: "env_ok env" and i: "prov_inv cfg p"
  obtains p' where "provision_delall env cfg p = Some p'" "prov_inv cfg p'" "cleaned p p' \<or> cleanup_failed p p'"
    "\<forall>k. peer p' k \<noteq> None \<longrightarrow> peer p k \<noteq> None"
proof -
  from i obtain T I where a: "p_tunnels p = Some T" "p_mac_index p = Some I" "ip_inv T" "mac_inv I" by (rule prov_invD)
  obtain ok H s1 where c: "cleanup_loop env cfg T hashmap_iter_init True (p_heap p) (p_sys p) = Some (ok, H, s1)"
    "prov_inv cfg (p\<lparr>p_cleanup_pending := True, p_heap := H\<rparr>)" "heap_weakened (p_heap p) H"
    by (rule cleanup_loop_inv [OF e i a(1)])
  let ?p1 = "p\<lparr>p_cleanup_pending := True, p_heap := H\<rparr>"
  have tab: "tab_inv T I H" using c(2) a(1,2) by (simp add: prov_inv_def)
  obtain r s2 where r: "(if ok then iface_ebtables_reset env cfg s1 else Some (-1, s1)) = Some (r, s2)"
    using iface_ebtables_reset_total [OF e, of cfg s1] by (cases ok) (auto simp: simple_total_def)
  note pd = provision_delall_def [of env cfg p]
  show ?thesis
  proof (cases "ok \<and> r = 0")
    case True
    obtain I' where I': "hashmap_remove_all I = (I', concat (map (setup_frees True False) (entries I)))" "mac_inv I'" "hm_abs I' = Map.empty"
      by (rule remove_all_setup [OF a(4)])
    obtain T' where T': "hashmap_remove_all T = (T', concat (map (setup_frees False True) (entries T)))" "ip_inv T'" "hm_abs T' = Map.empty"
      by (rule remove_all_setup [OF a(3)])
    let ?p2 = "?p1\<lparr>p_sys := s2, p_mac_index := Some I', p_tunnels := Some T', p_heap := Map.empty,
              p_slots := replicate SOFTGRED_MAX_SLOTS False, p_cleanup_pending := False, p_retry_after := 0\<rparr>"
    note em = empty_state [of ?p2 T' I', OF _ _ T'(2) I'(2) T'(3) I'(3)]
    have "provision_delall env cfg p = Some ?p2"
      using True a(1,2) c(1) r I'(1) T'(1) free_table [OF a(3) tab] by (simp add: pd Let_def)
    moreover have "cleaned p ?p2" using em by (simp add: cleaned_def learning_of_def)
    ultimately show ?thesis using that em(1,3) by simp
  next
    case False
    obtain s3 where 3: "D_WARNING env cfg ''Cleanup incomplete; send SIGUSR1 to retry before learning new peers'' s2 = Some s3"
      using log_message_total [OF e] by blast
    have "provision_delall env cfg p = Some (?p1\<lparr>p_sys := s3\<rparr>)"
      using False a(1,2) c(1) r 3 by (auto simp: pd Let_def)
    moreover have "owner ?p1 = owner p" by (rule owner_weakened [OF i c(2)]) (use c(3) in simp)
    moreover have "\<not> t_ready t" if "peer ?p1 k = Some t" for k t using peer_ok [OF c(2) that] by (simp add: tun_ok_def)
    moreover have "peer p k \<noteq> None" if "peer ?p1 k \<noteq> None" for k
      using peer_weakened(2) [OF i c(2)] c(3) that by fastforce
    ultimately show ?thesis using that c(2) by (simp add: cleanup_failed_def learning_of_def)
  qed
qed


lemma destroy_frees: "setup_inv h kf vf m \<Longrightarrow> hashmap_destroy m = concat (map (setup_frees kf vf) (entries m))"
  by (simp add: hashmap_destroy_def free_all_entries setup_inv_def entry_frees_def)

lemma provision_end_ok:
  assumes e: "env_ok env" and i: "prov_inv cfg p"
  obtains p' where "provision_end env cfg p = Some p'" "p_heap p' = Map.empty" "p_tunnels p' = None" "p_mac_index p' = None"
proof -
  obtain p1 where d: "provision_delall env cfg p = Some p1" "prov_inv cfg p1" by (rule provision_delall_ok [OF e i]) (rule that)
  from d(2) obtain T I where a: "p_tunnels p1 = Some T" "ip_inv T" "tab_inv T I (p_heap p1)" by (rule prov_invD)
  have "provision_end env cfg p = Some (p1\<lparr>p_mac_index := None, p_tunnels := None, p_heap := Map.empty\<rparr>)"
    using d(1) a(1) free_table [OF a(2,3)] destroy_frees [OF a(2)] by (simp add: provision_end_def)
  from that [OF this] show ?thesis by simp
qed

lemma bind_returns: "x \<noteq> None \<Longrightarrow> \<exists>s. x \<bind> (\<lambda>s. Some (f s)) = Some (f s)"
  by (cases x) auto

lemma log_returns: "env_ok env \<Longrightarrow> log_message env cfg l m s \<noteq> None"
  using log_message_total [of env cfg l m s] by auto

lemma provision_stats_ok: "env_ok env \<Longrightarrow> \<exists>s. provision_stats env cfg p = Some (p\<lparr>p_sys := s\<rparr>)"
  unfolding provision_stats_def by (rule bind_returns [OF log_returns])

lemma provision_init_ok:
  assumes "p_heap p = Map.empty"
  shows "prov_inv cfg (snd (provision_init p))" "owner (snd (provision_init p)) = Map.empty"
proof -
  let ?p = "snd (provision_init p)"
  have n: "ip_inv new_tunnel_table" "hm_abs new_tunnel_table = Map.empty"
    unfolding new_tunnel_table_def by (rule by_ip.new_inv, rule by_ip.new_abs)
  note em = empty_state [of ?p new_tunnel_table new_mac_table, OF _ _ n(1) new_mac_table(1) n(2) new_mac_table(2)]
  show "prov_inv cfg ?p" "owner ?p = Map.empty" using em assms by (simp_all add: provision_init_def)
qed

end
