(* ===== verification/Provision_Correct.thy ===== *)
theory Provision_Correct
  imports Provision_Cleanup
begin

text \<open>
  The properties of the tunnel state, over all sequences of events that the daemon's loop can
  produce: packets from the capture socket, clean-ups (SIGUSR1), statistics (SIGUSR2), and
  whatever the other parts of the daemon and the world do to the system state in between.
\<close>

section \<open>Runs\<close>

datatype 'w prov_event = Ev_packet payload_packet | Ev_delall | Ev_stats | Ev_other "'w sys"

fun prov_step :: "'w env \<Rightarrow> softgred_config \<Rightarrow> 'w prov_event \<Rightarrow> 'w prov \<Rightarrow> 'w prov option" where
  "prov_step env cfg (Ev_packet x) p = provision_packet env cfg x p"
| "prov_step env cfg Ev_delall p = provision_delall env cfg p"
| "prov_step env cfg Ev_stats p = provision_stats env cfg p"
| "prov_step env cfg (Ev_other s) p = Some (p\<lparr>p_sys := s\<rparr>)"

fun prov_run :: "'w env \<Rightarrow> softgred_config \<Rightarrow> 'w prov_event list \<Rightarrow> 'w prov \<Rightarrow> 'w prov option" where
  "prov_run env cfg [] p = Some p"
| "prov_run env cfg (ev # evs) p = do { p' \<leftarrow> prov_step env cfg ev p; prov_run env cfg evs p' }"

inductive learning_step :: "softgred_config \<Rightarrow> 'w prov_event \<Rightarrow> learning \<Rightarrow> learning \<Rightarrow> bool" for cfg where
  packet: "packet_step cfg x now a b \<Longrightarrow> learning_step cfg (Ev_packet x) a b"
| complete: "learning_step cfg Ev_delall a (a\<lparr>l_owner := Map.empty, l_pending := False, l_retry := 0\<rparr>)"
| incomplete: "learning_step cfg Ev_delall a (a\<lparr>l_pending := True\<rparr>)"
| stats: "learning_step cfg Ev_stats a a"
| other: "learning_step cfg (Ev_other s) a a"

inductive learning_run :: "softgred_config \<Rightarrow> 'w prov_event list \<Rightarrow> learning \<Rightarrow> learning \<Rightarrow> bool" for cfg where
  nil: "learning_run cfg [] a a"
| cons: "learning_step cfg ev a b \<Longrightarrow> learning_run cfg evs b c \<Longrightarrow> learning_run cfg (ev # evs) a c"

inductive_cases learning_stepE: "learning_step cfg ev a b"

text \<open>The remotes that may have a tunnel.\<close>

definition remote_ok :: "softgred_config \<Rightarrow> u32 \<Rightarrow> bool" where
  "remote_ok cfg k \<longleftrightarrow> config_remote_allowed cfg (ntohl k) \<and> k \<noteq> c_local cfg \<and>
     drop_bit 24 (ntohl k) \<notin> {0, 127} \<and> drop_bit 28 (ntohl k) < 14"

lemma admitted_remote: "admitted cfg packet \<Longrightarrow> remote_ok cfg (p_remote packet)"
  by (auto simp: admitted_def packet_addressed_def remote_ok_def Let_def not_le)

lemma config_ok_names:
  assumes "config_ok cfg"
  obtains prefix ifname where "c_tunnel_prefix cfg = Some prefix" "c_ifname cfg = Some ifname" "length prefix \<le> 6"
  using assms by (cases "c_tunnel_prefix cfg"; cases "c_ifname cfg") (auto simp: config_ok_def config_valid_ifname_def)

lemma prov_step_ok:
  assumes e: "env_ok env" and c: "config_ok cfg" and i: "prov_inv cfg p"
  shows "\<exists>p'. prov_step env cfg ev p = Some p' \<and> prov_inv cfg p' \<and> learning_step cfg ev (learning_of p) (learning_of p') \<and>
    (\<forall>k. peer p' k \<noteq> None \<longrightarrow> peer p k \<noteq> None \<or> remote_ok cfg k)"
proof (cases ev)
  case (Ev_packet x)
  obtain prefix ifname where n: "c_tunnel_prefix cfg = Some prefix" "c_ifname cfg = Some ifname"
    using config_ok_names [OF c] by blast
  from provision_packet_step [OF e i n, of x] obtain p' where p': "provision_packet env cfg x p = Some p'" "prov_inv cfg p'"
    "\<forall>k. peer p' k \<noteq> peer p k \<longrightarrow> k = p_remote x \<and> admitted cfg x"
    "packet_step cfg x (monotonic_usec env (p_sys p)) (learning_of p) (learning_of p')" by blast
  moreover have "peer p k \<noteq> None \<or> remote_ok cfg k" if "peer p' k \<noteq> None" for k
    using p'(3) that admitted_remote by (cases "peer p' k = peer p k") auto
  ultimately show ?thesis using Ev_packet by (auto intro: learning_step.intros)
next
  case Ev_delall
  obtain p' where p': "provision_delall env cfg p = Some p'" "prov_inv cfg p'" "cleaned p p' \<or> cleanup_failed p p'"
    "\<forall>k. peer p' k \<noteq> None \<longrightarrow> peer p k \<noteq> None"
    by (rule provision_delall_ok [OF e i])
  then show ?thesis using Ev_delall by (auto simp: cleaned_def cleanup_failed_def intro: learning_step.intros)
next
  case Ev_stats
  from provision_stats_ok [OF e] obtain s where "provision_stats env cfg p = Some (p\<lparr>p_sys := s\<rparr>)" by blast
  then show ?thesis using Ev_stats i by (auto simp: learning_of_def intro: learning_step.intros)
next
  case (Ev_other s)
  then show ?thesis using i by (auto simp: learning_of_def intro: learning_step.intros)
qed


lemma prov_run_ok:
  assumes e: "env_ok env" and c: "config_ok cfg"
  shows "prov_inv cfg p \<Longrightarrow> \<exists>p'. prov_run env cfg evs p = Some p' \<and> prov_inv cfg p' \<and>
    learning_run cfg evs (learning_of p) (learning_of p') \<and>
    (\<forall>k. peer p' k \<noteq> None \<longrightarrow> peer p k \<noteq> None \<or> remote_ok cfg k)"
proof (induction evs arbitrary: p)
  case Nil
  then show ?case by (auto intro: learning_run.nil)
next
  case (Cons ev evs)
  from prov_step_ok [OF e c Cons.prems, of ev] obtain p1 where 1: "prov_step env cfg ev p = Some p1" "prov_inv cfg p1"
    "learning_step cfg ev (learning_of p) (learning_of p1)" "\<forall>k. peer p1 k \<noteq> None \<longrightarrow> peer p k \<noteq> None \<or> remote_ok cfg k" by blast
  from Cons.IH [OF 1(2)] obtain p' where 2: "prov_run env cfg evs p1 = Some p'" "prov_inv cfg p'"
    "learning_run cfg evs (learning_of p1) (learning_of p')" "\<forall>k. peer p' k \<noteq> None \<longrightarrow> peer p1 k \<noteq> None \<or> remote_ok cfg k" by blast
  have "\<forall>k. peer p' k \<noteq> None \<longrightarrow> peer p k \<noteq> None \<or> remote_ok cfg k" using 1(4) 2(4) by blast
  with 1(1) 2(1,2) learning_run.cons [OF 1(3) 2(3)] show ?case by simp
qed

lemma reachable_ok:
  assumes "env_ok env" "config_ok cfg" "p_heap p = Map.empty" "prov_run env cfg evs (snd (provision_init p)) = Some p'"
  shows "prov_inv cfg p'" "peer p' k = Some t \<Longrightarrow> remote_ok cfg k"
proof -
  note 0 = provision_init_ok [OF assms(3)]
  have i: "prov_inv cfg (snd (provision_init p))" by (rule 0)
  have n: "peer (snd (provision_init p)) k = None" for k
    using assms(3) peer_iff [OF i, of k] by (cases "peer (snd (provision_init p)) k") (auto simp: provision_init_def)
  from prov_run_ok [OF assms(1,2) i, of evs] assms(4) n show "prov_inv cfg p'" "peer p' k = Some t \<Longrightarrow> remote_ok cfg k"
    by auto
qed

lemma learning_step_keeps_owner:
  "learning_step cfg ev a b \<Longrightarrow> ev \<noteq> Ev_delall \<Longrightarrow> l_owner a m = Some k \<Longrightarrow> l_owner b m = Some k"
  by (auto elim!: learning_stepE packet_stepE)

lemma learning_run_keeps_owner:
  "learning_run cfg evs a b \<Longrightarrow> Ev_delall \<notin> set evs \<Longrightarrow> l_owner a m = Some k \<Longrightarrow> l_owner b m = Some k"
  by (induction rule: learning_run.induct) (auto dest: learning_step_keeps_owner)

lemma prov_run_append: "prov_run env cfg (a @ b) p = do { p' \<leftarrow> prov_run env cfg a p; prov_run env cfg b p' }"
  by (induction a arbitrary: p) (auto split: bind_splits)

text \<open>An interface name is not truncated when the prefix has at most six characters.\<close>

lemma tunnel_name_fits:
  assumes "length prefix \<le> 6" "n < SOFTGRED_MAX_SLOTS"
  shows "tunnel_name prefix n = prefix @ dec_str n" "length (prefix @ dec_str n) \<le> 10"
proof -
  have "length (dec_str n) \<le> 4" using assms(2) by (intro dec_str_length) (simp_all add: SOFTGRED_MAX_SLOTS_def)
  with assms(1) show "length (prefix @ dec_str n) \<le> 10" by simp
  then show "tunnel_name prefix n = prefix @ dec_str n" by (simp add: tunnel_name_def snprintf_buf_def IFNAMSIZ_def)
qed

lemma inv_tunnel:
  assumes "prov_inv cfg p" "config_ok cfg" "peer p k = Some t"
  shows "t_ip_remote t = k" "t_id t < SOFTGRED_MAX_SLOTS" "t_ifgre t = the (c_tunnel_prefix cfg) @ dec_str (t_id t)"
    "card (clients t) \<le> PROVISION_MAX_CLIENTS" "t_ready t \<longrightarrow> (\<forall>j < 3. bit (t_firewall_hooks t) j)"
proof -
  obtain prefix where x: "c_tunnel_prefix cfg = Some prefix" "length prefix \<le> 6" using config_ok_names [OF assms(2)] by blast
  show "t_ip_remote t = k" by (rule peer_remote [OF assms(1,3)])
  show "t_id t < SOFTGRED_MAX_SLOTS" "t_ifgre t = the (c_tunnel_prefix cfg) @ dec_str (t_id t)"
    "card (clients t) \<le> PROVISION_MAX_CLIENTS" "t_ready t \<longrightarrow> (\<forall>j < 3. bit (t_firewall_hooks t) j)"
    using peer_ok [OF assms(1,3)] tunnel_name_fits(1) [OF x(2)] x(1) by (simp_all add: tun_ok_def)
qed

lemma inv_disjoint:
  assumes i: "prov_inv cfg p" and c: "config_ok cfg" and k: "peer p k = Some t" "peer p k' = Some t'" "k \<noteq> k'"
  shows "t_id t \<noteq> t_id t'" "t_ifgre t \<noteq> t_ifgre t'" "clients t \<inter> clients t' = {}"
proof -
  obtain q q' where q: "p_heap p q = Some t" "t_ip_remote t = k" "p_heap p q' = Some t'" "t_ip_remote t' = k'"
    using peer_iff [OF i] k by metis
  have "slots_inv (p_slots p) (p_heap p)" using i by (simp add: prov_inv_def)
  from slots_invD(3) [OF this q(1,3)] q k(3) show n: "t_id t \<noteq> t_id t'" by auto
  then show "t_ifgre t \<noteq> t_ifgre t'" using inv_tunnel(3) [OF i c k(1)] inv_tunnel(3) [OF i c k(2)] by (simp add: dec_str_inj)
  have "m \<notin> clients t'" if "m \<in> clients t" for m
  proof
    assume "m \<in> clients t'"
    then have "owner p m = Some k'" using owner_iff [OF i] k(2) by blast
    moreover have "owner p m = Some k" using owner_iff [OF i] k(1) that by blast
    ultimately show False using k(3) by simp
  qed
  then show "clients t \<inter> clients t' = {}" by blast
qed

section \<open>An example\<close>

definition demo_prov :: "demo prov" where
  "demo_prov = \<lparr>p_sys = demo_sys, p_tunnels = None, p_mac_index = None, p_heap = Map.empty, p_next = 0, p_slots = [],
     p_packets = 0, p_ignored = 0, p_failures = 0, p_retry_after = 0, p_cleanup_pending = False\<rparr>"

definition demo_packet :: payload_packet where
  "demo_packet = \<lparr>p_remote = 0x0200000A, p_local = 0, p_mac = [2, 0, 0, 0, 0, 1], p_vlan = 10\<rparr>"

lemma example_config_ok: "config_ok example_config"
  by (simp add: config_ok_def example_config_def softgred_config_ref_def zero_config_def config_valid_ifname_def IFNAMSIZ_def
      ascii_isalnum_def ch_def bridges_ok_def bridge_ok_def SOFTGRED_MAX_ATTACH_def SOFTGRED_MAX_ALLOW_def path_is_absolute_def)

lemma demo_ntohl: "ntohl 0x0200000A = 0x0A000002"
  by code_simp

lemma demo_packet_admitted: "admitted example_config demo_packet"
  by (simp add: admitted_def demo_packet_def example_config_def softgred_config_ref_def zero_config_def packet_addressed_def
      Let_def config_remote_allowed_def allow_match_def demo_ntohl)

lemma demo_init_inv: "prov_inv example_config (snd (provision_init demo_prov))" "owner (snd (provision_init demo_prov)) = Map.empty"
  using provision_init_ok [of demo_prov] by (simp_all add: demo_prov_def)


text \<open>States of the example with one ready tunnel and any clients.\<close>

definition demo_state :: "demo prov \<Rightarrow> u32 \<Rightarrow> string set \<Rightarrow> bool" where
  "demo_state p k S \<longleftrightarrow> prov_inv example_config p \<and> \<not> p_cleanup_pending p \<and> p_retry_after p = 0 \<and> p_sys p = demo_sys \<and>
     (\<exists>t. peer p k = Some t \<and> t_ready t \<and> clients t = S) \<and> (\<forall>k'. k' \<noteq> k \<longrightarrow> peer p k' = None)"

lemma demo_state_tunnel: "\<exists>p. demo_state p k {}"
proof -
  let ?p = "snd (provision_init demo_prov)"
  let ?t = "\<lparr>t_ip_remote = k, t_ifgre = tunnel_name ''sgre'' 0, t_id = 0, t_ready = False, t_firewall_hooks = 0, t_macs = new_mac_table\<rparr>"
  let ?t' = "?t\<lparr>t_ready := True, t_firewall_hooks := 7\<rparr>"
  have i: "prov_inv example_config ?p" by (rule demo_init_inv)
  have n: "peer ?p k' = None" for k'
    using peer_iff [OF i, of k'] by (cases "peer ?p k'") (auto simp: provision_init_def demo_prov_def)
  have f: "\<not> p_cleanup_pending ?p" "\<not> p_slots ?p ! 0" "p_heap ?p (p_next ?p) = None" "p_next ?p = 0" "p_heap ?p = Map.empty"
    "0 < SOFTGRED_MAX_SLOTS" "c_tunnel_prefix example_config = Some ''sgre''" "p_retry_after ?p = 0" "p_sys ?p = demo_sys"
    by (simp_all add: provision_init_def demo_prov_def SOFTGRED_MAX_SLOTS_def example_config_def)
  from track_tunnel [OF i f(1) n f(6) f(2) f(7) refl] obtain T' where
    1: "prov_inv example_config (?p\<lparr>p_next := p_next ?p + 1, p_slots := (p_slots ?p)[0 := True], p_tunnels := Some T',
       p_heap := (p_heap ?p)(p_next ?p \<mapsto> ?t)\<rparr>)" by metis
  let ?p1 = "?p\<lparr>p_next := p_next ?p + 1, p_slots := (p_slots ?p)[0 := True], p_tunnels := Some T',
       p_heap := (p_heap ?p)(p_next ?p \<mapsto> ?t)\<rparr>"
  have h: "p_heap ?p1 0 = Some ?t" using f(4) by simp
  have m: "(7 :: u32) = mask 3" by (simp add: mask_eq_exp_minus_1)
  have b: "bit (7 :: u32) j \<longleftrightarrow> j < 3" for j unfolding m by (auto simp: bit_mask_iff)
  have b3: "\<forall>j \<ge> 3. \<not> bit (7 :: u32) j" "\<forall>j < 3. bit (7 :: u32) j" using b by (meson not_le)+
  have ok: "tun_ok example_config (p_cleanup_pending ?p1) ?t'"
    using prov_inv_tun(2) [OF 1 h] f(1) b3 by (simp add: tun_ok_def clients_def)
  have 2: "prov_inv example_config (set_tunnel 0 ?t' ?p1)" by (rule prov_inv_set [OF 1 h _ _ ok]) (simp_all add: same_key_def)
  have "peer ?p1 = (peer ?p)(k \<mapsto> ?t)" using peer_track [OF i 1 f(3), of ?t] n by simp
  then have "peer (set_tunnel 0 ?t' ?p1) = (peer ?p)(k \<mapsto> ?t')" using peer_set [OF 1 2 h, of ?t'] by simp
  with 2 f n have "demo_state (set_tunnel 0 ?t' ?p1) k {}" by (simp add: demo_state_def clients_def new_mac_table)
  then show ?thesis by blast
qed

lemma demo_state_clients:
  assumes "finite S" "card S \<le> PROVISION_MAX_CLIENTS"
  shows "\<exists>p. demo_state p k S"
  using assms
proof (induction S rule: finite_induct)
  case empty
  then show ?case using demo_state_tunnel by blast
next
  case (insert m S)
  then obtain p where p: "demo_state p k S" by auto
  then have i: "prov_inv example_config p" by (simp add: demo_state_def)
  from p obtain t where t: "peer p k = Some t" "t_ready t" "clients t = S" by (auto simp: demo_state_def)
  from t(1) obtain q where q: "p_heap p q = Some t" "t_ip_remote t = k" using peer_iff [OF i] by blast
  have "owner p m \<noteq> Some j" for j
    using p t insert.hyps(2) owner_iff [OF i, of m j] by (cases "j = k") (auto simp: demo_state_def)
  then have o: "owner p m = None" by (cases "owner p m") auto
  have c: "card (clients t) < PROVISION_MAX_CLIENTS" using insert t(3) by simp
  obtain macs' idx' where M: "prov_inv example_config (set_tunnel q (t\<lparr>t_macs := macs'\<rparr>) (p\<lparr>p_mac_index := Some idx'\<rparr>))"
    "clients (t\<lparr>t_macs := macs'\<rparr>) = Set.insert m (clients t)"
    by (rule learn_insert [OF i q(1) t(2) c o]) (rule that)
  let ?p = "set_tunnel q (t\<lparr>t_macs := macs'\<rparr>) (p\<lparr>p_mac_index := Some idx'\<rparr>)"
  have "peer ?p = (peer p)(k \<mapsto> t\<lparr>t_macs := macs'\<rparr>)" using peer_set [OF i M(1) q(1), of "t\<lparr>t_macs := macs'\<rparr>"] q(2) by simp
  with p M t have "demo_state ?p k (Set.insert m S)" by (simp add: demo_state_def)
  then show ?case by blast
qed

lemma demo_client:
  obtains p :: "demo prov" where "prov_inv example_config p" "owner p ''02:00:00:00:00:01'' = Some 0x0300000A"
proof -
  obtain p where "demo_state p 0x0300000A {''02:00:00:00:00:01''}"
    using demo_state_clients [of "{''02:00:00:00:00:01''}"] by (auto simp: PROVISION_MAX_CLIENTS_def)
  then show ?thesis using owner_iff [of example_config p] that by (auto simp: demo_state_def)
qed

section \<open>Properties\<close>

text \<open>C5. The tunnel state refines the learning table: whatever sequence of packets, clean-ups and
  statistics requests arrives after start-up, every operation returns (no dangling or doubly
  freed tunnel, no endless loop), and what it does is a run of the abstract table, which starts
  empty, learns an address only for an admitted packet of an unowned address outside the
  backoff, arms the backoff for exactly one second, and forgets addresses only in a complete
  clean-up.\<close>

theorem provision_refines:
  assumes "env_ok env" "config_ok cfg" "p_heap p = Map.empty"
  shows "\<exists>p'. prov_run env cfg evs (snd (provision_init p)) = Some p' \<and>
    learning_run cfg evs (learning_of (snd (provision_init p))) (learning_of p') \<and>
    l_owner (learning_of (snd (provision_init p))) = Map.empty"
  using prov_run_ok [OF assms(1,2) provision_init_ok(1) [OF assms(3)], of evs] provision_init_ok(2) [OF assms(3)] by auto

theorem provision_refines_witness:
  "\<exists>p'. prov_run demo_env example_config [Ev_packet demo_packet, Ev_delall] (snd (provision_init demo_prov)) = Some p'"
proof -
  have "p_heap demo_prov = Map.empty" by (simp add: demo_prov_def)
  from provision_refines [OF demo_env_ok example_config_ok this, of "[Ev_packet demo_packet, Ev_delall]"] show ?thesis by blast
qed

text \<open>C6. The reachable states are consistent: every tunnel belongs to an admissible remote, has the
  interface name of its slot in full, at most 1024 clients, and when it is ready all three
  firewall jumps are recorded; no two tunnels share a slot, an interface name or a client; and
  the index of addresses names exactly the clients of the tunnels.\<close>

theorem provision_consistent:
  assumes "env_ok env" "config_ok cfg" "p_heap p = Map.empty" "prov_run env cfg evs (snd (provision_init p)) = Some p'"
  shows "(\<forall>k t. peer p' k = Some t \<longrightarrow> remote_ok cfg k \<and> t_ip_remote t = k \<and> t_id t < SOFTGRED_MAX_SLOTS \<and>
      t_ifgre t = the (c_tunnel_prefix cfg) @ dec_str (t_id t) \<and> card (clients t) \<le> PROVISION_MAX_CLIENTS \<and>
      (t_ready t \<longrightarrow> (\<forall>j < 3. bit (t_firewall_hooks t) j))) \<and>
    (\<forall>k k' t t'. peer p' k = Some t \<and> peer p' k' = Some t' \<and> k \<noteq> k' \<longrightarrow>
      t_id t \<noteq> t_id t' \<and> t_ifgre t \<noteq> t_ifgre t' \<and> clients t \<inter> clients t' = {}) \<and>
    (\<forall>m k. owner p' m = Some k \<longleftrightarrow> (\<exists>t. peer p' k = Some t \<and> m \<in> clients t))"
proof (intro conjI)
  note i = reachable_ok(1) [OF assms]
  show "\<forall>k t. peer p' k = Some t \<longrightarrow> remote_ok cfg k \<and> t_ip_remote t = k \<and> t_id t < SOFTGRED_MAX_SLOTS \<and>
      t_ifgre t = the (c_tunnel_prefix cfg) @ dec_str (t_id t) \<and> card (clients t) \<le> PROVISION_MAX_CLIENTS \<and>
      (t_ready t \<longrightarrow> (\<forall>j < 3. bit (t_firewall_hooks t) j))"
    using reachable_ok(2) [OF assms] inv_tunnel [OF i assms(2)] by blast
  show "\<forall>k k' t t'. peer p' k = Some t \<and> peer p' k' = Some t' \<and> k \<noteq> k' \<longrightarrow>
      t_id t \<noteq> t_id t' \<and> t_ifgre t \<noteq> t_ifgre t' \<and> clients t \<inter> clients t' = {}"
    using inv_disjoint [OF i assms(2)] by blast
  show "\<forall>m k. owner p' m = Some k \<longleftrightarrow> (\<exists>t. peer p' k = Some t \<and> m \<in> clients t)" using owner_iff [OF i] by blast
qed

theorem provision_consistent_witness:
  "\<exists>p'. prov_run demo_env example_config [] (snd (provision_init demo_prov)) = Some p' \<and>
    (\<forall>m k. owner p' m = Some k \<longleftrightarrow> (\<exists>t. peer p' k = Some t \<and> m \<in> clients t))"
  using provision_consistent [OF demo_env_ok example_config_ok, of demo_prov "[]" "snd (provision_init demo_prov)"]
  by (simp add: demo_prov_def)

text \<open>C9. No takeover: once an address is learned for a remote, no sequence of packets moves it to
  another remote or drops it; only a clean-up does.\<close>

theorem provision_no_takeover:
  assumes "env_ok env" "config_ok cfg" "prov_inv cfg p" "owner p mac = Some remote" "Ev_delall \<notin> set evs"
  shows "\<exists>p'. prov_run env cfg evs p = Some p' \<and> owner p' mac = Some remote"
proof -
  from prov_run_ok [OF assms(1-3), of evs] obtain p' where
    p': "prov_run env cfg evs p = Some p'" "learning_run cfg evs (learning_of p) (learning_of p')" by blast
  with learning_run_keeps_owner [OF p'(2) assms(5), of mac remote] assms(4) show ?thesis by simp
qed

theorem provision_no_takeover_witness:
  "\<exists>p. owner p ''02:00:00:00:00:01'' = Some 0x0300000A \<and>
    (\<exists>p'. prov_run demo_env example_config [Ev_packet demo_packet] p = Some p' \<and> owner p' ''02:00:00:00:00:01'' = Some 0x0300000A)"
proof -
  obtain p :: "demo prov" where i: "prov_inv example_config p" and o: "owner p ''02:00:00:00:00:01'' = Some 0x0300000A"
    by (rule demo_client)
  from provision_no_takeover [OF demo_env_ok example_config_ok i o, of "[Ev_packet demo_packet]"] o show ?thesis by auto
qed

text \<open>C10. A packet that is not addressed to the daemon, comes from a remote outside the allowlist or
  from a special address, or carries a VLAN without a bridge, and every packet while a clean-up
  is pending, has no effect except on the two counters.\<close>

theorem provision_packet_refused:
  assumes "p_cleanup_pending p \<or> \<not> admitted cfg packet"
  shows "provision_packet env cfg packet p = Some (p\<lparr>p_packets := p_packets p + 1, p_ignored := p_ignored p + 1\<rparr>)"
  using assms by (auto simp: provision_packet_def Let_def admitted_def list_ex_iff ignore_packet_def)

theorem provision_packet_refused_witness:
  "provision_packet demo_env example_config (demo_packet\<lparr>p_vlan := 11\<rparr>) demo_prov = Some (demo_prov\<lparr>p_packets := 1, p_ignored := 1\<rparr>)"
proof -
  have "\<not> admitted example_config (demo_packet\<lparr>p_vlan := 11\<rparr>)"
    by (simp add: admitted_def demo_packet_def example_config_def softgred_config_ref_def zero_config_def)
  with provision_packet_refused [of demo_prov example_config "demo_packet\<lparr>p_vlan := 11\<rparr>" demo_env] show ?thesis
    by (simp add: demo_prov_def)
qed

text \<open>C11. The quiet cases: a packet of a client that is already learned, a packet of an address that
  belongs to another remote, and any packet of a new address during the backoff touch nothing
  but the counters; in particular no command is run and no request is sent.\<close>

theorem provision_packet_quiet:
  assumes "prov_inv cfg p" "\<not> p_cleanup_pending p" "admitted cfg packet"
    "owner p (mac_text (p_mac packet)) \<noteq> None \<or> monotonic_usec env (p_sys p) < p_retry_after p"
  shows "provision_packet env cfg packet p = Some (p\<lparr>p_packets := p_packets p + 1,
    p_ignored := p_ignored p + (if owner p (mac_text (p_mac packet)) \<in> {None, Some (p_remote packet)} then 0 else 1)\<rparr>)"
  using assms by (auto simp: provision_packet_cases [OF assms(1)] Let_def ignore_packet_def)

theorem provision_packet_quiet_witness:
  "provision_packet demo_env example_config demo_packet ((snd (provision_init demo_prov))\<lparr>p_retry_after := 1000000\<rparr>) \<noteq> None"
proof -
  let ?p = "(snd (provision_init demo_prov))\<lparr>p_retry_after := 1000000\<rparr>"
  have "prov_inv example_config ?p" using demo_init_inv(1) by simp
  moreover have "\<not> p_cleanup_pending ?p" "monotonic_usec demo_env (p_sys ?p) < p_retry_after ?p"
    by (simp_all add: provision_init_def demo_prov_def monotonic_usec_def demo_env_def demo_sys_def)
  ultimately show ?thesis using provision_packet_quiet [OF _ _ demo_packet_admitted, of ?p demo_env] by blast
qed


text \<open>C12. A full tunnel: a new address for a remote whose ready tunnel has 1024 clients is dropped
  as a capacity limit. The packet is counted as ignored, nothing is executed, and the shared
  backoff stays as it was, so other peers are not stalled.\<close>

theorem provision_packet_full:
  assumes i: "prov_inv cfg p" and a: "\<not> p_cleanup_pending p" "admitted cfg packet" "owner p (mac_text (p_mac packet)) = None"
    "p_retry_after p \<le> monotonic_usec env (p_sys p)"
    and t: "peer p (p_remote packet) = Some t" "t_ready t" "card (clients t) = PROVISION_MAX_CLIENTS"
  shows "provision_packet env cfg packet p =
    Some (p\<lparr>p_packets := p_packets p + 1, p_ignored := p_ignored p + 1, p_sys := (p_sys p)\<lparr>s_errno := ENOSPC\<rparr>\<rparr>)"
proof -
  let ?m = "mac_text (p_mac packet)"
  obtain q where q: "p_heap p q = Some t" "t_ip_remote t = p_remote packet" using peer_iff [OF i] t(1) by blast
  have m: "mac_inv (t_macs t)" using prov_inv_tun(2) [OF i q(1)] by (simp add: tun_ok_def)
  have no: "\<not> hashmap_contains (t_macs t) ?m"
    using a(3) owner_iff [OF i, of ?m "p_remote packet"] t(1) by (simp add: by_mac.contains_abs [OF m] clients_def)
  have sz: "hashmap_size (t_macs t) = PROVISION_MAX_CLIENTS" using t(3) by (simp add: by_mac.tsize_abs [OF m] clients_def)
  have ip: "provision_get_tunnel_byip (p\<lparr>p_packets := p_packets p + 1\<rparr>) (p_remote packet) = Some q"
    using byip_iff [OF i, of "p_remote packet" q] q by (simp add: provision_get_tunnel_byip_def)
  show ?thesis
    using a ip q t(2) no sz
    by (simp add: provision_packet_cases [OF i] Let_def learn_client_def provision_tunnel_allow_mac_def ignore_packet_def)
qed

theorem provision_packet_full_witness:
  "\<exists>p p'. provision_packet demo_env example_config demo_packet p = Some p' \<and> p_ignored p' = p_ignored p + 1 \<and> p_retry_after p' = p_retry_after p"
proof -
  let ?S = "(\<lambda>n. replicate n (CHR ''x'')) ` {..<PROVISION_MAX_CLIENTS}"
  have c: "card ?S = PROVISION_MAX_CLIENTS" by (simp add: card_image inj_on_def)
  then obtain p where d: "demo_state p (p_remote demo_packet) ?S" using demo_state_clients [of ?S] by auto
  then have i: "prov_inv example_config p" by (simp add: demo_state_def)
  have "hd (mac_text (p_mac demo_packet)) \<noteq> CHR ''x''" "mac_text (p_mac demo_packet) \<noteq> []" by code_simp+
  then have n: "mac_text (p_mac demo_packet) \<notin> ?S" by (metis (no_types, lifting) image_iff hd_replicate replicate_empty)
  then have "owner p (mac_text (p_mac demo_packet)) \<noteq> Some j" for j
    using d owner_iff [OF i, of _ j] by (cases "j = p_remote demo_packet") (auto simp: demo_state_def)
  then have o: "owner p (mac_text (p_mac demo_packet)) = None" by (cases "owner p (mac_text (p_mac demo_packet))") auto
  from d obtain t where t: "peer p (p_remote demo_packet) = Some t" "t_ready t" "card (clients t) = PROVISION_MAX_CLIENTS"
    using c by (auto simp: demo_state_def)
  have "p_retry_after p \<le> monotonic_usec demo_env (p_sys p)" "\<not> p_cleanup_pending p"
    using d by (simp_all add: demo_state_def monotonic_usec_def demo_env_def demo_sys_def)
  from provision_packet_full [OF i this(2) demo_packet_admitted o this(1) t] show ?thesis by - (rule exI [of _ p], simp)
qed


text \<open>C13. Adding a tunnel, with its rollback: the call returns; other remotes keep their tunnels and
  no client is learned or lost. A returned tunnel is tracked under the remote and ready. When
  \<open>NULL\<close> is returned the remote has no ready tunnel; what could not be rolled back is still tracked
  under the remote, with no clients.\<close>

theorem provision_add_outcome:
  assumes "env_ok env" "config_ok cfg" "prov_inv cfg p" "\<not> p_cleanup_pending p"
  shows "\<exists>v p'. provision_add env cfg remote p = Some (v, p') \<and> prov_inv cfg p' \<and> owner p' = owner p \<and>
    (\<forall>k. k \<noteq> remote \<longrightarrow> peer p' k = peer p k) \<and>
    (case v of Some q \<Rightarrow> provision_get_tunnel_byip p' remote = Some q \<and> (\<exists>t. peer p' remote = Some t \<and> t_ready t)
     | None \<Rightarrow> (\<forall>t. peer p' remote = Some t \<longrightarrow> \<not> t_ready t \<and> clients t = {}))"
proof -
  obtain prefix ifname where n: "c_tunnel_prefix cfg = Some prefix" "c_ifname cfg = Some ifname"
    using config_ok_names [OF assms(2)] by blast
  obtain v p' where a: "provision_add env cfg remote p = Some (v, p')" "prov_inv cfg p'" "same_rest p p'"
    "\<forall>k. k \<noteq> remote \<longrightarrow> peer p' k = peer p k" "members p' = members p"
    "case v of None \<Rightarrow> (\<forall>t. peer p' remote = Some t \<longrightarrow> \<not> t_ready t)
      | Some q \<Rightarrow> (\<exists>t. p_heap p' q = Some t \<and> t_ip_remote t = remote \<and> t_ready t)"
    using provision_add_added [OF assms(1,3,4) n, of remote] unfolding added_def by blast
  have o: "owner p' = owner p" by (rule owner_eqI [OF assms(3) a(2,5)])
  have np: "\<not> p_cleanup_pending p'" using assms(4) a(3) by (simp add: same_rest_def)
  show ?thesis
  proof (cases v)
    case None
    with a o not_ready_no_members [OF a(2) np] show ?thesis by simp
  next
    case (Some q)
    with a(6) obtain t where t: "p_heap p' q = Some t" "t_ip_remote t = remote" "t_ready t" by auto
    then have "provision_get_tunnel_byip p' remote = Some q" "peer p' remote = Some t"
      using byip_iff [OF a(2)] peer_iff [OF a(2)] by blast+
    with Some a o t(3) show ?thesis by simp
  qed
qed

theorem provision_add_outcome_witness:
  "\<exists>v p'. provision_add demo_env example_config 0x0200000A (snd (provision_init demo_prov)) = Some (v, p') \<and> owner p' = Map.empty"
proof -
  have "\<not> p_cleanup_pending (snd (provision_init demo_prov))" by (simp add: provision_init_def)
  from provision_add_outcome [OF demo_env_ok example_config_ok demo_init_inv(1) this, where remote = "0x0200000A"] demo_init_inv(2)
  show ?thesis by auto
qed

text \<open>C14. Clean-up is all or nothing: either every tunnel is freed, the index is empty and learning
  starts afresh without backoff, or the clean-up stays pending, no tunnel is ready, every client
  is still recorded, and no packet is learned until it is retried. The retry is again
  possible from there.\<close>

theorem provision_delall_outcome:
  assumes "env_ok env" "prov_inv cfg p"
  shows "\<exists>p'. provision_delall env cfg p = Some p' \<and> prov_inv cfg p' \<and>
    (\<not> p_cleanup_pending p' \<and> p_heap p' = Map.empty \<and> owner p' = Map.empty \<and> peer p' = Map.empty \<and> p_retry_after p' = 0 \<or>
     p_cleanup_pending p' \<and> owner p' = owner p \<and> (\<forall>k t. peer p' k = Some t \<longrightarrow> \<not> t_ready t) \<and> p_retry_after p' = p_retry_after p)"
proof -
  obtain p' where p': "provision_delall env cfg p = Some p'" "prov_inv cfg p'" "cleaned p p' \<or> cleanup_failed p p'"
    by (rule provision_delall_ok [OF assms]) (rule that)
  from p'(3) show ?thesis
  proof
    assume c: "cleaned p p'"
    with p' show ?thesis by (simp add: cleaned_def learning_of_def)
  next
    assume c: "cleanup_failed p p'"
    with p' show ?thesis by (simp add: cleanup_failed_def learning_of_def)
  qed
qed

theorem provision_delall_outcome_witness:
  "\<exists>p. owner p ''02:00:00:00:00:01'' \<noteq> None \<and> (\<exists>p'. provision_delall demo_env example_config p = Some p')"
proof -
  obtain p :: "demo prov" where i: "prov_inv example_config p" and o: "owner p ''02:00:00:00:00:01'' = Some 0x0300000A"
    by (rule demo_client)
  from provision_delall_outcome [OF demo_env_ok i] o show ?thesis by auto
qed

text \<open>C15. At shutdown no tunnel is leaked or freed twice, whether or not the last clean-up succeeded:
  the call returns, both tables are gone and the heap is empty.\<close>

theorem provision_end_frees:
  assumes "env_ok env" "prov_inv cfg p"
  shows "\<exists>p'. provision_end env cfg p = Some p' \<and> p_heap p' = Map.empty \<and> p_tunnels p' = None \<and> p_mac_index p' = None"
  by (rule provision_end_ok [OF assms]) blast

theorem provision_end_frees_witness:
  "\<exists>p. owner p ''02:00:00:00:00:01'' \<noteq> None \<and> (\<exists>p'. provision_end demo_env example_config p = Some p' \<and> p_heap p' = Map.empty)"
proof -
  obtain p :: "demo prov" where i: "prov_inv example_config p" and o: "owner p ''02:00:00:00:00:01'' = Some 0x0300000A"
    by (rule demo_client)
  from provision_end_frees [OF demo_env_ok i] o show ?thesis by auto
qed

end
