(* ===== verification/Service_Cmd_Correct.thy ===== *)
theory Service_Cmd_Correct
  imports Service_Cmd Provision_Correct
begin

text \<open>
  The status commands against their specification: the request a command line stands for, and the
  answer to a request in terms of the abstract state (the tunnel of a remote and the owner of an
  address). Every command is answered, and every answer fits the limit on responses.
\<close>

section \<open>Order\<close>

lemma strcmp_le:
  "nul \<notin> set a \<Longrightarrow> nul \<notin> set b \<Longrightarrow> strcmp a b \<le> 0 \<longleftrightarrow> a \<le> b"
proof (induction a b rule: strcmp.induct)
  case (3 c cs)
  then have "0 < ch c" using ch_zero [of c] by (auto simp: nul_def)
  then show ?case by simp
next
  case (4 c cs d ds)
  have "c < d \<longleftrightarrow> ch c < ch d" by (simp add: less_char_def ch_def)
  moreover have "ch c = ch d \<longleftrightarrow> c = d" by (simp add: ch_def)
  ultimately show ?case using 4 by auto
qed simp_all

text \<open>Whatever algorithm \<open>qsort\<close> uses, its result is the sorted list.\<close>

lemma compare_mac_sorts:
  assumes "\<forall>m \<in> set macs. nul \<notin> set m" "mset ys = mset macs" "sorted_wrt (\<lambda>a b. compare_mac a b \<le> 0) ys"
  shows "ys = sort macs"
proof -
  have "set ys = set macs" using assms(2) by (rule mset_eq_setD)
  then have "sorted ys" using assms(1,3) by (auto simp: compare_mac_def strcmp_le intro: sorted_wrt_mono_rel [OF _ assms(3)])
  with assms(2) show ?thesis by (simp add: properties_for_sort)
qed

section \<open>Requests and answers\<close>

datatype request = Req_lmip u32 | Req_gtmc string | Req_vers | Req_quit | Req_help | Req_stat | Req_stun | Req_invalid

definition simple_request :: "string \<Rightarrow> request" where
  "simple_request c =
     (if c = ''VERS'' then Req_vers else if c = ''QUIT'' then Req_quit else if c = ''HELP'' then Req_help
      else if c = ''STAT'' then Req_stat else if c = ''STUN'' then Req_stun else Req_invalid)"

definition lookup_request :: "string \<Rightarrow> string \<Rightarrow> request" where
  "lookup_request c a =
     (if c = ''LMIP'' then (case inet_pton a of None \<Rightarrow> Req_invalid | Some k \<Rightarrow> Req_lmip k)
      else if c = ''GTMC'' then (case valid_mac a of None \<Rightarrow> Req_invalid | Some m \<Rightarrow> Req_gtmc m)
      else Req_invalid)"

definition parse_request :: "string \<Rightarrow> request" where
  "parse_request command =
     (if length command < SERVICE_MAX_REQUEST
      then (case strtok_all command of [c] \<Rightarrow> simple_request c | [c, a] \<Rightarrow> lookup_request c a | _ \<Rightarrow> Req_invalid)
      else Req_invalid)"

fun join_macs :: "string list \<Rightarrow> string" where
  "join_macs [] = []"
| "join_macs [m] = m"
| "join_macs (m # ms) = m @ '';'' @ join_macs ms"

abbreviation (input) ok_head :: string where "ok_head \<equiv> ''RESULT: OK'' @ nl @ ''BODY: ''"
abbreviation (input) notfound_text :: string where "notfound_text \<equiv> ''RESULT: NOTFOUND'' @ nl"
abbreviation (input) invalid_text :: string where
  "invalid_text \<equiv> ''RESULT: INVALID'' @ nl @ ''BODY: Use HELP for command syntax'' @ nl"

definition tunnel_text :: "'w prov \<Rightarrow> u32 \<Rightarrow> string" where
  "tunnel_text p k = inet_ntop k @ ''@'' @ t_ifgre (the (peer p k))"

fun answers :: "build \<Rightarrow> softgred_config \<Rightarrow> int \<Rightarrow> 'w prov \<Rightarrow> request \<Rightarrow> string \<Rightarrow> bool" where
  "answers bld cfg up p (Req_lmip k) text \<longleftrightarrow>
     text = (case peer p k of None \<Rightarrow> notfound_text | Some t \<Rightarrow> ok_head @ join_macs (sorted_list_of_set (clients t)) @ nl)"
| "answers bld cfg up p (Req_gtmc m) text \<longleftrightarrow>
     text = (case owner p m of None \<Rightarrow> notfound_text | Some k \<Rightarrow> ok_head @ tunnel_text p k @ nl)"
| "answers bld cfg up p Req_vers text \<longleftrightarrow> text = ok_head @ b_package_version bld @ nl"
| "answers bld cfg up p Req_quit text \<longleftrightarrow> text = []"
| "answers bld cfg up p Req_help text \<longleftrightarrow> text = help_text"
| "answers bld cfg up p Req_stat text \<longleftrightarrow> text = stat_text bld cfg up"
| "answers bld cfg up p Req_stun text \<longleftrightarrow>
     (if dom (peer p) = {} then text = ''RESULT: NULL'' @ nl
      else (\<exists>ks. distinct ks \<and> set ks = dom (peer p) \<and>
             text = ok_head @ concat (map (\<lambda>k. tunnel_text p k @ '';'') ks) @ nl))"
| "answers bld cfg up p Req_invalid text \<longleftrightarrow> text = invalid_text"

section \<open>Building a response\<close>

text \<open>A step that returns a buffer which holds the given text.\<close>

definition holds :: "strbuf option \<Rightarrow> string \<Rightarrow> bool" where
  "holds res text \<longleftrightarrow> (\<exists>b. res = Some b \<and> strbuf_inv b \<and> strbuf_text b = text)"

lemma holds_append: "strbuf_inv b \<Longrightarrow> strbuf_text b = t \<Longrightarrow> holds (strbuf_append b s) (t @ s)"
  using sb_step_total [of b "Sb_append s"] by (simp add: holds_def)

lemma holds_appendf: "strbuf_inv b \<Longrightarrow> strbuf_text b = t \<Longrightarrow> holds (strbuf_appendf b s) (t @ s)"
  using sb_step_total [of b "Sb_appendf s"] by (simp add: holds_def)

lemma holds_append_char: "strbuf_inv b \<Longrightarrow> strbuf_text b = t \<Longrightarrow> holds (strbuf_append_char b c) (t @ [c])"
  using sb_step_total [of b "Sb_append_char c"] by (simp add: holds_def)

lemma holds_assign: "strbuf_inv b \<Longrightarrow> holds (strbuf_assign b s) s"
  using sb_step_total [of b "Sb_assign s"] by (simp add: holds_def)

lemma holds_new: "holds (strbuf_new None) []"
  using sb.create_total [of None] by (auto simp: holds_def)

lemma holds_bind:
  assumes "holds res t" "\<And>b. strbuf_inv b \<Longrightarrow> strbuf_text b = t \<Longrightarrow> holds (f b) u"
  shows "holds (res \<bind> f) u"
  using assms by (auto simp: holds_def)

lemma holds_Some: "strbuf_inv b \<Longrightarrow> strbuf_text b = t \<Longrightarrow> holds (Some b) t"
  by (simp add: holds_def)

lemma append_macs_holds:
  "strbuf_inv b \<Longrightarrow> strbuf_text b = t \<Longrightarrow>
   holds (append_macs b macs) (t @ join_macs macs @ (if macs = [] then [] else nl))"
proof (induction macs arbitrary: b t)
  case Nil
  then show ?case by (simp add: holds_Some)
next
  case (Cons m macs)
  have "holds (append_macs b (m # macs)) ((t @ m @ (if macs \<noteq> [] then '';'' else nl)) @ join_macs macs @ (if macs = [] then [] else nl))"
    unfolding append_macs.simps
    by (rule holds_bind [OF holds_appendf [OF Cons.prems] Cons.IH])
  then show ?case by (cases macs) auto
qed


lemma those_map_Some [simp]: "those (map (Some \<circ> f) xs) = Some (map f xs)"
  by (induction xs) auto

lemma sort_keys:
  assumes "hm_inv m"
  shows "sort (map fst (entries m)) = sorted_list_of_set (dom (hm_abs m))"
  using sorted_list_of_set_sort_remdups [of "map fst (entries m)"] distinct_entries [OF assms] entries_keys [OF assms]
  by (simp add: distinct_remdups_id)

lemma reply_lmip_holds:
  assumes i: "prov_inv cfg p" and b: "strbuf_inv b" "strbuf_text b = []"
  shows "holds (reply_lmip p b (provision_get_tunnel_byip p k))
    (case peer p k of None \<Rightarrow> notfound_text | Some t \<Rightarrow> ok_head @ join_macs (sorted_list_of_set (clients t)) @ nl)"
proof (cases "peer p k")
  case None
  then have "provision_get_tunnel_byip p k = None" using peer_none [OF i] by blast
  with None holds_append [OF b, of notfound_text] show ?thesis by (simp add: reply_lmip_def)
next
  case (Some t)
  then obtain q where q: "p_heap p q = Some t" "t_ip_remote t = k" using peer_iff [OF i] by blast
  then have ip: "provision_get_tunnel_byip p k = Some q" using byip_iff [OF i] by blast
  have m: "hm_inv (t_macs t)" using prov_inv_tun(2) [OF i q(1)] by (simp add: tun_ok_def setup_inv_def)
  let ?ms = "map fst (entries (t_macs t))"
  have ms: "sort ?ms = sorted_list_of_set (clients t)" by (simp add: clients_def sort_keys [OF m])
  have "holds (do { out1 \<leftarrow> strbuf_append b ok_head; out2 \<leftarrow> append_macs out1 (sort ?ms);
      if ?ms = [] then strbuf_append_char out2 (CHR 0x0A) else Some out2 }) (ok_head @ join_macs (sort ?ms) @ nl)"
  proof (rule holds_bind [OF holds_append [OF b]], rule holds_bind [OF append_macs_holds])
    fix b2 assume "strbuf_inv b2" "strbuf_text b2 = ([] @ ok_head) @ join_macs (sort ?ms) @ (if sort ?ms = [] then [] else nl)"
    then show "holds (if ?ms = [] then strbuf_append_char b2 (CHR 0x0A) else Some b2) (ok_head @ join_macs (sort ?ms) @ nl)"
      using holds_append_char [of b2 "ok_head" "CHR 0x0A"] by (cases "entries (t_macs t)") (auto intro: holds_Some)
  qed
  with Some ip q(1) ms show ?thesis by (simp add: reply_lmip_def hashmap_keys_correct [OF m])
qed

lemma reply_gtmc_holds:
  assumes i: "prov_inv cfg p" and b: "strbuf_inv b" "strbuf_text b = []"
  shows "holds (reply_gtmc p b (provision_get_tunnel_by_mac p m))
    (case owner p m of None \<Rightarrow> notfound_text | Some k \<Rightarrow> ok_head @ tunnel_text p k @ nl)"
proof (cases "owner p m")
  case None
  then have "provision_get_tunnel_by_mac p m = None" using owner_none [OF i] by blast
  with None holds_append [OF b, of notfound_text] show ?thesis by (simp add: reply_gtmc_def)
next
  case (Some k)
  then obtain q t where q: "provision_get_tunnel_by_mac p m = Some q" "p_heap p q = Some t" "t_ip_remote t = k"
    by (auto simp: owner_def split: option.splits)
  then have "peer p k = Some t" using peer_iff [OF i] by blast
  with Some q holds_appendf [OF b] show ?thesis by (simp add: reply_gtmc_def tunnel_text_def)
qed

lemma append_tunnels_holds:
  assumes T: "hm_inv T"
  shows "strbuf_inv b \<Longrightarrow> strbuf_text b = t \<Longrightarrow> (\<And>x. x \<in> set (iter_rest T it) \<Longrightarrow> entry_tracked (p_heap p) x) \<Longrightarrow>
    holds (append_tunnels p T it b)
      (t @ concat (map (\<lambda>(k, v). inet_ntop k @ ''@'' @ t_ifgre (the (p_heap p (the v))) @ '';'') (iter_rest T it)))"
proof (induction "hm_cap T - it_slot it" arbitrary: it b t rule: less_induct)
  case less
  note nx = hashmap_iter_next_correct [OF T, of it]
  show ?case
  proof (cases "iter_rest T it")
    case Nil
    with nx obtain it' where "hashmap_iter_next T it = (None, it')" by auto
    with Nil less.prems show ?thesis by (simp add: append_tunnels.simps [of p T it] holds_Some)
  next
    case (Cons kv r)
    with less.prems(3) have "entry_tracked (p_heap p) kv" by simp
    then obtain k q u where kv: "kv = (k, Some q)" "p_heap p q = Some u" "t_ip_remote u = k" by (cases kv) (auto simp: entry_tracked_def)
    with Cons nx obtain it' where n: "hashmap_iter_next T it = (Some (Some k, Some q), it')" "iter_rest T it' = r"
      "it_slot it < it_slot it'" "it_slot it' \<le> hm_cap T" by auto
    let ?s = "inet_ntop k @ ''@'' @ t_ifgre u @ '';''"
    obtain b1 where b1: "strbuf_appendf b ?s = Some b1" "strbuf_inv b1" "strbuf_text b1 = t @ ?s"
      using holds_appendf [OF less.prems(1,2), of ?s] by (auto simp: holds_def)
    have "holds (append_tunnels p T it' b1)
      ((t @ ?s) @ concat (map (\<lambda>(k, v). inet_ntop k @ ''@'' @ t_ifgre (the (p_heap p (the v))) @ '';'') (iter_rest T it')))"
      by (rule less.hyps [OF _ b1(2,3)]) (use n less.prems(3) Cons in auto)
    with n kv b1(1) Cons show ?thesis by (simp add: append_tunnels.simps [of p T it])
  qed
qed

lemma reply_stun_holds:
  assumes i: "prov_inv cfg p" and b: "strbuf_inv b" "strbuf_text b = []"
  shows "\<exists>text. holds (reply_stun p b) text \<and> answers bld cfg up p Req_stun text"
proof -
  from i obtain T I where a: "p_tunnels p = Some T" "ip_inv T" "tab_inv T I (p_heap p)" by (rule prov_invD)
  have hi: "hm_inv T" using a(2) by (simp add: setup_inv_def)
  let ?ks = "map fst (entries T)"
  have ks: "distinct ?ks" "set ?ks = dom (hm_abs T)" using distinct_entries [OF hi] entries_keys [OF hi] by simp_all
  have d: "dom (hm_abs T) = dom (peer p)"
    using tab_inv_T [OF a(3)] by (auto simp: dom_def peer_iff [OF i] some_tunnel_def)
  have sz: "hashmap_size T = 0 \<longleftrightarrow> dom (peer p) = {}"
    using by_ip.tsize_abs [OF a(2)] by_ip.finite_abs [OF a(2)] d by simp
  show ?thesis
  proof (cases "dom (peer p) = {}")
    case True
    with a(1) sz holds_append [OF b, of "''RESULT: NULL'' @ nl"] show ?thesis by (simp add: reply_stun_def)
  next
    case False
    have tr: "x \<in> set (entries T) \<Longrightarrow> entry_tracked (p_heap p) x" for x by (rule entries_tracked [OF a(2,3)])
    have e: "(case x of (k, v) \<Rightarrow> inet_ntop k @ ''@'' @ t_ifgre (the (p_heap p (the v))) @ '';'') = tunnel_text p (fst x) @ '';''"
      if "x \<in> set (entries T)" for x
    proof -
      from tr [OF that] obtain k q t where x: "x = (k, Some q)" "p_heap p q = Some t" "t_ip_remote t = k"
        by (cases x) (auto simp: entry_tracked_def)
      then have "peer p k = Some t" using peer_iff [OF i] by blast
      with x show ?thesis by (simp add: tunnel_text_def)
    qed
    have h: "holds (do { out1 \<leftarrow> strbuf_append b ok_head; out2 \<leftarrow> append_tunnels p T hashmap_iter_init out1; strbuf_append_char out2 (CHR 0x0A) })
        ((([] @ ok_head) @ concat (map (\<lambda>(k, v). inet_ntop k @ ''@'' @ t_ifgre (the (p_heap p (the v))) @ '';'') (iter_rest T hashmap_iter_init))) @ nl)"
    proof (rule holds_bind [OF holds_append [OF b]], rule holds_bind)
      fix b1 assume "strbuf_inv b1" "strbuf_text b1 = [] @ ok_head"
      then show "holds (append_tunnels p T hashmap_iter_init b1) (([] @ ok_head) @
          concat (map (\<lambda>(k, v). inet_ntop k @ ''@'' @ t_ifgre (the (p_heap p (the v))) @ '';'') (iter_rest T hashmap_iter_init)))"
        by (rule append_tunnels_holds [OF hi]) (use tr in simp)
    qed (rule holds_append_char)
    have m: "map (\<lambda>(k, v). inet_ntop k @ ''@'' @ t_ifgre (the (p_heap p (the v))) @ '';'') (entries T) =
        map (\<lambda>k. tunnel_text p k @ '';'') ?ks" unfolding map_map comp_def by (rule map_cong [OF refl e])
    from h [unfolded iter_rest_init m] have "holds (reply_stun p b) (ok_head @ concat (map (\<lambda>k. tunnel_text p k @ '';'') ?ks) @ nl)"
      using a(1) sz False by (simp add: reply_stun_def)
    moreover have "answers bld cfg up p Req_stun (ok_head @ concat (map (\<lambda>k. tunnel_text p k @ '';'') ?ks) @ nl)"
      unfolding answers.simps if_not_P [OF False] by (intro exI [of _ ?ks] conjI refl) (use ks d in simp_all)
    ultimately show ?thesis by blast
  qed
qed


section \<open>Every command is answered\<close>

definition run_simple :: "build \<Rightarrow> softgred_config \<Rightarrow> int \<Rightarrow> 'w prov \<Rightarrow> strbuf \<Rightarrow> string \<Rightarrow> strbuf option" where
  "run_simple bld cfg up p b c =
     (if c = ''LMIP'' \<or> c = ''GTMC'' then invalid_reply b
      else if c = ''VERS'' then strbuf_appendf b (ok_head @ b_package_version bld @ nl)
      else if c = ''QUIT'' then Some b else if c = ''HELP'' then strbuf_append b help_text
      else if c = ''STAT'' then strbuf_appendf b (stat_text bld cfg up)
      else if c = ''STUN'' then reply_stun p b else invalid_reply b)"

definition run_lookup :: "'w prov \<Rightarrow> strbuf \<Rightarrow> string \<Rightarrow> string \<Rightarrow> strbuf option" where
  "run_lookup p b c a =
     (if c = ''LMIP'' then (case inet_pton a of None \<Rightarrow> invalid_reply b | Some k \<Rightarrow> reply_lmip p b (provision_get_tunnel_byip p k))
      else if c = ''GTMC'' then (case valid_mac a of None \<Rightarrow> invalid_reply b | Some m \<Rightarrow> reply_gtmc p b (provision_get_tunnel_by_mac p m))
      else invalid_reply b)"

definition answered :: "build \<Rightarrow> softgred_config \<Rightarrow> int \<Rightarrow> 'w prov \<Rightarrow> request \<Rightarrow> strbuf option \<Rightarrow> bool" where
  "answered bld cfg up p req res \<longleftrightarrow> (\<exists>b. res = Some b \<and> strbuf_inv b \<and> answers bld cfg up p req (strbuf_text b))"

lemma answeredI: "holds res text \<Longrightarrow> answers bld cfg up p req text \<Longrightarrow> answered bld cfg up p req res"
  by (auto simp: holds_def answered_def)

lemma invalid_reply_holds: "strbuf_inv b \<Longrightarrow> holds (invalid_reply b) invalid_text"
  unfolding invalid_reply_def by (rule holds_assign)

lemma invalid_answered: "strbuf_inv b \<Longrightarrow> answered bld cfg up p Req_invalid (invalid_reply b)"
  by (rule answeredI [OF invalid_reply_holds]) simp_all

lemma run_simple_answered:
  assumes i: "prov_inv cfg p" and b: "strbuf_inv b" "strbuf_text b = []"
  shows "answered bld cfg up p (simple_request c) (run_simple bld cfg up p b c)"
proof -
  note h = holds_append [OF b, unfolded append_Nil] holds_appendf [OF b, unfolded append_Nil] holds_Some [OF b]
  consider "c = ''VERS''" | "c = ''QUIT''" | "c = ''HELP''" | "c = ''STAT''" | "c = ''STUN''"
    | "c \<notin> {''VERS'', ''QUIT'', ''HELP'', ''STAT'', ''STUN''}" by blast
  then show ?thesis
  proof cases
    case 5
    with reply_stun_holds [OF i b, of bld up] show ?thesis by (auto simp: run_simple_def simple_request_def intro: answeredI)
  next
    case 6
    then have "run_simple bld cfg up p b c = invalid_reply b" "simple_request c = Req_invalid"
      by (simp_all add: run_simple_def simple_request_def)
    then show ?thesis using invalid_answered [OF b(1)] by simp
  qed (simp_all add: run_simple_def simple_request_def answeredI [OF h(1)] answeredI [OF h(2)] answeredI [OF h(3)])
qed

lemma run_lookup_answered:
  assumes i: "prov_inv cfg p" and b: "strbuf_inv b" "strbuf_text b = []"
  shows "answered bld cfg up p (lookup_request c a) (run_lookup p b c a)"
  using invalid_answered [OF b(1), of bld cfg up p]
    answeredI [OF reply_lmip_holds [OF i b, of "the (inet_pton a)"], of bld cfg up p "Req_lmip (the (inet_pton a))"]
    answeredI [OF reply_gtmc_holds [OF i b, of "the (valid_mac a)"], of bld cfg up p "Req_gtmc (the (valid_mac a))"]
  by (cases "inet_pton a"; cases "valid_mac a") (simp_all add: run_lookup_def lookup_request_def)

lemma service_command_answered:
  assumes i: "prov_inv cfg p"
  shows "answered bld cfg up p (parse_request command) (service_command bld cfg up p command)"
proof -
  obtain b where b: "strbuf_new None = Some b" "strbuf_inv b" "strbuf_text b = []"
    using holds_new by (auto simp: holds_def)
  let ?argv = "strtok_all command"
  note sc = service_command_def [of bld cfg up p command]
  show ?thesis
  proof (cases "length command < SERVICE_MAX_REQUEST \<and> length ?argv \<in> {1, 2}")
    case False
    then have "parse_request command = Req_invalid" by (auto simp: parse_request_def split: list.split)
    moreover have "service_command bld cfg up p command = invalid_reply b"
      using False b(1) str_lcpy_fits [of command SERVICE_MAX_REQUEST "[]"]
      by (cases "length command < SERVICE_MAX_REQUEST") (auto simp: sc Let_def)
    ultimately show ?thesis using invalid_answered [OF b(2)] by simp
  next
    case True
    then have cp: "snd (str_lcpy [] command SERVICE_MAX_REQUEST) = command" by (intro str_lcpy_fits) simp
    from True consider c where "?argv = [c]" | c a where "?argv = [c, a]"
      by (cases ?argv; cases "tl ?argv"; cases "tl (tl ?argv)") auto
    then show ?thesis
    proof cases
      case (1 c)
      with True b(1) cp have "service_command bld cfg up p command = run_simple bld cfg up p b c"
        by (simp add: sc Let_def not_le run_simple_def)
      with 1 True run_simple_answered [OF i b(2,3)] show ?thesis by (simp add: parse_request_def)
    next
      case (2 c a)
      with True b(1) cp have "service_command bld cfg up p command = run_lookup p b c a"
        by (simp add: sc Let_def not_le run_lookup_def)
      with 2 True run_lookup_answered [OF i b(2,3)] show ?thesis by (simp add: parse_request_def)
    qed
  qed
qed

section \<open>Written requests\<close>

lemma hex_char_ok:
  assumes "n < 16"
  shows "ascii_isxdigit (hex_char n)" "ascii_tolower (hex_char n) = hex_char n" "\<not> is_delim (hex_char n)"
proof -
  have c: "ch (hex_char n) = (if n < 10 then 48 + n else 87 + n)" using assms by (simp add: ch_def hex_char_def of_char_of)
  have k: "ch (CHR ''0'') = 48" "ch (CHR ''9'') = 57" "ch (CHR ''a'') = 97" "ch (CHR ''f'') = 102" "ch (CHR ''A'') = 65"
    "ch (CHR ''F'') = 70" "ch (CHR ''Z'') = 90" by (simp_all add: ch_def)
  show "ascii_isxdigit (hex_char n)" "ascii_tolower (hex_char n) = hex_char n"
    using assms k by (auto simp: ascii_isxdigit_def ascii_isdigit_def ascii_tolower_def c)
  have "is_delim d \<Longrightarrow> ch d \<le> 32" for d by (auto simp: is_delim_def ch_def)
  from this [of "hex_char n"] c show "\<not> is_delim (hex_char n)" by (auto split: if_splits)
qed

lemma hex2_shape:
  obtains x y where "hex2 b = [x, y]" "ascii_isxdigit x" "ascii_isxdigit y" "ascii_tolower x = x" "ascii_tolower y = y"
    "\<not> is_delim x" "\<not> is_delim y"
proof -
  have "unat b < 2 ^ LENGTH(8)" by (rule unsigned_less)
  then have "unat b div 16 < 16" "unat b mod 16 < 16" by auto
  with that hex_char_ok show ?thesis unfolding hex2_def by blast
qed

lemma mac_text_length: "length (mac_text m) = 17"
  by (simp add: mac_text_def hex2_def)

lemma mac_text_valid: "valid_mac (mac_text m) = Some (mac_text m)" "\<not> list_ex is_delim (mac_text m)"
proof -
  have colon: "ascii_tolower (CHR '':'') = CHR '':''" "\<not> is_delim (CHR '':'')" by code_simp+
  have up: "[0..<17] = [0, 1, 2, 3, 4, 5, 6, 7, 8, 9, 10, 11, 12, 13, 14, 15, 16 :: nat]" by (simp add: upt_rec)
  obtain a b where 0: "hex2 (m ! 0) = [a, b]" "ascii_isxdigit a" "ascii_isxdigit b" "ascii_tolower a = a" "ascii_tolower b = b" "\<not> is_delim a" "\<not> is_delim b" by (rule hex2_shape)
  obtain c d where 1: "hex2 (m ! 1) = [c, d]" "ascii_isxdigit c" "ascii_isxdigit d" "ascii_tolower c = c" "ascii_tolower d = d" "\<not> is_delim c" "\<not> is_delim d" by (rule hex2_shape)
  obtain e f where 2: "hex2 (m ! 2) = [e, f]" "ascii_isxdigit e" "ascii_isxdigit f" "ascii_tolower e = e" "ascii_tolower f = f" "\<not> is_delim e" "\<not> is_delim f" by (rule hex2_shape)
  obtain g h where 3: "hex2 (m ! 3) = [g, h]" "ascii_isxdigit g" "ascii_isxdigit h" "ascii_tolower g = g" "ascii_tolower h = h" "\<not> is_delim g" "\<not> is_delim h" by (rule hex2_shape)
  obtain i j where 4: "hex2 (m ! 4) = [i, j]" "ascii_isxdigit i" "ascii_isxdigit j" "ascii_tolower i = i" "ascii_tolower j = j" "\<not> is_delim i" "\<not> is_delim j" by (rule hex2_shape)
  obtain k l where 5: "hex2 (m ! 5) = [k, l]" "ascii_isxdigit k" "ascii_isxdigit l" "ascii_tolower k = k" "ascii_tolower l = l" "\<not> is_delim k" "\<not> is_delim l" by (rule hex2_shape)
  have t: "mac_text m = [a, b, CHR '':'', c, d, CHR '':'', e, f, CHR '':'', g, h, CHR '':'', i, j, CHR '':'', k, l]"
    unfolding mac_text_def 0(1) 1(1) 2(1) 3(1) 4(1) 5(1) by simp
  show "valid_mac (mac_text m) = Some (mac_text m)"
    unfolding t valid_mac_def up using 0 1 2 3 4 5 colon by simp
  show "\<not> list_ex is_delim (mac_text m)" unfolding t using 0 1 2 3 4 5 colon by simp
qed

lemma strtok_two:
  assumes "c \<noteq> []" "\<not> list_ex is_delim c" "a \<noteq> []" "\<not> list_ex is_delim a"
  shows "strtok_all (c @ '' '' @ a) = [c, a]"
proof -
  have one: "strtok_all x = [x]" if "x \<noteq> []" "\<not> list_ex is_delim x" for x
  proof -
    from that obtain y ys where x: "x = y # ys" "\<not> is_delim y" "\<forall>c \<in> set ys. \<not> is_delim c"
      by (cases x) (auto simp: list_ex_iff)
    then have "takeWhile (\<lambda>c. \<not> is_delim c) x = x" "dropWhile is_delim x = x" "dropWhile (\<lambda>c. \<not> is_delim c) x = []"
      by (simp_all add: takeWhile_eq_all_conv)
    then show ?thesis using x(1) strtok_all.simps [of x] strtok_all.simps [of "[]"] by (simp only: list.case dropWhile.simps)
  qed
  have sp: "is_delim (CHR '' '')" by code_simp
  have d: "dropWhile is_delim (c @ '' '' @ a) = c @ '' '' @ a" "takeWhile (\<lambda>c. \<not> is_delim c) (c @ '' '' @ a) = c"
    "dropWhile (\<lambda>c. \<not> is_delim c) (c @ '' '' @ a) = '' '' @ a"
    using assms(1,2) sp by (cases c; auto simp: list_ex_iff)+
  have "strtok_all ('' '' @ a) = strtok_all a"
    using sp by (subst (1 2) strtok_all.simps) simp
  then show ?thesis using d one [OF assms(3,4)] assms(1) strtok_all.simps [of "c @ '' '' @ a"]
    by (cases "c @ '' '' @ a") simp_all
qed

lemma inet_ntop_token: "inet_ntop k \<noteq> []" "\<not> list_ex is_delim (inet_ntop k)" "length (inet_ntop k) \<le> 15"
proof -
  have l: "length (dec_str (unat b)) \<le> 3" for b :: byte
  proof (rule dec_str_length)
    have "unat b < 2 ^ LENGTH(8)" by (rule unsigned_less)
    then show "unat b < 10 ^ 3" by simp
  qed simp
  obtain a b c d where o: "octets k = [a, b, c, d]" by (simp add: octets_def)
  show "inet_ntop k \<noteq> []" by (simp add: inet_ntop_def Let_def o)
  show "length (inet_ntop k) \<le> 15" using l [of a] l [of b] l [of c] l [of d] by (simp add: inet_ntop_def Let_def o)
  have "\<not> is_delim c" if "ascii_isdigit c \<or> c = CHR ''.''" for c
    using that by (auto simp: is_delim_def ascii_isdigit_def ch_def)
  then show "\<not> list_ex is_delim (inet_ntop k)" by (auto simp: list_ex_iff dest: inet_ntop_chars)
qed

section \<open>The length of a response\<close>

lemma learned_mac_length:
  "learning_run cfg evs a b \<Longrightarrow> (\<forall>m \<in> dom (l_owner a). length m = 17) \<Longrightarrow> (\<forall>m \<in> dom (l_owner b). length m = 17)"
proof (induction rule: learning_run.induct)
  case (cons ev a b evs c)
  have "\<forall>m \<in> dom (l_owner b). length m = 17"
    using cons.hyps(1) cons.prems by (auto elim!: learning_stepE packet_stepE simp: mac_text_length split: if_splits)
  then show ?case by (rule cons.IH)
qed

lemma join_macs_length: "(\<forall>m \<in> set ms. length m = 17) \<Longrightarrow> length (join_macs ms) \<le> 18 * length ms"
  by (induction ms rule: join_macs.induct) auto

lemma long_str_length: "- (2 ^ 63) \<le> i \<Longrightarrow> i < 2 ^ 63 \<Longrightarrow> length (long_str i) \<le> 20"
proof -
  assume i: "- (2 ^ 63) \<le> i" "i < 2 ^ 63"
  then have "nat (- i) < 10 ^ 19" "nat i < 10 ^ 19" by auto
  then have "length (dec_str (nat (- i))) \<le> 19" "length (dec_str (nat i)) \<le> 19" by (auto intro: dec_str_length)
  then show ?thesis by (simp add: long_str_def)
qed

lemma peers_bounded:
  assumes i: "prov_inv cfg p" and c: "config_ok cfg"
  shows "finite (dom (peer p))" "card (dom (peer p)) \<le> SOFTGRED_MAX_SLOTS"
proof -
  let ?f = "\<lambda>k. t_id (the (peer p k))"
  have inj: "inj_on ?f (dom (peer p))"
  proof (rule inj_onI)
    fix k k' assume "k \<in> dom (peer p)" "k' \<in> dom (peer p)" and e: "?f k = ?f k'"
    then obtain t t' where t: "peer p k = Some t" "peer p k' = Some t'" by blast
    show "k = k'"
    proof (rule ccontr)
      assume "k \<noteq> k'"
      from inv_disjoint [OF i c t this] e t show False by simp
    qed
  qed
  have into: "?f ` dom (peer p) \<subseteq> {..<SOFTGRED_MAX_SLOTS}"
  proof
    fix n assume "n \<in> ?f ` dom (peer p)"
    then obtain k t where "peer p k = Some t" "n = t_id t" by auto
    with inv_tunnel [OF i c this(1)] show "n \<in> {..<SOFTGRED_MAX_SLOTS}" by simp
  qed
  show "finite (dom (peer p))" by (rule inj_on_finite [OF inj into]) simp
  show "card (dom (peer p)) \<le> SOFTGRED_MAX_SLOTS" using card_inj_on_le [OF inj into] by simp
qed

lemma tunnel_text_length:
  assumes "prov_inv cfg p" "config_ok cfg" "peer p k = Some t"
  shows "length (tunnel_text p k) \<le> 26"
proof -
  from assms(2) obtain prefix where p: "c_tunnel_prefix cfg = Some prefix" "length prefix \<le> 6" by (rule config_ok_names)
  have "length (t_ifgre t) \<le> 10"
    using inv_tunnel [OF assms] tunnel_name_fits(2) [OF p(2), of "t_id t"] p(1) by simp
  then show ?thesis using inet_ntop_token(3) [of k] assms(3) by (simp add: tunnel_text_def)
qed

text \<open>What \<open>uname\<close>, the build and the clock put into a \<open>STAT\<close> response.\<close>

definition stat_bounded :: "build \<Rightarrow> softgred_config \<Rightarrow> int \<Rightarrow> bool" where
  "stat_bounded bld cfg up \<longleftrightarrow>
     length (u_sysname (c_uts cfg)) \<le> 64 \<and> length (u_release (c_uts cfg)) \<le> 64 \<and> length (u_version (c_uts cfg)) \<le> 64 \<and>
     length (u_machine (c_uts cfg)) \<le> 64 \<and> length (b_package_version bld) \<le> 64 \<and>
     - (2 ^ 63) \<le> up \<and> up < 2 ^ 63 \<and> - (2 ^ 63) \<le> c_started_time cfg \<and> c_started_time cfg < 2 ^ 63"

lemma stat_text_length: "stat_bounded bld cfg up \<Longrightarrow> length (stat_text bld cfg up) \<le> 400"
  using long_str_length [of up] long_str_length [of "c_started_time cfg"]
  unfolding stat_bounded_def stat_text_def by auto

lemma concat_length: "(\<forall>x \<in> set xs. length (f x) \<le> n) \<Longrightarrow> length (concat (map f xs)) \<le> n * length xs"
  by (induction xs) auto

lemma answer_fits:
  assumes i: "prov_inv cfg p" and c: "config_ok cfg" and s: "stat_bounded bld cfg up"
    and m: "\<forall>m \<in> dom (owner p). length m = 17" and a: "answers bld cfg up p req text"
  shows "length text \<le> SERVICE_MAX_RESPONSE"
proof (cases req)
  case (Req_lmip k)
  show ?thesis
  proof (cases "peer p k")
    case (Some t)
    have n: "card (clients t) \<le> 1024" using inv_tunnel [OF i c Some] by (simp add: PROVISION_MAX_CLIENTS_def)
    have "\<forall>m \<in> clients t. length m = 17" using owner_iff [OF i] m Some by blast
    then have "length (join_macs (sorted_list_of_set (clients t))) \<le> 18 * card (clients t)"
      using join_macs_length [of "sorted_list_of_set (clients t)"] by (cases "finite (clients t)") auto
    with n a Req_lmip Some show ?thesis by (simp add: SERVICE_MAX_RESPONSE_def)
  qed (use a Req_lmip in \<open>simp add: SERVICE_MAX_RESPONSE_def\<close>)
next
  case (Req_gtmc m)
  show ?thesis
  proof (cases "owner p m")
    case (Some k)
    then obtain t where "peer p k = Some t" using owner_iff [OF i] by blast
    with tunnel_text_length [OF i c this] a Req_gtmc Some show ?thesis by (simp add: SERVICE_MAX_RESPONSE_def)
  qed (use a Req_gtmc in \<open>simp add: SERVICE_MAX_RESPONSE_def\<close>)
next
  case Req_stun
  show ?thesis
  proof (cases "dom (peer p) = {}")
    case False
    with a Req_stun obtain ks where ks: "distinct ks" "set ks = dom (peer p)"
      "text = ok_head @ concat (map (\<lambda>k. tunnel_text p k @ '';'') ks) @ nl" by auto
    have "\<forall>k \<in> set ks. length (tunnel_text p k @ '';'') \<le> 27"
      using tunnel_text_length [OF i c] ks(2) by fastforce
    then have "length (concat (map (\<lambda>k. tunnel_text p k @ '';'') ks)) \<le> 27 * length ks" by (rule concat_length)
    moreover have "length ks \<le> 4096"
      using peers_bounded(2) [OF i c] distinct_card [OF ks(1)] ks(2) by (simp add: SOFTGRED_MAX_SLOTS_def)
    ultimately show ?thesis using ks(3) by (simp add: SERVICE_MAX_RESPONSE_def)
  qed (use a Req_stun in \<open>simp add: SERVICE_MAX_RESPONSE_def\<close>)
qed (use a stat_text_length [OF s] s in \<open>simp_all add: SERVICE_MAX_RESPONSE_def help_text_def stat_bounded_def\<close>)

section \<open>Properties\<close>

text \<open>C35. The status commands refine their specification: in every consistent state a command line of
  any content and length is answered, and the answer is the one its request has in the abstract
  state: the sorted clients of a remote's tunnel, the tunnel of an address, every tunnel exactly
  once, or an error.\<close>

theorem service_command_answers:
  assumes "prov_inv cfg p"
  shows "\<exists>b. service_command bld cfg uptime p command = Some b \<and> strbuf_inv b \<and>
    answers bld cfg uptime p (parse_request command) (strbuf_text b)"
  using service_command_answered [OF assms] by (simp add: answered_def)

theorem service_command_answers_witness:
  "\<exists>(p :: demo prov) b. service_command example_build example_config 0 p ''VERS'' = Some b \<and> owner p ''02:00:00:00:00:01'' = Some 0x0300000A \<and>
     answers example_build example_config 0 p (parse_request ''VERS'') (strbuf_text b)"
proof -
  obtain p :: "demo prov" where p: "prov_inv example_config p" "owner p ''02:00:00:00:00:01'' = Some 0x0300000A"
    by (rule demo_client)
  with service_command_answers [OF p(1), of example_build 0 "''VERS''"] show ?thesis by blast
qed

text \<open>Written requests are read back: the request for an address in the form the daemon prints
  it, and for a remote in dotted decimal, name exactly that address and that remote.\<close>

lemma request_roundtrip:
  "parse_request (''GTMC '' @ mac_text m) = Req_gtmc (mac_text m) \<and> parse_request (''LMIP '' @ inet_ntop k) = Req_lmip k"
proof
  have d: "\<not> list_ex is_delim ''GTMC''" "\<not> list_ex is_delim ''LMIP''" by code_simp+
  have "strtok_all (''GTMC'' @ '' '' @ mac_text m) = [''GTMC'', mac_text m]"
    using d mac_text_valid [of m] mac_text_length [of m] by (intro strtok_two) auto
  then show "parse_request (''GTMC '' @ mac_text m) = Req_gtmc (mac_text m)"
    using mac_text_valid(1) [of m] mac_text_length [of m] by (simp add: parse_request_def SERVICE_MAX_REQUEST_def lookup_request_def)
  have "strtok_all (''LMIP'' @ '' '' @ inet_ntop k) = [''LMIP'', inet_ntop k]"
    using d inet_ntop_token [of k] by (intro strtok_two) auto
  then show "parse_request (''LMIP '' @ inet_ntop k) = Req_lmip k"
    using inet_ntop_token(3) [of k] by (simp add: parse_request_def SERVICE_MAX_REQUEST_def lookup_request_def inet_pton_ntop)
qed

text \<open>C36. No answer reaches the limit on responses: in every state that the daemon can reach, the
  answer to every command has at most \<open>SERVICE_MAX_RESPONSE\<close> bytes, whatever was learned, when the
  fields of \<open>uname\<close> and the version have their usual length.\<close>

theorem responses_fit:
  assumes "env_ok env" "config_ok cfg" "p_heap p = Map.empty" "prov_run env cfg evs (snd (provision_init p)) = Some p'"
    and "stat_bounded bld cfg uptime"
  shows "\<exists>b. service_command bld cfg uptime p' command = Some b \<and> length (strbuf_text b) \<le> SERVICE_MAX_RESPONSE"
proof -
  note i = reachable_ok(1) [OF assms(1-4)]
  note 0 = provision_init_ok [OF assms(3)]
  from prov_run_ok [OF assms(1,2) 0(1), of evs] assms(4)
  have "learning_run cfg evs (learning_of (snd (provision_init p))) (learning_of p')" by auto
  then have "\<forall>m \<in> dom (owner p'). length m = 17" using learned_mac_length 0(2) by fastforce
  with service_command_answered [OF i, of bld uptime command] answer_fits [OF i assms(2,5)] show ?thesis
    by (auto simp: answered_def)
qed

theorem responses_fit_witness:
  "\<exists>p' b. prov_run demo_env example_config [Ev_packet demo_packet] (snd (provision_init demo_prov)) = Some p' \<and>
    service_command example_build example_config 0 p' ''STUN'' = Some b \<and> length (strbuf_text b) \<le> SERVICE_MAX_RESPONSE"
proof -
  from prov_run_ok [OF demo_env_ok example_config_ok demo_init_inv(1), of "[Ev_packet demo_packet]"]
  obtain p' where p': "prov_run demo_env example_config [Ev_packet demo_packet] (snd (provision_init demo_prov)) = Some p'" by blast
  have "stat_bounded example_build example_config 0" by (simp add: stat_bounded_def example_config_def softgred_config_ref_def zero_config_def example_build_def example_uts_def)
  from responses_fit [OF demo_env_ok example_config_ok _ p' this, of "''STUN''"] p' show ?thesis by (auto simp: demo_prov_def)
qed

end
