(* ===== verification/Service_Inv.thy ===== *)
theory Service_Inv
  imports Service Service_Cmd_Correct "HOL-Library.Multiset"
begin

text \<open>
  The invariant of the client table, the ledger of descriptors, and the session that a client's
  buffers stand for: reading a request, answering it, or closed. Each operation on a client keeps
  the invariant and makes steps of the session.
\<close>

section \<open>Assumptions\<close>

text \<open>\<open>recv\<close> returns at most what was asked for, \<open>send\<close> sends at most what it was given.\<close>

definition io_ok :: "'w io \<Rightarrow> bool" where
  "io_ok io \<longleftrightarrow>
     (\<forall>fd n w s w'. io_recv io fd n w = (Inr s, w') \<longrightarrow> length s \<le> n) \<and>
     (\<forall>fd s w n w'. io_send io fd s w = (Inr n, w') \<longrightarrow> n \<le> length s)"

lemma sys_call_Inr: "sys_call f d = (Inr v, d') \<Longrightarrow> \<exists>w'. f (s_world (g_sys d)) = (Inr v, w')"
  by (cases "f (s_world (g_sys d))"; cases "fst (f (s_world (g_sys d)))") (auto simp: sys_call_def)

lemma recv_bound: "io_ok io \<Longrightarrow> sys_call (io_recv io fd n) d = (Inr s, d') \<Longrightarrow> length s \<le> n"
  by (drule sys_call_Inr) (auto simp: io_ok_def)

lemma send_bound: "io_ok io \<Longrightarrow> sys_call (io_send io fd s) d = (Inr n, d') \<Longrightarrow> n \<le> length s"
  by (drule sys_call_Inr) (auto simp: io_ok_def)

section \<open>The invariant\<close>

definition client_ok :: "client \<Rightarrow> bool" where
  "client_ok cl \<longleftrightarrow> length (cl_input cl) = SERVICE_MAX_REQUEST \<and>
     (if cl_fd cl = None then cl_used cl = 0 \<and> cl_sent cl = 0 \<and> cl_response cl = None
      else (case cl_response cl of
              None \<Rightarrow> cl_used cl < SERVICE_MAX_REQUEST - 1 \<and> cl_sent cl = 0
            | Some b \<Rightarrow> cl_used cl \<le> SERVICE_MAX_REQUEST - 1 \<and> strbuf_inv b \<and> sb_len b \<le> SERVICE_MAX_RESPONSE \<and>
                cl_sent cl \<le> sb_len b))"

definition client_fds :: "client list \<Rightarrow> nat multiset" where
  "client_fds cls = (\<Sum>cl \<leftarrow> cls. mset_set (set_option (cl_fd cl)))"

definition table_ok :: "'w daemon \<Rightarrow> bool" where
  "table_ok d \<longleftrightarrow> length (g_clients d) = SERVICE_MAX_CLIENTS \<and> length (g_poll_slots d) = SERVICE_MAX_CLIENTS \<and>
     g_limit d \<le> SERVICE_MAX_CLIENTS \<and> (\<forall>i < SERVICE_MAX_CLIENTS. client_ok (g_clients d ! i)) \<and>
     (\<forall>i < SERVICE_MAX_CLIENTS. g_limit d \<le> i \<longrightarrow> cl_fd (g_clients d ! i) = None)"

text \<open>The descriptors of the rest of the daemon are \<open>other\<close>.\<close>

definition srv_inv :: "nat multiset \<Rightarrow> 'w daemon \<Rightarrow> bool" where
  "srv_inv other d \<longleftrightarrow> table_ok d \<and>
     (\<exists>l. g_listener d = Some l \<and> mset (g_fds d) = add_mset l (other + client_fds (g_clients d)))"

definition srv_frame :: "'w daemon \<Rightarrow> 'w daemon \<Rightarrow> bool" where
  "srv_frame d d' \<longleftrightarrow> g_listener d' = g_listener d \<and> g_limit d' = g_limit d \<and> g_capture d' = g_capture d \<and>
     g_pid d' = g_pid d \<and> g_signal d' = g_signal d \<and> g_notify d' = g_notify d \<and> g_unlinked d' = g_unlinked d \<and>
     s_log_fd (g_sys d') = s_log_fd (g_sys d) \<and> (\<exists>s. g_prov d' = (g_prov d)\<lparr>p_sys := s\<rparr>)"

lemma srv_frame_refl [simp]: "srv_frame d d"
proof -
  have "g_prov d = (g_prov d)\<lparr>p_sys := g_sys d\<rparr>" by simp
  then show ?thesis unfolding srv_frame_def by blast
qed

lemma srv_frame_trans: "srv_frame d d' \<Longrightarrow> srv_frame d' d'' \<Longrightarrow> srv_frame d d''"
  by (auto simp: srv_frame_def)

lemma same_srv_frame: "same_but_sys d d' \<Longrightarrow> srv_frame d d'"
  by (auto simp: srv_frame_def same_but_sysD)

lemma srv_frame_upd [simp]:
  "srv_frame (d\<lparr>g_clients := c\<rparr>) d' = srv_frame d d'" "srv_frame d (d'\<lparr>g_clients := c\<rparr>) = srv_frame d d'"
  "srv_frame (d\<lparr>g_fds := f\<rparr>) d' = srv_frame d d'" "srv_frame d (d'\<lparr>g_fds := f\<rparr>) = srv_frame d d'"
  "srv_frame (d\<lparr>g_poll_slots := q\<rparr>) d' = srv_frame d d'" "srv_frame d (d'\<lparr>g_poll_slots := q\<rparr>) = srv_frame d d'"
  by (simp_all add: srv_frame_def)

lemma client_fds_split:
  "i < length cls \<Longrightarrow> client_fds cls = client_fds (take i cls) + mset_set (set_option (cl_fd (cls ! i))) + client_fds (drop (Suc i) cls)"
  by (subst id_take_nth_drop [of i cls]) (simp_all add: client_fds_def)

lemma client_fds_update:
  "i < length cls \<Longrightarrow> client_fds (cls[i := cl]) = client_fds (take i cls) + mset_set (set_option (cl_fd cl)) + client_fds (drop (Suc i) cls)"
  by (simp add: upd_conv_take_nth_drop client_fds_def)

lemma client_fds_same: "i < length cls \<Longrightarrow> cl_fd cl = cl_fd (cls ! i) \<Longrightarrow> client_fds (cls[i := cl]) = client_fds cls"
  by (simp add: client_fds_update client_fds_split [of i cls])

lemma client_fds_none: "(\<forall>cl \<in> set cls. cl_fd cl = None) \<Longrightarrow> client_fds cls = {#}"
  by (induction cls) (simp_all add: client_fds_def)

lemma srv_inv_same:
  assumes "srv_inv other d" "same_but_sys d d'"
  shows "srv_inv other d'"
  using assms(1) by (simp add: srv_inv_def table_ok_def same_but_sysD [OF assms(2)])

lemma table_update:
  assumes "table_ok d" "i < SERVICE_MAX_CLIENTS" "client_ok cl" "cl_fd cl = None \<or> i < g_limit d"
  shows "table_ok (set_client i cl d)"
  using assms by (auto simp: table_ok_def nth_list_update)

lemma table_same: "same_but_sys d d' \<Longrightarrow> table_ok d' = table_ok d"
  by (simp add: table_ok_def same_but_sysD)

lemma set_client_inv:
  assumes "srv_inv other d" "i < SERVICE_MAX_CLIENTS" "client_ok cl" "cl_fd cl = cl_fd (g_clients d ! i)"
  shows "srv_inv other (set_client i cl d)"
  using assms by (auto simp: srv_inv_def table_ok_def client_fds_same nth_list_update)

lemma client_held:
  assumes "srv_inv other d" "i < SERVICE_MAX_CLIENTS" "cl_fd (g_clients d ! i) = Some fd"
  shows "fd \<in> set (g_fds d)" "held_fd d (Some fd) = Some fd" "i < g_limit d"
proof -
  from assms(1,2) have l: "i < length (g_clients d)" by (simp add: srv_inv_def table_ok_def)
  from assms(1) obtain k where "mset (g_fds d) = add_mset k (other + client_fds (g_clients d))" by (auto simp: srv_inv_def)
  then have "fd \<in># mset (g_fds d)" using client_fds_split [OF l] assms(3) by simp
  then show "fd \<in> set (g_fds d)" by simp
  then show "held_fd d (Some fd) = Some fd" by (simp add: held_fd_def)
  show "i < g_limit d" using assms by (auto simp: srv_inv_def table_ok_def not_le [symmetric])
qed

lemma listener_held:
  assumes "srv_inv other d"
  obtains l where "g_listener d = Some l" "l \<in> set (g_fds d)"
proof -
  from assms obtain l where l: "g_listener d = Some l" "mset (g_fds d) = add_mset l (other + client_fds (g_clients d))"
    by (auto simp: srv_inv_def)
  have "l \<in># mset (g_fds d)" unfolding l(2) by simp
  then show ?thesis using l(1) that by simp
qed

section \<open>Sessions\<close>

datatype session = Reading string | Answering string string | Closed

definition session_of :: "client \<Rightarrow> session" where
  "session_of cl = (if cl_fd cl = None then Closed
     else (case cl_response cl of None \<Rightarrow> Reading (take (cl_used cl) (cl_input cl))
           | Some b \<Rightarrow> Answering (strbuf_text b) (drop (cl_sent cl) (strbuf_text b))))"

abbreviation (input) request_too_large :: string where
  "request_too_large \<equiv> ''RESULT: INVALID'' @ nl @ ''BODY: Request too large'' @ nl"
abbreviation (input) response_too_large :: string where
  "response_too_large \<equiv> ''RESULT: INVALID'' @ nl @ ''BODY: Response too large'' @ nl"

definition capped :: "(string \<Rightarrow> string \<Rightarrow> bool) \<Rightarrow> string \<Rightarrow> string \<Rightarrow> bool" where
  "capped ans line a \<longleftrightarrow> (\<exists>t. ans line t \<and> a = (if length t > SERVICE_MAX_RESPONSE then response_too_large else t))"

text \<open>The reply to a line in a state of the daemon.\<close>

definition reply :: "build \<Rightarrow> softgred_config \<Rightarrow> 'w prov \<Rightarrow> string \<Rightarrow> string \<Rightarrow> bool" where
  "reply bld cfg p line a \<longleftrightarrow> (\<exists>up. capped (\<lambda>l t. answers bld cfg up p (parse_request l) t) line a)"

inductive session_step :: "(string \<Rightarrow> string \<Rightarrow> bool) \<Rightarrow> session \<Rightarrow> session \<Rightarrow> bool" for ans where
  more: "nul_char \<notin> set (t @ u) \<Longrightarrow> CHR 0x0A \<notin> set (t @ u) \<Longrightarrow> u \<noteq> [] \<Longrightarrow> length (t @ u) < SERVICE_MAX_REQUEST - 1 \<Longrightarrow>
    session_step ans (Reading t) (Reading (t @ u))"
| line: "nul_char \<notin> set (t @ u) \<Longrightarrow> t @ u = l @ CHR 0x0A # rest \<Longrightarrow> CHR 0x0A \<notin> set l \<Longrightarrow> ans l a \<Longrightarrow>
    session_step ans (Reading t) (Answering a a)"
| eof: "nul_char \<notin> set t \<Longrightarrow> CHR 0x0A \<notin> set t \<Longrightarrow> ans t a \<Longrightarrow> session_step ans (Reading t) (Answering a a)"
| overlong: "nul_char \<notin> set (t @ u) \<Longrightarrow> CHR 0x0A \<notin> set (t @ u) \<Longrightarrow> length (t @ u) = SERVICE_MAX_REQUEST - 1 \<Longrightarrow>
    session_step ans (Reading t) (Answering request_too_large request_too_large)"
| send: "0 < n \<Longrightarrow> n < length r \<Longrightarrow> session_step ans (Answering a r) (Answering a (drop n r))"
| close: "session_step ans s Closed"
| accept: "session_step ans Closed (Reading [])"

section \<open>Requests\<close>

lemma memchr_None: "memchr c xs = None \<longleftrightarrow> c \<notin> set xs"
  by (induction xs) auto

lemma memchr_Some: "memchr c xs = Some k \<Longrightarrow> k < length xs \<and> xs ! k = c \<and> c \<notin> set (take k xs)"
  by (induction xs arbitrary: k) (auto split: if_splits)

lemma put_input_ok: "off + length s \<le> length m \<Longrightarrow> put_input m off s = Some (take off m @ s @ drop (off + length s) m)"
  by (simp add: put_input_def)

text \<open>The buffer after a read that leaves \<open>text\<close> at its beginning and a NUL behind it.\<close>

lemma cstring_line:
  assumes "take n input = text" "n < length input" "nul_char \<notin> set text" "k < n" "length text = n"
  shows "takeWhile (\<lambda>c. c \<noteq> nul_char) (input[k := nul_char]) = take k text"
proof -
  have "input[k := nul_char] = take k text @ nul_char # drop (Suc k) input"
    using assms by (auto simp: upd_conv_take_nth_drop min_def)
  moreover have "nul_char \<notin> set (take k text)" using assms(3) by (meson in_set_takeD)
  ultimately show ?thesis by (simp only:) (subst takeWhile_append2, auto)
qed

lemma cstring_all:
  assumes "take n input = text" "n < length input" "nul_char \<notin> set text" "input ! n = nul_char"
  shows "takeWhile (\<lambda>c. c \<noteq> nul_char) input = text"
proof -
  have "input = text @ nul_char # drop (Suc n) input" using assms id_take_nth_drop [of n input] by simp
  then have "takeWhile (\<lambda>c. c \<noteq> nul_char) input = takeWhile (\<lambda>c. c \<noteq> nul_char) (text @ nul_char # drop (Suc n) input)" by simp
  also have "\<dots> = text" using assms(3) by (subst takeWhile_append2) auto
  finally show ?thesis .
qed

lemma sb_len_text: "strbuf_inv b \<Longrightarrow> length (strbuf_text b) = sb_len b"
  by (simp add: strbuf_inv_def strbuf_text_def)

text \<open>What the client table needs of the command interpreter.\<close>

locale responder =
  fixes ready :: bool
    and answer :: "string \<Rightarrow> strbuf option"
    and spec :: "string \<Rightarrow> string \<Rightarrow> bool"
  assumes answer_ok: "ready \<Longrightarrow> \<exists>b. answer c = Some b \<and> strbuf_inv b \<and> spec c (strbuf_text b)"
begin

lemma capped_ok:
  assumes ready
  shows "\<exists>b. (do { r \<leftarrow> answer c; if sb_len r > SERVICE_MAX_RESPONSE then strbuf_assign r response_too_large else Some r }) = Some b \<and>
    strbuf_inv b \<and> sb_len b \<le> SERVICE_MAX_RESPONSE \<and> capped spec c (strbuf_text b)"
proof -
  from answer_ok [OF assms] obtain r where r: "answer c = Some r" "strbuf_inv r" "spec c (strbuf_text r)" by blast
  show ?thesis
  proof (cases "sb_len r > SERVICE_MAX_RESPONSE")
    case True
    from holds_assign [OF r(2), of response_too_large] obtain b where
      b: "strbuf_assign r response_too_large = Some b" "strbuf_inv b" "strbuf_text b = response_too_large" by (auto simp: holds_def)
    moreover have "sb_len b \<le> SERVICE_MAX_RESPONSE" using sb_len_text [OF b(2)] b(3) by (simp add: SERVICE_MAX_RESPONSE_def)
    moreover have "capped spec c response_too_large"
      unfolding capped_def using r True sb_len_text [OF r(2)] by (intro exI [of _ "strbuf_text r"]) simp
    ultimately show ?thesis using r(1) True by (simp only: bind.simps if_True simp_thms) auto
  next
    case False
    then have "capped spec c (strbuf_text r)"
      unfolding capped_def using r sb_len_text [OF r(2)] by (intro exI [of _ "strbuf_text r"]) simp
    with r False show ?thesis by simp
  qed
qed

lemma build_response_ok:
  assumes ready and t: "take n input = text" "n < length input" "input ! n = nul_char" "nul_char \<notin> set text"
    and le: "memchr (CHR 0x0A) text = line_end"
  shows "\<exists>input' b. build_response answer input n line_end = Some (input', b) \<and> length input' = length input \<and>
    strbuf_inv b \<and> sb_len b \<le> SERVICE_MAX_RESPONSE \<and>
    (case line_end of Some k \<Rightarrow> capped spec (take k text) (strbuf_text b)
     | None \<Rightarrow> if n = SERVICE_MAX_REQUEST - 1 then strbuf_text b = request_too_large else capped spec text (strbuf_text b))"
proof (cases line_end)
  case (Some k)
  have "length text = n" using t(1,2) by auto
  with Some memchr_Some [of _ "text" k] le have k: "k < n" by simp
  have c: "takeWhile (\<lambda>c. c \<noteq> nul_char) (input[k := nul_char]) = take k text"
    using t k \<open>length text = n\<close> by (intro cstring_line) auto
  from capped_ok [OF assms(1), of "take k text"] Some c show ?thesis
    by (fastforce simp: build_response_def Let_def split: bind_splits if_splits)
next
  case None
  have c: "takeWhile (\<lambda>c. c \<noteq> nul_char) input = text" using t by (intro cstring_all) auto
  show ?thesis
  proof (cases "n = SERVICE_MAX_REQUEST - 1")
    case True
    from sb.create_total [of "Some request_too_large"] obtain b where
      b: "strbuf_new (Some request_too_large) = Some b" "strbuf_inv b" "strbuf_text b = request_too_large" by auto
    moreover have "sb_len b \<le> SERVICE_MAX_RESPONSE" using sb_len_text [OF b(2)] b(3) by (simp add: SERVICE_MAX_RESPONSE_def)
    ultimately show ?thesis using None True by (simp add: build_response_def Let_def)
  next
    case False
    from capped_ok [OF assms(1), of "text"] None False c show ?thesis
      by (fastforce simp: build_response_def Let_def split: bind_splits if_splits)
  qed
qed

end

interpretation commands: responder "prov_inv cfg p" "service_command bld cfg up p" "\<lambda>line t. answers bld cfg up p (parse_request line) t"
  for bld cfg up p
  by unfold_locales (use service_command_answered in \<open>simp add: answered_def\<close>)

end
