(* ===== verification/Service_Correct.thy ===== *)
theory Service_Correct
  imports Service_Inv
begin

text \<open>
  The client table over all sequences of poll results: every operation returns, no buffer, table
  or array is left, every descriptor that is accepted is closed exactly once, and every client
  goes through the session of its request.
\<close>

section \<open>One client\<close>

text \<open>An operation on client \<open>i\<close>: the invariant holds, the rest of the state and the other clients
  are as before, and the client made steps of its session.\<close>

definition served :: "(string \<Rightarrow> string \<Rightarrow> bool) \<Rightarrow> nat multiset \<Rightarrow> nat \<Rightarrow> 'w daemon \<Rightarrow> 'w daemon \<Rightarrow> bool" where
  "served ans other i d d' \<longleftrightarrow> srv_inv other d' \<and> srv_frame d d' \<and> g_poll_slots d' = g_poll_slots d \<and>
     (\<forall>j. j \<noteq> i \<longrightarrow> g_clients d' ! j = g_clients d ! j) \<and>
     (cl_fd (g_clients d' ! i) = None \<or>
      cl_fd (g_clients d' ! i) = cl_fd (g_clients d ! i) \<and> cl_deadline (g_clients d' ! i) = cl_deadline (g_clients d ! i)) \<and>
     (session_step ans)\<^sup>*\<^sup>* (session_of (g_clients d ! i)) (session_of (g_clients d' ! i))"

lemma served_trans: "served ans other i d d' \<Longrightarrow> served ans other i d' d'' \<Longrightarrow> served ans other i d d''"
  by (auto simp: served_def intro: srv_frame_trans rtranclp_trans)

lemma served_same: "srv_inv other d \<Longrightarrow> same_but_sys d d' \<Longrightarrow> served ans other i d d'"
  by (simp add: served_def srv_inv_same same_srv_frame same_but_sysD)

lemma served_refl: "srv_inv other d \<Longrightarrow> served ans other i d d"
  by (simp add: served_same)

lemma srv_lengths:
  assumes "srv_inv other d" "i < SERVICE_MAX_CLIENTS"
  shows "i < length (g_clients d)" "client_ok (g_clients d ! i)"
  using assms by (auto simp: srv_inv_def table_ok_def)

lemma served_set:
  assumes "srv_inv other d" "i < SERVICE_MAX_CLIENTS" "client_ok cl" "cl_fd cl = cl_fd (g_clients d ! i)"
    "cl_deadline cl = cl_deadline (g_clients d ! i) \<or> cl_fd cl = None"
    "(session_step ans)\<^sup>*\<^sup>* (session_of (g_clients d ! i)) (session_of cl)"
  shows "served ans other i d (set_client i cl d)"
  using assms srv_lengths [OF assms(1,2)] by (auto simp: served_def set_client_inv)

lemma closed_client: "client_ok (zero_client\<lparr>cl_fd := None\<rparr>)" "session_of (zero_client\<lparr>cl_fd := None\<rparr>) = Closed"
  by (simp_all add: client_ok_def session_of_def zero_client_def)

lemma close_client_ok:
  assumes i: "srv_inv other d" "i < SERVICE_MAX_CLIENTS"
  obtains d' where "close_client io i d = Some d'" "served ans other i d d'" "g_clients d' ! i = zero_client\<lparr>cl_fd := None\<rparr>"
proof -
  note l = srv_lengths [OF i]
  let ?z = "zero_client\<lparr>cl_fd := None\<rparr>"
  from i(1) obtain k where k: "g_listener d = Some k" "mset (g_fds d) = add_mset k (other + client_fds (g_clients d))"
    and tab: "table_ok d" by (auto simp: srv_inv_def)
  show ?thesis
  proof (cases "cl_fd (g_clients d ! i)")
    case None
    then have "close_client io i d = Some (set_client i ?z d)" using l by (simp add: close_client_def)
    moreover have "served ans other i d (set_client i ?z d)"
      using None by (intro served_set [OF i closed_client(1)]) (auto simp: closed_client(2) intro: session_step.close)
    ultimately show ?thesis using l that by simp
  next
    case (Some fd)
    note h = client_held(1) [OF i Some]
    obtain d1 where d1: "close_fd io fd d = Some d1" "same_but_sys (d\<lparr>g_fds := remove1 fd (g_fds d)\<rparr>) d1"
      by (rule close_fd_ok [OF h])
    note s = same_but_sysD [OF d1(2)]
    have "mset (g_fds d1) = add_mset k (other + client_fds (g_clients d)) - {#fd#}" using s(9) k(2) by simp
    also have "\<dots> = add_mset k (other + client_fds ((g_clients d)[i := ?z]))"
      using client_fds_split [OF l(1)] client_fds_update [OF l(1), of ?z] Some by simp
    finally have m: "mset (g_fds d1) = add_mset k (other + client_fds ((g_clients d)[i := ?z]))" .
    have "table_ok d1" using tab table_same [OF d1(2)] by (simp add: table_ok_def)
    then have "srv_inv other (set_client i ?z d1)"
      using table_update [OF _ i(2) closed_client(1), of d1] m k(1) s by (simp add: srv_inv_def)
    moreover have "srv_frame d (set_client i ?z d1)" using same_srv_frame [OF d1(2)] by simp
    ultimately have "served ans other i d (set_client i ?z d1)"
      using s l by (auto simp: served_def closed_client(2) intro: session_step.close)
    moreover have "close_client io i d = Some (set_client i ?z d1)" using l Some d1(1) by (simp add: close_client_def)
    ultimately show ?thesis using l s that by simp
  qed
qed


text \<open>What a read leaves in the buffer.\<close>

lemma read_buffer:
  assumes "length m = SERVICE_MAX_REQUEST" "n + length got \<le> SERVICE_MAX_REQUEST - 1"
  obtains m' where "put_input m n got \<bind> (\<lambda>m1. put_input m1 (n + length got) [nul_char]) = Some m'"
    "length m' = SERVICE_MAX_REQUEST" "take (n + length got) m' = take n m @ got" "m' ! (n + length got) = nul_char"
proof -
  let ?m1 = "take n m @ got @ drop (n + length got) m"
  let ?m2 = "take n m @ got @ nul_char # drop (Suc (n + length got)) m"
  have l: "n + length got < length m" using assms by (simp add: SERVICE_MAX_REQUEST_def)
  then have 1: "put_input m n got = Some ?m1" by (intro put_input_ok) simp
  have "put_input ?m1 (n + length got) [nul_char] = Some ?m2" using l by (simp add: put_input_ok min_def)
  with 1 have "put_input m n got \<bind> (\<lambda>m1. put_input m1 (n + length got) [nul_char]) = Some ?m2" by simp
  moreover have "length ?m2 = SERVICE_MAX_REQUEST" using l assms(1) by simp
  moreover have "take (n + length got) ?m2 = take n m @ got" "?m2 ! (n + length got) = nul_char"
    using l by (simp_all add: nth_append min_def)
  ultimately show ?thesis by (rule that)
qed

lemma take_length_split: "take k xs @ xs ! k # drop (Suc k) xs = xs" if "k < length xs"
  using id_take_nth_drop [OF that] by simp

text \<open>Data that was read: \<open>m\<close> is the buffer after it.\<close>

definition arrived :: "client \<Rightarrow> string \<Rightarrow> string \<Rightarrow> bool" where
  "arrived cl got m \<longleftrightarrow> client_ok cl \<and> cl_fd cl \<noteq> None \<and> cl_response cl = None \<and>
     length got \<le> SERVICE_MAX_REQUEST - 1 - cl_used cl \<and> length m = SERVICE_MAX_REQUEST \<and>
     take (cl_used cl + length got) m = take (cl_used cl) (cl_input cl) @ got \<and> m ! (cl_used cl + length got) = nul_char"

lemma arrived_bounds:
  assumes "arrived cl got m"
  shows "cl_used cl + length got \<le> SERVICE_MAX_REQUEST - 1" "cl_used cl + length got < length m" "cl_sent cl = 0"
    "length (take (cl_used cl) (cl_input cl)) = cl_used cl" "session_of cl = Reading (take (cl_used cl) (cl_input cl))"
proof -
  from assms have u: "cl_used cl < SERVICE_MAX_REQUEST - 1" "cl_sent cl = 0" "length (cl_input cl) = SERVICE_MAX_REQUEST"
    by (auto simp: arrived_def client_ok_def)
  with assms show "cl_used cl + length got \<le> SERVICE_MAX_REQUEST - 1" "cl_used cl + length got < length m" "cl_sent cl = 0"
    "length (take (cl_used cl) (cl_input cl)) = cl_used cl" "session_of cl = Reading (take (cl_used cl) (cl_input cl))"
    by (auto simp: arrived_def session_of_def)
qed

lemma read_more:
  assumes a: "arrived cl got m" and nn: "nul_char \<notin> set (take (cl_used cl) (cl_input cl) @ got)"
    and nl: "CHR 0x0A \<notin> set (take (cl_used cl) (cl_input cl) @ got)"
    and more: "got \<noteq> []" "cl_used cl + length got \<noteq> SERVICE_MAX_REQUEST - 1"
  shows "client_ok (cl\<lparr>cl_input := m, cl_used := cl_used cl + length got\<rparr>)"
    "session_step ans (session_of cl) (session_of (cl\<lparr>cl_input := m, cl_used := cl_used cl + length got\<rparr>))"
proof -
  note b = arrived_bounds [OF a]
  show "client_ok (cl\<lparr>cl_input := m, cl_used := cl_used cl + length got\<rparr>)"
    using a b more by (auto simp: arrived_def client_ok_def)
  have "session_of (cl\<lparr>cl_input := m, cl_used := cl_used cl + length got\<rparr>) = Reading (take (cl_used cl) (cl_input cl) @ got)"
    using a by (auto simp: arrived_def session_of_def)
  moreover have "session_step ans (session_of cl) (Reading (take (cl_used cl) (cl_input cl) @ got))"
    unfolding b(5) using more b(1,4) by (intro session_step.more [OF nn nl]) auto
  ultimately show "session_step ans (session_of cl) (session_of (cl\<lparr>cl_input := m, cl_used := cl_used cl + length got\<rparr>))" by simp
qed

lemma read_complete:
  assumes a: "arrived cl got m" and p: "prov_inv cfg p" and nn: "nul_char \<notin> set (take (cl_used cl) (cl_input cl) @ got)"
    and le: "memchr (CHR 0x0A) (take (cl_used cl) (cl_input cl) @ got) = line_end"
    and fin: "line_end \<noteq> None \<or> got = [] \<or> cl_used cl + length got = SERVICE_MAX_REQUEST - 1"
  obtains m' b where "build_response (service_command bld cfg up p) m (cl_used cl + length got) line_end = Some (m', b)"
    "client_ok (cl\<lparr>cl_input := m', cl_used := cl_used cl + length got, cl_response := Some b\<rparr>)"
    "session_step (reply bld cfg p) (session_of cl)
       (session_of (cl\<lparr>cl_input := m', cl_used := cl_used cl + length got, cl_response := Some b\<rparr>))"
proof -
  let ?n = "cl_used cl + length got" and ?t = "take (cl_used cl) (cl_input cl)"
  let ?ans = "\<lambda>l t. answers bld cfg up p (parse_request l) t"
  note n = arrived_bounds [OF a]
  from a have m: "take ?n m = ?t @ got" "m ! ?n = nul_char" "length m = SERVICE_MAX_REQUEST" by (auto simp: arrived_def)
  have rep: "reply bld cfg p l t" if "capped ?ans l t" for l t unfolding reply_def using that by blast
  from commands.build_response_ok [OF p m(1) n(2) m(2) nn le, of bld up] m(3) obtain m' b where
    b: "build_response (service_command bld cfg up p) m ?n line_end = Some (m', b)" "length m' = SERVICE_MAX_REQUEST"
      "strbuf_inv b" "sb_len b \<le> SERVICE_MAX_RESPONSE"
      "case line_end of Some k \<Rightarrow> capped ?ans (take k (?t @ got)) (strbuf_text b)
       | None \<Rightarrow> if ?n = SERVICE_MAX_REQUEST - 1 then strbuf_text b = request_too_large else capped ?ans (?t @ got) (strbuf_text b)"
    by auto
  let ?cl = "cl\<lparr>cl_input := m', cl_used := ?n, cl_response := Some b\<rparr>"
  have "session_step (reply bld cfg p) (Reading ?t) (Answering (strbuf_text b) (strbuf_text b))"
  proof (cases line_end)
    case (Some k)
    with le memchr_Some have k: "k < length (?t @ got)" "(?t @ got) ! k = CHR 0x0A" "CHR 0x0A \<notin> set (take k (?t @ got))" by blast+
    show ?thesis
      by (rule session_step.line [OF nn _ k(3), of "drop (Suc k) (?t @ got)"])
        (use take_length_split [OF k(1)] k(2) b(5) Some rep in auto)
  next
    case None
    with le have nl: "CHR 0x0A \<notin> set (?t @ got)" by (simp add: memchr_None)
    show ?thesis
    proof (cases "?n = SERVICE_MAX_REQUEST - 1")
      case True
      with b(5) None have t: "strbuf_text b = request_too_large" by simp
      show ?thesis unfolding t by (rule session_step.overlong [OF nn nl]) (simp only: length_append n(4) True)
    next
      case False
      with fin None have "got = []" by simp
      with nn nl b(5) None False rep show ?thesis by (intro session_step.eof) auto
    qed
  qed
  moreover have "client_ok ?cl" "session_of ?cl = Answering (strbuf_text b) (strbuf_text b)"
    using a b n by (auto simp: arrived_def client_ok_def session_of_def)
  ultimately show ?thesis using that b(1) n(5) by simp
qed


lemma tunnel_text_sys [simp]: "tunnel_text (p\<lparr>p_sys := s\<rparr>) = tunnel_text p"
  by (simp add: fun_eq_iff tunnel_text_def)

lemma answers_sys: "answers bld cfg up (p\<lparr>p_sys := s\<rparr>) req t = answers bld cfg up p req t"
  by (cases req) (simp_all cong: option.case_cong)

lemma reply_sys [simp]: "reply bld cfg (p\<lparr>p_sys := s\<rparr>) = reply bld cfg p"
  by (simp add: fun_eq_iff reply_def capped_def answers_sys)

lemma frame_prov: "srv_frame d d' \<Longrightarrow> prov_inv cfg (g_prov d') = prov_inv cfg (g_prov d)" "srv_frame d d' \<Longrightarrow> reply bld cfg (g_prov d') = reply bld cfg (g_prov d)"
  by (auto simp: srv_frame_def)

lemma sys_call_clients: "sys_call f (d\<lparr>g_clients := c\<rparr>) = map_prod (\<lambda>r. r) (\<lambda>d. d\<lparr>g_clients := c\<rparr>) (sys_call f d)"
  by (cases "f (s_world (g_sys d))"; cases "fst (f (s_world (g_sys d)))") (auto simp: sys_call_def)

lemma close_client_set:
  assumes "i < length (g_clients d)" "cl_fd cl = cl_fd (g_clients d ! i)"
  shows "close_client io i (set_client i cl d) = close_client io i d"
proof (cases "cl_fd cl")
  case None
  with assms show ?thesis by (simp add: close_client_def)
next
  case (Some fd)
  let ?c = "(g_clients d)[i := cl]" and ?d = "d\<lparr>g_fds := remove1 fd (g_fds d)\<rparr>"
  obtain r d' where c: "sys_call (io_close io fd) ?d = (r, d')" by fastforce
  have "set_client i cl d\<lparr>g_fds := remove1 fd (g_fds d)\<rparr> = ?d\<lparr>g_clients := ?c\<rparr>" by simp
  then have e: "sys_call (io_close io fd) (set_client i cl d\<lparr>g_fds := remove1 fd (g_fds d)\<rparr>) = (r, d'\<lparr>g_clients := ?c\<rparr>)"
    by (simp only: sys_call_clients c map_prod_simp)
  have "g_clients d' = g_clients d" using same_but_sysD(2) [OF sys_call_same [OF c]] by simp
  moreover have "cl_fd (g_clients d ! i) = Some fd" using Some assms(2) by simp
  ultimately show ?thesis using assms(1) Some c e by (simp add: close_client_def close_fd_def)
qed

lemma take_input_ok:
  assumes i: "srv_inv other d" "i < SERVICE_MAX_CLIENTS" and p: "prov_inv cfg (g_prov d)"
    and fd: "cl_fd (g_clients d ! i) \<noteq> None" and r: "cl_response (g_clients d ! i) = None"
    and g: "length got \<le> SERVICE_MAX_REQUEST - 1 - cl_used (g_clients d ! i)"
  shows "\<exists>skip d'. take_input io bld cfg i got d = Some (skip, d') \<and> served (reply bld cfg (g_prov d)) other i d d'"
proof -
  let ?cl = "g_clients d ! i"
  note l = srv_lengths [OF i]
  then have "length (cl_input ?cl) = SERVICE_MAX_REQUEST" "cl_used ?cl + length got \<le> SERVICE_MAX_REQUEST - 1"
    using fd r g by (auto simp: client_ok_def)
  then obtain m where m: "put_input (cl_input ?cl) (cl_used ?cl) got \<bind> (\<lambda>m1. put_input m1 (cl_used ?cl + length got) [nul_char]) = Some m"
    "length m = SERVICE_MAX_REQUEST" "take (cl_used ?cl + length got) m = take (cl_used ?cl) (cl_input ?cl) @ got"
    "m ! (cl_used ?cl + length got) = nul_char" by (rule read_buffer)
  then obtain m1 where m1: "put_input (cl_input ?cl) (cl_used ?cl) got = Some m1" "put_input m1 (cl_used ?cl + length got) [nul_char] = Some m"
    by (auto simp: bind_eq_Some_conv)
  have a: "arrived ?cl got m" using l(2) fd r g m by (simp add: arrived_def)
  let ?n = "cl_used ?cl + length got" and ?t = "take (cl_used ?cl) (cl_input ?cl) @ got" and ?up = "io_uptime io (s_world (g_sys d))"
  let ?cl1 = "?cl\<lparr>cl_input := m, cl_used := ?n\<rparr>" and ?e = "memchr (CHR 0x0A) ?t"
  note ti = take_input_def [of io bld cfg i got d] Let_def m1 m(3)
  show ?thesis
  proof (cases "nul_char \<in> set ?t")
    case True
    obtain d2 where d2: "close_client io i d = Some d2" "served (reply bld cfg (g_prov d)) other i d d2"
      by (rule close_client_ok [OF i])
    have "close_client io i (set_client i ?cl1 d) = Some d2" using close_client_set [OF l(1), of ?cl1 io] d2(1) by simp
    with True d2(2) show ?thesis by (auto simp: ti memchr_None)
  next
    case nn: False
    then have nn': "memchr nul_char ?t = None" by (simp only: memchr_None simp_thms)
    show ?thesis
    proof (cases "?e \<noteq> None \<or> got = [] \<or> ?n = SERVICE_MAX_REQUEST - 1")
      case True
      obtain m' b where b: "build_response (service_command bld cfg ?up (g_prov d)) m ?n ?e = Some (m', b)"
        "client_ok (?cl\<lparr>cl_input := m', cl_used := ?n, cl_response := Some b\<rparr>)"
        "session_step (reply bld cfg (g_prov d)) (session_of ?cl) (session_of (?cl\<lparr>cl_input := m', cl_used := ?n, cl_response := Some b\<rparr>))"
        by (rule read_complete [OF a p nn refl True])
      then have "served (reply bld cfg (g_prov d)) other i d (set_client i (?cl\<lparr>cl_input := m', cl_used := ?n, cl_response := Some b\<rparr>) d)"
        by (intro served_set [OF i]) auto
      with nn' True b(1) show ?thesis by (simp add: ti) blast
    next
      case False
      then have nl: "CHR 0x0A \<notin> set ?t" by (auto simp: memchr_None simp del: set_append)
      have "served (reply bld cfg (g_prov d)) other i d (set_client i ?cl1 d)"
        using read_more [OF a nn nl] False by (intro served_set [OF i]) auto
      with nn' False show ?thesis by (simp add: ti) blast
    qed
  qed
qed

lemma read_client_ok:
  assumes io: "io_ok io" and i: "srv_inv other d" "i < SERVICE_MAX_CLIENTS" and p: "prov_inv cfg (g_prov d)"
    and fd: "cl_fd (g_clients d ! i) = Some fd" and r: "cl_response (g_clients d ! i) = None"
  shows "\<exists>skip d'. read_client io bld cfg i d = Some (skip, d') \<and> served (reply bld cfg (g_prov d)) other i d d'"
proof -
  let ?cl = "g_clients d ! i"
  obtain res d1 where c: "sys_call (io_recv io fd (SERVICE_MAX_REQUEST - 1 - cl_used ?cl)) d = (res, d1)" by fastforce
  note s = sys_call_same [OF c] and h = client_held(2) [OF i fd]
  note s1 = served_same [OF i(1) s, of _ i] and i1 = srv_inv_same [OF i(1) s] and g1 = same_but_sysD [OF s]
  have p1: "prov_inv cfg (g_prov d1)" "reply bld cfg (g_prov d1) = reply bld cfg (g_prov d)"
    using frame_prov [OF same_srv_frame [OF s]] p by auto
  show ?thesis
  proof (cases res)
    case (Inl e)
    obtain d2 where "close_client io i d1 = Some d2" "served (reply bld cfg (g_prov d)) other i d1 d2"
      by (rule close_client_ok [OF i1 i(2)])
    then show ?thesis using c Inl h fd s1 served_trans [OF s1] by (auto simp: read_client_def)
  next
    case (Inr got)
    from recv_bound [OF io c [unfolded Inr]] take_input_ok [OF i1 i(2) p1(1), of got io bld] fd r g1(2) p1(2)
    obtain skip d2 where "take_input io bld cfg i got d1 = Some (skip, d2)" "served (reply bld cfg (g_prov d)) other i d1 d2" by auto
    with c Inr h fd served_trans [OF s1] show ?thesis by (auto simp: read_client_def)
  qed
qed

lemma write_client_ok:
  assumes io: "io_ok io" and i: "srv_inv other d" "i < SERVICE_MAX_CLIENTS"
    and fd: "cl_fd (g_clients d ! i) = Some fd" and r: "cl_response (g_clients d ! i) = Some b"
  shows "\<exists>skip d'. write_client io i d = Some (skip, d') \<and> served ans other i d d'"
proof -
  let ?cl = "g_clients d ! i"
  let ?r = "drop (cl_sent ?cl) (strbuf_text b)"
  note l = srv_lengths [OF i]
  from l(2) fd r have b: "strbuf_inv b" "cl_sent ?cl \<le> sb_len b" "length (strbuf_text b) = sb_len b"
    by (auto simp: client_ok_def sb_len_text)
  obtain res d1 where c: "sys_call (io_send io fd ?r) d = (res, d1)" by fastforce
  note s = sys_call_same [OF c] and h = client_held(2) [OF i fd]
  note s1 = served_same [OF i(1) s, of ans i] and i1 = srv_inv_same [OF i(1) s] and g1 = same_but_sysD [OF s]
  note wc = write_client_def [of io i d] Let_def h fd r c
  obtain d2 where d2: "close_client io i d1 = Some d2" "served ans other i d1 d2" by (rule close_client_ok [OF i1 i(2)])
  note s2 = served_trans [OF s1 d2(2)]
  show ?thesis
  proof (cases res)
    case (Inl e)
    then show ?thesis using b(2) d2(1) s1 s2 by (auto simp: wc)
  next
    case (Inr n)
    from send_bound [OF io c [unfolded Inr]] b have n: "cl_sent ?cl + n \<le> sb_len b" by simp
    let ?cl1 = "?cl\<lparr>cl_sent := cl_sent ?cl + n\<rparr>"
    have "close_client io i (set_client i ?cl1 d1) = Some d2"
      using close_client_set [of i d1 ?cl1 io] d2(1) l(1) g1(2) by simp
    moreover have "served ans other i d1 (set_client i ?cl1 d1)" if "n \<noteq> 0" "cl_sent ?cl + n \<noteq> sb_len b"
    proof (rule served_set [OF i1 i(2)])
      show "client_ok ?cl1" using l(2) fd r n by (auto simp: client_ok_def)
      have "session_of ?cl1 = Answering (strbuf_text b) (drop n ?r)" using fd r by (simp add: session_of_def add.commute)
      moreover have "session_step ans (Answering (strbuf_text b) ?r) (Answering (strbuf_text b) (drop n ?r))"
        using that n b by (intro session_step.send) auto
      ultimately show "(session_step ans)\<^sup>*\<^sup>* (session_of (g_clients d1 ! i)) (session_of ?cl1)"
        using fd r g1(2) by (auto simp: session_of_def)
    qed (use g1(2) in simp_all)
    ultimately show ?thesis using Inr b(2) d2(1) s2 served_trans [OF s1] by (auto simp: wc)
  qed
qed


lemma served_client: "served ans other i d d' \<Longrightarrow> i < SERVICE_MAX_CLIENTS \<Longrightarrow> client_ok (g_clients d' ! i)"
  by (simp add: served_def srv_inv_def table_ok_def)

lemma serve_client_ok:
  assumes io: "io_ok io" and i: "srv_inv other d" "i < SERVICE_MAX_CLIENTS" and p: "prov_inv cfg (g_prov d)"
    and fd: "cl_fd (g_clients d ! i) \<noteq> None"
  shows "\<exists>d'. serve_client io bld cfg now i events d = Some d' \<and> served (reply bld cfg (g_prov d)) other i d d' \<and>
    (cl_fd (g_clients d' ! i) = None \<or> now < cl_deadline (g_clients d ! i))"
proof (cases "now \<ge> cl_deadline (g_clients d ! i) \<or> flag events (POLLERR OR POLLNVAL)")
  case True
  obtain d' where "close_client io i d = Some d'" "served (reply bld cfg (g_prov d)) other i d d'"
    "g_clients d' ! i = zero_client\<lparr>cl_fd := None\<rparr>" by (rule close_client_ok [OF i])
  with True srv_lengths [OF i] show ?thesis by (simp add: serve_client_def)
next
  case False
  let ?S = "served (reply bld cfg (g_prov d)) other i"
  let ?rd = "if cl_response (g_clients d ! i) = None \<and> flag events (POLLIN OR POLLHUP) then read_client io bld cfg i d else Some (False, d)"
  from fd obtain f where f: "cl_fd (g_clients d ! i) = Some f" by blast
  have "\<exists>skip d1. ?rd = Some (skip, d1) \<and> ?S d d1"
    using read_client_ok [OF io i p f, of bld] served_refl [OF i(1)] by auto
  then obtain skip1 d1 where 1: "?rd = Some (skip1, d1)" "?S d d1" by blast
  let ?wr = "if cl_response (g_clients d1 ! i) \<noteq> None \<and> flag events (POLLOUT OR POLLHUP) then write_client io i d1 else Some (False, d1)"
  have i1: "srv_inv other d1" using 1(2) by (simp add: served_def)
  have "\<exists>skip d2. ?wr = Some (skip, d2) \<and> ?S d1 d2"
  proof (cases "cl_response (g_clients d1 ! i)")
    case (Some b)
    then obtain f1 where "cl_fd (g_clients d1 ! i) = Some f1"
      using served_client [OF 1(2) i(2)] by (cases "cl_fd (g_clients d1 ! i)") (auto simp: client_ok_def)
    from write_client_ok [OF io i1 i(2) this Some] served_refl [OF i1] show ?thesis using Some by auto
  qed (use served_refl [OF i1] in auto)
  then obtain skip2 d2 where 2: "?wr = Some (skip2, d2)" "?S d1 d2" by blast
  have i2: "srv_inv other d2" using 2(2) by (simp add: served_def)
  obtain d3 where 3: "close_client io i d2 = Some d3" "?S d2 d3" by (rule close_client_ok [OF i2 i(2)])
  note s2 = served_trans [OF 1(2) 2(2)]
  note s3 = served_trans [OF s2 3(2)]
  have "serve_client io bld cfg now i events d =
    (if skip1 then Some d1 else if skip2 then Some d2
     else case cl_response (g_clients d2 ! i) of None \<Rightarrow> Some d2
       | Some response \<Rightarrow> if sb_len response = 0 then close_client io i d2 else Some d2)"
    using False srv_lengths(1) [OF i] 1(1) 2(1) by (simp add: serve_client_def)
  then show ?thesis using False 1(2) s2 s3 3(1) by (cases "cl_response (g_clients d2 ! i)") (simp_all add: not_le)
qed

section \<open>The poll entries\<close>

text \<open>The slots that were entered, in order.\<close>

definition polled :: "'w daemon \<Rightarrow> nat list" where
  "polled d = filter (\<lambda>i. cl_fd (g_clients d ! i) \<noteq> None) [0..<g_limit d]"

definition client_entry :: "client \<Rightarrow> pollfd" where
  "client_entry cl = \<lparr>pf_fd = the (cl_fd cl), pf_events = (if cl_response cl \<noteq> None then POLLOUT else POLLIN), pf_revents = 0\<rparr>"

lemma collect_clients_ok:
  assumes "length (g_clients d) = SERVICE_MAX_CLIENTS" "length (g_poll_slots d) = SERVICE_MAX_CLIENTS" "fds \<noteq> []"
    "length fds - 1 + length is \<le> SERVICE_MAX_CLIENTS" "\<forall>i \<in> set is. i < SERVICE_MAX_CLIENTS"
  shows "\<exists>q. collect_clients is fds d =
      Some (fds @ map (\<lambda>i. client_entry (g_clients d ! i)) (filter (\<lambda>i. cl_fd (g_clients d ! i) \<noteq> None) is), d\<lparr>g_poll_slots := q\<rparr>) \<and>
    length q = SERVICE_MAX_CLIENTS \<and> take (length fds - 1) q = take (length fds - 1) (g_poll_slots d) \<and>
    (\<forall>n < length (filter (\<lambda>i. cl_fd (g_clients d ! i) \<noteq> None) is).
       q ! (length fds - 1 + n) = filter (\<lambda>i. cl_fd (g_clients d ! i) \<noteq> None) is ! n)"
  using assms
proof (induction "is" arbitrary: fds d)
  case Nil
  have "d = d\<lparr>g_poll_slots := g_poll_slots d\<rparr>" by simp
  with Nil show ?case by (auto intro!: exI [of _ "g_poll_slots d"])
next
  case (Cons i "is")
  let ?f = "filter (\<lambda>i. cl_fd (g_clients d ! i) \<noteq> None) is" and ?k = "length fds - 1"
  show ?case
  proof (cases "cl_fd (g_clients d ! i)")
    case None
    with Cons.prems Cons.IH [of d fds] show ?thesis by simp
  next
    case (Some fd)
    let ?fds = "fds @ [client_entry (g_clients d ! i)]" and ?d = "d\<lparr>g_poll_slots := (g_poll_slots d)[?k := i]\<rparr>"
    have k: "?k < SERVICE_MAX_CLIENTS" "length ?fds - 1 = Suc ?k" "Suc ?k = length fds" "length fds + length is \<le> SERVICE_MAX_CLIENTS"
      using Cons.prems by (auto simp: neq_Nil_conv)
    from Cons.IH [of ?d ?fds] Cons.prems k obtain q where q:
      "collect_clients is ?fds ?d = Some (?fds @ map (\<lambda>i. client_entry (g_clients d ! i)) ?f, d\<lparr>g_poll_slots := q\<rparr>)"
      "length q = SERVICE_MAX_CLIENTS" "take (Suc ?k) q = take (Suc ?k) ((g_poll_slots d)[?k := i])"
      "\<forall>n < length ?f. q ! (Suc ?k + n) = ?f ! n" by auto
    have "q ! ?k = i" "take ?k q = take ?k (g_poll_slots d)"
      using q(2,3) k Cons.prems(2) by (simp_all add: take_Suc_conv_app_nth)
    moreover have "collect_clients (i # is) fds d = collect_clients is ?fds ?d"
      using Some Cons.prems k by (simp add: client_entry_def)
    moreover have "q ! (?k + n) = (i # ?f) ! n" if "n < Suc (length ?f)" for n
      using that q(4) \<open>q ! ?k = i\<close> by (cases n) auto
    ultimately show ?thesis using Some q(1,2) by (intro exI [of _ q]) simp
  qed
qed

lemma service_pollfds_ok:
  assumes "srv_inv other d"
  obtains l q where "g_listener d = Some l" "service_pollfds d = Some
      (\<lparr>pf_fd = l, pf_events = POLLIN, pf_revents = 0\<rparr> # map (\<lambda>i. client_entry (g_clients d ! i)) (polled d), d\<lparr>g_poll_slots := q\<rparr>)"
    "length q = SERVICE_MAX_CLIENTS" "\<forall>n < length (polled d). q ! n = polled d ! n" "srv_inv other (d\<lparr>g_poll_slots := q\<rparr>)"
proof -
  from assms obtain l where l: "g_listener d = Some l" and t: "table_ok d" by (auto simp: srv_inv_def)
  from collect_clients_ok [of d "[\<lparr>pf_fd = l, pf_events = POLLIN, pf_revents = 0\<rparr>]" "[0..<g_limit d]"] t
  obtain q where q: "service_pollfds d = Some
      (\<lparr>pf_fd = l, pf_events = POLLIN, pf_revents = 0\<rparr> # map (\<lambda>i. client_entry (g_clients d ! i)) (polled d), d\<lparr>g_poll_slots := q\<rparr>)"
    "length q = SERVICE_MAX_CLIENTS" "\<forall>n < length (polled d). q ! n = polled d ! n"
    using l by (auto simp: service_pollfds_def polled_def table_ok_def)
  moreover have "srv_inv other (d\<lparr>g_poll_slots := q\<rparr>)" using assms q(2) by (simp add: srv_inv_def table_ok_def)
  ultimately show ?thesis using l that by blast
qed


section \<open>A round of the loop\<close>

text \<open>The clients after a round: each made steps of its session, the ones that are open have not
  reached their deadline, and a deadline is the one of before or five seconds from now.\<close>

definition progressed :: "(string \<Rightarrow> string \<Rightarrow> bool) \<Rightarrow> int \<Rightarrow> client \<Rightarrow> client \<Rightarrow> bool" where
  "progressed ans now cl cl' \<longleftrightarrow> (session_step ans)\<^sup>*\<^sup>* (session_of cl) (session_of cl') \<and>
     (cl_fd cl' = None \<or>
      now < cl_deadline cl' \<and> (cl_deadline cl' = now + 5 * USEC_PER_SEC \<or> cl_fd cl' = cl_fd cl \<and> cl_deadline cl' = cl_deadline cl))"

lemma serve_clients_ok:
  assumes io: "io_ok io" and "srv_inv other d" "prov_inv cfg (g_prov d)" "length ps = length slots" "0 < n"
    "n - 1 + length ps \<le> SERVICE_MAX_CLIENTS" "\<forall>j < length slots. g_poll_slots d ! (n - 1 + j) = slots ! j"
    "distinct slots" "\<forall>i \<in> set slots. i < SERVICE_MAX_CLIENTS \<and> cl_fd (g_clients d ! i) \<noteq> None"
  shows "\<exists>d'. serve_clients io bld cfg now n ps d = Some d' \<and> srv_inv other d' \<and> srv_frame d d' \<and>
    (\<forall>i. i \<notin> set slots \<longrightarrow> g_clients d' ! i = g_clients d ! i) \<and>
    (\<forall>i \<in> set slots. progressed (reply bld cfg (g_prov d)) now (g_clients d ! i) (g_clients d' ! i))"
  using assms(2-)
proof (induction ps arbitrary: n d slots)
  case Nil
  then show ?case by simp
next
  case (Cons p ps)
  then obtain i rest where s: "slots = i # rest" by (cases slots) auto
  have i: "i < SERVICE_MAX_CLIENTS" "cl_fd (g_clients d ! i) \<noteq> None" using Cons.prems(8) s by auto
  have q: "g_poll_slots d ! (n - 1) = i" "n - 1 < length (g_poll_slots d)"
    using Cons.prems(1,5,6) s by (auto simp: srv_inv_def table_ok_def)
  from serve_client_ok [OF io Cons.prems(1) i(1) Cons.prems(2) i(2), of bld now "pf_revents p"] obtain d1 where
    d1: "serve_client io bld cfg now i (pf_revents p) d = Some d1" "served (reply bld cfg (g_prov d)) other i d d1"
      "cl_fd (g_clients d1 ! i) = None \<or> now < cl_deadline (g_clients d ! i)" by blast
  from d1(2) have 1: "srv_inv other d1" "srv_frame d d1" "g_poll_slots d1 = g_poll_slots d" "\<forall>j. j \<noteq> i \<longrightarrow> g_clients d1 ! j = g_clients d ! j"
    by (simp_all add: served_def)
  note fp = frame_prov [OF 1(2)]
  have "\<exists>d'. serve_clients io bld cfg now (n + 1) ps d1 = Some d' \<and> srv_inv other d' \<and> srv_frame d1 d' \<and>
    (\<forall>i. i \<notin> set rest \<longrightarrow> g_clients d' ! i = g_clients d1 ! i) \<and>
    (\<forall>i \<in> set rest. progressed (reply bld cfg (g_prov d1)) now (g_clients d1 ! i) (g_clients d' ! i))"
  proof (rule Cons.IH)
    show "\<forall>j < length rest. g_poll_slots d1 ! (n + 1 - 1 + j) = rest ! j"
    proof (intro allI impI)
      fix j assume "j < length rest"
      with Cons.prems(6) [rule_format, of "Suc j"] s Cons.prems(4) show "g_poll_slots d1 ! (n + 1 - 1 + j) = rest ! j" by (simp add: 1(3))
    qed
    show "\<forall>j \<in> set rest. j < SERVICE_MAX_CLIENTS \<and> cl_fd (g_clients d1 ! j) \<noteq> None"
      using Cons.prems(7,8) s 1(4) by (metis distinct.simps(2) list.set_intros(2))
  qed (use Cons.prems s 1(1) fp(1) in auto)
  then obtain d' where d': "serve_clients io bld cfg now (n + 1) ps d1 = Some d'" "srv_inv other d'" "srv_frame d1 d'"
    "\<forall>j. j \<notin> set rest \<longrightarrow> g_clients d' ! j = g_clients d1 ! j"
    "\<forall>j \<in> set rest. progressed (reply bld cfg (g_prov d)) now (g_clients d1 ! j) (g_clients d' ! j)" using fp(2) by auto
  have ni: "i \<notin> set rest" using Cons.prems(7) s by simp
  have "progressed (reply bld cfg (g_prov d)) now (g_clients d ! i) (g_clients d1 ! i)"
    using d1(2,3) by (auto simp: served_def progressed_def)
  then have "\<forall>j \<in> set slots. progressed (reply bld cfg (g_prov d)) now (g_clients d ! j) (g_clients d' ! j)"
    using d'(4,5) 1(4) ni s by (metis set_ConsD)
  moreover have "\<forall>j. j \<notin> set slots \<longrightarrow> g_clients d' ! j = g_clients d ! j" using d'(4) 1(4) s by simp
  ultimately show ?case using d1(1) d' q srv_frame_trans [OF 1(2) d'(3)] by (intro exI [of _ d']) simp
qed

text \<open>Accepting: a new connection takes a free slot or is closed at once.\<close>

definition accepted :: "int \<Rightarrow> client \<Rightarrow> client \<Rightarrow> bool" where
  "accepted now cl cl' \<longleftrightarrow> cl' = cl \<or> cl_fd cl = None \<and> cl_fd cl' \<noteq> None \<and> session_of cl' = Reading [] \<and> cl_deadline cl' = now + 5 * USEC_PER_SEC"

lemma accept_slot:
  assumes inv: "srv_inv other d" and sb: "same_but_sys d d1"
    and slot: "slot = length (takeWhile (\<lambda>cl. cl_fd cl \<noteq> None) (take (g_limit d) (g_clients d)))" "slot \<noteq> g_limit d"
    and cl: "cl = (g_clients d ! slot)\<lparr>cl_fd := Some fd, cl_deadline := now + 5 * USEC_PER_SEC\<rparr>"
  shows "srv_inv other (set_client slot cl (d1\<lparr>g_fds := fd # g_fds d\<rparr>))" "accepted now (g_clients d ! slot) cl" "slot < length (g_clients d)"
proof -
  note s = same_but_sysD [OF sb]
  from inv have t: "table_ok d" by (simp add: srv_inv_def)
  then have l: "length (g_clients d) = SERVICE_MAX_CLIENTS" "g_limit d \<le> SERVICE_MAX_CLIENTS" by (auto simp: table_ok_def)
  have "slot \<le> length (take (g_limit d) (g_clients d))" unfolding slot(1) by (rule length_takeWhile_le)
  with slot(2) l have sl: "slot < g_limit d" "slot < SERVICE_MAX_CLIENTS" by auto
  then show "slot < length (g_clients d)" by (simp add: l)
  have free: "cl_fd (g_clients d ! slot) = None"
    using nth_length_takeWhile [of "\<lambda>cl. cl_fd cl \<noteq> None" "take (g_limit d) (g_clients d)"] sl(1) l unfolding slot(1) [symmetric] by simp
  have ok: "client_ok (g_clients d ! slot)" using t sl(2) by (simp add: table_ok_def)
  then have cok: "client_ok cl" using free by (simp add: cl client_ok_def SERVICE_MAX_REQUEST_def)
  show "accepted now (g_clients d ! slot) cl" using ok free by (simp add: accepted_def cl session_of_def client_ok_def)
  have "client_fds ((g_clients d)[slot := cl]) = add_mset fd (client_fds (g_clients d))"
    using client_fds_split [of slot "g_clients d"] client_fds_update [of slot "g_clients d" cl] free sl l by (simp add: cl)
  moreover have "table_ok (set_client slot cl (d1\<lparr>g_fds := fd # g_fds d\<rparr>))"
    using table_update [OF _ sl(2) cok, of d1] t table_same [OF sb] sl(1) s(4) by (simp add: table_ok_def)
  ultimately show "srv_inv other (set_client slot cl (d1\<lparr>g_fds := fd # g_fds d\<rparr>))"
    using inv s by (auto simp: srv_inv_def)
qed

lemma accept_clients_ok:
  "srv_inv other d \<Longrightarrow> \<exists>d'. accept_clients io now l batch d = Some d' \<and> srv_inv other d' \<and> srv_frame d d' \<and>
    (\<forall>i. accepted now (g_clients d ! i) (g_clients d' ! i))"
proof (induction batch arbitrary: d)
  case 0
  then show ?case by (simp add: accepted_def)
next
  case (Suc batch)
  show ?case
  proof (cases rule: open_call_cases [of "io_accept io l" d])
    case (1 d1)
    with Suc.prems show ?thesis
      by (simp add: accepted_def srv_inv_same same_srv_frame same_but_sysD(2) [OF 1(2)])
  next
    case (2 fd d1)
    note s = same_but_sysD [OF 2(2)]
    let ?d1 = "d1\<lparr>g_fds := fd # g_fds d\<rparr>" and ?slot = "length (takeWhile (\<lambda>cl. cl_fd cl \<noteq> None) (take (g_limit d) (g_clients d)))"
    have lim: "g_limit d \<le> length (g_clients d)" using Suc.prems by (simp add: srv_inv_def table_ok_def)
    show ?thesis
    proof (cases "?slot = g_limit d")
      case True
      have "fd \<in> set (g_fds ?d1)" by simp
      then obtain d2 where d2: "close_fd io fd ?d1 = Some d2" "same_but_sys (?d1\<lparr>g_fds := remove1 fd (g_fds ?d1)\<rparr>) d2"
        by (rule close_fd_ok)
      have "?d1\<lparr>g_fds := remove1 fd (g_fds ?d1)\<rparr> = d1" using s(9) by simp
      with d2(2) 2(2) have sb: "same_but_sys d d2" by (auto intro: same_but_sys_trans)
      from Suc.IH [OF srv_inv_same [OF Suc.prems sb]] obtain d' where d': "accept_clients io now l batch d2 = Some d'"
        "srv_inv other d'" "srv_frame d2 d'" "\<forall>i. accepted now (g_clients d2 ! i) (g_clients d' ! i)" by blast
      moreover have "accept_clients io now l (Suc batch) d = accept_clients io now l batch d2"
        using 2(1) True lim d2(1) s by (simp add: Let_def)
      ultimately show ?thesis
        using srv_frame_trans [OF same_srv_frame [OF sb] d'(3)] same_but_sysD(2) [OF sb] by auto
    next
      case False
      let ?cl = "(g_clients d ! ?slot)\<lparr>cl_fd := Some fd, cl_deadline := now + 5 * USEC_PER_SEC\<rparr>"
      let ?d2 = "set_client ?slot ?cl ?d1"
      note a = accept_slot [where fd = fd and now = now, OF Suc.prems 2(2) refl False refl]
      from Suc.IH [OF a(1)] obtain d' where d': "accept_clients io now l batch ?d2 = Some d'"
        "srv_inv other d'" "srv_frame ?d2 d'" "\<forall>i. accepted now (g_clients ?d2 ! i) (g_clients d' ! i)" by blast
      have "accept_clients io now l (Suc batch) d = Some d'" using 2(1) False lim s d'(1) by (simp add: Let_def)
      moreover have "srv_frame d d'" using same_srv_frame [OF 2(2)] d'(3) by (auto intro: srv_frame_trans)
      moreover have "accepted now (g_clients d ! i) (g_clients d' ! i)" for i
        using d'(4) [rule_format, of i] a(2,3) s(2) by (cases "i = ?slot") (auto simp: accepted_def)
      ultimately show ?thesis using d'(2) by blast
    qed
  qed
qed


lemma accepted_progressed:
  assumes "progressed ans now cl cl1 \<or> cl1 = cl \<and> cl_fd cl = None" "accepted now cl1 cl2"
  shows "progressed ans now cl cl2"
proof (cases "cl2 = cl1")
  case True
  with assms(1) show ?thesis by (auto simp: progressed_def)
next
  case False
  with assms(2) have a: "cl_fd cl1 = None" "session_of cl2 = Reading []" "cl_deadline cl2 = now + 5 * USEC_PER_SEC" by (auto simp: accepted_def)
  then have "session_of cl1 = Closed" by (simp add: session_of_def)
  moreover have "(session_step ans)\<^sup>*\<^sup>* (session_of cl) (session_of cl1)" using assms(1) by (auto simp: progressed_def)
  ultimately have "(session_step ans)\<^sup>*\<^sup>* (session_of cl) (session_of cl2)"
    using a(2) session_step.accept [of ans] by (metis rtranclp.rtrancl_into_rtrancl)
  then show ?thesis using a(3) by (simp add: progressed_def USEC_PER_SEC_def)
qed

abbreviation with_revents :: "pollfd list \<Rightarrow> u16 list \<Rightarrow> pollfd list" where
  "with_revents fds evs \<equiv> map2 (\<lambda>p e. p\<lparr>pf_revents := e\<rparr>) fds evs"

lemma dispatch_ok:
  assumes io: "io_ok io" and inv: "srv_inv other d" and p: "prov_inv cfg (g_prov d)"
    and poll: "service_pollfds d = Some (fds, d1)" "length evs = length fds"
  shows "\<exists>d2. service_dispatch env io bld cfg (with_revents fds evs) d1 = Some d2 \<and> srv_inv other d2 \<and> srv_frame d d2 \<and>
    (\<forall>i < SERVICE_MAX_CLIENTS. progressed (reply bld cfg (g_prov d)) (monotonic_usec env (g_sys d)) (g_clients d ! i) (g_clients d2 ! i))"
proof -
  obtain l q where q: "service_pollfds d = Some
      (\<lparr>pf_fd = l, pf_events = POLLIN, pf_revents = 0\<rparr> # map (\<lambda>i. client_entry (g_clients d ! i)) (polled d), d\<lparr>g_poll_slots := q\<rparr>)"
    "length q = SERVICE_MAX_CLIENTS" "\<forall>n < length (polled d). q ! n = polled d ! n" "srv_inv other (d\<lparr>g_poll_slots := q\<rparr>)"
    by (rule service_pollfds_ok [OF inv])
  let ?now = "monotonic_usec env (g_sys d)" and ?ans = "reply bld cfg (g_prov d)"
  from poll q(1) have d1: "d1 = d\<lparr>g_poll_slots := q\<rparr>" by simp
  from poll q(1) obtain p0 ps where ps: "with_revents fds evs = p0 # ps" "length ps = length (polled d)"
    by (cases evs) auto
  have t: "table_ok d" using inv by (simp add: srv_inv_def)
  have pl: "length (polled d) \<le> SERVICE_MAX_CLIENTS" "distinct (polled d)"
    "\<forall>i \<in> set (polled d). i < SERVICE_MAX_CLIENTS \<and> cl_fd (g_clients d ! i) \<noteq> None"
    using t length_filter_le [of "\<lambda>i. cl_fd (g_clients d ! i) \<noteq> None" "[0..<g_limit d]"] by (auto simp: polled_def table_ok_def)
  from serve_clients_ok [OF io q(4), of cfg ps "polled d" 1 bld ?now] p ps(2) pl q(3) obtain d2 where
    d2: "serve_clients io bld cfg ?now 1 ps d1 = Some d2" "srv_inv other d2" "srv_frame d1 d2"
      "\<forall>i. i \<notin> set (polled d) \<longrightarrow> g_clients d2 ! i = g_clients d ! i"
      "\<forall>i \<in> set (polled d). progressed ?ans ?now (g_clients d ! i) (g_clients d2 ! i)" unfolding d1 by auto
  obtain k where k: "g_listener d2 = Some k" "k \<in> set (g_fds d2)" by (rule listener_held [OF d2(2)])
  then have h: "held_fd d2 (g_listener d2) = Some k" by (simp add: held_fd_def)
  from accept_clients_ok [OF d2(2), of io ?now k 16] obtain d3 where
    d3: "accept_clients io ?now k 16 d2 = Some d3" "srv_inv other d3" "srv_frame d2 d3"
      "\<forall>i. accepted ?now (g_clients d2 ! i) (g_clients d3 ! i)" by blast
  have fr: "srv_frame d d2" "srv_frame d d3" using d2(3) d3(3) unfolding d1 by (auto intro: srv_frame_trans)
  have "i \<notin> set (polled d) \<Longrightarrow> i < SERVICE_MAX_CLIENTS \<Longrightarrow> cl_fd (g_clients d ! i) = None" for i
    using t by (auto simp: polled_def table_ok_def not_le [symmetric])
  then have st: "progressed ?ans ?now (g_clients d ! i) (g_clients d2 ! i) \<or> g_clients d2 ! i = g_clients d ! i \<and> cl_fd (g_clients d ! i) = None"
    if "i < SERVICE_MAX_CLIENTS" for i using d2(4,5) that by blast
  have st2: "progressed ?ans ?now (g_clients d ! i) (g_clients d2 ! i)" if "i < SERVICE_MAX_CLIENTS" for i
    by (rule accepted_progressed [OF st [OF that]]) (simp add: accepted_def)
  have st3: "progressed ?ans ?now (g_clients d ! i) (g_clients d3 ! i)" if "i < SERVICE_MAX_CLIENTS" for i
    using accepted_progressed [OF st [OF that]] d3(4) by blast
  have "service_dispatch env io bld cfg (with_revents fds evs) d1 = (if flag (pf_revents p0) POLLIN then Some d3 else Some d2)"
    unfolding ps(1) service_dispatch_def using d2(1) h d3(1) by (simp add: Let_def d1)
  then show ?thesis using d2(2) d3(2) fr st2 st3 by auto
qed

section \<open>Start and end\<close>

lemma log_info_same: "env_ok env \<Longrightarrow> \<exists>d'. log_info env cfg m d = Some d' \<and> same_but_sys d d'"
  using log_message_total [of env cfg 5 "m @ [CHR 0x0A]" "g_sys d"] by (auto simp: log_info_def log_frame_def intro: set_sys_same)

lemma log_crit_same: "env_ok env \<Longrightarrow> \<exists>d'. log_crit env cfg m d = Some d' \<and> same_but_sys d d'"
  using log_message_total [of env cfg 7 "m @ [CHR 0x0A]" "g_sys d"] by (auto simp: log_crit_def log_frame_def intro: set_sys_same)

lemma close_clients_ok:
  assumes "srv_inv other d" "\<forall>i \<in> set is. i < SERVICE_MAX_CLIENTS"
  shows "\<exists>d'. close_clients io is d = Some d' \<and> srv_inv other d' \<and> srv_frame d d' \<and> g_poll_slots d' = g_poll_slots d \<and>
    (\<forall>i. i \<in> set is \<or> cl_fd (g_clients d ! i) = None \<longrightarrow> cl_fd (g_clients d' ! i) = None)"
  using assms
proof (induction "is" arbitrary: d)
  case (Cons i "is")
  obtain d1 where d1: "close_client io i d = Some d1" "served (\<lambda>_ _. True) other i d d1" "g_clients d1 ! i = zero_client\<lparr>cl_fd := None\<rparr>"
    by (rule close_client_ok [OF Cons.prems(1), of i]) (use Cons.prems in auto)
  from d1(2) have s: "srv_inv other d1" "srv_frame d d1" "g_poll_slots d1 = g_poll_slots d" "\<forall>j. j \<noteq> i \<longrightarrow> g_clients d1 ! j = g_clients d ! j"
    by (simp_all add: served_def)
  from Cons.IH [OF s(1)] Cons.prems(2) obtain d' where d': "close_clients io is d1 = Some d'" "srv_inv other d'" "srv_frame d1 d'"
    "g_poll_slots d' = g_poll_slots d1" "\<forall>i. i \<in> set is \<or> cl_fd (g_clients d1 ! i) = None \<longrightarrow> cl_fd (g_clients d' ! i) = None" by auto
  moreover have "cl_fd (g_clients d' ! j) = None" if "j = i \<or> j \<in> set is \<or> cl_fd (g_clients d ! j) = None" for j
    using that d'(5) [rule_format, of j] d1(3) s(4) by (cases "j = i") auto
  ultimately show ?case using d1(1) s(2,3) srv_frame_trans [OF s(2) d'(3)] by (intro exI [of _ d']) auto
qed simp

text \<open>What the end and a failed start leave of the service.\<close>

definition srv_off :: "nat multiset \<Rightarrow> 'w daemon \<Rightarrow> bool" where
  "srv_off other d \<longleftrightarrow> g_listener d = None \<and> mset (g_fds d) = other"

definition srv_rest :: "'w daemon \<Rightarrow> 'w daemon \<Rightarrow> bool" where
  "srv_rest d d' \<longleftrightarrow> g_capture d' = g_capture d \<and> g_pid d' = g_pid d \<and> g_signal d' = g_signal d \<and> g_notify d' = g_notify d \<and>
     g_unlinked d' = g_unlinked d \<and> s_log_fd (g_sys d') = s_log_fd (g_sys d) \<and> (\<exists>s. g_prov d' = (g_prov d)\<lparr>p_sys := s\<rparr>)"

lemma frame_rest: "srv_frame d d' \<Longrightarrow> srv_rest d d'"
  by (auto simp: srv_frame_def srv_rest_def)

lemma same_rest_srv: "same_but_sys d d' \<Longrightarrow> srv_rest d d'"
  by (rule frame_rest [OF same_srv_frame])

lemma srv_rest_trans: "srv_rest d d' \<Longrightarrow> srv_rest d' d'' \<Longrightarrow> srv_rest d d''"
  by (auto simp: srv_rest_def)

lemma srv_rest_upd [simp]:
  "srv_rest d (d'\<lparr>g_listener := l\<rparr>) = srv_rest d d'" "srv_rest (d\<lparr>g_listener := l\<rparr>) d' = srv_rest d d'"
  "srv_rest (d\<lparr>g_fds := f\<rparr>) d' = srv_rest d d'" "srv_rest d (d'\<lparr>g_fds := f\<rparr>) = srv_rest d d'"
  "srv_rest (d\<lparr>g_clients := c\<rparr>) d' = srv_rest d d'" "srv_rest (d\<lparr>g_limit := n\<rparr>) d' = srv_rest d d'"
  by (simp_all add: srv_rest_def)

lemma service_end_ok:
  assumes "srv_inv other d \<or> srv_off other d"
  shows "\<exists>d'. service_end io d = Some d' \<and> srv_off other d' \<and> srv_rest d d'"
proof (cases "srv_inv other d")
  case False
  with assms have o: "srv_off other d" by simp
  then have "service_end io d = Some d" by (simp add: service_end_def srv_off_def)
  with o show ?thesis using same_rest_srv [of d d] by simp
next
  case True
  then have t: "table_ok d" by (simp add: srv_inv_def)
  from close_clients_ok [OF True, of "[0..<g_limit d]" io] t obtain d1 where d1: "close_clients io [0..<g_limit d] d = Some d1"
    "srv_inv other d1" "srv_frame d d1" "\<forall>i. i < g_limit d \<or> cl_fd (g_clients d ! i) = None \<longrightarrow> cl_fd (g_clients d1 ! i) = None"
    by (auto simp: table_ok_def)
  from True d1(2,3) obtain l where l: "g_listener d = Some l" "g_listener d1 = Some l" "mset (g_fds d1) = add_mset l (other + client_fds (g_clients d1))"
    by (auto simp: srv_inv_def srv_frame_def)
  have "cl_fd (g_clients d1 ! i) = None" if "i < SERVICE_MAX_CLIENTS" for i
    using d1(4) t that by (cases "i < g_limit d") (auto simp: table_ok_def)
  then have "\<forall>cl \<in> set (g_clients d1). cl_fd cl = None" using d1(2) by (auto simp: srv_inv_def table_ok_def in_set_conv_nth)
  then have m: "mset (g_fds d1) = add_mset l other" using l(3) by (simp add: client_fds_none)
  then have "l \<in># mset (g_fds d1)" by simp
  then have "l \<in> set (g_fds d1)" by simp
  then obtain d2 where d2: "close_fd io l d1 = Some d2" "same_but_sys (d1\<lparr>g_fds := remove1 l (g_fds d1)\<rparr>) d2" by (rule close_fd_ok)
  have "srv_off other (d2\<lparr>g_listener := None\<rparr>)" using m same_but_sysD(9) [OF d2(2)] by (simp add: srv_off_def)
  moreover have "srv_rest d (d2\<lparr>g_listener := None\<rparr>)"
    using srv_rest_trans [OF frame_rest [OF d1(3)], of d2] same_rest_srv [OF d2(2)] by simp
  ultimately show ?thesis using l(1) d1(1) d2(1) by (simp add: service_end_def)
qed


lemma service_address_same: "service_address env io name fd d = (r, d') \<Longrightarrow> same_but_sys d d'"
proof -
  assume a: "service_address env io name fd d = (r, d')"
  obtain index s1 where i: "if_nametoindex env name (g_sys d) = (index, s1)" by fastforce
  have 1: "same_but_sys d (set_sys s1 d)" using if_nametoindex_frame [OF i] by (intro set_sys_same) (simp_all add: log_frame_def)
  have e: "same_but_sys d (set_errno n d3)" if "same_but_sys d d3" for d3 n using that by (auto simp: same_but_sys_def)
  show ?thesis
    using a i 1 by (auto simp: service_address_def Let_def split: if_splits sum.splits prod.splits option.splits
        dest!: sys_call_same intro: same_but_sys_trans intro!: e)
qed

text \<open>The client table before the start: zeroed, which makes every descriptor 0.\<close>

definition srv_cold :: "nat multiset \<Rightarrow> 'w daemon \<Rightarrow> bool" where
  "srv_cold other d \<longleftrightarrow> srv_off other d \<and> g_clients d = replicate SERVICE_MAX_CLIENTS zero_client \<and>
     length (g_poll_slots d) = SERVICE_MAX_CLIENTS"

lemma service_fail_ok:
  assumes "mset (g_fds d) = add_mset fd other"
  shows "\<exists>d'. service_fail io fd d = Some (-1, d') \<and> srv_off other d' \<and> srv_rest d d'"
proof -
  have "fd \<in># mset (g_fds d)" using assms by simp
  then have "fd \<in> set (g_fds d)" by simp
  then obtain d1 where d1: "close_fd io fd d = Some d1" "same_but_sys (d\<lparr>g_fds := remove1 fd (g_fds d)\<rparr>) d1" by (rule close_fd_ok)
  let ?d = "set_errno (s_errno (g_sys d)) (d1\<lparr>g_listener := None\<rparr>)"
  have "srv_off other ?d" using assms same_but_sysD(9) [OF d1(2)] by (simp add: srv_off_def)
  moreover have "srv_rest d ?d" using same_rest_srv [OF d1(2)] by (auto simp: srv_rest_def)
  ultimately show ?thesis using d1(1) by (simp add: service_fail_def)
qed

text \<open>The service has started, or has failed with its listener closed.\<close>

definition srv_result :: "nat multiset \<Rightarrow> 'w daemon \<Rightarrow> (int \<times> 'w daemon) option \<Rightarrow> bool" where
  "srv_result other d res \<longleftrightarrow>
     (\<exists>r d'. res = Some (r, d') \<and> srv_rest d d' \<and> (r = 0 \<and> srv_inv other d' \<or> r = -1 \<and> srv_off other d'))"

lemma service_listen_ok:
  assumes e: "env_ok env" and inv: "srv_inv other d" "mset (g_fds d) = add_mset fd other"
  shows "srv_result other d (service_listen env io cfg name fd d)"
proof -
  have fl: "srv_result other d (service_fail io fd d')" if "same_but_sys d d'" for d'
    using service_fail_ok [of d' fd other io] inv(2) same_but_sysD(9) [OF that] same_rest_srv [OF that]
    by (auto simp: srv_result_def intro: srv_rest_trans)
  have lg: "srv_result other d (do { d4 \<leftarrow> log_info env cfg m d'; Some (0, d4) })" if "same_but_sys d d'" for d' m
  proof -
    obtain d4 where d4: "log_info env cfg m d' = Some d4" "same_but_sys d' d4" using log_info_same [OF e] by blast
    have s: "same_but_sys d d4" by (rule same_but_sys_trans [OF that d4(2)])
    with d4(1) srv_inv_same [OF inv(1) s] same_rest_srv [OF s] show ?thesis by (simp add: srv_result_def)
  qed
  obtain r1 d1 where a: "service_address env io name fd d = (r1, d1)" by fastforce
  note s1 = service_address_same [OF a]
  show ?thesis
  proof (cases r1)
    case None
    then show ?thesis using fl [OF s1] by (simp add: service_listen_def a)
  next
    case (Some ip)
    obtain r2 d2 where b: "sys_call (io_bind io fd (Inet_address ip (c_srv_port cfg))) d1 = (r2, d2)" by fastforce
    obtain r3 d3 where li: "sys_call (io_listen io fd (g_limit d2)) d2 = (r3, d3)" by fastforce
    note s2 = same_but_sys_trans [OF s1 sys_call_same [OF b]]
    note s3 = same_but_sys_trans [OF s2 sys_call_same [OF li]]
    show ?thesis
      by (cases r2; cases r3)
        (simp_all only: service_listen_def a Some b li prod.case option.case sum.case fl [OF s2] fl [OF s3] lg [OF s3])
  qed
qed

lemma service_init_ok:
  assumes e: "env_ok env" and c: "config_ok cfg" and d: "srv_cold other d"
  shows "\<exists>r d'. service_init env io cfg d = Some (r, d') \<and> srv_rest d d' \<and> (r = 0 \<and> srv_inv other d' \<or> r = -1 \<and> srv_off other d')"
proof -
  from c obtain name where name: "c_srv_bind_in cfg = Some name" by (cases "c_srv_bind_in cfg") (auto simp: config_ok_def config_valid_ifname_def)
  let ?d0 = "d\<lparr>g_limit := c_srv_max_listen cfg, g_clients := map (\<lambda>cl. cl\<lparr>cl_fd := None\<rparr>) (g_clients d)\<rparr>"
  have o: "srv_off other d" using d by (simp add: srv_cold_def)
  have r0: "srv_rest ?d0 d' \<Longrightarrow> srv_rest d d'" for d' by simp
  have cls: "g_clients ?d0 = replicate SERVICE_MAX_CLIENTS (zero_client\<lparr>cl_fd := None\<rparr>)" using d by (simp add: srv_cold_def)
  have t0: "table_ok ?d0" using d c closed_client(1) by (auto simp: table_ok_def srv_cold_def config_ok_def SERVICE_MAX_CLIENTS_def)
  show ?thesis
  proof (cases rule: open_call_cases [of "io_socket io Listening_socket" ?d0])
    case (1 d1)
    then have "service_init env io cfg d = Some (-1, d1\<lparr>g_listener := None\<rparr>)" by (simp add: service_init_def)
    moreover have "srv_off other (d1\<lparr>g_listener := None\<rparr>)" using o same_but_sysD(9) [OF 1(2)] by (simp add: srv_off_def)
    ultimately show ?thesis using r0 [OF same_rest_srv [OF 1(2)]] by simp
  next
    case (2 fd d1)
    let ?d2 = "d1\<lparr>g_fds := fd # g_fds d, g_listener := Some fd\<rparr>"
    let ?d3 = "snd (sys_call (io_setsockopt io fd Reuse_address) ?d2)"
    have s3: "same_but_sys ?d2 ?d3" by (rule sys_call_same [OF prod.collapse [symmetric]])
    have "srv_inv other ?d2"
      using o t0 table_same [OF 2(2)] same_but_sysD(2,3,4) [OF 2(2)] cls
      by (simp add: srv_inv_def srv_off_def table_ok_def client_fds_none)
    then have "srv_inv other ?d3" by (rule srv_inv_same [OF _ s3])
    moreover have "mset (g_fds ?d3) = add_mset fd other" using o same_but_sysD(9) [OF s3] by (simp add: srv_off_def)
    ultimately have "srv_result other ?d3 (service_listen env io cfg name fd ?d3)" by (rule service_listen_ok [OF e])
    moreover have "srv_rest d ?d3" using r0 [OF same_rest_srv [OF 2(2)]] same_rest_srv [OF s3] by (auto intro: srv_rest_trans)
    moreover have "service_init env io cfg d = service_listen env io cfg name fd ?d3" using 2(1) name by (simp add: service_init_def Let_def)
    ultimately show ?thesis by (auto simp: srv_result_def intro: srv_rest_trans)
  qed
qed


section \<open>Rounds\<close>

text \<open>Any number of rounds; \<open>ev\<close> is what \<open>poll\<close> reports for each entry of a round.\<close>

fun service_rounds :: "'w env \<Rightarrow> 'w io \<Rightarrow> build \<Rightarrow> softgred_config \<Rightarrow> (nat \<Rightarrow> u16) list \<Rightarrow> 'w daemon \<Rightarrow> 'w daemon option" where
  "service_rounds env io bld cfg [] d = Some d"
| "service_rounds env io bld cfg (ev # evs) d = do {
     (fds, d1) \<leftarrow> service_pollfds d;
     d2 \<leftarrow> service_dispatch env io bld cfg (with_revents fds (map ev [0..<length fds])) d1;
     service_rounds env io bld cfg evs d2
   }"

lemma service_rounds_ok:
  assumes io: "io_ok io"
  shows "srv_inv other d \<Longrightarrow> prov_inv cfg (g_prov d) \<Longrightarrow>
    \<exists>d'. service_rounds env io bld cfg evs d = Some d' \<and> srv_inv other d' \<and> srv_frame d d'"
proof (induction evs arbitrary: d)
  case (Cons ev evs)
  obtain fds d1 where p: "service_pollfds d = Some (fds, d1)" by (rule service_pollfds_ok [OF Cons.prems(1)]) blast
  from dispatch_ok [OF io Cons.prems p, of "map ev [0..<length fds]" env bld] obtain d2 where
    d2: "service_dispatch env io bld cfg (with_revents fds (map ev [0..<length fds])) d1 = Some d2" "srv_inv other d2" "srv_frame d d2" by auto
  from Cons.IH [OF d2(2)] frame_prov(1) [OF d2(3)] Cons.prems(2) obtain d' where
    "service_rounds env io bld cfg evs d2 = Some d'" "srv_inv other d'" "srv_frame d2 d'" by blast
  with p d2 show ?case by (auto intro: srv_frame_trans)
qed simp

text \<open>Every descriptor of the status API is closed exactly once: the start either fails and leaves
  none open, or succeeds, and then after any number of rounds, with any clients and events, the
  end leaves exactly the descriptors of the rest of the daemon.\<close>

lemma service_no_leak:
  assumes "env_ok env" "io_ok io" "config_ok cfg" "prov_inv cfg (g_prov d)" "srv_cold other d"
  shows "\<exists>r d1. service_init env io cfg d = Some (r, d1) \<and>
    (if r = 0 then \<exists>d2 d3. service_rounds env io bld cfg evs d1 = Some d2 \<and> service_end io d2 = Some d3 \<and> mset (g_fds d3) = other
     else r = -1 \<and> service_end io d1 = Some d1 \<and> mset (g_fds d1) = other)"
proof -
  from service_init_ok [OF assms(1,3,5), of io] obtain r d1 where
    1: "service_init env io cfg d = Some (r, d1)" "srv_rest d d1" "r = 0 \<and> srv_inv other d1 \<or> r = -1 \<and> srv_off other d1" by blast
  have p: "prov_inv cfg (g_prov d1)" using 1(2) assms(4) by (auto simp: srv_rest_def)
  show ?thesis
  proof (cases "r = 0")
    case True
    with 1(3) have "srv_inv other d1" by simp
    from service_rounds_ok [OF assms(2) this p, of env bld evs] obtain d2 where
      2: "service_rounds env io bld cfg evs d1 = Some d2" "srv_inv other d2" by blast
    from service_end_ok [OF disjI1 [OF 2(2)], of io] 1(1) 2(1) True show ?thesis by (auto simp: srv_off_def)
  next
    case False
    with 1(3) have "r = -1" "srv_off other d1" by auto
    with 1(1) show ?thesis by (auto simp: service_end_def srv_off_def)
  qed
qed

section \<open>An example\<close>

definition demo_io :: "'w io" where
  "demo_io =
     \<lparr>io_euid = 0, io_open = \<lambda>m path w. (Inr 5, w), io_close = \<lambda>fd w. (Inr (), w),
      io_fstat = \<lambda>fd w. (Inr \<lparr>st_regular = True, st_nlink = 1, st_uid = 0, st_mode = 0x180\<rparr>, w), io_lock = \<lambda>fd w. (Inr (), w),
      io_truncate = \<lambda>fd w. (Inr (), w), io_write = \<lambda>fd s w. (Inr (length s), w), io_unlink = \<lambda>path w. (Inr (), w),
      io_socket = \<lambda>k w. (Inr 4, w), io_setsockopt = \<lambda>fd opt w. (Inr (), w), io_bind = \<lambda>fd a w. (Inr (), w),
      io_listen = \<lambda>fd n w. (Inr (), w), io_accept = \<lambda>fd w. (Inr 9, w), io_recv = \<lambda>fd n w. (Inr (take n (''VERS'' @ nl)), w),
      io_send = \<lambda>fd s w. (Inr (length s), w), io_frame = \<lambda>fd n w. (Inl 11, w),
      io_ifaddrs = \<lambda>w. (Inr [\<lparr>ifa_name = ''eth0'', ifa_inet = Some 0x0100000A\<rparr>], w), io_uptime = \<lambda>w. 1,
      io_pipe = \<lambda>w. (Inr (6, 7), w), io_fork = \<lambda>w. (Inr Fork_child, w), io_read_status = \<lambda>fd w. (Inr (Some 0), w),
      io_setsid = \<lambda>w. (Inr (), w), io_dup_stdin = \<lambda>fd w. (Inr (), w), io_sigprocmask = \<lambda>w. (Inr (), w),
      io_signalfd = \<lambda>w. (Inr 8, w), io_read_signal = \<lambda>fd w. (Inl 11, w), io_poll = \<lambda>fds w. (Inr (map (\<lambda>p. 0) fds), w)\<rparr>"

lemma demo_io_ok: "io_ok demo_io"
  by (auto simp: io_ok_def demo_io_def)

definition demo_daemon :: "demo daemon" where
  "demo_daemon =
     \<lparr>g_prov = snd (provision_init demo_prov), g_listener = None, g_clients = replicate SERVICE_MAX_CLIENTS zero_client,
      g_poll_slots = replicate SERVICE_MAX_CLIENTS 0, g_limit = 0, g_capture = None, g_pid = None, g_signal = None,
      g_notify = None, g_fds = [], g_unlinked = []\<rparr>"

definition demo_listening :: "demo daemon" where
  "demo_listening = demo_daemon\<lparr>g_listener := Some 4, g_fds := [4], g_limit := 10,
     g_clients := replicate SERVICE_MAX_CLIENTS (zero_client\<lparr>cl_fd := None\<rparr>)\<rparr>"

lemma demo_daemon_cold: "srv_cold {#} demo_daemon" "prov_inv example_config (g_prov demo_daemon)"
  using demo_init_inv(1) by (simp_all add: srv_cold_def srv_off_def demo_daemon_def)

lemma demo_listening_inv: "srv_inv {#} demo_listening" "prov_inv example_config (g_prov demo_listening)"
  using demo_init_inv(1) closed_client(1)
  by (simp_all add: srv_inv_def table_ok_def demo_listening_def demo_daemon_def client_fds_none SERVICE_MAX_CLIENTS_def)

section \<open>Properties\<close>

text \<open>C37. A round of the status API refines the sessions: whatever \<open>poll\<close> reports, serving the
  entries returns (no buffer, table or array is left, no descriptor is used or closed that is not
  open) and keeps the invariant and the tunnel state; each client makes steps of its session, so
  that it is answered once, with the reply to the first line it sent, in order and without gaps;
  and a client that is still open has not reached its deadline, which is the one it had or, for a
  new connection, five seconds from now.\<close>

theorem service_round:
  assumes "io_ok io" "srv_inv other d" "prov_inv cfg (g_prov d)" "service_pollfds d = Some (fds, d1)" "length evs = length fds"
  shows "\<exists>d2 s. service_dispatch env io bld cfg (with_revents fds evs) d1 = Some d2 \<and> srv_inv other d2 \<and>
    g_prov d2 = (g_prov d)\<lparr>p_sys := s\<rparr> \<and>
    (\<forall>i < SERVICE_MAX_CLIENTS.
      (session_step (reply bld cfg (g_prov d)))\<^sup>*\<^sup>* (session_of (g_clients d ! i)) (session_of (g_clients d2 ! i)) \<and>
      (cl_fd (g_clients d2 ! i) \<noteq> None \<longrightarrow>
        monotonic_usec env (g_sys d) < cl_deadline (g_clients d2 ! i) \<and>
        (cl_deadline (g_clients d2 ! i) = monotonic_usec env (g_sys d) + 5 * USEC_PER_SEC \<or>
         cl_fd (g_clients d2 ! i) = cl_fd (g_clients d ! i) \<and> cl_deadline (g_clients d2 ! i) = cl_deadline (g_clients d ! i))))"
proof -
  from dispatch_ok [OF assms, of env bld] obtain d2 where
    d2: "service_dispatch env io bld cfg (with_revents fds evs) d1 = Some d2" "srv_inv other d2" "srv_frame d d2"
      "\<forall>i < SERVICE_MAX_CLIENTS. progressed (reply bld cfg (g_prov d)) (monotonic_usec env (g_sys d)) (g_clients d ! i) (g_clients d2 ! i)" by blast
  from d2(3) obtain s where "g_prov d2 = (g_prov d)\<lparr>p_sys := s\<rparr>" by (auto simp: srv_frame_def)
  with d2(1,2,4) show ?thesis unfolding progressed_def by (intro exI [of _ d2] exI [of _ s]) auto
qed

theorem service_round_witness:
  "\<exists>fds d1 d2. service_pollfds demo_listening = Some (fds, d1) \<and>
    service_dispatch demo_env demo_io example_build example_config (with_revents fds [POLLIN]) d1 = Some d2 \<and> srv_inv {#} d2"
proof -
  have "polled demo_listening = []"
    by (auto simp: polled_def demo_listening_def filter_empty_conv SERVICE_MAX_CLIENTS_def)
  then obtain p d1 where p: "service_pollfds demo_listening = Some ([p], d1)"
    by (auto intro: service_pollfds_ok [OF demo_listening_inv(1)])
  from service_round [OF demo_io_ok demo_listening_inv p, of "[POLLIN]" demo_env example_build] p show ?thesis by auto
qed

end
