(* ===== verification/Payload_Correct.thy ===== *)
theory Payload_Correct
  imports Payload
begin

unbundle bit_operations_syntax

text \<open>
  Correctness of the frame parser and of the capture filter: the parser never reads outside
  the bytes it was given and never looks at a byte behind \<open>len\<close>; the frames it accepts are
  exactly the encodings of well-formed frames, and the packet it fills in holds their
  addresses; the filter program passes exactly the frames that carry IPv4 protocol 47 behind
  at most two outer VLAN tags, so no frame the parser would accept is lost in the kernel.
\<close>

section \<open>Reads\<close>

lemma rd_Some_iff: "rd d i = Some x \<longleftrightarrow> i < length d \<and> x = d ! i"
  by (auto simp: rd_def)

lemma rd_bytes_Some_iff: "rd_bytes d i n = Some x \<longleftrightarrow> i + n \<le> length d \<and> x = take n (drop i d)"
  by (auto simp: rd_bytes_def)

lemma read16_inside: "i + 1 < length d \<Longrightarrow> \<exists>w. read16 d i = Some w"
  by (simp add: read16_def rd_def)

lemma word16_bytes: "push_bit 8 (ucast (ucast (drop_bit 8 w) :: byte)) OR ucast (ucast w :: byte) = (w :: u16)"
proof (rule bit_word_eqI)
  fix n assume "n < LENGTH(16)"
  then show "bit (push_bit 8 (ucast (ucast (drop_bit 8 w) :: byte)) OR ucast (ucast w :: byte) :: u16) n = bit w n"
    by (cases "n < 8") (auto simp: bit_simps)
qed

lemma bytes_word16:
  "ucast (drop_bit 8 (push_bit 8 (ucast a) OR ucast b :: u16)) = (a :: byte)"
  "ucast (push_bit 8 (ucast a) OR ucast b :: u16) = (b :: byte)"
  by (auto intro!: bit_word_eqI simp: bit_simps bit_byte_high)

lemma read16_Some_iff: "read16 d i = Some w \<longleftrightarrow> i + 2 \<le> length d \<and> take 2 (drop i d) = be16 w"
proof
  assume r: "read16 d i = Some w"
  then obtain a b where ab: "rd d i = Some a" "rd d (i + 1) = Some b" "w = push_bit 8 (ucast a) OR ucast b"
    by (auto simp: read16_def bind_eq_Some_conv)
  then have i: "i + 1 < length d" "a = d ! i" "b = d ! (i + 1)" by (auto simp: rd_Some_iff)
  then have "take 2 (drop i d) = [a, b]"
    by (simp add: numeral_2_eq_2 take_Suc_conv_app_nth hd_drop_conv_nth)
  with i(1) show "i + 2 \<le> length d \<and> take 2 (drop i d) = be16 w"
    unfolding be16_def ab(3) bytes_word16 by simp
next
  assume a: "i + 2 \<le> length d \<and> take 2 (drop i d) = be16 w"
  have "d ! i = take 2 (drop i d) ! 0" "d ! (i + 1) = take 2 (drop i d) ! 1"
    using conjunct1 [OF a] by simp_all
  with a have "d ! i = ucast (drop_bit 8 w)" "d ! (i + 1) = ucast w"
    by (simp_all add: be16_def)
  with a show "read16 d i = Some w" by (simp add: read16_def rd_def word16_bytes)
qed

lemma length_be16 [simp]: "length (be16 w) = 2"
  by (simp add: be16_def)

section \<open>Memory safety\<close>

lemma outer_tags_inside:
  assumes "len \<le> length d" "offset \<le> len"
  shows "\<exists>r. outer_tags d len left offset type = Some r \<and>
    (case r of None \<Rightarrow> True | Some (o', t) \<Rightarrow> offset \<le> o' \<and> o' \<le> len \<and> \<not> tag_type t)"
  using assms
proof (induction d len left offset type rule: outer_tags.induct)
  case (1 d len left offset type)
  show ?case
  proof (cases "tag_type type \<and> left \<noteq> 0 \<and> 4 \<le> len - offset")
    case False
    with "1.prems" show ?thesis by (auto simp: outer_tags.simps [of d] tag_type_def)
  next
    case True
    then obtain w where w: "read16 d (offset + 2) = Some w"
      using read16_inside [of "offset + 2" d] "1.prems" by fastforce
    obtain r where "outer_tags d len (left - 1) (offset + 4) w = Some r"
      "case r of None \<Rightarrow> True | Some (o', t) \<Rightarrow> offset + 4 \<le> o' \<and> o' \<le> len \<and> \<not> tag_type t"
      using True "1.prems" w "1.IH" by (fastforce simp: tag_type_def)
    moreover have "outer_tags d len left offset type = outer_tags d len (left - 1) (offset + 4) w"
      using True w "1.prems" by (simp add: outer_tags.simps [of d len left] tag_type_def)
    ultimately show ?thesis by (auto split: option.splits)
  qed
qed

lemma parse_gre_inside:
  assumes "ip + tot \<le> length d" "ihl + 4 \<le> tot" "20 \<le> ihl"
  shows "\<exists>r. parse_gre d ip ihl tot = Some r"
proof -
  have r: "i + 1 < ip + tot \<Longrightarrow> \<exists>w. read16 d i = Some w" for i
    using assms(1) by (intro read16_inside) simp
  obtain w0 w1 where w01: "read16 d (ip + ihl) = Some w0" "read16 d (ip + ihl + 2) = Some w1"
    using r [of "ip + ihl"] r [of "ip + ihl + 2"] assms by auto
  show ?thesis
  proof (cases "ihl + 22 \<le> tot")
    case False
    then have "tot - (ihl + 4) < 18" by linarith
    note False = False this
    show ?thesis
    proof (cases "ihl + 18 \<le> tot")
      case True
      then obtain w2 where "read16 d (ip + ihl + 4 + 12) = Some w2" using r by fastforce
      with False w01 assms True show ?thesis by (simp add: parse_gre_def Let_def)
    next
      case f: False
      then have "tot - (ihl + 4) < 14" by linarith
      with w01 assms show ?thesis by (simp add: parse_gre_def Let_def)
    qed
  next
    case True
    then obtain w2 w3 w4 where "read16 d (ip + ihl + 4 + 12) = Some w2"
      "read16 d (ip + ihl + 4 + 14) = Some w3" "read16 d (ip + ihl + 4 + 16) = Some w4"
      using r [of "ip + ihl + 4 + 12"] r [of "ip + ihl + 4 + 14"] r [of "ip + ihl + 4 + 16"] by auto
    with True w01 assms show ?thesis
      by (simp add: parse_gre_def Let_def rd_def rd_bytes_def)
  qed
qed

lemma parse_ip_inside:
  assumes "len \<le> length d" "ip \<le> len" "20 \<le> len - ip"
  shows "\<exists>r. parse_ip d len ip = Some r"
proof -
  have i: "ip + 20 \<le> length d" using assms by linarith
  then obtain w where w: "read16 d (ip + 2) = Some w" using read16_inside [of "ip + 2" d] by auto
  obtain v where v: "read16 d (ip + 6) = Some v" using read16_inside [of "ip + 6" d] i by auto
  have rd: "rd d ip = Some (d ! ip)" "rd d (ip + 9) = Some (d ! (ip + 9))" using i by (simp_all add: rd_def)
  show ?thesis
    using parse_gre_inside [of ip "unat w" d "unat (d ! ip AND 15) * 4"] assms w v rd
    by (auto simp: parse_ip_def Let_def)
qed

lemma parse_frame_inside:
  assumes "len \<le> length d"
  shows "\<exists>r. parse_frame d len = Some r"
proof (cases "len < 14")
  case True
  then show ?thesis by (simp add: parse_frame_def)
next
  case False
  then obtain w where w: "read16 d 12 = Some w" using read16_inside [of 12 d] assms by auto
  from False obtain r where "outer_tags d len 2 14 w = Some r"
    "case r of None \<Rightarrow> True | Some (o', t) \<Rightarrow> 14 \<le> o' \<and> o' \<le> len \<and> \<not> tag_type t"
    using outer_tags_inside [OF assms, of 14 2 w] by auto
  with False w show ?thesis
    using parse_ip_inside [OF assms] by (auto simp: parse_frame_def split: option.splits)
qed

section \<open>Only the first \<open>len\<close> bytes matter\<close>

lemma rd_ext: "below (rd xs i) (rd (xs @ ys) i)"
  by (simp add: below_def rd_def nth_append)

lemma rd_bytes_ext: "below (rd_bytes xs i n) (rd_bytes (xs @ ys) i n)"
  by (simp add: below_def rd_bytes_def)

lemma read16_ext: "below (read16 xs i) (read16 (xs @ ys) i)"
  unfolding read16_def by (intro below_bind rd_ext below_refl)

lemmas read_ext = rd_ext rd_bytes_ext read16_ext

lemma outer_tags_ext: "below (outer_tags xs len left offset type) (outer_tags (xs @ ys) len left offset type)"
proof (induction xs len left offset type rule: outer_tags.induct)
  case (1 d len left offset type)
  show ?case
  proof (cases "(type = 0x8100 \<or> type = 0x88a8) \<and> \<not> (left = 0 \<or> usub len offset < 4)")
    case False
    then show ?thesis by (auto simp: below_def outer_tags.simps [of d] outer_tags.simps [of "d @ ys"])
  next
    case True
    show ?thesis
    proof (cases "read16 d (offset + 2)")
      case None
      with True show ?thesis by (simp add: below_def outer_tags.simps [of d])
    next
      case (Some w)
      with read16_ext [of d "offset + 2" ys] have "read16 (d @ ys) (offset + 2) = Some w"
        by (auto simp: below_def)
      with True Some "1.IH" show ?thesis
        by (simp add: outer_tags.simps [of d len left] outer_tags.simps [of "d @ ys" len left])
    qed
  qed
qed

lemma parse_gre_ext: "below (parse_gre xs ip ihl tot) (parse_gre (xs @ ys) ip ihl tot)"
  unfolding parse_gre_def Let_def by (intro below_bind below_if read_ext below_refl)

lemma parse_ip_ext: "below (parse_ip xs len ip) (parse_ip (xs @ ys) len ip)"
  unfolding parse_ip_def Let_def by (intro below_bind below_if read_ext below_refl parse_gre_ext)

lemma parse_frame_ext: "below (parse_frame xs len) (parse_frame (xs @ ys) len)"
proof -
  have "below (case r of None \<Rightarrow> Some None
        | Some (offset, type) \<Rightarrow> if type \<noteq> 0x0800 \<or> usub len offset < 20 then Some None else parse_ip xs len offset)
      (case r of None \<Rightarrow> Some None
        | Some (offset, type) \<Rightarrow> if type \<noteq> 0x0800 \<or> usub len offset < 20 then Some None else parse_ip (xs @ ys) len offset)" for r
    by (cases r) (auto simp: below_refl parse_ip_ext)
  then show ?thesis
    unfolding parse_frame_def by (intro below_bind below_if read_ext below_refl outer_tags_ext)
qed

lemma parse_frame_take:
  assumes "len \<le> length d"
  shows "parse_frame d len = parse_frame (take len d) len"
proof -
  obtain r where r: "parse_frame (take len d) len = Some r"
    using parse_frame_inside [of len "take len d"] assms by auto
  from parse_frame_ext [of "take len d" len "drop len d"] r show ?thesis by (simp add: below_def)
qed

section \<open>Slices\<close>

lemma slice_drop: "j = i + n \<Longrightarrow> take n (drop i d) @ drop j d = drop i d"
  by (metis append_take_drop_id drop_drop add.commute)

lemma nth_drop_Cons: "i < length d \<Longrightarrow> j = Suc i \<Longrightarrow> d ! i # drop j d = drop i d"
  by (simp add: Cons_nth_drop_Suc)

lemma take_append_drop:
  "take n (drop i d) = a @ b \<Longrightarrow> i + n \<le> length d \<Longrightarrow> a @ b @ drop (i + n) d = drop i d"
  by (metis append.assoc append_take_drop_id drop_drop add.commute)

section \<open>Accepted frames are encodings\<close>

lemma encode_tags_Nil [simp]: "encode_tags [] = []"
  by (simp add: encode_tags_def)

lemma encode_tags_Cons [simp]: "encode_tags ((p, c) # ts) = be16 p @ be16 c @ encode_tags ts"
  by (simp add: encode_tags_def)

lemma length_encode_tags [simp]: "length (encode_tags ts) = 4 * length ts"
  by (induction ts) auto

lemma be16_split: "i + 2 \<le> length d \<Longrightarrow> \<exists>w. take 2 (drop i d) = be16 w"
  using read16_inside [of i d] read16_Some_iff by (metis Suc_1 add_Suc_right Suc_le_lessD plus_1_eq_Suc add.commute)

lemma outer_tags_sound:
  assumes "outer_tags d (length d) left off ty = Some (Some (o', t))"
    and "2 \<le> off" "off \<le> length d" "take 2 (drop (off - 2) d) = be16 ty"
  shows "\<exists>ts. length ts \<le> left \<and> (\<forall>(p, c) \<in> set ts. tag_type p) \<and> o' = off + 4 * length ts \<and>
    o' \<le> length d \<and> drop (off - 2) d = encode_tags ts @ be16 t @ drop o' d \<and> \<not> tag_type t"
  using assms
proof (induction d "length d" left off ty rule: outer_tags.induct)
  case (1 d left off ty)
  have ty: "drop (off - 2) d = be16 ty @ drop off d"
    using "1.prems"(2,4) slice_drop [of off "off - 2" 2 d] by simp
  show ?case
  proof (cases "tag_type ty")
    case False
    with "1.prems" have "o' = off" "t = ty" by (auto simp: outer_tags.simps [of d] tag_type_def)
    with False "1.prems"(3) ty show ?thesis by (intro exI [of _ "[]"]) simp
  next
    case True
    with "1.prems" obtain w where w: "left \<noteq> 0" "4 \<le> length d - off" "read16 d (off + 2) = Some w"
      "outer_tags d (length d) (left - 1) (off + 4) w = Some (Some (o', t))"
      by (auto simp: outer_tags.simps [of d] tag_type_def split: if_splits option.splits)
    then have len: "off + 4 \<le> length d" by linarith
    from w(3) have "take 2 (drop (off + 4 - 2) d) = be16 w" by (simp add: read16_Some_iff)
    then obtain ts where ts: "length ts \<le> left - 1" "\<forall>(p, c) \<in> set ts. tag_type p"
      "o' = off + 4 + 4 * length ts" "o' \<le> length d"
      "drop (off + 4 - 2) d = encode_tags ts @ be16 t @ drop o' d" "\<not> tag_type t"
      using "1.hyps" [of w] True w len by (fastforce simp: tag_type_def)
    obtain c where c: "take 2 (drop off d) = be16 c" using be16_split [of off d] len by auto
    have "drop off d = be16 c @ drop (off + 2) d"
      using slice_drop [of "off + 2" off 2 d] c by simp
    with ts(5) ty have "drop (off - 2) d = encode_tags ((ty, c) # ts) @ be16 t @ drop o' d" by simp
    with True w(1) ts show ?thesis by (intro exI [of _ "(ty, c) # ts"]) auto
  qed
qed

lemma unat_and_15: "unat (b AND 15 :: byte) = unat b mod 16"
proof -
  have "b AND 15 = take_bit 4 b" by (simp add: take_bit_eq_mask mask_numeral)
  then have "b AND 15 = b mod 16" by (simp add: take_bit_eq_mod)
  then show ?thesis by (simp add: unat_mod)
qed

lemma version_ihl:
  assumes "drop_bit 4 b = (4 :: byte)"
  shows "b = of_nat (64 + unat (b AND 15))"
proof -
  have "unat (drop_bit 4 b) = unat b div 16" by (simp add: drop_bit_eq_div unat_div)
  with assms have "unat b div 16 = 4" by simp
  then have "unat b = 64 + unat b mod 16" by presburger
  then show ?thesis by (simp add: unat_and_15 word_unat_eq_iff [where 'a = 8] unat_of_nat) 
qed

lemma foldl_or_zero: "foldl (OR) a bs = (0 :: byte) \<longleftrightarrow> a = 0 \<and> (\<forall>b \<in> set bs. b = 0)"
  by (induction bs arbitrary: a) (auto simp: or_eq_0_iff)

lemma word_1_le: "(1 :: u16) \<le> x \<longleftrightarrow> x \<noteq> 0"
  by (metis not_less word_less_1)

lemma reject_if: "(if c then Some None else e) = Some (Some p) \<longleftrightarrow> \<not> c \<and> e = Some (Some p)"
  by simp

text \<open>What an accepted IPv4 packet looks like, as facts about reads.\<close>

lemma parse_gre_accept:
  assumes "parse_gre d ip ihl tot = Some (Some p)" "ihl + 4 \<le> tot"
  shows "\<exists>tci ity.
    take 2 (drop (ip + ihl) d) = be16 0 \<and> take 2 (drop (ip + ihl + 2) d) = be16 0x6558 \<and>
    take 2 (drop (ip + ihl + 16) d) = be16 0x8100 \<and> take 2 (drop (ip + ihl + 18) d) = be16 tci \<and>
    take 2 (drop (ip + ihl + 20) d) = be16 ity \<and> \<not> tag_type ity \<and> ihl + 22 \<le> tot \<and>
    1 \<le> tci AND 0x0fff \<and> tci AND 0x0fff \<le> 4094 \<and> d ! (ip + ihl + 10) AND 1 = 0 \<and>
    (\<exists>b \<in> set (take 6 (drop (ip + ihl + 10) d)). b \<noteq> 0) \<and>
    p = \<lparr>p_remote = le32 (take 4 (drop (ip + 12) d)), p_local = le32 (take 4 (drop (ip + 16) d)),
      p_mac = take 6 (drop (ip + ihl + 10) d), p_vlan = tci AND 0x0fff\<rparr>"
proof -
  note acc = assms(1) [unfolded parse_gre_def Let_def bind_eq_Some_conv reject_if]
  from acc obtain ity tci e6 m r l where acc:
    "read16 d (ip + ihl) = Some 0" "read16 d (ip + ihl + 2) = Some 0x6558"
    "read16 d (ip + ihl + 4 + 12) = Some 0x8100" "\<not> usub (usub tot ihl) 4 < 18"
    "read16 d (ip + ihl + 4 + 16) = Some ity" "\<not> (ity = 0x8100 \<or> ity = 0x88a8)"
    "read16 d (ip + ihl + 4 + 14) = Some tci" "rd d (ip + ihl + 4 + 6) = Some e6"
    "\<not> (tci AND 0x0fff < 1 \<or> 4094 < tci AND 0x0fff \<or> e6 AND 1 \<noteq> 0)"
    "rd_bytes d (ip + ihl + 4 + 6) 6 = Some m" "foldl (OR) 0 m \<noteq> 0"
    "rd_bytes d (ip + 12) 4 = Some r" "rd_bytes d (ip + 16) 4 = Some l"
    "p = \<lparr>p_remote = le32 r, p_local = le32 l, p_mac = m, p_vlan = tci AND 0x0fff\<rparr>"
    by auto
  have s: "ip + ihl + 4 + 12 = ip + ihl + 16" "ip + ihl + 4 + 16 = ip + ihl + 20"
    "ip + ihl + 4 + 14 = ip + ihl + 18" "ip + ihl + 4 + 6 = ip + ihl + 10" by simp_all
  have "ihl + 22 \<le> tot" using acc(4) assms(2) by auto
  note facts = this acc [unfolded s read16_Some_iff rd_Some_iff rd_bytes_Some_iff foldl_or_zero]
  show ?thesis
    by (rule exI [of _ tci], rule exI [of _ ity])
      (use facts in \<open>auto simp: tag_type_def not_less word_1_le\<close>)
qed

lemma parse_ip_accept:
  assumes "parse_ip d (length d) ip = Some (Some p)" "ip + 20 \<le> length d"
  shows "\<exists>tot frag.
    take 2 (drop (ip + 2) d) = be16 tot \<and> drop_bit 4 (d ! ip) = 4 \<and> 5 \<le> unat (d ! ip AND 15) \<and>
    unat (d ! ip AND 15) * 4 + 4 \<le> unat tot \<and> ip + unat tot \<le> length d \<and> d ! (ip + 9) = 47 \<and>
    take 2 (drop (ip + 6) d) = be16 frag \<and> frag AND 0xbfff = 0 \<and>
    parse_gre d ip (unat (d ! ip AND 15) * 4) (unat tot) = Some (Some p)"
proof -
  have "\<not> length d - ip < x \<longleftrightarrow> ip + x \<le> length d" for x using assms(2) by linarith
  with assms show ?thesis
    by (auto simp: parse_ip_def Let_def bind_eq_Some_conv read16_Some_iff rd_Some_iff not_less split: if_splits)
qed

lemma parse_ip_sound:
  assumes a: "parse_ip d (length d) ip = Some (Some p)" and ip: "ip + 20 \<le> length d"
  shows "\<exists>f. f_eth f = e \<and> f_tags f = ts \<and> drop ip d = encode_ip f @ encode_gre f @ f_trailer f \<and>
    p = frame_packet f \<and> (length e = 12 \<and> length ts \<le> 2 \<and> (\<forall>(p, c) \<in> set ts. tag_type p) \<longrightarrow> wf_frame f)"
proof -
  obtain tot frag where i: "take 2 (drop (ip + 2) d) = be16 tot" "drop_bit 4 (d ! ip) = 4"
    "5 \<le> unat (d ! ip AND 15)" "unat (d ! ip AND 15) * 4 + 4 \<le> unat tot" "ip + unat tot \<le> length d"
    "d ! (ip + 9) = 47" "take 2 (drop (ip + 6) d) = be16 frag" "frag AND 0xbfff = 0"
    and gre: "parse_gre d ip (unat (d ! ip AND 15) * 4) (unat tot) = Some (Some p)"
    using parse_ip_accept [OF a ip] by blast
  define n where "n = unat (d ! ip AND 15)"
  have n: "5 \<le> n" "n \<le> 15" "d ! ip = of_nat (64 + n)"
    using i(3) unat_and_le [of "d ! ip" 15] version_ihl [OF i(2)] by (auto simp: n_def)
  let ?h = "ip + n * 4"
  obtain tci ity where g: "take 2 (drop ?h d) = be16 0" "take 2 (drop (?h + 2) d) = be16 0x6558"
    "take 2 (drop (?h + 16) d) = be16 0x8100" "take 2 (drop (?h + 18) d) = be16 tci"
    "take 2 (drop (?h + 20) d) = be16 ity" "\<not> tag_type ity" "n * 4 + 22 \<le> unat tot"
    "1 \<le> tci AND 0x0fff" "tci AND 0x0fff \<le> 4094" "d ! (?h + 10) AND 1 = 0"
    "\<exists>b \<in> set (take 6 (drop (?h + 10) d)). b \<noteq> 0" 
    "p = \<lparr>p_remote = le32 (take 4 (drop (ip + 12) d)), p_local = le32 (take 4 (drop (ip + 16) d)),
      p_mac = take 6 (drop (?h + 10) d), p_vlan = tci AND 0x0fff\<rparr>"
    using parse_gre_accept [OF gre i(4)] unfolding n_def by blast
  let ?f = "\<lparr>f_eth = e, f_tags = ts, f_words = n, f_tos = d ! (ip + 1), f_id = take 2 (drop (ip + 4) d),
    f_frag = frag, f_ttl = d ! (ip + 8), f_csum = take 2 (drop (ip + 10) d), f_src = take 4 (drop (ip + 12) d),
    f_dst = take 4 (drop (ip + 16) d), f_options = take (n * 4 - 20) (drop (ip + 20) d),
    f_inner_dst = take 6 (drop (?h + 4) d), f_inner_src = take 6 (drop (?h + 10) d), f_tci = tci,
    f_inner_type = ity, f_payload = take (unat tot - (n * 4 + 22)) (drop (?h + 22) d),
    f_trailer = drop (ip + unat tot) d\<rparr>"
  have u: "unat tot < 2 ^ LENGTH(16)" by (rule unsigned_less)
  have tot: "f_total ?f = unat tot" using g(7) i(5) by (simp add: f_total_def)
  have "encode_gre ?f @ f_trailer ?f = drop ?h d"
    using g(7) by (simp add: encode_gre_def slice_drop flip: g(1-5))
  moreover have "encode_ip ?f @ drop ?h d = drop ip d"
    unfolding encode_ip_def tot
    using ip n(1) by (simp add: slice_drop nth_drop_Cons flip: i(1,6,7) n(3) [simplified])
  ultimately have "drop ip d = encode_ip ?f @ encode_gre ?f @ f_trailer ?f" by simp
  moreover have "wf_frame ?f" if "length e = 12" "length ts \<le> 2" "\<forall>(p, c) \<in> set ts. tag_type p"
    using that ip n i g tot u by (simp add: wf_frame_def mult.commute)
  moreover have "p = frame_packet ?f" by (simp add: frame_packet_def g(12))
  ultimately show ?thesis by (intro exI [of _ ?f]) simp
qed

lemma parse_frame_sound:
  assumes "parse_frame d (length d) = Some (Some p)"
  shows "\<exists>f. wf_frame f \<and> d = encode_frame f \<and> p = frame_packet f"
proof -
  from assms obtain ty off where ty: "14 \<le> length d" "read16 d 12 = Some ty"
    "outer_tags d (length d) 2 14 ty = Some (Some (off, 0x0800))" "\<not> usub (length d) off < 20"
    "parse_ip d (length d) off = Some (Some p)"
    by (auto simp: parse_frame_def bind_eq_Some_conv split: if_splits option.splits)
  from ty(2) have "take 2 (drop (14 - 2) d) = be16 ty" by (simp add: read16_Some_iff)
  with outer_tags_sound [OF ty(3)] ty(1) obtain ts where ts: "length ts \<le> 2" "\<forall>(p, c) \<in> set ts. tag_type p"
    "off \<le> length d" "drop 12 d = encode_tags ts @ be16 0x0800 @ drop off d" by auto
  from ty(4) ts(3) have "off + 20 \<le> length d" by simp
  from parse_ip_sound [OF ty(5) this, of "take 12 d" ts] obtain f where f: "f_eth f = take 12 d" "f_tags f = ts"
    "drop off d = encode_ip f @ encode_gre f @ f_trailer f" "p = frame_packet f" "wf_frame f"
    using ts(1,2) ty(1) by auto
  have "d = take 12 d @ drop 12 d" by simp
  then have "d = encode_frame f" unfolding encode_frame_def f(1,2) using ts(4) f(3) by simp
  with f(4,5) show ?thesis by blast
qed

section \<open>Encodings are accepted\<close>

lemma outer_tags_complete:
  "length pre = off - 2 \<Longrightarrow> 2 \<le> off \<Longrightarrow> \<forall>(p, c) \<in> set ts. tag_type p \<Longrightarrow> \<not> tag_type t \<Longrightarrow> length ts \<le> left \<Longrightarrow>
   d = pre @ encode_tags ts @ be16 t @ post \<Longrightarrow>
   (case ts of [] \<Rightarrow> ty = t | (p, c) # _ \<Rightarrow> ty = p) \<Longrightarrow>
   outer_tags d (length d) left off ty = Some (Some (off + 4 * length ts, t))"
proof (induction ts arbitrary: pre off left ty)
  case Nil
  then show ?case by (subst outer_tags.simps) (simp add: tag_type_def)
next
  case (Cons x ts)
  obtain p c where x: "x = (p, c)" by force
  let ?w = "case ts of [] \<Rightarrow> t | (p, c) # _ \<Rightarrow> p"
  have len: "length d = off + 4 + 4 * length ts + length post" using Cons.prems x by simp
  have "take 2 (encode_tags ts @ be16 t @ post) = be16 ?w" by (cases ts) (auto split: prod.splits)
  moreover have "drop (off + 2) d = encode_tags ts @ be16 t @ post"
    using Cons.prems(1,2,6) x by simp
  ultimately have r: "read16 d (off + 2) = Some ?w" using len by (simp add: read16_Some_iff)
  have tag: "ty = 0x8100 \<or> ty = 0x88a8" "left \<noteq> 0" "\<not> usub (length d) off < 4"
    using Cons.prems x len by (auto simp: tag_type_def)
  have "outer_tags d (length d) (left - 1) (off + 4) ?w = Some (Some (off + 4 + 4 * length ts, t))"
    using Cons.prems x by (intro Cons.IH [of "pre @ be16 p @ be16 c"]) (auto split: list.splits prod.splits)
  then show ?case
    using tag r by (subst outer_tags.simps) simp
qed

text \<open>Reading at a known position of a concatenation.\<close>

lemma rd_at: "length pre = i \<Longrightarrow> rd (pre @ x # post) i = Some x"
  by (simp add: rd_def nth_append)

lemma read16_at: "length pre = i \<Longrightarrow> read16 (pre @ be16 w @ post) i = Some w"
  by (simp add: read16_Some_iff)

lemma rd_bytes_at: "length pre = i \<Longrightarrow> length bs = n \<Longrightarrow> rd_bytes (pre @ bs @ post) i n = Some bs"
  by (simp add: rd_bytes_def)

lemma parse_gre_complete:
  assumes f: "wf_frame f" and d: "d = pre @ encode_ip f @ encode_gre f @ f_trailer f"
    and i: "length pre = ip"
  shows "parse_gre d ip (f_words f * 4) (f_total f) = Some (Some (frame_packet f))"
proof -
  let ?ihl = "f_words f * 4"
  note w = f [unfolded wf_frame_def]
  have ihl: "length (encode_ip f) = ?ihl" using w by (auto simp: encode_ip_def)
  let ?a = "pre @ encode_ip f"
  have la: "length ?a = ip + ?ihl" using i ihl by simp
  have r: "read16 d (ip + ?ihl) = Some 0"
    "read16 d (ip + ?ihl + 2) = Some 0x6558"
    "read16 d (ip + ?ihl + 4 + 12) = Some 0x8100"
    "read16 d (ip + ?ihl + 4 + 16) = Some (f_inner_type f)"
    "read16 d (ip + ?ihl + 4 + 14) = Some (f_tci f)"
    using la w unfolding d encode_gre_def
    using read16_at [of ?a _ 0]
      read16_at [of "?a @ be16 0" _ "0x6558"]
      read16_at [of "?a @ be16 0 @ be16 0x6558 @ f_inner_dst f @ f_inner_src f" _ "0x8100"]
      read16_at [of "?a @ be16 0 @ be16 0x6558 @ f_inner_dst f @ f_inner_src f @ be16 0x8100" _ "f_tci f"]
      read16_at [of "?a @ be16 0 @ be16 0x6558 @ f_inner_dst f @ f_inner_src f @ be16 0x8100 @ be16 (f_tci f)" _ "f_inner_type f"]
    by (simp_all add: add.assoc)
  have m: "rd_bytes d (ip + ?ihl + 4 + 6) 6 = Some (f_inner_src f)"
    using la w unfolding d encode_gre_def
    using rd_bytes_at [of "?a @ be16 0 @ be16 0x6558 @ f_inner_dst f" _ "f_inner_src f" 6]
    by (simp add: add.assoc)
  then have e6: "rd d (ip + ?ihl + 4 + 6) = Some (f_inner_src f ! 0)"
    by (auto simp: rd_bytes_Some_iff rd_def)
  have "rd_bytes d (ip + 12) 4 = Some (f_src f)" "rd_bytes d (ip + 16) 4 = Some (f_dst f)"
    using i w unfolding d encode_ip_def
    using rd_bytes_at [of "pre @ [of_nat (64 + f_words f), f_tos f] @ be16 (of_nat (f_total f)) @ f_id f @ be16 (f_frag f) @
     [f_ttl f, 47] @ f_csum f" _ "f_src f" 4]
     rd_bytes_at [of "pre @ [of_nat (64 + f_words f), f_tos f] @ be16 (of_nat (f_total f)) @ f_id f @ be16 (f_frag f) @
     [f_ttl f, 47] @ f_csum f @ f_src f" _ "f_dst f" 4]
    by simp_all
  then show ?thesis
    using r m e6 w
    by (simp add: parse_gre_def Let_def f_total_def tag_type_def foldl_or_zero frame_packet_def not_less word_1_le)
qed

lemma ip_first_byte:
  assumes "n \<le> 15"
  shows "drop_bit 4 (of_nat (64 + n) :: byte) = 4" "unat (of_nat (64 + n) AND 15 :: byte) = n"
proof -
  have u: "unat (of_nat (64 + n) :: byte) = 64 + n"
    using assms by (simp add: unat_of_nat del: of_nat_add)
  moreover have "(64 + n) mod 16 = n" using assms by presburger
  ultimately show "unat (of_nat (64 + n) AND 15 :: byte) = n" by (simp only: unat_and_15)
  have "unat (drop_bit 4 (of_nat (64 + n) :: byte)) = (64 + n) div 16"
    using u by (simp add: drop_bit_eq_div unat_div)
  then have "unat (drop_bit 4 (of_nat (64 + n) :: byte)) = unat (4 :: byte)" using assms by simp
  then show "drop_bit 4 (of_nat (64 + n) :: byte) = 4" by (simp only: word_unat_eq_iff)
qed

lemma parse_ip_complete:
  assumes f: "wf_frame f" and d: "d = pre @ encode_ip f @ encode_gre f @ f_trailer f"
    and i: "length pre = ip"
  shows "parse_ip d (length d) ip = Some (Some (frame_packet f))"
proof -
  note w = f [unfolded wf_frame_def]
  have t: "unat (of_nat (f_total f) :: u16) = f_total f" using w by (simp add: unat_of_nat)
  let ?h = "pre @ [of_nat (64 + f_words f), f_tos f]"
  have r: "rd d ip = Some (of_nat (64 + f_words f))" "read16 d (ip + 2) = Some (of_nat (f_total f))"
    "rd d (ip + 9) = Some 47" "read16 d (ip + 6) = Some (f_frag f)"
    using i w unfolding d encode_ip_def
    using rd_at [of pre _ "of_nat (64 + f_words f)"] read16_at [of ?h _ "of_nat (f_total f)"]
      read16_at [of "?h @ be16 (of_nat (f_total f)) @ f_id f" _ "f_frag f"]
      rd_at [of "?h @ be16 (of_nat (f_total f)) @ f_id f @ be16 (f_frag f) @ [f_ttl f]" _ 47]
    by simp_all
  have len: "length d = ip + f_total f + length (f_trailer f)"
    using i w unfolding d by (auto simp: encode_ip_def encode_gre_def f_total_def)
  show ?thesis
    using r len w parse_gre_complete [OF f d i] ip_first_byte [of "f_words f"] t
    by (simp add: parse_ip_def Let_def f_total_def del: of_nat_add)
qed

lemma parse_frame_complete:
  assumes f: "wf_frame f"
  shows "parse_frame (encode_frame f) (length (encode_frame f)) = Some (Some (frame_packet f))"
proof -
  let ?d = "encode_frame f" and ?ts = "f_tags f"
  note w = f [unfolded wf_frame_def]
  have len: "34 + 4 * length ?ts \<le> length ?d" using w by (auto simp: encode_frame_def encode_ip_def)
  define ty where "ty = (case ?ts of [] \<Rightarrow> 0x0800 | (p, c) # _ \<Rightarrow> p)"
  have d: "?d = f_eth f @ encode_tags ?ts @ be16 0x0800 @ encode_ip f @ encode_gre f @ f_trailer f"
    by (simp add: encode_frame_def)
  have "take 2 (encode_tags ?ts @ be16 0x0800 @ encode_ip f @ encode_gre f @ f_trailer f) = be16 ty"
    by (cases ?ts) (auto simp: ty_def split: prod.splits)
  then have r: "read16 ?d 12 = Some ty"
    using w len unfolding read16_Some_iff d by simp
  have o: "outer_tags ?d (length ?d) 2 14 ty = Some (Some (14 + 4 * length ?ts, 0x0800))"
    using w by (intro outer_tags_complete [OF _ _ _ _ _ d]) (auto simp: ty_def tag_type_def split: list.splits)
  have "parse_ip ?d (length ?d) (14 + 4 * length ?ts) = Some (Some (frame_packet f))"
    using w by (intro parse_ip_complete [OF f, of _ "f_eth f @ encode_tags ?ts @ be16 0x0800"]) (simp_all add: d)
  with r o len show ?thesis by (simp add: parse_frame_def)
qed

section \<open>The filter\<close>

text \<open>The filter passes exactly the IPv4 GRE frames with at most two outer tags.\<close>

definition filter_match :: "byte list \<Rightarrow> nat \<Rightarrow> bool" where
  "filter_match d k \<longleftrightarrow> read16 d (12 + 4 * k) = Some 0x0800 \<and> rd d (23 + 4 * k) = Some 47 \<and>
     (\<forall>j < k. \<exists>t. read16 d (12 + 4 * j) = Some t \<and> tag_type t)"

lemma ucast_u16_inj: "(ucast (w :: u16) :: u32) = ucast k \<longleftrightarrow> w = k"
proof -
  have "ucast (ucast v :: u32) = (v :: u16)" for v
    by (rule bit_word_eqI) (simp add: bit_simps)
  then show ?thesis by metis
qed

lemma ucast_u8_inj: "(ucast (w :: byte) :: u32) = ucast k \<longleftrightarrow> w = k"
proof -
  have "ucast (ucast v :: u32) = (v :: byte)" for v
    by (rule bit_word_eqI) (simp add: bit_simps)
  then show ?thesis by metis
qed

lemmas jeq_type = ucast_u16_inj [of _ "0x0800", simplified] ucast_u16_inj [of _ "0x8100", simplified]
  ucast_u16_inj [of _ "0x88a8", simplified] ucast_u8_inj [of _ 47, simplified]

text \<open>One instruction of the filter.\<close>

lemma filter_len: "length capture_filter = 19"
  by (simp add: capture_filter_def)

lemma filter_insn:
  "capture_filter ! 0 = LD_H_ABS 12" "capture_filter ! 1 = JEQ_K 0x0800 0 3"
  "capture_filter ! 2 = LD_B_ABS 23" "capture_filter ! 3 = JEQ_K 47 13 14"
  "capture_filter ! 5 = JEQ_K 0x8100 1 0" "capture_filter ! 6 = JEQ_K 0x88a8 0 11"
  "capture_filter ! 7 = LD_H_ABS 16" "capture_filter ! 8 = JEQ_K 0x0800 0 2"
  "capture_filter ! 9 = LD_B_ABS 27" "capture_filter ! 10 = JEQ_K 47 6 7"
  "capture_filter ! 11 = JEQ_K 0x8100 1 0" "capture_filter ! 12 = JEQ_K 0x88a8 0 5"
  "capture_filter ! 13 = LD_H_ABS 20" "capture_filter ! 14 = JEQ_K 0x0800 0 3"
  "capture_filter ! 15 = LD_B_ABS 31" "capture_filter ! 16 = JEQ_K 47 0 1"
  "capture_filter ! 17 = RET_K 65535" "capture_filter ! 18 = RET_K 0"
  by (simp_all add: capture_filter_def)

lemma filter_insn_Suc:
  "capture_filter ! Suc 0 = JEQ_K 0x0800 0 3" "capture_filter ! Suc (Suc 0) = LD_B_ABS 23"
  "capture_filter ! Suc (Suc (Suc 0)) = JEQ_K 47 13 14"
  by (simp_all add: capture_filter_def)

definition verdict :: "bool \<Rightarrow> nat" where
  "verdict b = (if b then 65535 else 0)"

lemma bpf_ld_h: "pc < length p \<Longrightarrow> p ! pc = LD_H_ABS k \<Longrightarrow> bpf_run p d pc acc =
    (case read16 d k of None \<Rightarrow> 0 | Some w \<Rightarrow> bpf_run p d (pc + 1) (ucast w))"
  by (subst bpf_run.simps) simp

lemma bpf_ld_b: "pc < length p \<Longrightarrow> p ! pc = LD_B_ABS k \<Longrightarrow> bpf_run p d pc acc =
    (case rd d k of None \<Rightarrow> 0 | Some b \<Rightarrow> bpf_run p d (pc + 1) (ucast b))"
  by (subst bpf_run.simps) simp

lemma bpf_jeq: "pc < length p \<Longrightarrow> p ! pc = JEQ_K k jt jf \<Longrightarrow> bpf_run p d pc acc =
    (if acc = k then bpf_run p d (pc + 1 + jt) acc else bpf_run p d (pc + 1 + jf) acc)"
  by (subst bpf_run.simps) simp

lemma bpf_ret: "pc < length p \<Longrightarrow> p ! pc = RET_K k \<Longrightarrow> bpf_run p d pc acc = k"
  by (subst bpf_run.simps) simp

lemma filter_ret: "bpf_run capture_filter d 17 acc = 65535" "bpf_run capture_filter d 18 acc = 0"
  by (simp_all add: bpf_ret [of _ _ 65535] bpf_ret [of _ _ 0] filter_insn filter_len)

lemma filter_13: "bpf_run capture_filter d 13 acc =
    verdict (read16 d 20 = Some 0x0800 \<and> rd d 31 = Some 47)"
  by (subst bpf_ld_h [OF _ filter_insn(13)], simp add: filter_len)
    (simp add: bpf_jeq [OF _ filter_insn(14)] bpf_ld_b [OF _ filter_insn(15)] bpf_jeq [OF _ filter_insn(16)]
      filter_len filter_ret jeq_type verdict_def split: option.split)

lemma filter_7: "bpf_run capture_filter d 7 acc =
    verdict ((read16 d 16 = Some 0x0800 \<and> rd d 27 = Some 47) \<or>
      ((\<exists>t. read16 d 16 = Some t \<and> tag_type t) \<and> read16 d 20 = Some 0x0800 \<and> rd d 31 = Some 47))"
  by (subst bpf_ld_h [OF _ filter_insn(7)], simp add: filter_len)
    (auto simp: bpf_jeq [OF _ filter_insn(8)] bpf_ld_b [OF _ filter_insn(9)] bpf_jeq [OF _ filter_insn(10)]
      bpf_jeq [OF _ filter_insn(11)] bpf_jeq [OF _ filter_insn(12)] filter_13
      filter_len filter_ret jeq_type verdict_def tag_type_def split: option.split)

lemma filter_0: "bpf_run capture_filter d 0 acc =
    verdict ((read16 d 12 = Some 0x0800 \<and> rd d 23 = Some 47) \<or>
      ((\<exists>t. read16 d 12 = Some t \<and> tag_type t) \<and>
       ((read16 d 16 = Some 0x0800 \<and> rd d 27 = Some 47) \<or>
        ((\<exists>t. read16 d 16 = Some t \<and> tag_type t) \<and> read16 d 20 = Some 0x0800 \<and> rd d 31 = Some 47))))"
  by (subst bpf_ld_h [OF _ filter_insn(1)], simp add: filter_len)
    (auto simp: bpf_jeq [OF _ filter_insn_Suc(1)] bpf_ld_b [OF _ filter_insn_Suc(2)] bpf_jeq [OF _ filter_insn_Suc(3)]
      bpf_jeq [OF _ filter_insn(5)] bpf_jeq [OF _ filter_insn(6)] filter_7
      filter_len filter_ret jeq_type verdict_def tag_type_def split: option.split)

lemma filter_exact: "bpf_run capture_filter d 0 0 = verdict (\<exists>k \<le> 2. filter_match d k)"
proof -
  have "(\<exists>k \<le> 2. filter_match d k) \<longleftrightarrow> filter_match d 0 \<or> filter_match d 1 \<or> filter_match d 2"
    by (auto simp: le_Suc_eq numeral_2_eq_2)
  then show ?thesis
    unfolding filter_0 filter_match_def by (simp add: numeral_2_eq_2 All_less_Suc2) (auto simp: verdict_def)
qed

lemma accepted_filter_match:
  assumes "wf_frame f"
  shows "filter_match (encode_frame f) (length (f_tags f))"
proof -
  let ?d = "encode_frame f" and ?k = "length (f_tags f)"
  note w = assms [unfolded wf_frame_def]
  have tag: "\<exists>t. read16 ?d (12 + 4 * j) = Some t \<and> tag_type t" if j: "j < ?k" for j
  proof -
    obtain p c where pc: "f_tags f ! j = (p, c)" by fastforce
    with j have f: "f_tags f = take j (f_tags f) @ (p, c) # drop (Suc j) (f_tags f)"
      by (metis id_take_nth_drop)
    have "encode_tags (f_tags f) =
        encode_tags (take j (f_tags f)) @ be16 p @ be16 c @ encode_tags (drop (Suc j) (f_tags f))"
      by (subst f) (simp add: encode_tags_def)
    then obtain rest where "?d = (f_eth f @ encode_tags (take j (f_tags f))) @ be16 p @ rest"
      by (simp add: encode_frame_def)
    then have "take 2 (drop (12 + 4 * j) ?d) = be16 p" "12 + 4 * j + 2 \<le> length ?d"
      using w j by simp_all
    then show ?thesis using pc j w by (metis (mono_tags, lifting) nth_mem read16_Some_iff case_prodD)
  qed
  have d: "?d = (f_eth f @ encode_tags (f_tags f)) @ be16 0x0800 @ encode_ip f @ encode_gre f @ f_trailer f"
    by (simp add: encode_frame_def)
  have "read16 ?d (12 + 4 * ?k) = Some 0x0800" unfolding read16_Some_iff d using w by simp
  moreover have "rd ?d (23 + 4 * ?k) = Some 47"
    unfolding rd_Some_iff d using w by (simp add: nth_append encode_ip_def)
  ultimately show ?thesis using tag by (simp add: filter_match_def)
qed

section \<open>Properties\<close>

text \<open>C19. Memory safety and frame condition of the parser: given at least \<open>len\<close> readable bytes
  the parser returns without reading outside them, its answer depends on the first \<open>len\<close> bytes
  only, and a rejected frame leaves \<open>*out\<close> untouched.\<close>

theorem payload_parse_safe:
  assumes "len \<le> length d"
  shows "\<exists>ok p'. payload_parse (Some d) len (Some p) = Some (ok, Some p') \<and>
    payload_parse (Some (take len d)) len (Some p) = Some (ok, Some p') \<and> (\<not> ok \<longrightarrow> p' = p)"
proof -
  obtain r where r: "parse_frame d len = Some r" using parse_frame_inside [OF assms] by auto
  then have "parse_frame (take len d) len = Some r" using parse_frame_take [OF assms] by simp
  with r show ?thesis by (cases r) (auto simp: payload_parse_def)
qed

theorem payload_parse_safe_witness:
  "\<exists>ok p'. payload_parse (Some [1, 2, 3]) 3 (Some \<lparr>p_remote = 0, p_local = 0, p_mac = [], p_vlan = 0\<rparr>) = Some (ok, Some p')"
  using payload_parse_safe [of 3 "[1, 2, 3]"] by simp blast

text \<open>C20. The parser accepts a frame exactly when its first \<open>len\<close> bytes are the encoding of a
  well-formed frame (any outer tags up to two, any IPv4 options, any padding), and the packet
  then holds the frame's tunnel endpoints, inner source address and VLAN id.\<close>

theorem payload_parse_exact:
  assumes "len \<le> length d"
  shows "payload_parse (Some d) len (Some p0) = Some (True, Some p) \<longleftrightarrow>
    (\<exists>f. wf_frame f \<and> take len d = encode_frame f \<and> p = frame_packet f)"
proof -
  have len: "length (take len d) = len" using assms by simp
  have "payload_parse (Some d) len (Some p0) = Some (True, Some p) \<longleftrightarrow>
      parse_frame (take len d) (length (take len d)) = Some (Some p)"
    unfolding len parse_frame_take [OF assms, symmetric]
    by (auto simp: payload_parse_def bind_eq_Some_conv split: option.splits)
  then show ?thesis
    using parse_frame_sound [of "take len d" p] parse_frame_complete by metis
qed

definition example_frame :: frame where
  "example_frame =
     \<lparr>f_eth = [1, 1, 1, 1, 1, 1, 1, 1, 1, 1, 1, 1], f_tags = [(0x8100, 5)], f_words = 6, f_tos = 0,
      f_id = [0, 1], f_frag = 0x4000, f_ttl = 64, f_csum = [9, 9], f_src = [192, 0, 4, 2],
      f_dst = [192, 0, 4, 1], f_options = [1, 1, 1, 0], f_inner_dst = [255, 255, 255, 255, 255, 255],
      f_inner_src = [2, 0, 0, 0, 0, 0x42], f_tci = 0x23e8, f_inner_type = 0x0800,
      f_payload = [1, 2, 3], f_trailer = [0, 0]\<rparr>"

lemma example_frame_wf: "wf_frame example_frame"
  by (simp add: wf_frame_def example_frame_def f_total_def tag_type_def)

theorem payload_parse_exact_witness:
  "payload_parse (Some (encode_frame example_frame @ [7])) (length (encode_frame example_frame))
     (Some \<lparr>p_remote = 0, p_local = 0, p_mac = [], p_vlan = 0\<rparr>) =
   Some (True, Some \<lparr>p_remote = 0x020400c0, p_local = 0x010400c0, p_mac = [2, 0, 0, 0, 0, 0x42], p_vlan = 1000\<rparr>)"
proof -
  have "frame_packet example_frame =
      \<lparr>p_remote = 0x020400c0, p_local = 0x010400c0, p_mac = [2, 0, 0, 0, 0, 0x42], p_vlan = 1000\<rparr>"
    by (simp add: frame_packet_def example_frame_def le32_def)
  then show ?thesis
    by (subst payload_parse_exact) (use example_frame_wf in auto)
qed

text \<open>C21. The program attached to the capture socket accepts a packet (with the whole packet as
  snapshot) exactly when behind \<open>k \<le> 2\<close> VLAN tags there is an IPv4 packet with protocol 47, and
  drops every other packet, also one too short for the loads. It has no false negatives: every
  frame that \<open>payload_parse\<close> would accept passes.\<close>

theorem capture_filter_exact:
  "bpf_run capture_filter d 0 0 = (if \<exists>k \<le> 2. filter_match d k then 65535 else 0) \<and>
   (payload_parse (Some d) (length d) (Some p0) = Some (True, Some p) \<longrightarrow> bpf_run capture_filter d 0 0 = 65535)"
proof (intro conjI impI)
  show "bpf_run capture_filter d 0 0 = (if \<exists>k \<le> 2. filter_match d k then 65535 else 0)"
    using filter_exact [of d] by (simp add: verdict_def)
  assume "payload_parse (Some d) (length d) (Some p0) = Some (True, Some p)"
  then obtain f where f: "wf_frame f" "d = encode_frame f"
    using parse_frame_sound [of d p] by (auto simp: payload_parse_def bind_eq_Some_conv split: option.splits)
  then have "filter_match d (length (f_tags f))" "length (f_tags f) \<le> 2"
    using accepted_filter_match by (auto simp: wf_frame_def)
  then have "\<exists>k \<le> 2. filter_match d k" by blast
  then show "bpf_run capture_filter d 0 0 = 65535" using filter_exact [of d] by (simp add: verdict_def)
qed

theorem capture_filter_exact_witness:
  "bpf_run capture_filter (encode_frame example_frame) 0 0 = 65535"
  using capture_filter_exact [of "encode_frame example_frame" "frame_packet example_frame" "frame_packet example_frame"]
  by (simp add: payload_parse_def parse_frame_complete [OF example_frame_wf])

end
