(* ===== verification/Daemon_Ledger.thy ===== *)
theory Daemon_Ledger
  imports Daemon Service_Correct Payload_Correct
begin

text \<open>
  The ledger of the daemon's descriptors, and the shutdown: from every state in which \<open>main\<close> can jump
  to \<open>end\<close> it returns and releases everything.
\<close>

section \<open>The ledger\<close>

lemma same_but_sys_iff:
  "same_but_sys d d' \<longleftrightarrow> g_listener d' = g_listener d \<and> g_clients d' = g_clients d \<and> g_poll_slots d' = g_poll_slots d \<and>
     g_limit d' = g_limit d \<and> g_capture d' = g_capture d \<and> g_pid d' = g_pid d \<and> g_signal d' = g_signal d \<and>
     g_notify d' = g_notify d \<and> g_fds d' = g_fds d \<and> g_unlinked d' = g_unlinked d \<and>
     s_log_fd (g_sys d') = s_log_fd (g_sys d) \<and> s_initialized (g_sys d') = s_initialized (g_sys d) \<and>
     s_execs (g_sys d') = s_execs (g_sys d) \<and> (\<exists>s. g_prov d' = (g_prov d)\<lparr>p_sys := s\<rparr>)" (is "_ \<longleftrightarrow> ?R")
proof
  assume r: ?R
  then obtain s where s: "g_prov d' = (g_prov d)\<lparr>p_sys := s\<rparr>" by blast
  with r have "d' = set_sys s d" by (cases d; cases d') simp
  moreover have "s_log_fd s = s_log_fd (g_sys d)" "s_initialized s = s_initialized (g_sys d)" "s_execs s = s_execs (g_sys d)"
    using r s by simp_all
  ultimately show "same_but_sys d d'" unfolding same_but_sys_def by blast
qed (simp add: same_but_sysD)

definition opt_fd :: "nat option \<Rightarrow> nat multiset" where "opt_fd x = mset_set (set_option x)"

lemma opt_fd_simps [simp]: "opt_fd None = {#}" "opt_fd (Some fd) = {#fd#}"
  by (simp_all add: opt_fd_def)

definition srv_part :: "'w daemon \<Rightarrow> nat multiset" where
  "srv_part d = (case g_listener d of None \<Rightarrow> {#} | Some l \<Rightarrow> add_mset l (client_fds (g_clients d)))"

definition base :: "'w daemon \<Rightarrow> nat multiset" where
  "base d = opt_fd (g_capture d) + opt_fd (g_pid d) + opt_fd (g_signal d) + opt_fd (g_notify d)"

text \<open>Every open descriptor belongs to a static of the daemon, except \<open>extra\<close>.\<close>

definition ledger :: "nat multiset \<Rightarrow> 'w daemon \<Rightarrow> bool" where
  "ledger extra d \<longleftrightarrow> (g_listener d \<noteq> None \<longrightarrow> table_ok d) \<and> mset (g_fds d) = extra + base d + srv_part d"

lemma ledger_srv: "ledger extra d \<longleftrightarrow> srv_inv (extra + base d) d \<or> srv_off (extra + base d) d"
  by (cases "g_listener d") (auto simp: ledger_def srv_inv_def srv_off_def srv_part_def)

lemma ledger_cong:
  assumes "g_listener d' = g_listener d" "g_clients d' = g_clients d" "g_poll_slots d' = g_poll_slots d" "g_limit d' = g_limit d"
    "g_capture d' = g_capture d" "g_pid d' = g_pid d" "g_signal d' = g_signal d" "g_notify d' = g_notify d" "g_fds d' = g_fds d"
  shows "ledger extra d' = ledger extra d" "base d' = base d" "srv_part d' = srv_part d" "srv_cold other d' = srv_cold other d"
  using assms by (simp_all add: ledger_def base_def srv_part_def table_ok_def srv_cold_def srv_off_def cong: option.case_cong)

lemma ledger_same: "same_but_sys d d' \<Longrightarrow> ledger extra d' = ledger extra d" "same_but_sys d d' \<Longrightarrow> base d' = base d"
  "same_but_sys d d' \<Longrightarrow> srv_cold other d' = srv_cold other d"
  by (rule ledger_cong(1) ledger_cong(2) ledger_cong(4); simp add: same_but_sysD)+

lemma ledger_prov [simp]: "ledger extra (d\<lparr>g_prov := p\<rparr>) = ledger extra d" "base (d\<lparr>g_prov := p\<rparr>) = base d"
  "srv_cold other (d\<lparr>g_prov := p\<rparr>) = srv_cold other d"
  by (rule ledger_cong(1) ledger_cong(2) ledger_cong(4); simp)+

lemma in_ledger:
  assumes "ledger extra d"
  shows "g_capture d = Some fd \<Longrightarrow> fd \<in> set (g_fds d)" "g_pid d = Some fd \<Longrightarrow> fd \<in> set (g_fds d)"
    "g_signal d = Some fd \<Longrightarrow> fd \<in> set (g_fds d)" "g_notify d = Some fd \<Longrightarrow> fd \<in> set (g_fds d)"
proof -
  from assms have "set (g_fds d) = set_mset (extra + base d + srv_part d)" by (metis ledger_def set_mset_mset)
  then show "g_capture d = Some fd \<Longrightarrow> fd \<in> set (g_fds d)" "g_pid d = Some fd \<Longrightarrow> fd \<in> set (g_fds d)"
    "g_signal d = Some fd \<Longrightarrow> fd \<in> set (g_fds d)" "g_notify d = Some fd \<Longrightarrow> fd \<in> set (g_fds d)"
    by (simp_all add: base_def)
qed

text \<open>Closing the descriptor of a static and forgetting it.\<close>

lemma ledger_drop:
  assumes "ledger extra d"
  shows "g_capture d = Some fd \<Longrightarrow> ledger extra (d\<lparr>g_fds := remove1 fd (g_fds d), g_capture := None\<rparr>)"
    "g_pid d = Some fd \<Longrightarrow> ledger extra (d\<lparr>g_fds := remove1 fd (g_fds d), g_pid := None\<rparr>)"
    "g_signal d = Some fd \<Longrightarrow> ledger extra (d\<lparr>g_fds := remove1 fd (g_fds d), g_signal := None\<rparr>)"
    "g_notify d = Some fd \<Longrightarrow> ledger extra (d\<lparr>g_fds := remove1 fd (g_fds d), g_notify := None\<rparr>)"
  using assms by (simp_all add: ledger_def table_ok_def base_def srv_part_def cong: option.case_cong)

lemma same_upd:
  "same_but_sys d d' \<Longrightarrow> same_but_sys (d\<lparr>g_capture := c\<rparr>) (d'\<lparr>g_capture := c\<rparr>)"
  "same_but_sys d d' \<Longrightarrow> same_but_sys (d\<lparr>g_pid := c\<rparr>) (d'\<lparr>g_pid := c\<rparr>)"
  "same_but_sys d d' \<Longrightarrow> same_but_sys (d\<lparr>g_signal := c\<rparr>) (d'\<lparr>g_signal := c\<rparr>)"
  "same_but_sys d d' \<Longrightarrow> same_but_sys (d\<lparr>g_notify := c\<rparr>) (d'\<lparr>g_notify := c\<rparr>)"
  "same_but_sys d d' \<Longrightarrow> same_but_sys (d\<lparr>g_fds := f\<rparr>) (d'\<lparr>g_fds := f\<rparr>)"
  by (simp_all add: same_but_sys_iff)

lemma payload_loop_end_ok:
  assumes "ledger extra d"
  obtains d' f where "payload_loop_end io d = Some d'" "same_but_sys (d\<lparr>g_fds := f, g_capture := None\<rparr>) d'" "ledger extra d'"
proof (cases "g_capture d")
  case None
  then have "d\<lparr>g_capture := None\<rparr> = d" by (cases d) simp
  with None assms that [of d "g_fds d"] show ?thesis by (simp add: payload_loop_end_def)
next
  case (Some fd)
  obtain d1 where d1: "close_fd io fd d = Some d1" "same_but_sys (d\<lparr>g_fds := remove1 fd (g_fds d)\<rparr>) d1"
    by (rule close_fd_ok [OF in_ledger(1) [OF assms Some]])
  have s: "same_but_sys (d\<lparr>g_fds := remove1 fd (g_fds d), g_capture := None\<rparr>) (d1\<lparr>g_capture := None\<rparr>)" using same_upd(1) [OF d1(2)] by simp
  then have "ledger extra (d1\<lparr>g_capture := None\<rparr>)" using ledger_same(1) [OF s] ledger_drop(1) [OF assms Some] by simp
  with Some d1(1) s that show ?thesis by (simp add: payload_loop_end_def)
qed

lemma close_signal_ok:
  assumes "ledger extra d"
  obtains d' f where "close_opt io (g_signal d) d = Some d'" "same_but_sys (d\<lparr>g_fds := f\<rparr>) d'" "ledger extra (d'\<lparr>g_signal := None\<rparr>)"
proof (cases "g_signal d")
  case None
  then have "d\<lparr>g_signal := None\<rparr> = d" by (cases d) simp
  with None assms that [of d "g_fds d"] show ?thesis by (simp add: close_opt_def)
next
  case (Some fd)
  obtain d1 where d1: "close_fd io fd d = Some d1" "same_but_sys (d\<lparr>g_fds := remove1 fd (g_fds d)\<rparr>) d1"
    by (rule close_fd_ok [OF in_ledger(3) [OF assms Some]])
  have s: "same_but_sys (d\<lparr>g_fds := remove1 fd (g_fds d), g_signal := None\<rparr>) (d1\<lparr>g_signal := None\<rparr>)" using same_upd(3) [OF d1(2)] by simp
  then have "ledger extra (d1\<lparr>g_signal := None\<rparr>)" using ledger_same(1) [OF s] ledger_drop(3) [OF assms Some] by simp
  with Some d1 that show ?thesis by (simp add: close_opt_def)
qed

lemma remove_pid_ok:
  assumes l: "ledger extra d" and c: "c_pid_file cfg = Some path"
  obtains d' f where "softgred_config_remove_pid_file io cfg d = Some d'" "ledger extra d'"
    "same_but_sys (d\<lparr>g_fds := f, g_pid := None, g_unlinked := g_unlinked d @ (if g_pid d = None then [] else [path])\<rparr>) d'"
proof (cases "g_pid d")
  case None
  then have "d\<lparr>g_pid := None\<rparr> = d" by (cases d) simp
  with None l that [of d "g_fds d"] show ?thesis by (simp add: softgred_config_remove_pid_file_def)
next
  case (Some fd)
  let ?d1 = "(snd (sys_call (io_unlink io path) d))\<lparr>g_unlinked := g_unlinked d @ [path]\<rparr>"
  have s1: "same_but_sys d (snd (sys_call (io_unlink io path) d))" by (rule sys_call_same [OF prod.collapse [symmetric]])
  have l1: "ledger extra ?d1"
    using l by (subst ledger_cong(1) [of _ d]) (simp_all add: same_but_sysD [OF s1])
  have p1: "g_pid ?d1 = Some fd" using Some same_but_sysD(6) [OF s1] by simp
  obtain d2 where d2: "close_fd io fd ?d1 = Some d2" "same_but_sys (?d1\<lparr>g_fds := remove1 fd (g_fds ?d1)\<rparr>) d2"
    by (rule close_fd_ok [OF in_ledger(2) [OF l1 p1]])
  have s2: "same_but_sys (?d1\<lparr>g_fds := remove1 fd (g_fds ?d1), g_pid := None\<rparr>) (d2\<lparr>g_pid := None\<rparr>)" using same_upd(2) [OF d2(2)] by simp
  have l2: "ledger extra (d2\<lparr>g_pid := None\<rparr>)" using ledger_same(1) [OF s2] ledger_drop(2) [OF l1 p1] by simp
  have "same_but_sys (d\<lparr>g_fds := f, g_pid := None, g_unlinked := u\<rparr>) ((snd (sys_call (io_unlink io path) d))\<lparr>g_unlinked := u, g_fds := f, g_pid := None\<rparr>)" for f u
    using s1 by (simp add: same_but_sys_iff)
  then have "same_but_sys (d\<lparr>g_fds := remove1 fd (g_fds ?d1), g_pid := None, g_unlinked := g_unlinked d @ [path]\<rparr>) (d2\<lparr>g_pid := None\<rparr>)"
    using s2 same_but_sys_trans by blast
  moreover have "softgred_config_remove_pid_file io cfg d = Some (d2\<lparr>g_pid := None\<rparr>)"
    using Some c d2(1) by (simp add: softgred_config_remove_pid_file_def Let_def)
  ultimately show ?thesis using l2 Some that by simp
qed

lemma report_failure_ok:
  assumes e: "env_ok env" and l: "ledger extra d"
  obtains d' f where "report_failure env io cfg d = Some d'" "ledger extra d'" "same_but_sys (d\<lparr>g_fds := f, g_notify := None\<rparr>) d'"
proof (cases "g_notify d")
  case None
  then have "d\<lparr>g_notify := None\<rparr> = d" by (cases d) simp
  with None l that [of d "g_fds d"] show ?thesis by (simp add: report_failure_def)
next
  case (Some fd)
  obtain r d1 where d1: "sys_call (io_write io fd [CHR 0x01]) d = (r, d1)" by fastforce
  note s1 = sys_call_same [OF d1]
  have "\<exists>d2. (if r = Inr 1 then Some d1 else do { s \<leftarrow> D_WARNING env cfg ''Startup failure could not be reported to parent'' (g_sys d1);
      Some (set_sys s d1) }) = Some d2 \<and> same_but_sys d1 d2"
    using log_message_total [OF e, of cfg 6 "''Startup failure could not be reported to parent'' @ [CHR 0x0A]" "g_sys d1"]
    by (auto simp: log_frame_def intro: set_sys_same)
  then obtain d2 where d2: "(if r = Inr 1 then Some d1 else do { s \<leftarrow> D_WARNING env cfg ''Startup failure could not be reported to parent'' (g_sys d1);
      Some (set_sys s d1) }) = Some d2" "same_but_sys d1 d2" by blast
  have s2: "same_but_sys d d2" by (rule same_but_sys_trans [OF s1 d2(2)])
  have n2: "g_notify d2 = Some fd" "ledger extra d2" using Some l same_but_sysD(8) [OF s2] ledger_same(1) [OF s2] by simp_all
  obtain d3 where d3: "close_fd io fd d2 = Some d3" "same_but_sys (d2\<lparr>g_fds := remove1 fd (g_fds d2)\<rparr>) d3"
    by (rule close_fd_ok [OF in_ledger(4) [OF n2(2,1)]])
  have s3: "same_but_sys (d2\<lparr>g_fds := remove1 fd (g_fds d2), g_notify := None\<rparr>) (d3\<lparr>g_notify := None\<rparr>)" using same_upd(4) [OF d3(2)] by simp
  have l3: "ledger extra (d3\<lparr>g_notify := None\<rparr>)" using ledger_same(1) [OF s3] ledger_drop(4) [OF n2(2,1)] by simp
  have "same_but_sys (d\<lparr>g_fds := f, g_notify := None\<rparr>) (d2\<lparr>g_fds := f, g_notify := None\<rparr>)" for f using s2 by (simp add: same_but_sys_iff)
  then have "same_but_sys (d\<lparr>g_fds := remove1 fd (g_fds d2), g_notify := None\<rparr>) (d3\<lparr>g_notify := None\<rparr>)" using s3 same_but_sys_trans by blast
  moreover have "report_failure env io cfg d = Some (d3\<lparr>g_notify := None\<rparr>)"
    using Some d1 d2(1) d3(1) by (simp add: report_failure_def Let_def)
  ultimately show ?thesis using l3 that by blast
qed


section \<open>Shutdown\<close>

text \<open>A state in which \<open>main\<close> can jump to \<open>end\<close>.\<close>

definition stoppable :: "build \<Rightarrow> nat multiset \<Rightarrow> 'w main \<Rightarrow> bool" where
  "stoppable bld extra m \<longleftrightarrow> ledger extra (m_daemon m) \<and> (g_listener (m_daemon m) \<noteq> None \<longrightarrow> b_service bld) \<and> c_pid_file (m_cfg m) \<noteq> None \<and>
     (if m_provision_ready m then prov_inv (m_cfg m) (g_prov (m_daemon m)) else p_heap (g_prov (m_daemon m)) = Map.empty)"

text \<open>What is left when \<open>main\<close> returns.\<close>

definition released :: "nat multiset \<Rightarrow> 'w daemon \<Rightarrow> bool" where
  "released extra d \<longleftrightarrow> mset (g_fds d) = extra \<and> g_listener d = None \<and> g_capture d = None \<and> g_pid d = None \<and>
     g_signal d = None \<and> g_notify d = None \<and> p_heap (g_prov d) = Map.empty \<and> s_log_fd (g_sys d) = -1"

lemma service_end_ledger:
  assumes "ledger extra d" "g_listener d \<noteq> None \<longrightarrow> b_service bld"
  obtains d' where "api_end io bld d = Some d'" "ledger extra d'" "g_listener d' = None" "srv_rest d d'"
proof -
  from service_end_ok [of "extra + base d" d io] assms(1) obtain d' where
    d': "service_end io d = Some d'" "srv_off (extra + base d) d'" "srv_rest d d'" by (auto simp: ledger_srv)
  have "api_end io bld d = service_end io d" using assms(2) by (cases "g_listener d") (auto simp: api_disabled service_end_def)
  moreover have "base d' = base d" using d'(3) by (simp add: base_def srv_rest_def)
  with d'(2) have "ledger extra d'" by (simp add: ledger_srv)
  ultimately show ?thesis using d' that by (simp add: srv_off_def)
qed

lemma same_heap: "same_but_sys d d' \<Longrightarrow> p_heap (g_prov d') = p_heap (g_prov d)"
  by (auto simp: same_but_sys_def)

lemma log_close_ok: "\<exists>c s'. log_close io s = (c, s') \<and> s_log_fd s' = -1 \<and> s_initialized s' = s_initialized s \<and> s_execs s' = s_execs s"
  by (auto simp: log_close_def Let_def call_def split: prod.split sum.split)

lemma end_provision_ok:
  assumes "env_ok env" "stoppable bld extra m" "\<exists>s. g_prov d = (g_prov (m_daemon m))\<lparr>p_sys := s\<rparr>"
  obtains p where "(if m_provision_ready m then do { p \<leftarrow> provision_end env (m_cfg m) (g_prov d); Some (d\<lparr>g_prov := p\<rparr>) } else Some d) =
    Some (d\<lparr>g_prov := p\<rparr>)" "p_heap p = Map.empty"
proof (cases "m_provision_ready m")
  case True
  with assms have "prov_inv (m_cfg m) (g_prov d)" by (auto simp: stoppable_def)
  from provision_end_ok [OF assms(1) this] obtain p where "provision_end env (m_cfg m) (g_prov d) = Some p" "p_heap p = Map.empty" by blast
  with True that [of p] show ?thesis by simp
next
  case False
  then have "p_heap (g_prov d) = Map.empty" using assms(2,3) by (auto simp: stoppable_def)
  with False that [of "g_prov d"] show ?thesis by simp
qed

lemma end_firewall_ok:
  assumes "env_ok env"
  obtains r s where "(if fw then do { (r, s) \<leftarrow> iface_ebtables_end env cfg (g_sys d);
      Some (if r \<noteq> 0 then EXIT_FAILURE else result, set_sys s d) } else Some (result, d)) = Some (r, set_sys s d)"
    "r = result \<or> r = EXIT_FAILURE" "fw \<and> r \<noteq> EXIT_FAILURE \<longrightarrow> \<not> s_initialized s"
proof (cases fw)
  case True
  from iface_ebtables_end_total [OF assms, of cfg "g_sys d"] obtain r s where
    r: "iface_ebtables_end env cfg (g_sys d) = Some (r, s)" by (auto simp: simple_total_def)
  have "r = 0 \<Longrightarrow> \<not> s_initialized s" using r by (auto simp: iface_ebtables_end_def Let_def split: if_splits bind_splits)
  with True r that show ?thesis by (cases "r = 0") auto
next
  case False
  have "set_sys (g_sys d) d = d" by (cases d; cases "g_prov d") simp
  with False that [of result "g_sys d"] show ?thesis by simp
qed

lemma shutdown_ok:
  assumes e: "env_ok env" and st: "stoppable bld extra m" and path: "c_pid_file (m_cfg m) = Some path"
  shows "\<exists>r m'. shutdown env io bld result m = Some (r, m') \<and> (r = result \<or> r = EXIT_FAILURE) \<and> released extra (m_daemon m') \<and>
    (m_firewall_ready m \<and> r \<noteq> EXIT_FAILURE \<longrightarrow> \<not> s_initialized (g_sys (m_daemon m'))) \<and>
    g_unlinked (m_daemon m') = g_unlinked (m_daemon m) @ (if g_pid (m_daemon m) = None then [] else [path])"
proof -
  let ?d = "m_daemon m" and ?cfg = "m_cfg m"
  have l: "ledger extra ?d" "g_listener ?d \<noteq> None \<longrightarrow> b_service bld" using st by (simp_all add: stoppable_def)
  obtain d1 where d1: "api_end io bld ?d = Some d1" "ledger extra d1" "g_listener d1 = None" "srv_rest ?d d1"
    by (rule service_end_ledger [OF l])
  obtain d2 f where d2: "payload_loop_end io d1 = Some d2" "same_but_sys (d1\<lparr>g_fds := f, g_capture := None\<rparr>) d2" "ledger extra d2"
    by (rule payload_loop_end_ok [OF d1(2)])
  note s2 = same_but_sysD [OF d2(2), simplified]
  have p2: "\<exists>s. g_prov d2 = (g_prov ?d)\<lparr>p_sys := s\<rparr>" using s2(12) d1(4) by (auto simp: srv_rest_def)
  obtain p where d3: "(if m_provision_ready m then do { p \<leftarrow> provision_end env ?cfg (g_prov d2); Some (d2\<lparr>g_prov := p\<rparr>) } else Some d2) =
    Some (d2\<lparr>g_prov := p\<rparr>)" "p_heap p = Map.empty" by (rule end_provision_ok [OF e st p2])
  obtain r s where d4: "(if m_firewall_ready m then do { (r, s) \<leftarrow> iface_ebtables_end env ?cfg (g_sys (d2\<lparr>g_prov := p\<rparr>));
      Some (if r \<noteq> 0 then EXIT_FAILURE else result, set_sys s (d2\<lparr>g_prov := p\<rparr>)) } else Some (result, d2\<lparr>g_prov := p\<rparr>)) =
      Some (r, set_sys s (d2\<lparr>g_prov := p\<rparr>))"
    "r = result \<or> r = EXIT_FAILURE" "m_firewall_ready m \<and> r \<noteq> EXIT_FAILURE \<longrightarrow> \<not> s_initialized s" by (rule end_firewall_ok [OF e])
  let ?d4 = "set_sys s (d2\<lparr>g_prov := p\<rparr>)"
  have l4: "ledger extra ?d4" using d2(3) by simp
  obtain d5 f5 where d5: "close_opt io (g_signal ?d4) ?d4 = Some d5" "same_but_sys (?d4\<lparr>g_fds := f5\<rparr>) d5" "ledger extra (d5\<lparr>g_signal := None\<rparr>)"
    by (rule close_signal_ok [OF l4])
  note s5 = same_but_sysD [OF d5(2), simplified]
  obtain d6 f6 where d6: "softgred_config_remove_pid_file io ?cfg (d5\<lparr>g_signal := None\<rparr>) = Some d6" "ledger extra d6"
    "same_but_sys (d5\<lparr>g_signal := None, g_fds := f6, g_pid := None, g_unlinked := g_unlinked d5 @ (if g_pid d5 = None then [] else [path])\<rparr>) d6"
    using remove_pid_ok [OF d5(3) path, of io] by auto
  note s6 = same_but_sysD [OF d6(3), simplified]
  obtain d7 f7 where d7: "report_failure env io ?cfg d6 = Some d7" "ledger extra d7" "same_but_sys (d6\<lparr>g_fds := f7, g_notify := None\<rparr>) d7"
    by (rule report_failure_ok [OF e d6(2)])
  note s7 = same_but_sysD [OF d7(3), simplified]
  obtain d8 where d8: "log_info env ?cfg (''Daemon stopped exit='' @ long_str r) d7 = Some d8" "same_but_sys d7 d8"
    using log_info_same [OF e] by blast
  note s8 = same_but_sysD [OF d8(2)]
  obtain c s9 where s9: "log_close io (g_sys d8) = (c, s9)" "s_log_fd s9 = -1" "s_initialized s9 = s_initialized (g_sys d8)"
    using log_close_ok by blast
  let ?m = "m\<lparr>m_daemon := set_sys s9 d8, m_cfg := softgred_config_release ?cfg\<rparr>"
  have "shutdown env io bld result m = Some (r, ?m)"
    unfolding shutdown_def Let_def d1(1) d2(1) bind.simps d3(1) d4(1) prod.case d5(1) d6(1) d7(1) d8(1) s9(1) by simp
  moreover have "released extra (set_sys s9 d8)"
  proof -
    have n: "g_listener d8 = None" "g_capture d8 = None" "g_pid d8 = None" "g_signal d8 = None" "g_notify d8 = None"
      using s8(1,5-8) s7(1,5-8) s6(1,5-8) s5(1,5-8) s2(1,5-8) d1(3) by simp_all
    moreover have "mset (g_fds d8) = extra"
      using d7(2) n ledger_same(1) [OF d8(2)] by (simp add: ledger_def base_def srv_part_def)
    moreover have "p_heap (g_prov d8) = Map.empty"
      using same_heap [OF d8(2)] same_heap [OF d7(3)] same_heap [OF d6(3)] same_heap [OF d5(2)] d3(2) by simp
    ultimately show ?thesis using s9(2) by (simp add: released_def)
  qed
  moreover have "s_initialized s9 = s_initialized s"
    using s9(3) s8(13) s7(13) s6(13) s5(13) by simp
  moreover have "g_unlinked d8 = g_unlinked ?d @ (if g_pid ?d = None then [] else [path])"
    using s8(10) s7(10) s6(10) s5(6,10) s2(6,10) d1(4) by (simp add: srv_rest_def)
  ultimately show ?thesis using d4(2,3) by (intro exI [of _ r] exI [of _ ?m]) simp
qed

end
