(* ===== verification/Daemon_Start.thy ===== *)
theory Daemon_Start
  imports Daemon_Ledger
begin

text \<open>
  The start-up of the daemon: each step takes the daemon from one phase to the next, or jumps to
  \<open>end\<close> in a state that the shutdown releases, or returns in the parent with nothing open.
\<close>

section \<open>Phases\<close>

text \<open>What may be open beside the statics: the descriptor of \<open>/dev/null\<close>, only in the background.\<close>

definition spare :: "softgred_config \<Rightarrow> nat multiset \<Rightarrow> bool" where
  "spare cfg extra \<longleftrightarrow> size extra \<le> 1 \<and> (c_is_foreground cfg \<longrightarrow> extra = {#})"

definition booting :: "nat multiset \<Rightarrow> 'w main \<Rightarrow> bool" where
  "booting extra m \<longleftrightarrow> srv_cold (extra + base (m_daemon m)) (m_daemon m) \<and> config_ok (m_cfg m) \<and> spare (m_cfg m) extra \<and>
     \<not> m_provision_ready m \<and> p_heap (g_prov (m_daemon m)) = Map.empty \<and> p_retry_after (g_prov (m_daemon m)) = 0"

definition listening :: "build \<Rightarrow> nat multiset \<Rightarrow> 'w main \<Rightarrow> bool" where
  "listening bld extra m \<longleftrightarrow> ledger extra (m_daemon m) \<and> (g_listener (m_daemon m) \<noteq> None \<longleftrightarrow> b_service bld) \<and> g_signal (m_daemon m) \<noteq> None \<and>
     g_capture (m_daemon m) \<noteq> None \<and> config_ok (m_cfg m) \<and> spare (m_cfg m) extra"

definition phase_root :: "'w main \<Rightarrow> bool" where
  "phase_root m \<longleftrightarrow> booting {#} m \<and> g_notify (m_daemon m) = None \<and> g_pid (m_daemon m) = None \<and> g_signal (m_daemon m) = None \<and>
     g_capture (m_daemon m) = None"

definition phase_detached :: "'w main \<Rightarrow> bool" where
  "phase_detached m \<longleftrightarrow> (\<exists>extra. booting extra m) \<and> g_pid (m_daemon m) = None \<and> g_signal (m_daemon m) = None \<and> g_capture (m_daemon m) = None"

definition phase_locked :: "'w main \<Rightarrow> bool" where
  "phase_locked m \<longleftrightarrow> (\<exists>extra. booting extra m) \<and> g_signal (m_daemon m) = None \<and> g_capture (m_daemon m) = None"

definition phase_signals :: "'w main \<Rightarrow> bool" where
  "phase_signals m \<longleftrightarrow> (\<exists>extra. booting extra m) \<and> g_signal (m_daemon m) \<noteq> None \<and> g_capture (m_daemon m) = None"

definition phase_capture :: "'w main \<Rightarrow> bool" where
  "phase_capture m \<longleftrightarrow> (\<exists>extra. booting extra m) \<and> g_signal (m_daemon m) \<noteq> None \<and> g_capture (m_daemon m) \<noteq> None"

definition phase_service :: "build \<Rightarrow> 'w main \<Rightarrow> bool" where
  "phase_service bld m \<longleftrightarrow> (\<exists>extra. listening bld extra m) \<and> \<not> m_provision_ready m \<and> p_heap (g_prov (m_daemon m)) = Map.empty \<and> p_retry_after (g_prov (m_daemon m)) = 0"

text \<open>The tunnel state before the first packet.\<close>

definition fresh :: "'w prov \<Rightarrow> bool" where
  "fresh p \<longleftrightarrow> p_heap p = Map.empty \<and> p_slots p = replicate SOFTGRED_MAX_SLOTS False \<and> \<not> p_cleanup_pending p \<and> p_retry_after p = 0"

lemma fresh_sys [simp]: "fresh (p\<lparr>p_sys := s\<rparr>) = fresh p"
  by (simp add: fresh_def)

definition phase_ready :: "build \<Rightarrow> 'w main \<Rightarrow> bool" where
  "phase_ready bld m \<longleftrightarrow> (\<exists>extra. listening bld extra m) \<and> m_provision_ready m \<and> prov_inv (m_cfg m) (g_prov (m_daemon m)) \<and>
     owner (g_prov (m_daemon m)) = Map.empty \<and> fresh (g_prov (m_daemon m))"

definition abandoned :: "build \<Rightarrow> 'w main \<Rightarrow> bool" where
  "abandoned bld m \<longleftrightarrow> (\<exists>extra. size extra \<le> 1 \<and> (c_is_foreground (m_cfg m) \<longrightarrow> extra = {#}) \<and> stoppable bld extra m)"

definition returned :: "'w main \<Rightarrow> bool" where
  "returned m \<longleftrightarrow> g_fds (m_daemon m) = [] \<and> s_log_fd (g_sys (m_daemon m)) = -1"

lemmas phase_defs = phase_root_def phase_detached_def phase_locked_def phase_signals_def phase_capture_def phase_service_def phase_ready_def

text \<open>The phases do not depend on the process state.\<close>

lemma set_sys_upd: "(set_sys s d)\<lparr>g_prov := p\<rparr> = d\<lparr>g_prov := p\<rparr>"
  by simp

lemma booting_sys [simp]: "booting extra (set_daemon (set_sys s d) m) = booting extra (set_daemon d m)"
  by (simp add: booting_def)

lemma listening_sys [simp]: "listening bld extra (set_daemon (set_sys s d) m) = listening bld extra (set_daemon d m)"
  by (simp add: listening_def)

lemma phases_sys [simp]:
  "phase_root (set_daemon (set_sys s d) m) = phase_root (set_daemon d m)"
  "phase_detached (set_daemon (set_sys s d) m) = phase_detached (set_daemon d m)"
  "phase_locked (set_daemon (set_sys s d) m) = phase_locked (set_daemon d m)"
  "phase_signals (set_daemon (set_sys s d) m) = phase_signals (set_daemon d m)"
  "phase_capture (set_daemon (set_sys s d) m) = phase_capture (set_daemon d m)"
  "phase_service bld (set_daemon (set_sys s d) m) = phase_service bld (set_daemon d m)"
  "phase_ready bld (set_daemon (set_sys s d) m) = phase_ready bld (set_daemon d m)"
  "abandoned bld (set_daemon (set_sys s d) m) = abandoned bld (set_daemon d m)"
  by (simp_all add: phase_defs abandoned_def stoppable_def)

lemma phase_same:
  assumes "same_but_sys d d'"
  shows "phase_root (set_daemon d m) \<Longrightarrow> phase_root (set_daemon d' m)" "phase_detached (set_daemon d m) \<Longrightarrow> phase_detached (set_daemon d' m)"
    "phase_locked (set_daemon d m) \<Longrightarrow> phase_locked (set_daemon d' m)" "phase_signals (set_daemon d m) \<Longrightarrow> phase_signals (set_daemon d' m)"
    "phase_service bld (set_daemon d m) \<Longrightarrow> phase_service bld (set_daemon d' m)" "phase_ready bld (set_daemon d m) \<Longrightarrow> phase_ready bld (set_daemon d' m)"
    "abandoned bld (set_daemon d m) \<Longrightarrow> abandoned bld (set_daemon d' m)" "booting extra (set_daemon d m) \<Longrightarrow> booting extra (set_daemon d' m)"
  using assms by (auto simp: same_but_sys_def)

lemma booting_abandoned: "booting extra m \<Longrightarrow> abandoned bld m"
  unfolding abandoned_def booting_def stoppable_def
  by (intro exI [of _ extra]) (auto simp: ledger_srv srv_cold_def srv_off_def config_ok_def spare_def)

lemma phase_abandoned: "phase_root m \<or> phase_detached m \<or> phase_locked m \<or> phase_signals m \<or> phase_capture m \<Longrightarrow> abandoned bld m"
  by (auto simp: phase_defs dest: booting_abandoned)

lemma listening_abandoned: "phase_service bld m \<or> phase_ready bld m \<Longrightarrow> abandoned bld m"
  by (auto simp: phase_service_def phase_ready_def listening_def abandoned_def stoppable_def spare_def config_ok_def)

section \<open>Steps\<close>

definition outcome :: "build \<Rightarrow> ('w main \<Rightarrow> bool) \<Rightarrow> (flow \<times> 'w main) option \<Rightarrow> bool" where
  "outcome bld Q res \<longleftrightarrow> (\<exists>fl m'. res = Some (fl, m') \<and> (case fl of Go \<Rightarrow> Q m' | End \<Rightarrow> abandoned bld m' | Return r \<Rightarrow> returned m'))"

definition leads :: "build \<Rightarrow> ('w main \<Rightarrow> bool) \<Rightarrow> ('w main \<Rightarrow> (flow \<times> 'w main) option) \<Rightarrow> ('w main \<Rightarrow> bool) \<Rightarrow> bool" where
  "leads bld P f Q \<longleftrightarrow> (\<forall>m. P m \<longrightarrow> outcome bld Q (f m))"

lemma leadsI: "(\<And>m. P m \<Longrightarrow> outcome bld Q (f m)) \<Longrightarrow> leads bld P f Q"
  by (simp add: leads_def)

lemma outcome_simps [simp]:
  "outcome bld Q (Some (Go, m)) = Q m" "outcome bld Q (Some (End, m)) = abandoned bld m" "outcome bld Q (Some (Return r, m)) = returned m"
  by (simp_all add: outcome_def)

lemma leads_steps:
  assumes "leads bld P f Q" "leads bld Q (run_steps fs) R"
  shows "leads bld P (run_steps (f # fs)) R"
proof (rule leadsI)
  fix m assume "P m"
  with assms(1) obtain fl m1 where 1: "f m = Some (fl, m1)" "case fl of Go \<Rightarrow> Q m1 | End \<Rightarrow> abandoned bld m1 | Return r \<Rightarrow> returned m1"
    by (auto simp: leads_def outcome_def)
  then show "outcome bld R (run_steps (f # fs) m)" using assms(2) by (cases fl) (simp_all add: leads_def)
qed

lemma leads_nil: "leads bld P (run_steps []) P"
  by (simp add: leads_def)

lemma crit_end_outcome:
  assumes "env_ok env" "abandoned bld (set_daemon d m)"
  shows "outcome bld Q (crit_end env t d m)"
proof -
  obtain d' where d': "log_crit env (m_cfg m) t d = Some d'" "same_but_sys d d'" using log_crit_same [OF assms(1)] by blast
  with phase_same(7) [OF d'(2) assms(2)] show ?thesis by (simp add: crit_end_def)
qed

lemma check_root_leads: "env_ok env \<Longrightarrow> leads bld phase_root (check_root env io) phase_root"
  by (rule leadsI) (simp add: check_root_def crit_end_outcome phase_abandoned)

lemma start_log_leads:
  assumes e: "env_ok env"
  shows "leads bld phase_root (start_log env io bld) phase_root"
proof (rule leadsI)
  fix m :: "'a main" assume p: "phase_root m"
  obtain r c s1 where l: "log_open io (c_log_file (m_cfg m)) (g_sys (m_daemon m)) = (r, c, s1)" by (metis prod_cases3)
  let ?d = "set_sys s1 (m_daemon m)"
  have p1: "phase_root (set_daemon ?d m)" using p by simp
  obtain d2 where d2: "log_info env (m_cfg m) (''Starting '' @ b_package_string bld @ '' capture='' @ print_str (c_ifname (m_cfg m)) @
         '' log='' @ print_str (c_log_file (m_cfg m))) ?d = Some d2" "same_but_sys ?d d2" using log_info_same [OF e] by blast
  have "phase_root (set_daemon d2 m)" by (rule phase_same(1) [OF d2(2) p1])
  moreover have "outcome bld phase_root (crit_end env t ?d m)" for t
    using p1 by (intro crit_end_outcome [OF e]) (simp add: phase_abandoned)
  ultimately show "outcome bld phase_root (start_log env io bld m)" using l d2(1) by (simp add: start_log_def Let_def)
qed

lemma config_ok_local: "config_ok (cfg\<lparr>c_local := ip\<rparr>) = config_ok cfg"
  by (simp add: config_ok_def)

lemma start_address_leads:
  assumes e: "env_ok env"
  shows "leads bld phase_root (start_address env io) phase_root"
proof (rule leadsI)
  fix m :: "'a main" assume p: "phase_root m"
  obtain a d1 where c: "sys_call (io_ifaddrs io) (m_daemon m) = (a, d1)" by fastforce
  have "config_ok (m_cfg m)" using p by (simp add: phase_root_def booting_def)
  then obtain name where name: "c_ifname (m_cfg m) = Some name" by (rule config_ok_names)
  have p1: "phase_root (set_daemon d1 m)" using phase_same(1) [OF sys_call_same [OF c], of m] p by simp
  have "phase_root (m\<lparr>m_cfg := (m_cfg m)\<lparr>c_local := ip\<rparr>, m_daemon := d1\<rparr>)" for ip
    using p1 by (simp add: phase_root_def booting_def spare_def config_ok_local)
  moreover have "outcome bld phase_root (crit_end env t d1 m)" "outcome bld phase_root (crit_end env t (set_errno EADDRNOTAVAIL d1) m)" for t
    using p1 by (auto intro!: crit_end_outcome [OF e] simp: phase_abandoned)
  ultimately show "outcome bld phase_root (start_address env io m)"
    using c name by (auto simp: start_address_def local_address_def split: sum.split option.split)
qed

section \<open>Detaching\<close>

text \<open>Interruptions of the parent's read end.\<close>

definition reads_end :: "'w io \<Rightarrow> bool" where
  "reads_end io \<longleftrightarrow> (\<exists>pending :: 'w \<Rightarrow> nat. \<forall>fd w w'. io_read_status io fd w = (Inl EINTR, w') \<longrightarrow> pending w' < pending w)"

lemma await_child_ok:
  assumes "reads_end io"
  shows "\<exists>v d'. await_child io fd d = Some (v, d') \<and> same_but_sys d d'"
proof -
  from assms obtain pending :: "'a \<Rightarrow> nat" where p: "\<And>fd w w'. io_read_status io fd w = (Inl EINTR, w') \<Longrightarrow> pending w' < pending w"
    unfolding reads_end_def by blast
  show ?thesis
  proof (induction "pending (s_world (g_sys d))" arbitrary: d rule: less_induct)
    case less
    obtain r d1 where c: "sys_call (io_read_status io fd) d = (r, d1)" by fastforce
    note s = sys_call_same [OF c]
    show ?case
    proof (cases "r = Inl EINTR")
      case True
      with c have "io_read_status io fd (s_world (g_sys d)) = (Inl EINTR, s_world (g_sys d1))"
        by (auto simp: sys_call_def split: prod.splits sum.splits)
      from less [OF p [OF this]] obtain v d' where "await_child io fd d1 = Some (v, d')" "same_but_sys d1 d'" by blast
      with c True same_but_sys_trans [OF s] show ?thesis by (subst await_child.simps) auto
    next
      case False
      with c s show ?thesis by (subst await_child.simps) (auto split: sum.split)
    qed
  qed
qed

lemma close_same:
  assumes "fd \<in> set (g_fds d)"
  obtains d' where "close_fd io fd d = Some d'" "same_but_sys (d\<lparr>g_fds := remove1 fd (g_fds d)\<rparr>) d'" "g_fds d' = remove1 fd (g_fds d)"
proof -
  obtain d' where "close_fd io fd d = Some d'" "same_but_sys (d\<lparr>g_fds := remove1 fd (g_fds d)\<rparr>) d'" by (rule close_fd_ok [OF assms])
  with same_but_sysD(9) [OF this(2)] that show ?thesis by simp
qed

lemma parent_wait_ok:
  assumes r: "reads_end io" and f: "g_fds d = [rfd, wfd]"
  shows "outcome bld Q (parent_wait io rfd wfd m d)"
proof -
  obtain d1 where d1: "close_fd io wfd d = Some d1" "g_fds d1 = remove1 wfd [rfd, wfd]"
    by (rule close_same [of wfd d io]) (use f in auto)
  obtain v d2 where d2: "await_child io rfd d1 = Some (v, d2)" "same_but_sys d1 d2" using await_child_ok [OF r] by blast
  have "rfd \<in> set (g_fds d2)" using d1(2) same_but_sysD(9) [OF d2(2)] by (auto split: if_splits)
  then obtain d3 where d3: "close_fd io rfd d2 = Some d3" "g_fds d3 = remove1 rfd (g_fds d2)" by (rule close_same)
  have n: "g_fds d3 = []" using d3(2) d1(2) same_but_sysD(9) [OF d2(2)] by (auto split: if_splits)
  obtain c s4 where s4: "log_close io (g_sys d3) = (c, s4)" "s_log_fd s4 = -1" using log_close_ok by blast
  show ?thesis using d1(1) d2(1) d3(1) s4 n by (simp add: parent_wait_def Let_def returned_def)
qed


lemma booting_open:
  assumes "booting extra (set_daemon d m)" "spare (m_cfg m) (add_mset fd extra)"
  shows "booting (add_mset fd extra) (set_daemon (d\<lparr>g_fds := fd # g_fds d\<rparr>) m)"
  using assms by (simp add: booting_def srv_cold_def srv_off_def base_def)

lemma child_detach_ok:
  assumes m: "phase_root m" and fg: "\<not> c_is_foreground (m_cfg m)" and s: "same_but_sys (m_daemon m\<lparr>g_fds := [rfd, wfd]\<rparr>) d"
  shows "outcome bld phase_detached (child_detach io rfd wfd m d)"
proof -
  note sd = same_but_sysD [OF s, simplified]
  obtain d1 where d1: "close_fd io rfd d = Some d1" "same_but_sys (d\<lparr>g_fds := remove1 rfd (g_fds d)\<rparr>) d1" "g_fds d1 = remove1 rfd (g_fds d)"
    by (rule close_same [of rfd d]) (use sd(9) in auto)
  note s1 = same_but_sysD [OF d1(2), simplified]
  let ?d2 = "d1\<lparr>g_notify := Some wfd\<rparr>"
  have b2: "booting {#} (set_daemon ?d2 m)" and n2: "g_pid ?d2 = None" "g_signal ?d2 = None" "g_capture ?d2 = None"
    using m sd s1 d1(3) by (auto simp: phase_root_def booting_def srv_cold_def srv_off_def base_def)
  obtain r d3 where c3: "sys_call (io_setsid io) ?d2 = (r, d3)" by fastforce
  note s3 = same_but_sysD [OF sys_call_same [OF c3]]
  have b3: "booting {#} (set_daemon d3 m)" using phase_same(8) [OF sys_call_same [OF c3] b2] .
  have n3: "g_pid d3 = None" "g_signal d3 = None" "g_capture d3 = None" using n2 s3(5-7) by auto
  have "outcome bld phase_detached (case open_call (io_open io Open_null ''/dev/null'') d3 of
             (None, d4) \<Rightarrow> Some (End, set_daemon d4 m)
           | (Some nullfd, d4) \<Rightarrow>
               (case sys_call (io_dup_stdin io nullfd) d4 of
                  (Inl e, d5) \<Rightarrow> Some (End, set_daemon d5 m)
                | (Inr _, d5) \<Rightarrow>
                    if nullfd \<noteq> 0 then do { d6 \<leftarrow> close_fd io nullfd d5; Some (Go, set_daemon d6 m) }
                    else Some (Go, set_daemon d5 m)))" (is "outcome bld _ ?X")
  proof (cases rule: open_call_cases [of "io_open io Open_null ''/dev/null''" d3])
    case (1 d4)
    then show ?thesis using booting_abandoned [OF phase_same(8) [OF 1(2) b3]] by simp
  next
    case (2 nullfd d4)
    let ?d4 = "d4\<lparr>g_fds := nullfd # g_fds d3\<rparr>"
    have sp: "spare (m_cfg m) {#nullfd#}" using fg by (simp add: spare_def)
    have b4: "booting {#nullfd#} (set_daemon ?d4 m)"
      using booting_open [OF phase_same(8) [OF 2(2) b3] sp] same_but_sysD(9) [OF 2(2)] by simp
    obtain r5 d5 where c5: "sys_call (io_dup_stdin io nullfd) ?d4 = (r5, d5)" by fastforce
    note s5 = same_but_sysD [OF sys_call_same [OF c5], simplified]
    have b5: "booting {#nullfd#} (set_daemon d5 m)" by (rule phase_same(8) [OF sys_call_same [OF c5] b4])
    have n5: "g_pid d5 = None" "g_signal d5 = None" "g_capture d5 = None" using n3 s5(5-7) same_but_sysD(5-7) [OF 2(2)] by auto
    obtain d6 where d6: "close_fd io nullfd d5 = Some d6" "same_but_sys (d5\<lparr>g_fds := remove1 nullfd (g_fds d5)\<rparr>) d6"
      by (rule close_same [of nullfd d5]) (use s5(9) in auto)
    have "d5\<lparr>g_fds := remove1 nullfd (g_fds d5)\<rparr> = d5\<lparr>g_fds := g_fds d3\<rparr>" using s5(9) by simp
    moreover have "booting {#} (set_daemon (d5\<lparr>g_fds := g_fds d3\<rparr>) m)"
      using b5 s5(9) b3 by (simp add: booting_def srv_cold_def srv_off_def base_def)
    ultimately have b6: "booting {#} (set_daemon d6 m)" using phase_same(8) [OF d6(2)] by simp
    have n6: "g_pid d6 = None" "g_signal d6 = None" "g_capture d6 = None" using n5 same_but_sysD(5-7) [OF d6(2)] by auto
    show ?thesis using 2(1) c5 d6(1) b5 b6 n5 n6 booting_abandoned [OF b5]
      by (auto simp: phase_detached_def split: sum.split)
  qed
  with d1(1) c3 booting_abandoned [OF b3] show ?thesis by (auto simp: child_detach_def Let_def split: sum.split)
qed

lemma root_fds: "phase_root m \<Longrightarrow> g_fds (m_daemon m) = []"
  by (auto simp: phase_root_def booting_def srv_cold_def srv_off_def base_def)

lemma detach_leads:
  assumes r: "reads_end io"
  shows "leads bld phase_root (detach io) phase_detached"
proof (rule leadsI)
  fix m :: "'a main" assume m: "phase_root m"
  then have go: "phase_detached m" by (auto simp: phase_root_def phase_detached_def)
  obtain v d1 where c1: "sys_call (io_pipe io) (m_daemon m) = (v, d1)" by fastforce
  note s1 = sys_call_same [OF c1]
  have p1: "phase_root (set_daemon d1 m)" using phase_same(1) [OF s1, of m] m by simp
  show "outcome bld phase_detached (detach io m)"
  proof (cases "c_is_foreground (m_cfg m) \<or> (\<exists>e. v = Inl e)")
    case True
    with go c1 phase_abandoned [of "set_daemon d1 m"] p1 show ?thesis by (auto simp: detach_def)
  next
    case False
    then obtain rfd wfd where v: "v = Inr (rfd, wfd)" by (cases v) auto
    let ?d2 = "d1\<lparr>g_fds := [rfd, wfd]\<rparr>"
    have f1: "g_fds d1 = []" using root_fds [OF p1] by simp
    obtain u d3 where c3: "sys_call (io_fork io) ?d2 = (u, d3)" by fastforce
    note s3 = sys_call_same [OF c3]
    have s: "same_but_sys (m_daemon m\<lparr>g_fds := [rfd, wfd]\<rparr>) d3"
      by (rule same_but_sys_trans [OF same_upd(5) [OF s1] s3])
    have f3: "g_fds d3 = [rfd, wfd]" using same_but_sysD(9) [OF s] by simp
    obtain d4 where d4: "close_fd io rfd d3 = Some d4" "same_but_sys (d3\<lparr>g_fds := remove1 rfd (g_fds d3)\<rparr>) d4" "g_fds d4 = remove1 rfd (g_fds d3)"
      by (rule close_same [of rfd d3]) (use f3 in auto)
    obtain d5 where d5: "close_fd io wfd d4 = Some d5" "same_but_sys (d4\<lparr>g_fds := remove1 wfd (g_fds d4)\<rparr>) d5" "g_fds d5 = remove1 wfd (g_fds d4)"
      by (rule close_same [of wfd d4]) (use f3 d4(3) in auto)
    have "g_fds d5 = []" using d5(3) d4(3) f3 by simp
    then have "same_but_sys d1 d5" using same_but_sys_trans [OF same_upd(5) [OF d4(2), of "[]"], of d5] d5(2) s3 f1
      by (auto simp: same_but_sys_iff)
    then have "abandoned bld (set_daemon d5 m)" using phase_same(1) p1 phase_abandoned by blast
    with False c1 v c3 f1 d4(1) d5(1) parent_wait_ok [OF r f3] child_detach_ok [OF m _ s] show ?thesis
      by (auto simp: detach_def Let_def split: sum.split fork_result.split)
  qed
qed


section \<open>The rest of the start-up\<close>

lemma booting_ledger: "booting extra m \<Longrightarrow> ledger extra (m_daemon m)"
  by (simp add: booting_def ledger_srv srv_cold_def)

lemma booting_pid:
  assumes "booting extra (set_daemon d m)" "g_pid d = None"
  shows "booting extra (set_daemon (d\<lparr>g_fds := fd # g_fds d, g_pid := Some fd\<rparr>) m)"
  using assms by (simp add: booting_def srv_cold_def srv_off_def base_def)

text \<open>Creating the PID file: the result, and that the file is recorded exactly on success.\<close>

definition pid_created :: "nat multiset \<Rightarrow> 'w main \<Rightarrow> 'w daemon \<Rightarrow> (int \<times> 'w daemon) option \<Rightarrow> bool" where
  "pid_created extra m d res \<longleftrightarrow> (\<exists>r d'. res = Some (r, d') \<and> booting extra (set_daemon d' m) \<and>
     (r = 0 \<or> r = -1) \<and> (r = 0 \<longleftrightarrow> g_pid d' \<noteq> None) \<and> g_signal d' = g_signal d \<and> g_capture d' = g_capture d)"

lemma pid_fail_created:
  assumes b: "booting extra (set_daemon d m)" and p: "g_pid d = Some fd" and s: "same_but_sys d d'"
  shows "pid_created extra m d (pid_fail io fd d')"
proof -
  have b': "booting extra (set_daemon d' m)" "g_pid d' = Some fd" using phase_same(8) [OF s b] p same_but_sysD(6) [OF s] by simp_all
  have l: "ledger extra d'" using booting_ledger [OF b'(1)] by simp
  obtain d1 where d1: "close_fd io fd d' = Some d1" "same_but_sys (d'\<lparr>g_fds := remove1 fd (g_fds d')\<rparr>) d1"
    by (rule close_fd_ok [OF in_ledger(2) [OF l b'(2)]])
  have "booting extra (set_daemon (d'\<lparr>g_fds := remove1 fd (g_fds d'), g_pid := None\<rparr>) m)"
    using b' by (auto simp: booting_def srv_cold_def srv_off_def base_def)
  then have "booting extra (set_daemon (d1\<lparr>g_pid := None\<rparr>) m)" using phase_same(8) [OF same_upd(2) [OF d1(2)]] by simp
  with d1(1) same_but_sysD(5,7) [OF d1(2), simplified] same_but_sysD(5,7) [OF s] show ?thesis by (simp add: pid_fail_def pid_created_def)
qed

lemma create_pid_ok:
  assumes b: "booting extra (set_daemon d m)" and n: "g_pid d = None"
  shows "pid_created extra m d (softgred_config_create_pid_file io (m_cfg m) pid d)"
proof -
  obtain path where path: "c_pid_file (m_cfg m) = Some path" using b by (auto simp: booting_def config_ok_def)
  show ?thesis
  proof (cases rule: open_call_cases [of "io_open io Open_pid path" d])
    case (1 d1)
    have "d1\<lparr>g_pid := None\<rparr> = d1" using n same_but_sysD(6) [OF 1(2)] by (cases d1) simp
    then have "booting extra (set_daemon (d1\<lparr>g_pid := None\<rparr>) m)" using phase_same(8) [OF 1(2) b] by (simp only:)
    with 1(1) path n same_but_sysD(5-7) [OF 1(2)] show ?thesis
      by (simp add: softgred_config_create_pid_file_def pid_created_def)
  next
    case (2 fd d1)
    let ?d2 = "d1\<lparr>g_fds := fd # g_fds d, g_pid := Some fd\<rparr>"
    have b2: "booting extra (set_daemon ?d2 m)"
      using booting_pid [OF phase_same(8) [OF 2(2) b]] n same_but_sysD(6,9) [OF 2(2)] by simp
    have pc: "pid_created extra m ?d2 res \<Longrightarrow> pid_created extra m d res" for res
      using same_but_sysD(5,7) [OF 2(2)] by (auto simp: pid_created_def)
    have fl: "pid_created extra m d (pid_fail io fd d')" if "same_but_sys ?d2 d'" for d'
      by (rule pc [OF pid_fail_created [OF b2 _ that]]) simp
    have fin: "pid_created extra m d (Some (0, d'))" if "same_but_sys ?d2 d'" for d'
      using phase_same(8) [OF that b2] same_but_sysD [OF that] by (intro pc) (simp add: pid_created_def)
    have er: "same_but_sys ?d2 (set_errno n d')" if "same_but_sys ?d2 d'" for n d' using that by (auto simp: same_but_sys_def)
    obtain r3 d3 where c3: "sys_call (io_fstat io fd) ?d2 = (r3, d3)" by fastforce
    obtain r4 d4 where c4: "sys_call (io_lock io fd) d3 = (r4, d4)" by fastforce
    obtain r5 d5 where c5: "sys_call (io_truncate io fd) d4 = (r5, d5)" by fastforce
    obtain r6 d6 where c6: "sys_call (io_write io fd (dec_str pid @ [CHR 0x0A])) d5 = (r6, d6)" by fastforce
    have s3: "same_but_sys ?d2 d3" by (rule sys_call_same [OF c3])
    have s4: "same_but_sys ?d2 d4" by (rule same_but_sys_trans [OF s3 sys_call_same [OF c4]])
    have s5: "same_but_sys ?d2 d5" by (rule same_but_sys_trans [OF s4 sys_call_same [OF c5]])
    have s6: "same_but_sys ?d2 d6" by (rule same_but_sys_trans [OF s5 sys_call_same [OF c6]])
    note all = fl [OF s3] fl [OF s4] fl [OF s5] fl [OF s6] fl [OF er [OF s3]] fin [OF s6]
    show ?thesis using path 2(1) c3 c4 c5 c6 all
      by (auto simp: softgred_config_create_pid_file_def Let_def split: sum.split)
  qed
qed


lemma start_pid_leads:
  assumes e: "env_ok env"
  shows "leads bld phase_detached (start_pid env io) phase_locked"
proof (rule leadsI)
  fix m :: "'a main" assume m: "phase_detached m"
  then obtain extra where b: "booting extra (set_daemon (m_daemon m) m)" by (auto simp: phase_detached_def)
  with create_pid_ok [OF b, of io "e_pid env"] m obtain r d' where
    r: "softgred_config_create_pid_file io (m_cfg m) (e_pid env) (m_daemon m) = Some (r, d')" "booting extra (set_daemon d' m)"
      "g_signal d' = None" "g_capture d' = None" by (auto simp: phase_detached_def pid_created_def)
  then show "outcome bld phase_locked (start_pid env io m)"
    using crit_end_outcome [OF e booting_abandoned [OF r(2)]] by (auto simp: start_pid_def phase_locked_def)
qed

lemma start_signals_leads: "leads bld phase_locked (start_signals io) phase_signals"
proof (rule leadsI)
  fix m :: "'a main" assume m: "phase_locked m"
  then obtain extra where b: "booting extra (set_daemon (m_daemon m) m)" by (auto simp: phase_locked_def)
  obtain r d1 where c1: "sys_call (io_sigprocmask io) (m_daemon m) = (r, d1)" by fastforce
  note s1 = sys_call_same [OF c1]
  have b1: "booting extra (set_daemon d1 m)" by (rule phase_same(8) [OF s1 b])
  have n1: "g_signal d1 = None" "g_capture d1 = None" using m same_but_sysD(5,7) [OF s1] by (auto simp: phase_locked_def)
  show "outcome bld phase_signals (start_signals io m)"
  proof (cases rule: open_call_cases [of "io_signalfd io" d1])
    case (1 d2)
    have b2: "booting extra (set_daemon d2 m)" by (rule phase_same(8) [OF 1(2) b1])
    then have "booting extra (set_daemon (d2\<lparr>g_signal := None\<rparr>) m)"
      using n1(1) same_but_sysD(7) [OF 1(2)] by (simp add: booting_def srv_cold_def srv_off_def base_def)
    then show ?thesis using c1 1(1) booting_abandoned [OF b1] by (auto simp: start_signals_def booting_abandoned split: sum.split)
  next
    case (2 fd d2)
    have b2: "booting extra (set_daemon d2 m)" by (rule phase_same(8) [OF 2(2) b1])
    then have "booting extra (set_daemon (d2\<lparr>g_fds := fd # g_fds d1, g_signal := Some fd\<rparr>) m)"
      using n1(1) same_but_sysD(7,9) [OF 2(2)] by (simp add: booting_def srv_cold_def srv_off_def base_def)
    then show ?thesis using c1 2(1) n1(2) same_but_sysD(5) [OF 2(2)] booting_abandoned [OF b1]
      by (auto simp: start_signals_def phase_signals_def split: sum.split)
  qed
qed

lemma booting_capture_end:
  assumes b: "booting extra (set_daemon d m)"
  shows "\<exists>d'. payload_loop_end io d = Some d' \<and> booting extra (set_daemon d' m)"
proof -
  have l: "ledger extra d" using booting_ledger [OF b] by simp
  obtain d' f where d': "payload_loop_end io d = Some d'" "same_but_sys (d\<lparr>g_fds := f, g_capture := None\<rparr>) d'" "ledger extra d'"
    by (rule payload_loop_end_ok [OF l])
  have "srv_cold (extra + base d') d'"
    using b d'(3) same_but_sysD [OF d'(2), simplified] by (auto simp: booting_def srv_cold_def srv_off_def ledger_def srv_part_def)
  moreover have "p_retry_after (g_prov d') = p_retry_after (g_prov d)" using d'(2) by (auto simp: same_but_sys_def)
  ultimately show ?thesis using d'(1) b same_heap [OF d'(2)] by (simp add: booting_def)
qed

lemma start_capture_leads:
  assumes e: "env_ok env"
  shows "leads bld phase_signals (start_capture env io) phase_capture"
proof (rule leadsI)
  fix m :: "'a main" assume m: "phase_signals m"
  then obtain extra where b: "booting extra (set_daemon (m_daemon m) m)" by (auto simp: phase_signals_def)
  let ?d = "m_daemon m"
  from b have "config_ok (m_cfg m)" by (simp add: booting_def)
  then obtain name where name: "c_ifname (m_cfg m) = Some name" by (rule config_ok_names)
  obtain index s1 where i: "if_nametoindex env name (g_sys ?d) = (index, s1)" by fastforce
  let ?d1 = "set_sys s1 ?d"
  have b1: "booting extra (set_daemon ?d1 m)" using b by simp
  have ce: "outcome bld phase_capture (crit_end env t d' m)" if "booting extra (set_daemon d' m)" for d' t
    by (rule crit_end_outcome [OF e booting_abandoned [OF that]])
  show "outcome bld phase_capture (start_capture env io m)"
  proof (cases rule: open_call_cases [of "io_socket io Capture_socket" ?d1])
    case (1 d2)
    have "booting extra (set_daemon (d2\<lparr>g_capture := None\<rparr>) m)"
      using phase_same(8) [OF 1(2) b1] m same_but_sysD(5) [OF 1(2)] by (simp add: booting_def srv_cold_def srv_off_def base_def phase_signals_def)
    then show ?thesis using name i 1(1) ce b1 by (auto simp: start_capture_def payload_loop_init_def Let_def)
  next
    case (2 fd d2)
    let ?d3 = "d2\<lparr>g_fds := fd # g_fds ?d1, g_capture := Some fd\<rparr>"
    have b3: "booting extra (set_daemon ?d3 m)"
      using phase_same(8) [OF 2(2) b1] m same_but_sysD(5,9) [OF 2(2)] by (simp add: booting_def srv_cold_def srv_off_def base_def phase_signals_def)
    have g3: "g_signal ?d3 \<noteq> None" using m same_but_sysD(7) [OF 2(2)] by (simp add: phase_signals_def)
    let ?d4 = "snd (sys_call (io_setsockopt io fd (Receive_buffer (4 * 1024 * 1024))) ?d3)"
    let ?d5 = "snd (sys_call (io_setsockopt io fd Ignore_outgoing) ?d4)"
    obtain r6 d6 where c6: "sys_call (io_bind io fd (Link_address index)) ?d5 = (r6, d6)" by fastforce
    obtain r7 d7 where c7: "sys_call (io_setsockopt io fd Attach_filter) d6 = (r7, d7)" by fastforce
    have s5: "same_but_sys ?d3 ?d5"
      by (rule same_but_sys_trans [OF sys_call_same [OF prod.collapse [symmetric]] sys_call_same [OF prod.collapse [symmetric]]])
    have s6: "same_but_sys ?d3 d6" by (rule same_but_sys_trans [OF s5 sys_call_same [OF c6]])
    have s7: "same_but_sys ?d3 d7" by (rule same_but_sys_trans [OF s6 sys_call_same [OF c7]])
    obtain d8 where d8: "payload_loop_end io d6 = Some d8" "booting extra (set_daemon d8 m)" using booting_capture_end [OF phase_same(8) [OF s6 b3]] by blast
    obtain d9 where d9: "payload_loop_end io d7 = Some d9" "booting extra (set_daemon d9 m)" using booting_capture_end [OF phase_same(8) [OF s7 b3]] by blast
    have "phase_capture (set_daemon d7 m)"
      using phase_same(8) [OF s7 b3] g3 same_but_sysD(5,7) [OF s7] by (auto simp: phase_capture_def)
    then show ?thesis using name i 2(1) c6 c7 d8 d9 ce b1
      by (auto simp: start_capture_def payload_loop_init_def Let_def split: sum.split)
  qed
qed

lemma start_service_leads:
  assumes e: "env_ok env"
  shows "leads bld phase_capture (start_service env io bld) (phase_service bld)"
proof (rule leadsI)
  fix m :: "'a main" assume m: "phase_capture m"
  let ?d = "m_daemon m"
  from m obtain extra where b: "booting extra m" by (auto simp: phase_capture_def)
  then have c: "config_ok (m_cfg m)" "srv_cold (extra + base ?d) ?d" by (auto simp: booting_def)
  obtain r d' where d': "api_init env io bld (m_cfg m) ?d = Some (r, d')" "srv_rest ?d d'"
    "r = 0 \<and> b_service bld \<and> srv_inv (extra + base ?d) d' \<or> (r = -1 \<or> r = 0 \<and> \<not> b_service bld) \<and> srv_off (extra + base ?d) d'"
    using service_init_ok [OF e c, of io] c(2) that same_rest_srv [OF same_but_sys_refl, of ?d]
    by (cases "b_service bld") (auto simp: api_disabled srv_cold_def)
  have s: "base d' = base ?d" "p_heap (g_prov d') = p_heap (g_prov ?d)" "p_retry_after (g_prov d') = p_retry_after (g_prov ?d)" using d'(2) by (auto simp: srv_rest_def base_def)
  then have l: "ledger extra d'" "r = 0 \<Longrightarrow> g_listener d' \<noteq> None \<longleftrightarrow> b_service bld" "g_listener d' \<noteq> None \<longrightarrow> b_service bld"
    using d'(3) by (auto simp: ledger_srv srv_inv_def srv_off_def)
  have h: "p_heap (g_prov d') = Map.empty" "p_retry_after (g_prov d') = 0" using s(2,3) b by (simp_all add: booting_def)
  have "abandoned bld (set_daemon d' m)"
    using l(1,3) h b by (auto simp: abandoned_def stoppable_def booting_def spare_def config_ok_def)
  moreover have "phase_service bld (set_daemon d' m)" if "r = 0"
    using that l h b d'(2) m by (auto simp: phase_service_def listening_def booting_def phase_capture_def srv_rest_def)
  ultimately show "outcome bld (phase_service bld) (start_service env io bld m)"
    using d'(1) by (auto simp: start_service_def intro!: crit_end_outcome [OF e])
qed

lemma prepare_bridges_leads:
  assumes e: "env_ok env"
  shows "phase_service bld m \<Longrightarrow> \<forall>b \<in> set bs. length (br_ifname b) \<le> 900 \<Longrightarrow> outcome bld (phase_service bld) (prepare_bridges env bs m)"
proof (induction bs arbitrary: m)
  case (Cons b bs)
  let ?n = "br_ifname b" and ?d = "m_daemon m"
  obtain index s1 where i: "if_nametoindex env ?n (g_sys ?d) = (index, s1)" by fastforce
  have "returns (iface_bridge_prepare env ?n (c_bridge_force (m_cfg m)) s1) s1"
    using Cons.prems(2) by (intro iface_bridge_prepare_total [OF e]) simp
  then obtain r s2 where p: "iface_bridge_prepare env ?n (c_bridge_force (m_cfg m)) s1 = Some (r, s2)" by (auto simp: returns_def)
  let ?d2 = "set_sys s2 ?d"
  have m2: "phase_service bld (set_daemon ?d2 m)" using Cons.prems(1) by simp
  obtain d3 where d3: "log_info env (m_cfg m) (''Bridge ready interface='' @ ?n @ '' created='' @ (if index \<noteq> 0 then ''false'' else ''true'')) ?d2 = Some d3"
    "same_but_sys ?d2 d3" using log_info_same [OF e] by blast
  have "outcome bld (phase_service bld) (prepare_bridges env bs (set_daemon d3 m))"
    using Cons.IH [OF phase_same(5) [OF d3(2) m2]] Cons.prems(2) by simp
  moreover have "outcome bld (phase_service bld) (crit_end env t ?d2 m)" for t
    using m2 by (intro crit_end_outcome [OF e] listening_abandoned) blast
  ultimately show ?case using i p d3(1) by (simp add: Let_def)
qed simp

lemma start_firewall_leads:
  assumes e: "env_ok env"
  shows "leads bld (phase_service bld) (start_firewall env) (phase_service bld)"
proof (rule leadsI)
  fix m :: "'a main" assume m: "phase_service bld m"
  from iface_ebtables_init_total [OF e, of "m_cfg m" "g_sys (m_daemon m)"] obtain r s1 where
    r: "iface_ebtables_init env (m_cfg m) (g_sys (m_daemon m)) = Some (r, s1)" by (auto simp: simple_total_def)
  have "phase_service bld (m\<lparr>m_daemon := set_sys s1 (m_daemon m), m_firewall_ready := True\<rparr>)"
    using m by (simp add: phase_service_def listening_def)
  moreover have "outcome bld (phase_service bld) (crit_end env t (set_sys s1 (m_daemon m)) m)" for t
    using m by (intro crit_end_outcome [OF e] listening_abandoned) simp
  ultimately show "outcome bld (phase_service bld) (start_firewall env m)" using r by (simp add: start_firewall_def Let_def)
qed

lemma start_provision_leads: "leads bld (phase_service bld) start_provision (phase_ready bld)"
proof (rule leadsI)
  fix m :: "'a main" assume m: "phase_service bld m"
  then have "p_heap (g_prov (m_daemon m)) = Map.empty" by (simp add: phase_service_def)
  note p = provision_init_ok [OF this]
  have "prov_inv (m_cfg m) (snd (provision_init (g_prov (m_daemon m))))" "owner (snd (provision_init (g_prov (m_daemon m)))) = Map.empty"
    by (rule p)+
  moreover have "fresh (snd (provision_init (g_prov (m_daemon m))))" using m by (simp add: fresh_def provision_init_def phase_service_def)
  ultimately show "outcome bld (phase_ready bld) (start_provision m)"
    using m by (cases "provision_init (g_prov (m_daemon m))") (simp add: start_provision_def Let_def phase_ready_def phase_service_def listening_def)
qed

lemma notify_parent_leads:
  assumes e: "env_ok env"
  shows "leads bld (phase_ready bld) (notify_parent env io bld) (phase_ready bld)"
proof (rule leadsI)
  fix m :: "'a main" assume m: "phase_ready bld m"
  let ?d = "m_daemon m"
  have lg: "outcome bld (phase_ready bld) (do { d3 \<leftarrow> log_info env (m_cfg m) t d2; Some (Go, set_daemon d3 m) })" if "phase_ready bld (set_daemon d2 m)" for t d2
  proof -
    obtain d3 where "log_info env (m_cfg m) t d2 = Some d3" "same_but_sys d2 d3" using log_info_same [OF e] by blast
    with phase_same(6) [OF this(2) that] show ?thesis by simp
  qed
  show "outcome bld (phase_ready bld) (notify_parent env io bld m)"
  proof (cases "g_notify ?d")
    case None
    with lg [of ?d] m show ?thesis by (simp add: notify_parent_def)
  next
    case (Some fd)
    obtain r d1 where c1: "sys_call (io_write io fd [CHR 0x00]) ?d = (r, d1)" by fastforce
    note s1 = sys_call_same [OF c1]
    have m1: "phase_ready bld (set_daemon d1 m)" using phase_same(6) [OF s1, of bld m] m by simp
    then obtain extra where l1: "ledger extra d1" and p1: "listening bld extra (set_daemon d1 m)" by (auto simp: phase_ready_def listening_def)
    have n1: "g_notify d1 = Some fd" using Some same_but_sysD(8) [OF s1] by simp
    obtain d2 where d2: "close_fd io fd d1 = Some d2" "same_but_sys (d1\<lparr>g_fds := remove1 fd (g_fds d1)\<rparr>) d2"
      by (rule close_fd_ok [OF in_ledger(4) [OF l1 n1]])
    have "phase_ready bld (set_daemon (d1\<lparr>g_fds := remove1 fd (g_fds d1), g_notify := None\<rparr>) m)"
      using m1 p1 ledger_drop(4) [OF l1 n1] by (auto simp: phase_ready_def listening_def)
    then have m2: "phase_ready bld (set_daemon (d2\<lparr>g_notify := None\<rparr>) m)" using phase_same(6) [OF same_upd(4) [OF d2(2)]] by simp
    have "abandoned bld (set_daemon d1 m)" using listening_abandoned m1 by blast
    then show ?thesis using Some c1 d2(1) lg [OF m2] by (auto simp: notify_parent_def split: sum.split)
  qed
qed

lemma bridge_names: "config_ok cfg \<Longrightarrow> \<forall>b \<in> set (c_bridge cfg). length (br_ifname b) \<le> 900"
  using config_valid_ifname_length by (fastforce simp: config_ok_def bridges_ok_def list_all_iff bridge_ok_def IFNAMSIZ_def)

lemma start_up_leads:
  assumes "env_ok env" "reads_end io"
  shows "leads bld phase_root (start_up env io bld) (phase_ready bld)"
proof -
  have b: "leads bld (phase_service bld) (\<lambda>m. prepare_bridges env (c_bridge (m_cfg m)) m) (phase_service bld)"
    by (rule leadsI) (auto intro!: prepare_bridges_leads [OF assms(1)] dest: bridge_names simp: phase_service_def listening_def)
  show ?thesis unfolding start_up_def
    by (rule leads_steps leads_nil b check_root_leads start_log_leads start_address_leads detach_leads start_pid_leads start_signals_leads
        start_capture_leads start_service_leads start_firewall_leads start_provision_leads notify_parent_leads assms)+
qed

end
