(* ===== verification/Daemon_Calm.thy ===== *)
theory Daemon_Calm
  imports Daemon
begin

text \<open>
  Bursts of signals end. The loop of the daemon reads signals until none is pending, and handles each
  of them with calls of its own; it returns when reading a signal lowers a number of pending signals
  that no other call of the program raises. This theory shows that handling a signal, which may
  reopen the log or remove every tunnel, does not raise it.
\<close>

section \<open>Calls that do not raise a measure\<close>

text \<open>No call that the daemon makes between two reads of a signal raises the number \<open>f\<close>.\<close>

definition calm :: "('w \<Rightarrow> nat) \<Rightarrow> 'w env \<Rightarrow> 'w io \<Rightarrow> bool" where
  "calm f env io \<longleftrightarrow>
     (\<forall>u w. 0 \<le> u \<longrightarrow> f (e_sleep env u w) \<le> f w) \<and> (\<forall>c w. f (e_kill env c w) \<le> f w) \<and>
     (\<forall>fd t w. f (snd (e_write env fd t w)) \<le> f w) \<and> (\<forall>argv w. f (snd (e_fork env argv w)) \<le> f w) \<and>
     (\<forall>c w. f (snd (e_waitpid env c w)) \<le> f w) \<and> (\<forall>c w. f (snd (e_wait env c w)) \<le> f w) \<and>
     (\<forall>path w. f (snd (e_access_x env path w)) \<le> f w) \<and> (\<forall>n w. f (snd (e_if_nametoindex env n w)) \<le> f w) \<and>
     (\<forall>w. f (snd (e_socket env w)) \<le> f w) \<and> (\<forall>fd m w. f (snd (e_sendto env fd m w)) \<le> f w) \<and>
     (\<forall>fd w. f (snd (e_recvfrom env fd w)) \<le> f w) \<and> (\<forall>m path w. f (snd (io_open io m path w)) \<le> f w) \<and>
     (\<forall>fd w. f (snd (io_close io fd w)) \<le> f w) \<and> (\<forall>fd w. f (snd (io_fstat io fd w)) \<le> f w)"

text \<open>The same for the states of the process before and after an operation.\<close>

abbreviation not_raised :: "('w \<Rightarrow> nat) \<Rightarrow> 'w sys \<Rightarrow> 'w sys \<Rightarrow> bool" where
  "not_raised f s s' \<equiv> f (s_world s') \<le> f (s_world s)"

lemma calmD:
  assumes "calm f env io"
  shows "0 \<le> u \<Longrightarrow> f (e_sleep env u w) \<le> f w" "f (e_kill env c w) \<le> f w"
    "e_write env fd t w = (r1, w') \<Longrightarrow> f w' \<le> f w" "e_fork env argv w = (r2, w') \<Longrightarrow> f w' \<le> f w"
    "e_waitpid env c w = (r3, w') \<Longrightarrow> f w' \<le> f w" "e_wait env c w = (r4, w') \<Longrightarrow> f w' \<le> f w"
    "e_access_x env path w = (r5, w') \<Longrightarrow> f w' \<le> f w" "e_if_nametoindex env n w = (r6, w') \<Longrightarrow> f w' \<le> f w"
    "e_socket env w = (r7, w') \<Longrightarrow> f w' \<le> f w" "e_sendto env sk m w = (r8, w') \<Longrightarrow> f w' \<le> f w"
    "e_recvfrom env sk w = (r9, w') \<Longrightarrow> f w' \<le> f w" "io_open io om path w = (r10, w') \<Longrightarrow> f w' \<le> f w"
    "io_close io sk w = (r11, w') \<Longrightarrow> f w' \<le> f w" "io_fstat io sk w = (r12, w') \<Longrightarrow> f w' \<le> f w"
  using assms unfolding calm_def by (metis snd_conv)+

text \<open>Loops around system calls.\<close>

lemma log_write_calm:
  assumes c: "calm f env io" and r: "log_write env line s = Some (b, s')"
  shows "not_raised f s s'"
proof -
  let ?P = "\<lambda>e line s r. e = env \<longrightarrow> not_raised f s (snd r)"
  have "?P env line s (b, s')"
    by (rule log_write.raw_induct [where P = ?P, OF _ r])
      (fastforce simp: print_err_def split: if_splits prod.splits sum.splits dest: calmD(3) [OF c])
  then show ?thesis by simp
qed

lemma log_message_calm:
  assumes "calm f env io" "log_message env cfg level m s = Some s'"
  shows "not_raised f s s'"
  using assms(2)
  by (auto simp: log_message_def Let_def print_err_def split: if_splits bind_splits dest!: log_write_calm [OF assms(1)])

lemma reap_calm:
  assumes c: "calm f env io" and r: "reap env child s = Some s'"
  shows "not_raised f s s'"
proof -
  let ?P = "\<lambda>e child s r. e = env \<longrightarrow> not_raised f s r"
  have "?P env child s s'"
    by (rule reap.raw_induct [where P = ?P, OF _ r])
      (fastforce split: if_splits prod.splits sum.splits dest: calmD(6) [OF c])
  then show ?thesis by simp
qed

lemma exec_wait_calm:
  assumes c: "calm f env io" and r: "exec_wait env cfg arg0 child deadline s = Some (b, s')"
  shows "not_raised f s s'"
proof -
  let ?P = "\<lambda>e cfg arg0 child deadline s r. e = env \<longrightarrow> not_raised f s (snd r)"
  have "?P env cfg arg0 child deadline s (b, s')"
  proof (rule exec_wait.raw_induct [where P = ?P, OF _ r], intro impI, goal_cases)
    case (1 rec e cfg arg0 child deadline s r)
    note IH = 1(1) [rule_format] and body = 1(2) [unfolded 1(3)]
    obtain v w where v: "e_waitpid env child (s_world s) = (v, w)" by fastforce
    then have w: "f w \<le> f (s_world s)" by (rule calmD(5) [OF c])
    have again: "not_raised f s (snd r)" if "rec env cfg arg0 child deadline (sleep_usec env 1000 s1) = Some r" "s_world s1 = w" for s1
      using IH [OF that(1)] calmD(1) [OF c, of 1000 w] w that(2) by (simp add: sleep_usec_def)
    note step = log_message_calm [OF c] reap_calm [OF c] and k = calmD(2) [OF c, of child w]
    show ?case
    proof (cases v)
      case (Wait_failed x)
      show ?thesis using body w k by (auto simp: v Wait_failed exec_late_def split: if_splits bind_splits intro: again dest!: step)
    next
      case Wait_running
      show ?thesis using body w k by (auto simp: v Wait_running exec_late_def split: if_splits bind_splits intro: again dest!: step)
    next
      case (Wait_done x)
      show ?thesis using body w by (auto simp: v Wait_done)
    qed
  qed
  then show ?thesis by simp
qed

lemma link_recv_calm:
  assumes c: "calm f env io" and r: "link_recv env fd seq s = Some (b, s')"
  shows "not_raised f s s'"
proof -
  let ?P = "\<lambda>e fd seq s r. e = env \<longrightarrow> not_raised f s (snd r)"
  have "?P env fd seq s (b, s')"
    by (rule link_recv.raw_induct [where P = ?P, OF _ r])
      (fastforce split: if_splits prod.splits sum.splits option.splits dest: calmD(11) [OF c])
  then show ?thesis by simp
qed

section \<open>Commands and requests\<close>

lemma helper_exec_calm:
  assumes c: "calm f env io" and r: "helper_exec env cfg argv s = Some (b, s')"
  shows "not_raised f s s'"
proof -
  from r obtain b s1 where 1: "run_command env cfg argv s = Some (b, s1)" "s_world s' = s_world s1"
    by (auto simp: helper_exec_def split: bind_splits)
  have "not_raised f s s1" using 1(1)
    by (auto simp: run_command_def Let_def split: bind_splits prod.splits sum.splits option.splits wait_status.splits nat.splits
        dest!: calmD(4) [OF c] exec_wait_calm [OF c] log_message_calm [OF c])
  with 1(2) show ?thesis by simp
qed

lemma find_in_dirs_calm:
  assumes c: "calm f env io"
  shows "not_raised f s (snd (snd (find_in_dirs env p name out n s)))"
proof (induction "length p" arbitrary: p out s rule: less_induct)
  case less
  let ?d = "takeWhile (\<lambda>c. c \<noteq> CHR '':'') p"
  let ?p = "drop (length ?d + (if length ?d < length p then 1 else 0)) p"
  have IH: "not_raised f s1 (snd (snd (find_in_dirs env ?p name o1 n s1)))" if "p \<noteq> []" for o1 s1
    using that by (intro less) (cases p; auto)
  show ?case
    using calmD(7) [OF c, of "snprintf_buf n (?d @ ''/'' @ name)" "s_world s"] IH order_trans [OF IH]
    by (subst find_in_dirs.simps) (auto simp: Let_def split: prod.split option.split simp del: takeWhile_eq_all_conv)
qed

lemma ebtables_bin_calm:
  assumes "calm f env io" "ebtables_bin env s = (bin, s')"
  shows "not_raised f s s'"
  using assms(2) find_in_dirs_calm [OF assms(1), where s = s and name = "''ebtables-nft''" and out = "[]" and n = 256]
  by (auto simp: ebtables_bin_def find_in_path_def Let_def split: if_splits prod.splits bool.splits option.splits)
    (metis snd_conv)+

lemma chain_cmd_calm:
  assumes "calm f env io" "chain_cmd env cfg table op chain s = Some (r, s')"
  shows "not_raised f s s'"
  using assms(2) by (auto simp: chain_cmd_def split: prod.splits dest!: ebtables_bin_calm [OF assms(1)] helper_exec_calm [OF assms(1)])

lemma rule_cmd_calm:
  assumes "calm f env io" "rule_cmd env cfg table op chain direction name mac target s = Some (r, s')"
  shows "not_raised f s s'"
  using assms(2) by (auto simp: rule_cmd_def split: prod.splits dest!: ebtables_bin_calm [OF assms(1)] helper_exec_calm [OF assms(1)])

lemma reset_calm:
  assumes "calm f env io" "iface_ebtables_reset env cfg s = Some (r, s')"
  shows "not_raised f s s'"
  using assms(2)
  by (auto simp: iface_ebtables_reset_def chain_defaults_def or_else_def split: prod.splits bind_splits if_splits
      dest!: chain_cmd_calm [OF assms(1)] ebtables_bin_calm [OF assms(1)] helper_exec_calm [OF assms(1)])

lemma del_hooks_calm:
  assumes "calm f env io" "del_hooks env cfg pattern i hs installed s = Some (r, s')"
  shows "not_raised f s s'"
  using assms(2)
proof (induction hs arbitrary: i installed s)
  case (Cons h hs)
  then show ?case by (cases h) (fastforce split: if_splits option.splits dest: rule_cmd_calm [OF assms(1)])
qed simp

lemma gre_del_calm:
  assumes "calm f env io" "iface_gre_del env name s = Some (r, s')"
  shows "not_raised f s s'"
  using assms(2)
  by (auto simp: iface_gre_del_def if_nametoindex_def link_send_def split: prod.splits sum.splits if_splits bind_splits
      dest!: calmD(8-10) [OF assms(1)] link_recv_calm [OF assms(1)])

section \<open>Clean-up and signals\<close>

lemma cleanup_loop_calm:
  assumes "calm f env io" "cleanup_loop env cfg tunnels it ok heap s = Some (ok', heap', s')"
  shows "not_raised f s s'"
  using assms
proof (induction env cfg tunnels it ok heap s rule: cleanup_loop.induct)
  case (1 env cfg tunnels it ok heap s)
  note c = 1(4)
  note del = gre_del_calm [OF c] and info = log_message_calm [OF c]
  obtain e it' where n: "hashmap_iter_next tunnels it = (e, it')" by fastforce
  show ?case
  proof (cases e)
    case None
    then show ?thesis using 1(5) n by (subst (asm) cleanup_loop.simps) auto
  next
    case (Some kv)
    from 1(5) obtain k q tun where q: "kv = (k, Some q)" "heap q = Some tun"
      by (subst (asm) cleanup_loop.simps) (auto simp: n Some split: prod.splits option.splits)
    note IH = 1(1-3) [OF n [symmetric] Some q(1) [symmetric] refl q(2) refl]
    from 1(5) obtain r s1 where g: "iface_gre_del env (t_ifgre (tun\<lparr>t_ready := False\<rparr>)) s = Some (r, s1)"
      by (subst (asm) cleanup_loop.simps) (auto simp: n Some q Let_def split: option.splits)
    let ?tun = "tun\<lparr>t_ready := False\<rparr>"
    let ?info = "D_INFO env cfg (''Tunnel removed remote='' @ inet_ntop (t_ip_remote ?tun) @ '' interface='' @ t_ifgre ?tun @
      '' clients='' @ dec_str (hashmap_size (t_macs ?tun)))"
    have rest: "(if r \<noteq> 0 \<and> s_errno s1 \<noteq> ENODEV then cleanup_loop env cfg tunnels it' False (heap(q \<mapsto> ?tun)) s1
      else (case iface_ebtables_del_tunnel env cfg (t_ifgre ?tun) (t_firewall_hooks ?tun) s1 of
          None \<Rightarrow> None
        | Some (r2, hooks', s2) \<Rightarrow>
            if r2 \<noteq> 0 then cleanup_loop env cfg tunnels it' False (heap(q \<mapsto> ?tun\<lparr>t_firewall_hooks := hooks'\<rparr>)) s2
            else (case ?info s2 of
                None \<Rightarrow> None
              | Some s3 \<Rightarrow> cleanup_loop env cfg tunnels it' ok (heap(q \<mapsto> ?tun\<lparr>t_firewall_hooks := hooks'\<rparr>)) s3))) = Some (ok', heap', s')"
      (is "(if ?c then _ else _) = _")
      using 1(5) unfolding cleanup_loop.simps [of env cfg tunnels it ok] by (simp only: n Some q g prod.case option.case Let_def)
    show ?thesis
    proof (cases ?c)
      case True
      from IH(1) [OF g refl True c rest [unfolded if_P [OF True]]] del [OF g] show ?thesis by simp
    next
      case False
      with rest obtain r2 hooks' s2 where d: "iface_ebtables_del_tunnel env cfg (t_ifgre ?tun) (t_firewall_hooks ?tun) s1 = Some (r2, hooks', s2)"
        by (auto split: option.splits)
      then have "not_raised f s1 s2" by (auto simp: iface_ebtables_del_tunnel_def split: bind_splits dest!: del_hooks_calm [OF c])
      moreover have "not_raised f s2 s'"
      proof (cases "r2 = 0")
        case True
        with rest False d obtain s3 where "?info s2 = Some s3"
          "cleanup_loop env cfg tunnels it' ok (heap(q \<mapsto> ?tun\<lparr>t_firewall_hooks := hooks'\<rparr>)) s3 = Some (ok', heap', s')"
          by (auto simp del: append_Cons split: option.splits)
        from IH(3) [OF g refl False d refl refl _ this(1) c this(2)] info [OF this(1)] True show ?thesis by simp
      next
        case z: False
        with rest False d have "cleanup_loop env cfg tunnels it' False (heap(q \<mapsto> ?tun\<lparr>t_firewall_hooks := hooks'\<rparr>)) s2 = Some (ok', heap', s')"
          by simp
        from IH(2) [OF g refl False d refl refl z c this] show ?thesis .
      qed
      ultimately show ?thesis using del [OF g] by simp
    qed
  qed
qed

lemma delall_calm:
  assumes c: "calm f env io" and r: "provision_delall env cfg p = Some p'"
  shows "not_raised f (p_sys p) (p_sys p')"
  using r
  by (auto simp: provision_delall_def Let_def split: option.splits bind_splits if_splits prod.splits
      dest!: cleanup_loop_calm [OF c] reset_calm [OF c] log_message_calm [OF c])

lemma log_open_calm:
  assumes c: "calm f env io" and r: "log_open io path s = (v, closed, s')"
  shows "not_raised f s s'"
  using r
  by (auto simp: log_open_def call_def Let_def split: if_splits prod.splits sum.splits dest!: calmD(12-14) [OF c])

lemma handle_signal_calm:
  assumes c: "calm f env io" and r: "handle_signal env io cfg signo d = Some (go, d')"
  shows "not_raised f (g_sys d) (g_sys d')"
proof -
  have s: "not_raised f (g_sys d) (p_sys p)" if "provision_stats env cfg (g_prov d) = Some p" for p
    using that by (auto simp: provision_stats_def split: bind_splits dest!: log_message_calm [OF c])
  show ?thesis using r
    by (auto simp: handle_signal_def log_info_def log_crit_def Let_def split: if_splits prod.splits bind_splits
        dest!: log_open_calm [OF c] log_message_calm [OF c] delall_calm [OF c] s)
qed

text \<open>
  The burst of signals ends: there is a number, for instance that of the signals that are still to
  come, that reading a signal lowers and that no other call raises.
\<close>

definition signals_end :: "'w env \<Rightarrow> 'w io \<Rightarrow> bool" where
  "signals_end env io \<longleftrightarrow> (\<exists>pending :: 'w \<Rightarrow> nat. calm pending env io \<and>
     (\<forall>fd w signo w'. io_read_signal io fd w = (Inr signo, w') \<longrightarrow> pending w' < pending w))"

end
