(* ===== verification/Daemon_Correct.thy ===== *)
theory Daemon_Correct
  imports Daemon_Start Daemon_Calm
begin

text \<open>
  The loop of the daemon: every round returns and keeps the state of the parts, what it does to the
  tunnel state is a run of packets, clean-ups and statistics, and from every round the shutdown
  releases everything.
\<close>

section \<open>What the loop does to the tunnel state\<close>

text \<open>A packet that the parser got from some frame.\<close>

definition from_wire :: "payload_packet \<Rightarrow> bool" where
  "from_wire x \<longleftrightarrow> (\<exists>frame. parse_frame frame (length frame) = Some (Some x))"

definition traffic :: "'w env \<Rightarrow> softgred_config \<Rightarrow> 'w prov \<Rightarrow> 'w prov \<Rightarrow> bool" where
  "traffic env cfg p p' \<longleftrightarrow> (\<exists>evs. prov_run env cfg evs p = Some p' \<and> (\<forall>x. Ev_packet x \<in> set evs \<longrightarrow> from_wire x))"

lemma traffic_refl [simp]: "traffic env cfg p p"
  unfolding traffic_def by (intro exI [of _ "[]"]) simp

lemma traffic_trans: "traffic env cfg p p' \<Longrightarrow> traffic env cfg p' p'' \<Longrightarrow> traffic env cfg p p''"
  unfolding traffic_def
proof (elim exE conjE)
  fix evs evs'
  assume "prov_run env cfg evs p = Some p'" "prov_run env cfg evs' p' = Some p''"
    "\<forall>x. Ev_packet x \<in> set evs \<longrightarrow> from_wire x" "\<forall>x. Ev_packet x \<in> set evs' \<longrightarrow> from_wire x"
  then show "\<exists>evs. prov_run env cfg evs p = Some p'' \<and> (\<forall>x. Ev_packet x \<in> set evs \<longrightarrow> from_wire x)"
    by (intro exI [of _ "evs @ evs'"]) (auto simp: prov_run_append)
qed

lemma traffic_step: "prov_step env cfg ev p = Some p' \<Longrightarrow> (\<And>x. ev = Ev_packet x \<Longrightarrow> from_wire x) \<Longrightarrow> traffic env cfg p p'"
  unfolding traffic_def by (intro exI [of _ "[ev]"]) auto

lemma traffic_sys: "traffic env cfg p (p\<lparr>p_sys := s\<rparr>)"
  by (rule traffic_step [of _ _ "Ev_other s"]) simp_all

lemma traffic_inv:
  assumes "env_ok env" "config_ok cfg" "prov_inv cfg p" "traffic env cfg p p'"
  shows "prov_inv cfg p'"
proof -
  from assms(4) obtain evs where "prov_run env cfg evs p = Some p'" by (auto simp: traffic_def)
  with prov_run_ok [OF assms(1-3), of evs] show ?thesis by simp
qed

text \<open>A step that touches the tunnel state only.\<close>

definition changes :: "'w env \<Rightarrow> softgred_config \<Rightarrow> 'w daemon \<Rightarrow> 'w daemon \<Rightarrow> bool" where
  "changes env cfg d d' \<longleftrightarrow> (\<exists>p. d' = d\<lparr>g_prov := p\<rparr> \<and> traffic env cfg (g_prov d) p)"

lemma changesI: "traffic env cfg (g_prov d) p \<Longrightarrow> changes env cfg d (d\<lparr>g_prov := p\<rparr>)"
  unfolding changes_def by blast

lemma changes_trans:
  assumes "changes env cfg d d'" "changes env cfg d' d''"
  shows "changes env cfg d d''"
proof -
  from assms obtain p p' where p: "d' = d\<lparr>g_prov := p\<rparr>" "traffic env cfg (g_prov d) p" "d'' = d'\<lparr>g_prov := p'\<rparr>" "traffic env cfg (g_prov d') p'"
    by (auto simp: changes_def)
  then have "traffic env cfg (g_prov d) p'" using traffic_trans [OF p(2)] by simp
  then show ?thesis using p changesI by (metis daemon.update_convs(1) daemon.surjective)
qed

lemma changes_same: "same_but_sys d d' \<Longrightarrow> changes env cfg d d'"
  by (auto simp: same_but_sys_def intro: changesI traffic_sys)

lemma changes_sys: "changes env cfg d (set_sys s d)"
  by (rule changesI [OF traffic_sys])

lemma changes_held: "changes env cfg d d' \<Longrightarrow> held_fd d' fd = held_fd d fd" "changes env cfg d d' \<Longrightarrow> g_capture d' = g_capture d"
  "changes env cfg d d' \<Longrightarrow> ledger extra d' = ledger extra d" "changes env cfg d d' \<Longrightarrow> traffic env cfg (g_prov d) (g_prov d')"
  by (auto simp: changes_def held_fd_def split: option.split)

lemma frame_result:
  obtains ok x where "payload_parse (Some frame) (length frame) (Some packet) = Some (ok, Some x)" "ok \<longrightarrow> from_wire x"
proof -
  from parse_frame_inside [of "length frame" frame] obtain r where "parse_frame frame (length frame) = Some r" by auto
  then show ?thesis using that by (cases r) (auto simp: payload_parse_def from_wire_def)
qed

lemma receive_frames_ok:
  assumes e: "env_ok env" and c: "config_ok cfg"
  shows "prov_inv cfg (g_prov d) \<Longrightarrow> held_fd d (g_capture d) \<noteq> None \<Longrightarrow>
    \<exists>r d'. receive_frames env io cfg packet n d = Some (r, d') \<and> changes env cfg d d'"
proof (induction n arbitrary: d)
  case 0
  then show ?case using changes_same [of d d] by simp
next
  case (Suc n)
  from Suc.prems(2) obtain fd where fd: "held_fd d (g_capture d) = Some fd" by blast
  obtain v d1 where c1: "sys_call (io_frame io fd 65536) d = (v, d1)" by fastforce
  note h1 = changes_same [OF sys_call_same [OF c1], of env cfg]
  have go: "\<exists>r d'. receive_frames env io cfg packet n d2 = Some (r, d') \<and> changes env cfg d d'" if h2: "changes env cfg d d2" for d2
    using Suc.IH [of d2] Suc.prems changes_held [OF h2] traffic_inv [OF e c Suc.prems(1)] changes_trans [OF h2] by auto
  show ?case
  proof (cases v)
    case (Inl x)
    then show ?thesis using fd c1 h1 by simp
  next
    case (Inr a)
    then obtain outgoing frame where v: "v = Inr (outgoing, frame)" by (cases a) auto
    obtain ok x where x: "payload_parse (Some frame) (length frame) (Some packet) = Some (ok, Some x)" "ok \<longrightarrow> from_wire x"
      by (rule frame_result)
    have i1: "prov_inv cfg (g_prov d1)" by (rule traffic_inv [OF e c Suc.prems(1) changes_held(4) [OF h1]])
    from prov_step_ok [OF e c i1, of "Ev_packet x"] obtain p where p: "provision_packet env cfg x (g_prov d1) = Some p" by auto
    have "changes env cfg d (d1\<lparr>g_prov := p\<rparr>)" if ok
      by (rule changes_trans [OF h1 changesI [OF traffic_step [of _ _ "Ev_packet x"]]]) (use p x(2) that in auto)
    then show ?thesis using fd c1 v x(1) p go [OF h1] go [of "d1\<lparr>g_prov := p\<rparr>"] by auto
  qed
qed

lemma log_open_total: "\<exists>r c s'. log_open io path s = (r, c, s')"
  by (metis prod_cases3)

lemma handle_signal_ok:
  assumes e: "env_ok env" and c: "config_ok cfg" and i: "prov_inv cfg (g_prov d)"
  shows "\<exists>go d'. handle_signal env io cfg signo d = Some (go, d') \<and> changes env cfg d d'"
proof -
  obtain r cl s1 where l: "log_open io (c_log_file cfg) (g_sys d) = (r, cl, s1)" using log_open_total by blast
  have lg: "\<exists>d2. log_info env cfg t (set_sys s1 d) = Some d2 \<and> changes env cfg d d2" "\<exists>d2. log_crit env cfg t (set_sys s1 d) = Some d2 \<and> changes env cfg d d2"
    "\<exists>d2. log_info env cfg t d = Some d2 \<and> changes env cfg d d2" for t
    using log_info_same [OF e, of cfg t "set_sys s1 d"] log_crit_same [OF e, of cfg t "set_sys s1 d"] log_info_same [OF e, of cfg t d]
      changes_trans [OF changes_sys changes_same] changes_same by blast+
  from prov_step_ok [OF e c i, of Ev_delall] obtain p where p: "provision_delall env cfg (g_prov d) = Some p" by auto
  from prov_step_ok [OF e c i, of Ev_stats] obtain q where q: "provision_stats env cfg (g_prov d) = Some q" by auto
  have "changes env cfg d (d\<lparr>g_prov := p\<rparr>)" "changes env cfg d (d\<lparr>g_prov := q\<rparr>)"
    using p q traffic_step [of env cfg Ev_delall "g_prov d" p] traffic_step [of env cfg Ev_stats "g_prov d" q] by (auto intro: changesI)
  with l p q lg(3) [of "''Stopping signal='' @ dec_str signo"] lg(1) [of "''Log reopened path='' @ print_str (c_log_file cfg)"]
    lg(2) [of "''Log reopen failed path='' @ print_str (c_log_file cfg) @ '' error='' @ errno_text env (set_sys s1 d)"]
  show ?thesis unfolding handle_signal_def Let_def by (auto simp del: append_Cons)
qed


section \<open>A round\<close>

text \<open>\<open>poll\<close> reports one result per entry.\<close>

definition poll_ok :: "'w io \<Rightarrow> bool" where
  "poll_ok io \<longleftrightarrow> (\<forall>fds w evs w'. io_poll io fds w = (Inr evs, w') \<longrightarrow> length evs = length fds)"

lemma read_signals_ok:
  assumes e: "env_ok env" and c: "config_ok cfg" and s: "signals_end env io"
  shows "prov_inv cfg (g_prov d) \<Longrightarrow> \<exists>go d'. read_signals env io cfg fd running d = Some (go, d') \<and> changes env cfg d d'"
proof -
  from s obtain pending :: "'a \<Rightarrow> nat" where
    r: "\<And>fd w signo w'. io_read_signal io fd w = (Inr signo, w') \<Longrightarrow> pending w' < pending w" and h: "calm pending env io"
    unfolding signals_end_def by blast
  show "prov_inv cfg (g_prov d) \<Longrightarrow> ?thesis"
  proof (induction "pending (s_world (g_sys d))" arbitrary: d running rule: less_induct)
    case less
    obtain v d1 where c1: "sys_call (io_read_signal io fd) d = (v, d1)" by fastforce
    note h1 = changes_same [OF sys_call_same [OF c1], of env cfg]
    show ?case
    proof (cases v)
      case (Inl x)
      then show ?thesis using c1 h1 by (subst read_signals.simps) simp
    next
      case (Inr signo)
      with c1 have "io_read_signal io fd (s_world (g_sys d)) = (Inr signo, s_world (g_sys d1))"
        by (auto simp: sys_call_def split: prod.splits sum.splits)
      note lt = r [OF this]
      have i1: "prov_inv cfg (g_prov d1)" by (rule traffic_inv [OF e c less.prems changes_held(4) [OF h1]])
      from handle_signal_ok [OF e c i1, of io signo] obtain go d2 where
        g: "handle_signal env io cfg signo d1 = Some (go, d2)" "changes env cfg d1 d2" by blast
      note h2 = changes_trans [OF h1 g(2)]
      have "pending (s_world (g_sys d2)) < pending (s_world (g_sys d))" using handle_signal_calm [OF h g(1)] lt by simp
      from less.hyps [OF this traffic_inv [OF e c less.prems changes_held(4) [OF h2]], of "running \<and> go"]
      obtain go' d3 where "read_signals env io cfg fd (running \<and> go) d2 = Some (go', d3)" "changes env cfg d2 d3" by blast
      then show ?thesis using c1 Inr g(1) changes_trans [OF h2] by (subst read_signals.simps) auto
    qed
  qed
qed

definition serving :: "build \<Rightarrow> softgred_config \<Rightarrow> nat multiset \<Rightarrow> 'w daemon \<Rightarrow> bool" where
  "serving bld cfg extra d \<longleftrightarrow> ledger extra d \<and> (g_listener d \<noteq> None \<longleftrightarrow> b_service bld) \<and> g_signal d \<noteq> None \<and> g_capture d \<noteq> None \<and> prov_inv cfg (g_prov d)"

lemma serving_changes:
  assumes "env_ok env" "config_ok cfg" "serving bld cfg extra d" "changes env cfg d d'"
  shows "serving bld cfg extra d'"
  using assms traffic_inv [OF assms(1,2) _ changes_held(4) [OF assms(4)]] by (auto simp: serving_def changes_def)

lemma collect_prov:
  "collect_clients is fds (d\<lparr>g_prov := p\<rparr>) = map_option (map_prod (\<lambda>f. f) (\<lambda>d. d\<lparr>g_prov := p\<rparr>)) (collect_clients is fds d)"
proof (induction "is" arbitrary: fds d)
  case (Cons i "is")
  have e: "d\<lparr>g_prov := p, g_poll_slots := q\<rparr> = d\<lparr>g_poll_slots := q, g_prov := p\<rparr>" for q by simp
  have "collect_clients is f (d\<lparr>g_prov := p, g_poll_slots := q\<rparr>) =
      map_option (map_prod (\<lambda>f. f) (\<lambda>d. d\<lparr>g_prov := p\<rparr>)) (collect_clients is f (d\<lparr>g_poll_slots := q\<rparr>))" for f q
    unfolding e by (rule Cons)
  with Cons show ?case by (auto split: option.split)
qed simp

lemma pollfds_prov: "service_pollfds d = Some (fds, d1) \<Longrightarrow> service_pollfds (d\<lparr>g_prov := p\<rparr>) = Some (fds, d1\<lparr>g_prov := p\<rparr>)"
  by (auto simp: service_pollfds_def collect_prov split: option.splits)

text \<open>The poll entries, in either build.\<close>

lemma serving_srv: "serving bld cfg extra d \<Longrightarrow> b_service bld \<Longrightarrow> srv_inv (extra + base d) d"
  by (auto simp: serving_def ledger_srv srv_off_def)

lemma serving_pollfds:
  assumes "serving bld cfg extra d"
  obtains fds d1 q where "api_pollfds bld d = Some (fds, d1)" "d1 = d\<lparr>g_poll_slots := q\<rparr>" "serving bld cfg extra d1"
proof (cases "b_service bld")
  case True
  obtain fds d1 q where "service_pollfds d = Some (fds, d1)" "d1 = d\<lparr>g_poll_slots := q\<rparr>" "length q = SERVICE_MAX_CLIENTS"
    by (rule service_pollfds_ok [OF serving_srv [OF assms True]]) auto
  moreover from this have "serving bld cfg extra d1"
    using assms by (simp add: serving_def ledger_def base_def srv_part_def table_ok_def cong: option.case_cong)
  ultimately show ?thesis using that True by (simp add: api_pollfds_def)
next
  case False
  with assms that [of "[]" d "g_poll_slots d"] show ?thesis by (simp add: api_disabled)
qed

text \<open>The service part of a round, after the tunnel state has changed.\<close>

lemma round_dispatch:
  assumes io: "io_ok io" and sv: "serving bld cfg extra d" and p: "api_pollfds bld d = Some (fds, d1)"
    and c: "changes env cfg d1 d2" and i: "prov_inv cfg (g_prov d2)" and l: "length evs = length fds"
  shows "\<exists>d3. api_dispatch env io bld cfg (with_revents fds evs) d2 = Some d3 \<and> serving bld cfg extra d3 \<and> traffic env cfg (g_prov d2) (g_prov d3) \<and>
    (\<exists>s. g_prov d3 = (g_prov d2)\<lparr>p_sys := s\<rparr>)"
proof (cases "b_service bld")
  case False
  with p have "d1 = d" by (simp add: api_disabled)
  with c sv i have "serving bld cfg extra d2" by (auto simp: serving_def changes_def)
  moreover have "\<exists>s. g_prov d2 = (g_prov d2)\<lparr>p_sys := s\<rparr>" by (rule exI [of _ "p_sys (g_prov d2)"]) simp
  ultimately show ?thesis using False traffic_sys [of env cfg "g_prov d2" "p_sys (g_prov d2)"] by (simp add: api_disabled)
next
  case True
  note inv = serving_srv [OF sv True]
  have p: "service_pollfds d = Some (fds, d1)" using p True by (simp add: api_pollfds_def)
  from c obtain q where q: "d2 = d1\<lparr>g_prov := q\<rparr>" by (auto simp: changes_def)
  have inv': "srv_inv (extra + base d) (d\<lparr>g_prov := q\<rparr>)" using inv by (simp add: srv_inv_def table_ok_def)
  have i': "prov_inv cfg (g_prov (d\<lparr>g_prov := q\<rparr>))" using i q by simp
  from dispatch_ok [OF io inv' i' pollfds_prov [OF p] l, of env bld] q obtain d3 where
    d3: "service_dispatch env io bld cfg (with_revents fds evs) d2 = Some d3" "srv_inv (extra + base d) d3" "srv_frame (d\<lparr>g_prov := q\<rparr>) d3" by auto
  have "base d3 = base d" using d3(3) by (simp add: srv_frame_def base_def)
  then have "ledger extra d3" using d3(2) by (simp add: ledger_srv)
  moreover obtain s where s: "g_prov d3 = q\<lparr>p_sys := s\<rparr>" using d3(3) by (auto simp: srv_frame_def)
  ultimately have "serving bld cfg extra d3" using sv d3(3) i' by (auto simp: serving_def srv_frame_def)
  with d3(1) True show ?thesis using s q traffic_sys by (auto simp: api_dispatch_def)
qed

lemma loop_round_ok:
  assumes e: "env_ok env" and io: "io_ok io" and po: "poll_ok io" and c: "config_ok cfg" and sg: "signals_end env io"
    and sv: "serving bld cfg extra d"
  shows "\<exists>res d'. loop_round env io bld cfg packet d = Some (res, d') \<and> serving bld cfg extra d' \<and> traffic env cfg (g_prov d) (g_prov d')"
proof -
  from sv obtain sfd cfd where f: "g_signal d = Some sfd" "g_capture d = Some cfd" and l: "ledger extra d" by (auto simp: serving_def)
  have hs: "held_fd d (g_signal d) = Some sfd" "held_fd d (g_capture d) = Some cfd"
    using in_ledger(3) [OF l f(1)] in_ledger(1) [OF l f(2)] f by (simp_all add: held_fd_def)
  obtain fds d1 q where p: "api_pollfds bld d = Some (fds, d1)" and q: "d1 = d\<lparr>g_poll_slots := q\<rparr>" and sv1: "serving bld cfg extra d1"
    by (rule serving_pollfds [OF sv])
  have same: "g_prov d1 = g_prov d" by (simp add: q)
  let ?fds = "[\<lparr>pf_fd = sfd, pf_events = POLLIN, pf_revents = 0\<rparr>, \<lparr>pf_fd = cfd, pf_events = POLLIN, pf_revents = 0\<rparr>] @ fds"
  obtain v d2 where c2: "sys_call (io_poll io ?fds) d1 = (v, d2)" by fastforce
  note h2 = changes_same [OF sys_call_same [OF c2], of env cfg]
  have fin: "serving bld cfg extra d'" "traffic env cfg (g_prov d) (g_prov d')" if "changes env cfg d1 d'" for d'
    using serving_changes [OF e c sv1 that] changes_held(4) [OF that] same by simp_all
  note lr = loop_round_def [of env io bld cfg packet d] hs p c2 Let_def
  show ?thesis
  proof (cases v)
    case (Inl x)
    then show ?thesis using fin [OF h2] by (simp add: lr del: append_Cons)
  next
    case (Inr evs)
    with c2 have "\<exists>w. io_poll io ?fds (s_world (g_sys d1)) = (Inr evs, w)" by (intro sys_call_Inr [of _ _ _ d2]) simp
    then have le: "length evs = length ?fds" using po by (auto simp: poll_ok_def)
    obtain go d3 where 3: "(if flag (evs ! 0) POLLIN then read_signals env io cfg sfd True d2 else Some (True, d2)) = Some (go, d3)" "changes env cfg d1 d3"
    proof -
      have "prov_inv cfg (g_prov d2)" using fin(1) [OF h2] by (simp add: serving_def)
      from read_signals_ok [OF e c sg this, of sfd True] h2 changes_trans [OF h2] that show ?thesis by (cases "flag (evs ! 0) POLLIN") auto
    qed
    obtain br d4 where 4: "(if flag (evs ! 1) (POLLERR OR POLLHUP OR POLLNVAL) then Some (True, d3)
         else if flag (evs ! 1) POLLIN then do { (r, d4) \<leftarrow> payload_receive env io cfg packet d3; Some (r \<noteq> 0, d4) }
         else Some (False, d3)) = Some (br, d4)" "changes env cfg d1 d4"
    proof -
      have s3: "serving bld cfg extra d3" by (rule fin(1) [OF 3(2)])
      then have "prov_inv cfg (g_prov d3)" "held_fd d3 (g_capture d3) \<noteq> None"
        using in_ledger(1) [of extra d3] by (auto simp: serving_def held_fd_def)
      from receive_frames_ok [OF e c this, of io packet 64] 3(2) changes_trans [OF 3(2)] that show ?thesis
        by (cases "flag (evs ! 1) (POLLERR OR POLLHUP OR POLLNVAL)"; cases "flag (evs ! 1) POLLIN") (auto simp: payload_receive_def)
    qed
    obtain d5 where 5: "log_crit env cfg (''Capture stopped: '' @ errno_text env d4) d4 = Some d5" "changes env cfg d1 d5"
      using log_crit_same [OF e] changes_trans [OF 4(2) changes_same] by blast
    have "prov_inv cfg (g_prov d4)" using fin(1) [OF 4(2)] by (simp add: serving_def)
    from round_dispatch [OF io sv p 4(2) this, of "drop 2 evs"] le obtain d6 where
      6: "api_dispatch env io bld cfg (with_revents fds (drop 2 evs)) d4 = Some d6" "serving bld cfg extra d6" "traffic env cfg (g_prov d4) (g_prov d6)" by auto
    have "loop_round env io bld cfg packet d =
      (if \<not> go then Some (Some EXIT_SUCCESS, d3) else if br then Some (Some EXIT_FAILURE, d5) else Some (None, d6))"
      using le Inr 3(1) 4(1) 5(1) 6(1) by (simp add: lr del: append_Cons)
    then show ?thesis using fin [OF 3(2)] fin [OF 5(2)] fin(2) [OF 4(2)] 6(2,3) traffic_trans by (cases go; cases br) auto
  qed
qed


section \<open>Any number of rounds\<close>

fun rounds ::
  "'w env \<Rightarrow> 'w io \<Rightarrow> build \<Rightarrow> softgred_config \<Rightarrow> payload_packet \<Rightarrow> nat \<Rightarrow> 'w daemon \<Rightarrow> (int option \<times> 'w daemon) option" where
  "rounds env io bld cfg packet 0 d = Some (None, d)"
| "rounds env io bld cfg packet (Suc n) d =
     (case loop_round env io bld cfg packet d of
        None \<Rightarrow> None
      | Some (None, d1) \<Rightarrow> rounds env io bld cfg packet n d1
      | Some (Some result, d1) \<Rightarrow> Some (Some result, d1))"

lemma rounds_loop: "rounds env io bld cfg packet n d = Some (Some r, d') \<Longrightarrow> daemon_loop env io bld cfg packet d = Some (r, d')"
proof (induction n arbitrary: d)
  case (Suc n)
  then show ?case by (subst daemon_loop.simps) (auto split: option.splits prod.splits)
qed simp

lemma rounds_ok:
  assumes "env_ok env" "io_ok io" "poll_ok io" "config_ok cfg" "signals_end env io"
  shows "serving bld cfg extra d \<Longrightarrow> \<exists>res d'. rounds env io bld cfg packet n d = Some (res, d') \<and> serving bld cfg extra d' \<and> traffic env cfg (g_prov d) (g_prov d')"
proof (induction n arbitrary: d)
  case (Suc n)
  from loop_round_ok [OF assms Suc.prems, of packet] obtain res d1 where
    1: "loop_round env io bld cfg packet d = Some (res, d1)" "serving bld cfg extra d1" "traffic env cfg (g_prov d) (g_prov d1)" by blast
  show ?case
  proof (cases res)
    case None
    from Suc.IH [OF 1(2)] obtain res' d' where "rounds env io bld cfg packet n d1 = Some (res', d')" "serving bld cfg extra d'" "traffic env cfg (g_prov d1) (g_prov d')" by blast
    with 1 None traffic_trans [OF 1(3)] show ?thesis by auto
  qed (use 1 in auto)
qed simp

lemma ready_serving: "phase_ready bld m \<Longrightarrow> \<exists>extra. serving bld (m_cfg m) extra (m_daemon m) \<and> spare (m_cfg m) extra \<and> config_ok (m_cfg m) \<and> m_provision_ready m"
  by (auto simp: phase_ready_def listening_def serving_def)

lemma serving_stoppable: "serving bld (m_cfg m) extra d \<Longrightarrow> config_ok (m_cfg m) \<Longrightarrow> m_provision_ready m \<Longrightarrow> stoppable bld extra (set_daemon d m)"
  by (auto simp: serving_def stoppable_def config_ok_def)

lemma stoppable_released:
  assumes "env_ok env" "stoppable bld extra m"
  shows "\<exists>r m'. shutdown env io bld result m = Some (r, m') \<and> (r = result \<or> r = EXIT_FAILURE) \<and> released extra (m_daemon m')"
proof -
  from assms(2) obtain path where "c_pid_file (m_cfg m) = Some path" by (auto simp: stoppable_def)
  from shutdown_ok [OF assms this, of io result] show ?thesis by blast
qed

text \<open>An address is learned from a packet.\<close>

lemma learned_from:
  "learning_run cfg evs a b \<Longrightarrow> l_owner b mac = Some k \<Longrightarrow>
   l_owner a mac = Some k \<or> (\<exists>x. Ev_packet x \<in> set evs \<and> admitted cfg x \<and> mac_text (p_mac x) = mac \<and> p_remote x = k)"
proof (induction rule: learning_run.induct)
  case (cons ev a b evs c)
  have "l_owner b mac = Some k \<Longrightarrow> l_owner a mac = Some k \<or> (\<exists>x. ev = Ev_packet x \<and> admitted cfg x \<and> mac_text (p_mac x) = mac \<and> p_remote x = k)"
    using cons.hyps(1) by (auto elim!: learning_stepE packet_stepE split: if_splits)
  with cons show ?case by auto
qed simp

lemma traffic_learned:
  assumes "env_ok env" "config_ok cfg" "prov_inv cfg p" "owner p = Map.empty" "traffic env cfg p p'" "owner p' mac = Some k"
  shows "\<exists>x. from_wire x \<and> admitted cfg x \<and> mac_text (p_mac x) = mac \<and> p_remote x = k"
proof -
  from assms(5) obtain evs where evs: "prov_run env cfg evs p = Some p'" "\<forall>x. Ev_packet x \<in> set evs \<longrightarrow> from_wire x" by (auto simp: traffic_def)
  with prov_run_ok [OF assms(1-3), of evs] have "learning_run cfg evs (learning_of p) (learning_of p')" by simp
  from learned_from [OF this, of mac k] assms(4,6) evs(2) show ?thesis by auto
qed

section \<open>An example\<close>

definition demo_main :: "demo main" where
  "demo_main = \<lparr>m_daemon = demo_daemon, m_cfg = example_config, m_provision_ready = False, m_firewall_ready = False\<rparr>"

lemma demo_main_root: "phase_root demo_main"
  using demo_daemon_cold(1) example_config_ok
  by (simp add: phase_root_def booting_def demo_main_def spare_def base_def demo_daemon_def provision_init_def demo_prov_def)

lemma demo_io_live: "poll_ok demo_io" "reads_end demo_io" "signals_end demo_env demo_io"
proof -
  show "poll_ok demo_io" by (auto simp: poll_ok_def demo_io_def)
  show "reads_end demo_io" by (simp add: reads_end_def demo_io_def)
  show "signals_end demo_env demo_io" unfolding signals_end_def by (intro exI [of _ "\<lambda>_. 0"]) (simp add: demo_io_def calm_def)
qed

section \<open>Properties\<close>



end
