(* ===== verification/Provision_Live.thy ===== *)
theory Provision_Live
  imports Provision_Correct
begin

text \<open>
  Progress of the tunnel state: where the kernel grants the requests of the daemon and the firewall
  commands succeed, an admitted packet does lead to a learned client, and a clean-up does remove
  everything, whatever failed before.

  \<open>healthy\<close> describes such an environment. \<open>link w\<close> is the index of each interface that exists in the
  world \<open>w\<close>, 0 for the names that do not exist: a lookup returns it, a request to create an interface
  is granted when its name is free and adds it, other requests are granted and add nothing, no request
  but a removal takes an interface away, and a removal leaves the configured interfaces alone and
  takes the VLAN interfaces of a tunnel with it; commands succeed and neither they nor the log touch interfaces.
\<close>

section \<open>A healthy environment\<close>

text \<open>The name of the interface that a request of this type, with these flags and attributes, creates.\<close>

definition created :: "u16 \<Rightarrow> u16 \<Rightarrow> byte list \<Rightarrow> string option" where
  "created type flags body =
     (if type = RTM_NEWLINK \<and> NLM_F_REQUEST OR NLM_F_ACK OR flags = NLM_F_REQUEST OR NLM_F_ACK OR NLM_F_CREATE OR NLM_F_EXCL \<and>
         take 2 (drop 2 body) = le16 IFLA_IFNAME
      then Some (map (\<lambda>b. char_of (unat b)) (takeWhile (\<lambda>b. b \<noteq> 0) (drop 4 body))) else None)"

definition configured :: "softgred_config \<Rightarrow> string set" where
  "configured cfg = insert (the (c_ifname cfg)) (br_ifname ` set (c_bridge cfg))"

definition names_found :: "'w env \<Rightarrow> ('w \<Rightarrow> string \<Rightarrow> u32) \<Rightarrow> bool" where
  "names_found env link \<longleftrightarrow> (\<forall>name w. \<exists>e w'. link w' = link w \<and>
     e_if_nametoindex env name w = (if link w name = 0 then Inl e else Inr (link w name), w'))"

definition present :: "(string \<Rightarrow> u32) \<Rightarrow> string set" where
  "present l = {name. l name \<noteq> 0}"

text \<open>The configured interfaces exist, and no VLAN interface has outlived the tunnel it was on.\<close>

definition slot_name :: "softgred_config \<Rightarrow> nat \<Rightarrow> string" where
  "slot_name cfg n = tunnel_name (the (c_tunnel_prefix cfg)) n"

definition tidy :: "softgred_config \<Rightarrow> (string \<Rightarrow> u32) \<Rightarrow> bool" where
  "tidy cfg l \<longleftrightarrow> configured cfg \<subseteq> present l \<and>
     (\<forall>n < SOFTGRED_MAX_SLOTS. slot_name cfg n \<notin> present l \<longrightarrow>
        (\<forall>b \<in> set (c_bridge cfg). vlan_name (slot_name cfg n) (br_vlan_id b) \<notin> present l))"

definition granted :: "softgred_config \<Rightarrow> u16 \<Rightarrow> string option \<Rightarrow> (string \<Rightarrow> u32) \<Rightarrow> (string \<Rightarrow> u32) \<Rightarrow> bool" where
  "granted cfg type new l l' \<longleftrightarrow>
     (if type = RTM_DELLINK then present l' \<subseteq> present l \<and> (tidy cfg l \<longrightarrow> tidy cfg l')
      else present l' = present l \<union> set_option new)"

definition requests_granted :: "'w env \<Rightarrow> softgred_config \<Rightarrow> ('w \<Rightarrow> string \<Rightarrow> u32) \<Rightarrow> bool" where
  "requests_granted env cfg link \<longleftrightarrow> (\<forall>type flags index up body s.
     req_ok (link_header type flags index up) body \<and> (\<forall>name. created type flags body = Some name \<longrightarrow> name \<notin> present (link (s_world s))) \<longrightarrow>
     (\<exists>s'. link_send env (mk_req (link_header type flags index up) body) s = Some (0, s') \<and>
        granted cfg type (created type flags body) (link (s_world s)) (link (s_world s'))))"

definition commands_succeed :: "'w env \<Rightarrow> softgred_config \<Rightarrow> ('w \<Rightarrow> string \<Rightarrow> u32) \<Rightarrow> bool" where
  "commands_succeed env cfg link \<longleftrightarrow>
     (\<forall>argv s. \<exists>s'. helper_exec env cfg argv s = Some (0, s') \<and> link (s_world s') = link (s_world s)) \<and>
     (\<forall>path w. link (snd (e_access_x env path w)) = link w) \<and> (\<forall>fd t w. link (snd (e_write env fd t w)) = link w)"

definition healthy :: "'w env \<Rightarrow> softgred_config \<Rightarrow> ('w \<Rightarrow> string \<Rightarrow> u32) \<Rightarrow> bool" where
  "healthy env cfg link \<longleftrightarrow> names_found env link \<and> requests_granted env cfg link \<and> commands_succeed env cfg link"

section \<open>Commands and the log\<close>

lemma log_write_links:
  assumes "\<And>fd t w. link (snd (e_write env fd t w)) = link w" "log_write env line s = Some (b, s')"
  shows "link (s_world s') = link (s_world s)"
proof -
  let ?P = "\<lambda>env line s r. (\<forall>fd t w. link (snd (e_write env fd t w)) = link w) \<longrightarrow> link (s_world (snd r)) = link (s_world s)"
  have "?P env line s (b, s')"
  proof (rule log_write.raw_induct [where P = ?P, OF _ assms(2)], rule impI)
    fix f env line and s :: "'a sys" and r
    assume IH: "\<And>env line s r. f env line s = Some r \<Longrightarrow> ?P env line s r" and k: "\<forall>fd t w. link (snd (e_write env fd t w)) = link w"
      and r: "(if line = [] then Some (True, s)
        else case e_write env (s_log_fd s) line (s_world s) of
           (Inl e, w) \<Rightarrow> if e = EINTR then f env line (s\<lparr>s_world := w, s_errno := e\<rparr>)
             else Some (False, (if \<not> s_write_failed s then print_err (''Log write failed: '' @ e_strerror env e @ [CHR 0x0A]) s
                else s)\<lparr>s_world := w, s_errno := e, s_write_failed := True\<rparr>)
         | (Inr n, w) \<Rightarrow> if n = 0
             then Some (False, (if \<not> s_write_failed s then print_err (''Log write failed: short write'' @ [CHR 0x0A]) s
                else s)\<lparr>s_world := w, s_write_failed := True\<rparr>)
             else f env (drop n line) (s\<lparr>s_world := w\<rparr>)) = Some r"
    have w: "link (snd (e_write env (s_log_fd s) line (s_world s))) = link (s_world s)" using k by blast
    from r k w show "link (s_world (snd r)) = link (s_world s)"
      by (cases "e_write env (s_log_fd s) line (s_world s)"; cases "fst (e_write env (s_log_fd s) line (s_world s))")
        (auto split: if_splits dest: IH)
  qed
  with assms(1) show ?thesis by simp
qed

lemma log_links:
  assumes "healthy env cfg link" "log_message env cfg level m s = Some s'"
  shows "link (s_world s') = link (s_world s)"
proof -
  have w: "\<And>fd t w. link (snd (e_write env fd t w)) = link w" using assms(1) by (simp add: healthy_def commands_succeed_def)
  show ?thesis
    using assms(2) by (auto simp: log_message_def Let_def print_err_def bind_eq_Some_conv split: if_splits dest!: log_write_links [OF w])
qed

lemma find_in_dirs_links:
  "(\<And>path w. link (snd (e_access_x env path w)) = link w) \<Longrightarrow> find_in_dirs env p name out n s = (b, out', s') \<Longrightarrow>
   link (s_world s') = link (s_world s)"
proof (induction env p name out n s rule: find_in_dirs.induct)
  case (1 env p name out n s)
  have w: "link w = link (s_world s)" if "e_access_x env path (s_world s) = (r, w)" for path r w
    using "1.prems"(1) [of path "s_world s"] that by simp
  from "1.prems"(2) w show ?case
    by (subst (asm) find_in_dirs.simps)
      (auto simp: Let_def split: if_splits prod.splits option.splits dest!: "1.IH" [rotated -1] intro: "1.prems"(1))
qed

lemma bin_links:
  assumes "healthy env cfg link" "ebtables_bin env s = (bin, s')"
  shows "link (s_world s') = link (s_world s)"
proof -
  have a: "\<And>path w. link (snd (e_access_x env path w)) = link w" using assms(1) by (simp add: healthy_def commands_succeed_def)
  show ?thesis
    using assms(2) by (auto simp: ebtables_bin_def find_in_path_def Let_def split: if_splits prod.splits bool.splits
        dest!: find_in_dirs_links [of link, OF a])
qed

text \<open>A command that succeeds and leaves the interfaces alone.\<close>

definition done_quietly :: "('w \<Rightarrow> string \<Rightarrow> u32) \<Rightarrow> 'w sys \<Rightarrow> (int \<times> 'w sys) option \<Rightarrow> bool" where
  "done_quietly link s res \<longleftrightarrow> (\<exists>s'. res = Some (0, s') \<and> link (s_world s') = link (s_world s))"

lemma exec_quiet: "healthy env cfg link \<Longrightarrow> link (s_world s1) = link (s_world s) \<Longrightarrow> done_quietly link s (helper_exec env cfg argv s1)"
  unfolding healthy_def commands_succeed_def done_quietly_def by metis

lemma chain_cmd_quiet: "healthy env cfg link \<Longrightarrow> done_quietly link s (chain_cmd env cfg table op chain s)"
  by (auto simp: chain_cmd_def split: prod.split intro!: exec_quiet dest: bin_links)

lemma rule_cmd_quiet: "healthy env cfg link \<Longrightarrow> done_quietly link s (rule_cmd env cfg table op chain direction name mac target s)"
  by (auto simp: rule_cmd_def split: prod.split intro!: exec_quiet dest: bin_links)

lemma or_else_quiet:
  "done_quietly link s a \<Longrightarrow> (\<And>s1. link (s_world s1) = link (s_world s) \<Longrightarrow> done_quietly link s (b s1)) \<Longrightarrow> done_quietly link s (or_else a b)"
  by (fastforce simp: done_quietly_def or_else_def)

lemma chain_defaults_quiet: "healthy env cfg link \<Longrightarrow> done_quietly link s (chain_defaults env cfg s)"
  by (auto simp: chain_defaults_def split: prod.split intro!: or_else_quiet exec_quiet dest: bin_links)

lemma reset_quiet:
  assumes "healthy env cfg link"
  shows "done_quietly link s (iface_ebtables_reset env cfg s)"
proof -
  obtain s1 where 1: "chain_cmd env cfg ''nat'' ''-F'' ''SOFTGRE_IN'' s = Some (0, s1)" "link (s_world s1) = link (s_world s)"
    using chain_cmd_quiet [OF assms] unfolding done_quietly_def by blast
  obtain s2 where 2: "chain_cmd env cfg ''filter'' ''-F'' ''SOFTGRE_OUT'' s1 = Some (0, s2)" "link (s_world s2) = link (s_world s1)"
    using chain_cmd_quiet [OF assms] unfolding done_quietly_def by blast
  from 1 2 chain_defaults_quiet [OF assms, of s2] show ?thesis by (simp add: iface_ebtables_reset_def done_quietly_def)
qed

lemma allow_quiet:
  assumes "healthy env cfg link"
  shows "done_quietly link s (iface_ebtables_allow env cfg name mac s)"
proof -
  obtain bin s0 where b: "ebtables_bin env s = (bin, s0)" by fastforce
  obtain s1 where 1: "helper_exec env cfg (client_in bin ''-I'' (tunnel_pattern name) mac) s0 = Some (0, s1)" "link (s_world s1) = link (s_world s)"
    using exec_quiet [OF assms bin_links [OF assms b]] unfolding done_quietly_def by blast
  obtain s2 where 2: "helper_exec env cfg (client_out bin ''-I'' (tunnel_pattern name) mac) s1 = Some (0, s2)" "link (s_world s2) = link (s_world s)"
    using exec_quiet [OF assms 1(2)] unfolding done_quietly_def by blast
  from b 1 2 show ?thesis by (simp add: iface_ebtables_allow_def done_quietly_def)
qed

lemma add_hooks_quiet:
  assumes "healthy env cfg link"
  shows "\<exists>b' s'. add_hooks env cfg pattern i hs b s = Some (0, b', s') \<and> link (s_world s') = link (s_world s)"
proof (induction hs arbitrary: i b s)
  case (Cons h hs)
  obtain t c d g where h: "h = (t, c, d, g)" by (cases h)
  obtain s1 where "rule_cmd env cfg t ''-I'' c d pattern None g s = Some (0, s1)" "link (s_world s1) = link (s_world s)"
    using rule_cmd_quiet [OF assms] unfolding done_quietly_def by blast
  with Cons.IH [of "i + 1" b s] Cons.IH [of "i + 1" "b OR push_bit i 1" s1] h show ?case by auto
qed simp

lemma bit_u32: "bit (b :: u32) j \<Longrightarrow> j < 32"
  using bit_imp_le_length [of b j] by simp

lemma del_hooks_quiet:
  assumes "healthy env cfg link"
  shows "\<exists>b' s'. del_hooks env cfg pattern i hs b s = Some (b', s') \<and> link (s_world s') = link (s_world s) \<and>
    (\<forall>j. bit b' j \<longleftrightarrow> bit b j \<and> \<not> (i \<le> j \<and> j < i + length hs))"
proof (induction hs arbitrary: i b s)
  case (Cons h hs)
  obtain t c d g where h: "h = (t, c, d, g)" by (cases h)
  obtain s1 where 1: "rule_cmd env cfg t ''-D'' c d pattern None g s = Some (0, s1)" "link (s_world s1) = link (s_world s)"
    using rule_cmd_quiet [OF assms] unfolding done_quietly_def by blast
  show ?case
  proof (cases "bit b i")
    case True
    from Cons.IH [of "i + 1" "b AND NOT (push_bit i 1)" s1] 1 h True show ?thesis
      by (auto simp: bit_hook bit_simps Suc_le_eq dest: bit_u32 le_neq_implies_less)
  next
    case False
    from Cons.IH [of "i + 1" b s] h False show ?thesis by (auto simp: bit_hook Suc_le_eq dest: le_neq_implies_less)
  qed
qed simp

lemma del_tunnel_quiet:
  assumes "healthy env cfg link" "\<forall>j \<ge> 3. \<not> bit b j"
  shows "\<exists>s'. iface_ebtables_del_tunnel env cfg name b s = Some (0, 0, s') \<and> link (s_world s') = link (s_world s)"
proof -
  obtain b' s' where d: "del_hooks env cfg (tunnel_pattern name) 0 hooks b s = Some (b', s')" "link (s_world s') = link (s_world s)"
    "\<forall>j. bit b' j \<longleftrightarrow> bit b j \<and> \<not> (0 \<le> j \<and> j < 0 + length hooks)"
    using del_hooks_quiet [OF assms(1), of "tunnel_pattern name" 0 hooks b s] by (elim exE conjE)
  have "b' = 0" by (rule bit_word_eqI) (use d(3) assms(2) in \<open>auto simp: hooks_def\<close>)
  with d show ?thesis by (simp add: iface_ebtables_del_tunnel_def)
qed

section \<open>Interfaces\<close>

lemma name_links:
  assumes "healthy env cfg link" "if_nametoindex env name s = (i, s')"
  shows "i = 0 \<longleftrightarrow> name \<notin> present (link (s_world s))" "link (s_world s') = link (s_world s)"
proof -
  obtain e w where "link w = link (s_world s)"
    "e_if_nametoindex env name (s_world s) = (if link (s_world s) name = 0 then Inl e else Inr (link (s_world s) name), w)"
    using assms(1) unfolding healthy_def names_found_def by blast
  with assms(2) show "i = 0 \<longleftrightarrow> name \<notin> present (link (s_world s))" "link (s_world s') = link (s_world s)"
    by (auto simp: if_nametoindex_def present_def split: if_splits)
qed

lemma send_granted:
  assumes "healthy env cfg link" "req_ok (link_header type flags index up) body"
    "\<And>name. created type flags body = Some name \<Longrightarrow> name \<notin> present (link (s_world s))"
  obtains s' where "link_send env (mk_req (link_header type flags index up) body) s = Some (0, s')"
    "granted cfg type (created type flags body) (link (s_world s)) (link (s_world s'))"
  using assms unfolding healthy_def requests_granted_def by blast

lemma byte_of_char: "unat (of_nat (ch c) :: byte) = ch c" "(of_nat (ch c) :: byte) = 0 \<longleftrightarrow> c = CHR 0x00"
  "char_of (unat (of_nat (ch c) :: byte)) = c"
proof -
  show u: "unat (of_nat (ch c) :: byte) = ch c" using ch_less [of c] by (simp add: unat_of_nat)
  then show "char_of (unat (of_nat (ch c) :: byte)) = c" by (simp add: ch_def)
  show "(of_nat (ch c) :: byte) = 0 \<longleftrightarrow> c = CHR 0x00" using u ch_zero [of c] by (metis unat_eq_zero)
qed

lemma created_name:
  assumes "CHR 0x00 \<notin> set name"
  shows "created RTM_NEWLINK (NLM_F_CREATE OR NLM_F_EXCL) (encode_attr IFLA_IFNAME (cstr_bytes name) @ rest) = Some name"
proof -
  have "takeWhile (\<lambda>b. b \<noteq> 0) (map (\<lambda>c. of_nat (ch c)) name @ 0 # r) = (map (\<lambda>c. of_nat (ch c)) name :: byte list)" for r
    using assms by (subst takeWhile_append2) (auto simp: byte_of_char(2))
  then show ?thesis by (simp add: created_def encode_attr_def cstr_bytes_def le16_def comp_def byte_of_char(3))
qed

lemma valid_ifname_nul: "config_valid_ifname (Some s) \<Longrightarrow> CHR 0x00 \<notin> set s"
  by (auto simp: config_valid_ifname_def list_all_iff ascii_isalnum_def ch_def)

lemma dec_str_nul: "CHR 0x00 \<notin> set (dec_str n)"
  using dec_str_char [of "CHR 0x00" n] by (auto simp: ascii_isdigit_def ch_def)

text \<open>Creating one interface.\<close>

lemma create_granted:
  assumes h: "healthy env cfg link" and r: "req_ok (link_header RTM_NEWLINK (NLM_F_CREATE OR NLM_F_EXCL) index up) (encode_attr IFLA_IFNAME (cstr_bytes name) @ rest)"
    and n: "CHR 0x00 \<notin> set name" "name \<notin> present (link (s_world s))"
  obtains s' where "link_send env (mk_req (link_header RTM_NEWLINK (NLM_F_CREATE OR NLM_F_EXCL) index up) (encode_attr IFLA_IFNAME (cstr_bytes name) @ rest)) s = Some (0, s')"
    "present (link (s_world s')) = insert name (present (link (s_world s)))"
proof -
  have t: "RTM_NEWLINK \<noteq> RTM_DELLINK" by (simp add: RTM_NEWLINK_def RTM_DELLINK_def)
  note c = created_name [OF n(1), of rest]
  show ?thesis
    by (rule send_granted [OF h r, of s, unfolded c]) (use n(2) t that in \<open>auto simp: granted_def\<close>)
qed

lemma gre_add_live:
  assumes h: "healthy env cfg link" and l: "length name \<le> 15" "CHR 0x00 \<notin> set name"
    and p: "dev \<in> present (link (s_world s))" "name \<notin> present (link (s_world s))"
  shows "\<exists>s'. iface_gre_add env name ''gretap'' dev loc remote s = Some (0, s') \<and>
    present (link (s_world s')) = insert name (present (link (s_world s)))"
proof -
  obtain i s1 where i: "if_nametoindex env dev s = (i, s1)" by fastforce
  note n = name_links [OF h i]
  obtain rest where g: "gre_body i name ''gretap'' loc remote = encode_attr IFLA_IFNAME (cstr_bytes name) @ rest"
    by (simp add: gre_body_def)
  have "length name + length ''gretap'' \<le> 900" using l(1) by simp
  note m = gre_add_request_mk [OF this, of i loc remote, unfolded g]
  show ?thesis
    by (rule create_granted [OF h m(2), of s1]) (use l p n i m(1) in \<open>auto simp: iface_gre_add_def send_built_def\<close>)
qed

lemma attach_live:
  assumes h: "healthy env cfg link" and l: "length (vlan_name gre vlan) < IFNAMSIZ" "CHR 0x00 \<notin> set (vlan_name gre vlan)"
    and p: "gre \<in> present (link (s_world s))" "bridge \<in> present (link (s_world s))" "vlan_name gre vlan \<notin> present (link (s_world s))"
  shows "\<exists>s'. iface_bridge_attach env gre bridge vlan s = Some (0, s') \<and>
    present (link (s_world s')) = insert (vlan_name gre vlan) (present (link (s_world s)))"
proof -
  let ?n = "vlan_name gre vlan"
  obtain i s1 where i: "if_nametoindex env gre s = (i, s1)" by fastforce
  obtain j s2 where j: "if_nametoindex env bridge s1 = (j, s2)" by fastforce
  note n = name_links [OF h i] name_links [OF h j]
  obtain rest where g: "vlan_body ?n i vlan = encode_attr IFLA_IFNAME (cstr_bytes ?n) @ rest"
    by (simp add: vlan_body_def)
  have "length ?n \<le> 900" using l(1) by (simp add: IFNAMSIZ_def)
  note m = vlan_request_mk [OF this, of i vlan, unfolded g]
  obtain s3 where 3: "send_built env (vlan_request ?n i vlan) s2 = Some (0, s3)" "present (link (s_world s3)) = insert ?n (present (link (s_world s)))"
    by (rule create_granted [OF h m(2), of s2]) (use l(2) p(3) n m(1) in \<open>auto simp: send_built_def\<close>)
  obtain k s4 where k: "if_nametoindex env ?n s3 = (k, s4)" by fastforce
  note n4 = name_links(2) [OF h k]
  have c: "created RTM_NEWLINK 0 b = None" "RTM_NEWLINK \<noteq> RTM_DELLINK" for b by (simp_all add: created_def NLM_F_REQUEST_def NLM_F_ACK_def NLM_F_CREATE_def NLM_F_EXCL_def RTM_NEWLINK_def RTM_DELLINK_def)
  obtain s5 where 5: "set_master env k j s4 = Some (0, s5)" "present (link (s_world s5)) = present (link (s_world s4))"
    by (rule send_granted [OF h conjunct2 [OF master_request_mk [of k j]], of s4])
      (use master_request_mk [of k j] in \<open>auto simp: set_master_def send_built_def granted_def c\<close>)
  from i j n p l(1) 3 k n4 5 show ?thesis by (simp add: iface_bridge_attach_def snprintf_buf_fits)
qed

section \<open>A tunnel is created\<close>

definition room :: "softgred_config \<Rightarrow> bool list \<Rightarrow> (string \<Rightarrow> u32) \<Rightarrow> bool" where
  "room cfg slots l \<longleftrightarrow> (\<exists>n < SOFTGRED_MAX_SLOTS. \<not> slots ! n \<and> slot_name cfg n \<notin> present l)"

lemma slot_name_ok:
  assumes "config_ok cfg" "n < SOFTGRED_MAX_SLOTS"
  shows "slot_name cfg n = the (c_tunnel_prefix cfg) @ dec_str n" "length (slot_name cfg n) \<le> 10" "CHR 0x00 \<notin> set (slot_name cfg n)"
    "b \<in> set (c_bridge cfg) \<Longrightarrow> length (vlan_name (slot_name cfg n) (br_vlan_id b)) < IFNAMSIZ"
    "CHR 0x00 \<notin> set (vlan_name (slot_name cfg n) v)"
proof -
  have p: "length (the (c_tunnel_prefix cfg)) \<le> 6" using assms(1) by (simp add: config_ok_def)
  note f = tunnel_name_fits [OF p assms(2)]
  have z: "CHR 0x00 \<notin> set (the (c_tunnel_prefix cfg))"
    using assms(1) valid_ifname_nul by (cases "c_tunnel_prefix cfg") (auto simp: config_ok_def config_valid_ifname_def)
  show s: "slot_name cfg n = the (c_tunnel_prefix cfg) @ dec_str n" "length (slot_name cfg n) \<le> 10" using f by (simp_all add: slot_name_def)
  show "CHR 0x00 \<notin> set (slot_name cfg n)" "CHR 0x00 \<notin> set (vlan_name (slot_name cfg n) v)"
    using z dec_str_nul by (simp_all add: s(1) vlan_name_def)
  assume "b \<in> set (c_bridge cfg)"
  then have "unat (br_vlan_id b) \<le> 4094" using assms(1) by (auto simp: config_ok_def bridges_ok_def list_all_iff bridge_ok_def)
  then have "length (dec_str (unat (br_vlan_id b))) \<le> 4" by (intro dec_str_length) simp_all
  with s(2) show "length (vlan_name (slot_name cfg n) (br_vlan_id b)) < IFNAMSIZ" by (simp add: vlan_name_def IFNAMSIZ_def)
qed

lemma vlan_name_inj: "vlan_name g v = vlan_name g w \<longleftrightarrow> v = w" "vlan_name g v \<noteq> g"
  by (auto simp: vlan_name_def dec_str_inj unsigned_word_eqI)

lemma attach_vlans_live:
  assumes e: "env_ok env" and h: "healthy env cfg link"
  shows "g \<in> present (link (s_world s)) \<Longrightarrow> br_ifname ` set bs \<subseteq> present (link (s_world s)) \<Longrightarrow> distinct (map br_vlan_id bs) \<Longrightarrow>
    (\<And>b. b \<in> set bs \<Longrightarrow> length (vlan_name g (br_vlan_id b)) < IFNAMSIZ \<and> CHR 0x00 \<notin> set (vlan_name g (br_vlan_id b)) \<and>
      vlan_name g (br_vlan_id b) \<notin> present (link (s_world s))) \<Longrightarrow>
    \<exists>s'. attach_vlans env cfg ip g bs s = Some (True, s')"
proof (induction bs arbitrary: s)
  case (Cons b bs)
  obtain s1 where 1: "iface_bridge_attach env g (br_ifname b) (br_vlan_id b) s = Some (0, s1)"
    "present (link (s_world s1)) = insert (vlan_name g (br_vlan_id b)) (present (link (s_world s)))"
    using attach_live [OF h, of g "br_vlan_id b" s "br_ifname b"] Cons.prems(1,2) Cons.prems(4) [of b] by auto
  obtain s2 where 2: "D_INFO env cfg (''VLAN attached remote='' @ ip @ '' interface='' @ g @ ''.'' @
      dec_str (unat (br_vlan_id b)) @ '' vlan='' @ dec_str (unat (br_vlan_id b)) @ '' bridge='' @ br_ifname b) s1 = Some s2"
    using log_message_total [OF e] by blast
  have "\<exists>s'. attach_vlans env cfg ip g bs s2 = Some (True, s')"
  proof (rule Cons.IH)
    fix c assume "c \<in> set bs"
    then have "br_vlan_id c \<in> br_vlan_id ` set bs" by simp
    then have "br_vlan_id c \<noteq> br_vlan_id b" using Cons.prems(3) by auto
    with \<open>c \<in> set bs\<close> show "length (vlan_name g (br_vlan_id c)) < IFNAMSIZ \<and> CHR 0x00 \<notin> set (vlan_name g (br_vlan_id c)) \<and>
        vlan_name g (br_vlan_id c) \<notin> present (link (s_world s2))"
      using Cons.prems(4) [of c] by (simp add: log_links [OF h 2] 1(2) vlan_name_inj)
  qed (use Cons.prems 1(2) log_links [OF h 2] in auto)
  then show ?case using 1(1) 2 by simp
qed simp

lemma finish_live:
  assumes e: "env_ok env" and h: "healthy env cfg link" and c: "config_ok cfg" and n: "n < SOFTGRED_MAX_SLOTS" "t_ifgre tun = slot_name cfg n"
    and p: "configured cfg \<subseteq> present (link (s_world (p_sys p)))" "slot_name cfg n \<in> present (link (s_world (p_sys p)))"
      "\<And>b. b \<in> set (c_bridge cfg) \<Longrightarrow> vlan_name (slot_name cfg n) (br_vlan_id b) \<notin> present (link (s_world (p_sys p)))"
  shows "\<exists>p'. finish_tunnel env cfg remote q tun p = Some (Some q, p')"
proof -
  obtain hooks' s1 where 1: "iface_ebtables_add_tunnel env cfg (t_ifgre tun) (t_firewall_hooks tun) (p_sys p) = Some (0, hooks', s1)"
    "link (s_world s1) = link (s_world (p_sys p))"
    using add_hooks_quiet [OF h] unfolding iface_ebtables_add_tunnel_def by blast
  have "br_ifname ` set (c_bridge cfg) \<subseteq> present (link (s_world s1))" "distinct (map br_vlan_id (c_bridge cfg))"
    using p(1) 1(2) c by (auto simp: configured_def config_ok_def bridges_ok_def)
  then obtain s2 where 2: "attach_vlans env cfg (inet_ntop remote) (t_ifgre tun) (c_bridge cfg) s1 = Some (True, s2)"
    using attach_vlans_live [OF e h, of "slot_name cfg n" s1 "c_bridge cfg" "inet_ntop remote"] p(2,3) slot_name_ok(4,5) [OF c n(1)] 1(2) n(2) by auto
  obtain s3 where "D_INFO env cfg (''Tunnel ready remote='' @ inet_ntop remote @ '' interface='' @ t_ifgre tun) s2 = Some s3"
    using log_message_total [OF e] by blast
  with 1 2 show ?thesis by (simp add: finish_tunnel_def Let_def)
qed

lemma free_slot_live:
  assumes h: "healthy env cfg link" and "\<exists>i < length slots. \<not> slots ! i \<and> tunnel_name prefix (n + i) \<notin> present (link (s_world s))"
    "free_slot env prefix n slots s = (m, s')"
  shows "n \<le> m \<and> m < n + length slots \<and> tunnel_name prefix m \<notin> present (link (s_world s)) \<and> link (s_world s') = link (s_world s)"
  using assms(2,3)
proof (induction slots arbitrary: n s)
  case (Cons used slots)
  obtain i s1 where i: "if_nametoindex env (tunnel_name prefix n) s = (i, s1)" by fastforce
  note nl = name_links [OF h i]
  show ?case
  proof (cases "\<not> used \<and> i = 0")
    case True
    with Cons.prems(2) i nl show ?thesis by simp
  next
    case False
    have "\<exists>j < length slots. \<not> slots ! j \<and> tunnel_name prefix (Suc n + j) \<notin> present (link (s_world s))"
      using Cons.prems(1) False nl(1) by (auto simp: less_Suc_eq_0_disj)
    with Cons.IH [of "Suc n" s] Cons.IH [of "Suc n" s1] Cons.prems(2) False i nl show ?thesis by (cases used) auto
  qed
qed simp

lemma create_tunnel_live:
  assumes e: "env_ok env" and h: "healthy env cfg link" and c: "config_ok cfg" and i: "prov_inv cfg p" and np: "\<not> p_cleanup_pending p"
    and k: "peer p remote = None" and l: "tidy cfg (link (s_world (p_sys p)))" "room cfg (p_slots p) (link (s_world (p_sys p)))"
  shows "\<exists>q p'. create_tunnel env cfg remote p = Some (Some q, p')"
proof -
  obtain prefix ifname where n: "c_tunnel_prefix cfg = Some prefix" "c_ifname cfg = Some ifname" using config_ok_names [OF c] by blast
  let ?L = "link (s_world (p_sys p))"
  obtain v p' where v: "create_tunnel env cfg remote p = Some (v, p')"
    using create_tunnel_added [OF e i np k n] by (auto simp: added_def)
  obtain m s1 where m: "free_slot env prefix 0 (p_slots p) (p_sys p) = (m, s1)" by fastforce
  have len: "length (p_slots p) = SOFTGRED_MAX_SLOTS" using i by (simp add: prov_inv_def slots_inv_def)
  have fs: "m < SOFTGRED_MAX_SLOTS" "slot_name cfg m \<notin> present ?L" "link (s_world s1) = ?L"
    using free_slot_live [OF h _ m] l(2) len n(1) by (auto simp: room_def slot_name_def)
  note sn = slot_name_ok [OF c fs(1)]
  obtain s2 where 2: "iface_gre_add env (slot_name cfg m) ''gretap'' ifname (c_local cfg) remote s1 = Some (0, s2)"
    "present (link (s_world s2)) = insert (slot_name cfg m) (present ?L)"
    using gre_add_live [OF h _ sn(3), of ifname s1 "c_local cfg" remote] sn(2) fs l(1) n(2) by (auto simp: tidy_def configured_def)
  have fin: "\<exists>p'. finish_tunnel env cfg remote q tun p1 = Some (Some q, p')"
    if "t_ifgre tun = slot_name cfg m" "present (link (s_world (p_sys p1))) = insert (slot_name cfg m) (present ?L)" for q tun p1
    by (rule finish_live [OF e h c fs(1) that(1)]) (use that(2) l(1) fs in \<open>auto simp: tidy_def vlan_name_inj\<close>)
  have sl: "tunnel_name prefix m = slot_name cfg m" using n(1) by (simp add: slot_name_def)
  obtain s3 where 3: "D_INFO env cfg (''Tunnel created remote='' @ inet_ntop remote @ '' local='' @
      inet_ntop (c_local cfg) @ '' interface='' @ slot_name cfg m @ '' ingress='' @ ifname) s2 = Some s3"
    using log_message_total [OF e] by blast
  have "m \<noteq> SOFTGRED_MAX_SLOTS" using fs(1) by simp
  with v n m 2(1) 3 have "\<exists>q tun p1. finish_tunnel env cfg remote q tun p1 = Some (v, p') \<and> t_ifgre tun = slot_name cfg m \<and> p_sys p1 = s3"
    by (simp add: create_tunnel_def Let_def sl bind_eq_Some_conv split: if_splits) (elim exE conjE, intro exI conjI, assumption, simp_all)
  then obtain q tun p1 where f: "finish_tunnel env cfg remote q tun p1 = Some (v, p')" "t_ifgre tun = slot_name cfg m" "p_sys p1 = s3" by blast
  with fin [OF f(2), of p1 q] log_links [OF h 3] 2(2) v show ?thesis by auto
qed

section \<open>A client is learned\<close>

text \<open>There is a place for one more client of the remote.\<close>

definition place :: "softgred_config \<Rightarrow> (string \<Rightarrow> u32) \<Rightarrow> 'w prov \<Rightarrow> u32 \<Rightarrow> bool" where
  "place cfg l p remote \<longleftrightarrow>
     (case peer p remote of
        None \<Rightarrow> tidy cfg l \<and> room cfg (p_slots p) l
      | Some t \<Rightarrow> t_ready t \<and> card (clients t) < PROVISION_MAX_CLIENTS)"

lemma allow_live:
  assumes e: "env_ok env" and h: "healthy env cfg link" and i: "prov_inv cfg p" and q: "p_heap p q = Some t" "t_ready t"
    and n: "card (clients t) < PROVISION_MAX_CLIENTS" "owner p mac = None"
  shows "\<exists>p'. provision_tunnel_allow_mac env cfg q mac p = Some (True, p')"
proof -
  obtain b p' where b: "provision_tunnel_allow_mac env cfg q mac p = Some (b, p')"
    using allow_mac_learned [OF e i q(1)] unfolding learned_def by blast
  have m: "mac_inv (t_macs t)" using prov_inv_tun(2) [OF i q(1)] by (simp add: tun_ok_def)
  have "peer p (t_ip_remote t) = Some t" using peer_iff [OF i] q by blast
  then have "mac \<notin> clients t" using owner_iff [OF i, of mac "t_ip_remote t"] n(2) by auto
  then have c: "\<not> hashmap_contains (t_macs t) mac" "\<not> PROVISION_MAX_CLIENTS \<le> hashmap_size (t_macs t)"
    using n(1) by (simp_all add: by_mac.contains_abs [OF m] by_mac.tsize_abs [OF m] clients_def)
  have bm: "provision_get_tunnel_by_mac p mac = None" using owner_none [OF i] n(2) by blast
  obtain s1 where "iface_ebtables_allow env cfg (t_ifgre t) mac (p_sys p) = Some (0, s1)"
    using allow_quiet [OF h] unfolding done_quietly_def by blast
  with b q c bm have b by (auto simp: provision_tunnel_allow_mac_def bind_eq_Some_conv split: if_splits)
  with b show ?thesis by simp
qed

lemma usable_tunnel:
  assumes e: "env_ok env" and h: "healthy env cfg link" and c: "config_ok cfg" and i: "prov_inv cfg p" and np: "\<not> p_cleanup_pending p"
    and l: "place cfg (link (s_world (p_sys p))) p remote"
  obtains u q p1 t where
    "(case provision_get_tunnel_byip p remote of None \<Rightarrow> Some False | Some q \<Rightarrow> map_option t_ready (p_heap p q)) = Some u"
    "(if \<not> u then provision_add env cfg remote p else Some (provision_get_tunnel_byip p remote, p)) = Some (Some q, p1)"
    "added cfg remote p (Some (Some q, p1))" "p_heap p1 q = Some t" "t_ready t" "card (clients t) < PROVISION_MAX_CLIENTS"
proof (cases "peer p remote")
  case None
  obtain prefix ifname where n: "c_tunnel_prefix cfg = Some prefix" "c_ifname cfg = Some ifname" using config_ok_names [OF c] by blast
  have by0: "provision_get_tunnel_byip p remote = None" using peer_none [OF i] None by simp
  obtain q p1 where q: "create_tunnel env cfg remote p = Some (Some q, p1)"
    using create_tunnel_live [OF e h c i np None] l None by (auto simp: place_def)
  have a: "added cfg remote p (Some (Some q, p1))" using create_tunnel_added [OF e i np None n] q by simp
  then obtain t where t: "p_heap p1 q = Some t" "t_ip_remote t = remote" "t_ready t" "prov_inv cfg p1" "members p1 = members p"
    by (auto simp: added_def)
  have "peer p1 remote = Some t" using peer_iff [OF t(4)] t(1,2) by blast
  then have "clients t = {}" using fun_cong [OF t(5), of remote] None by (simp add: members_def)
  then show ?thesis using that [of False q p1 t] by0 q a t np by (simp add: provision_add_def PROVISION_MAX_CLIENTS_def)
next
  case (Some t)
  with l have t: "t_ready t" "card (clients t) < PROVISION_MAX_CLIENTS" by (simp_all add: place_def)
  obtain q where q: "p_heap p q = Some t" "t_ip_remote t = remote" using peer_iff [OF i] Some by blast
  then have "provision_get_tunnel_byip p remote = Some q" using byip_iff [OF i] by blast
  then show ?thesis using that [of True q p t] q t i by (simp add: added_def)
qed

lemma learn_client_live:
  assumes e: "env_ok env" and h: "healthy env cfg link" and c: "config_ok cfg" and i: "prov_inv cfg p" and np: "\<not> p_cleanup_pending p"
    and l: "place cfg (link (s_world (p_sys p))) p (p_remote packet)" and o: "owner p mac = None"
  shows "\<exists>p'. learn_client env cfg packet mac (provision_get_tunnel_byip p (p_remote packet)) now p = Some p' \<and>
    packet_learned cfg (p_remote packet) mac p p'"
proof -
  let ?p = "p\<lparr>p_sys := (p_sys p)\<lparr>s_errno := 0\<rparr>\<rparr>" let ?k = "p_remote packet"
  have i0: "prov_inv cfg ?p" and l0: "place cfg (link (s_world (p_sys ?p))) ?p ?k" and o0: "owner ?p mac = None" and np0: "\<not> p_cleanup_pending ?p"
    using i l o np by (simp_all add: place_def cong: option.case_cong)
  have by0: "provision_get_tunnel_byip ?p ?k = provision_get_tunnel_byip p ?k" by (simp add: provision_get_tunnel_byip_def)
  obtain u q p1 t where u: "(case provision_get_tunnel_byip ?p ?k of None \<Rightarrow> Some False | Some q \<Rightarrow> map_option t_ready (p_heap ?p q)) = Some u"
    "(if \<not> u then provision_add env cfg ?k ?p else Some (provision_get_tunnel_byip ?p ?k, ?p)) = Some (Some q, p1)"
    "added cfg ?k ?p (Some (Some q, p1))" "p_heap p1 q = Some t" "t_ready t" "card (clients t) < PROVISION_MAX_CLIENTS"
    by (rule usable_tunnel [OF e h c i0 np0 l0])
  have a: "prov_inv cfg p1" "members p1 = members ?p" using u(3) by (auto simp: added_def)
  have "owner p1 mac = None" using owner_eqI [OF i0 a] o0 by simp
  then obtain p2 where p2: "provision_tunnel_allow_mac env cfg q mac p1 = Some (True, p2)"
    using allow_live [OF e h a(1) u(4-6)] by blast
  have "packet_learned cfg ?k mac ?p p2" by (rule allow_on_added [OF e i0 u(3) o0]) (use u(4,5) p2 in simp)
  moreover have "learn_client env cfg packet mac (provision_get_tunnel_byip p ?k) now p = Some p2"
    using u(1,2) [unfolded by0] u(4,5) p2 by (cases u) (simp_all add: learn_client_def Let_def)
  ultimately show ?thesis by (simp add: packet_learned_def)
qed

lemma packet_live:
  assumes e: "env_ok env" and h: "healthy env cfg link" and c: "config_ok cfg" and i: "prov_inv cfg p" and np: "\<not> p_cleanup_pending p"
    and a: "admitted cfg packet" "owner p (mac_text (p_mac packet)) = None" "p_retry_after p \<le> monotonic_usec env (p_sys p)"
    and l: "place cfg (link (s_world (p_sys p))) p (p_remote packet)"
  shows "\<exists>p'. provision_packet env cfg packet p = Some p' \<and>
    packet_learned cfg (p_remote packet) (mac_text (p_mac packet)) (p\<lparr>p_packets := p_packets p + 1\<rparr>) p'"
proof -
  let ?p = "p\<lparr>p_packets := p_packets p + 1\<rparr>"
  have "prov_inv cfg ?p" "\<not> p_cleanup_pending ?p" "place cfg (link (s_world (p_sys ?p))) ?p (p_remote packet)" "owner ?p (mac_text (p_mac packet)) = None"
    using i np l a(2) by (simp_all add: place_def cong: option.case_cong)
  from learn_client_live [OF e h c this] np a show ?thesis by (simp add: provision_packet_cases [OF i] Let_def)
qed

section \<open>A clean-up is complete\<close>

text \<open>The interfaces that a clean-up leaves.\<close>

definition trimmed :: "softgred_config \<Rightarrow> (string \<Rightarrow> u32) \<Rightarrow> (string \<Rightarrow> u32) \<Rightarrow> bool" where
  "trimmed cfg l l' \<longleftrightarrow> present l' \<subseteq> present l \<and> (tidy cfg l \<longrightarrow> tidy cfg l')"

lemma trimmed_trans: "trimmed cfg l l' \<Longrightarrow> trimmed cfg l' l'' \<Longrightarrow> trimmed cfg l l''"
  unfolding trimmed_def by blast

lemma gre_del_live:
  assumes h: "healthy env cfg link"
  shows "\<exists>r s'. iface_gre_del env name s = Some (r, s') \<and> (r = 0 \<or> s_errno s' = ENODEV) \<and>
    trimmed cfg (link (s_world s)) (link (s_world s'))"
proof -
  obtain i s1 where i: "if_nametoindex env name s = (i, s1)" by fastforce
  note n = name_links [OF h i]
  have c: "created RTM_DELLINK 0 [] = None" by (simp add: created_def NLM_F_REQUEST_def NLM_F_ACK_def NLM_F_CREATE_def NLM_F_EXCL_def)
  obtain s2 where s2: "link_send env (mk_req (link_header RTM_DELLINK 0 i 0) []) s1 = Some (0, s2)"
    "granted cfg RTM_DELLINK None (link (s_world s1)) (link (s_world s2))"
    by (rule send_granted [OF h req_ok_Nil [of RTM_DELLINK 0 i 0], of s1]) (auto simp: c)
  with i n show ?thesis by (cases "i = 0") (auto simp: iface_gre_del_def link_request_init_mk granted_def trimmed_def)
qed

lemma cleanup_step_live:
  assumes e: "env_ok env" and h: "healthy env cfg link" and n: "hashmap_iter_next T it = (Some (k, Some q), it')" and q: "H q = Some t"
    "\<forall>j \<ge> 3. \<not> bit (t_firewall_hooks t) j"
  obtains t' s' where "cleanup_loop env cfg T it ok H s = cleanup_loop env cfg T it' ok (H(q \<mapsto> t')) s'" "weakened t t'"
    "trimmed cfg (link (s_world s)) (link (s_world s'))"
proof -
  let ?t = "t\<lparr>t_ready := False, t_firewall_hooks := 0\<rparr>"
  obtain r s1 where 1: "iface_gre_del env (t_ifgre t) s = Some (r, s1)" "r = 0 \<or> s_errno s1 = ENODEV" "trimmed cfg (link (s_world s)) (link (s_world s1))"
    using gre_del_live [OF h] by blast
  obtain s2 where 2: "iface_ebtables_del_tunnel env cfg (t_ifgre t) (t_firewall_hooks t) s1 = Some (0, 0, s2)" "link (s_world s2) = link (s_world s1)"
    using del_tunnel_quiet [OF h q(2)] by blast
  obtain s3 where 3: "D_INFO env cfg (''Tunnel removed remote='' @ inet_ntop (t_ip_remote t) @
       '' interface='' @ t_ifgre t @ '' clients='' @ dec_str (hashmap_size (t_macs t))) s2 = Some s3"
    using log_message_total [OF e] by blast
  have "cleanup_loop env cfg T it ok H s = cleanup_loop env cfg T it' ok (H(q \<mapsto> ?t)) s3"
    using n q(1) 1(1,2) 2(1) 3 by (subst cleanup_loop.simps) auto
  moreover have "weakened t ?t" using q(2) by (simp add: weakened_def)
  ultimately show ?thesis using that 1(3) 2(2) log_links [OF h 3] by simp
qed

lemma cleanup_loop_live:
  assumes e: "env_ok env" and h: "healthy env cfg link" and T: "hm_inv T"
  shows "(\<And>x. x \<in> set (iter_rest T it) \<Longrightarrow> entry_tracked H x) \<Longrightarrow> (\<And>q t j. H q = Some t \<Longrightarrow> 3 \<le> j \<Longrightarrow> \<not> bit (t_firewall_hooks t) j) \<Longrightarrow>
    \<exists>H' s'. cleanup_loop env cfg T it ok H s = Some (ok, H', s') \<and> trimmed cfg (link (s_world s)) (link (s_world s'))"
proof (induction "hm_cap T - it_slot it" arbitrary: it H s rule: less_induct)
  case less
  note nx = hashmap_iter_next_correct [OF T, of it]
  show ?case
  proof (cases "iter_rest T it")
    case Nil
    with nx obtain it' where "hashmap_iter_next T it = (None, it')" by auto
    then show ?thesis by (simp add: cleanup_loop.simps [of env cfg T it] trimmed_def)
  next
    case (Cons kv r)
    with less.prems(1) have "entry_tracked H kv" by simp
    then obtain k q t where kv: "kv = (k, Some q)" "H q = Some t" by (cases kv) (auto simp: entry_tracked_def)
    with Cons nx obtain it' where n: "hashmap_iter_next T it = (Some (Some k, Some q), it')" "iter_rest T it' = r"
      "it_slot it < it_slot it'" "it_slot it' \<le> hm_cap T" by auto
    obtain t1 s1 where 1: "cleanup_loop env cfg T it ok H s = cleanup_loop env cfg T it' ok (H(q \<mapsto> t1)) s1" "weakened t t1"
      "trimmed cfg (link (s_world s)) (link (s_world s1))"
      by (rule cleanup_step_live [OF e h n(1), where H = H and t = t]) (use kv(2) less.prems(2) in auto)
    have dec: "hm_cap T - it_slot it' < hm_cap T - it_slot it" using n(3,4) by simp
    have w: "heap_weakened H (H(q \<mapsto> t1))" by (rule heap_weakened_upd) (use kv(2) 1(2) in auto)
    have "entry_tracked (H(q \<mapsto> t1)) x" if "x \<in> set (iter_rest T it')" for x
      using less.prems(1) that n(2) Cons entry_tracked_weakened [OF w] by simp
    moreover have "\<not> bit (t_firewall_hooks u) j" if "(H(q \<mapsto> t1)) p = Some u" "3 \<le> j" for p u j
      using less.prems(2) kv(2) 1(2) that by (auto simp: weakened_def split: if_splits)
    ultimately obtain H' s' where "cleanup_loop env cfg T it' ok (H(q \<mapsto> t1)) s1 = Some (ok, H', s')"
      "trimmed cfg (link (s_world s1)) (link (s_world s'))" using less.hyps [OF dec, of "H(q \<mapsto> t1)" s1] by blast
    with 1 show ?thesis by (auto intro: trimmed_trans)
  qed
qed

lemma delall_live:
  assumes e: "env_ok env" and h: "healthy env cfg link" and i: "prov_inv cfg p"
  obtains p' where "provision_delall env cfg p = Some p'" "prov_inv cfg p'" "cleaned p p'"
    "p_slots p' = replicate SOFTGRED_MAX_SLOTS False" "trimmed cfg (link (s_world (p_sys p))) (link (s_world (p_sys p')))"
proof -
  from i obtain T I where a: "p_tunnels p = Some T" "p_mac_index p = Some I" "ip_inv T" "mac_inv I" "tab_inv T I (p_heap p)"
    "heap_inv cfg (p_cleanup_pending p) (p_next p) (p_heap p)" by (rule prov_invD)
  have "hm_inv T" using a(3) by (simp add: setup_inv_def)
  from cleanup_loop_live [OF e h this, of hashmap_iter_init "p_heap p" True "p_sys p"] entries_tracked [OF a(3,5)] a(6)
  obtain H' s1 where 1: "cleanup_loop env cfg T hashmap_iter_init True (p_heap p) (p_sys p) = Some (True, H', s1)"
    "trimmed cfg (link (s_world (p_sys p))) (link (s_world s1))" by (auto simp: heap_inv_def tun_ok_def)
  obtain s2 where 2: "iface_ebtables_reset env cfg s1 = Some (0, s2)" "link (s_world s2) = link (s_world s1)"
    using reset_quiet [OF h] unfolding done_quietly_def by blast
  obtain p' where p': "provision_delall env cfg p = Some p'" "prov_inv cfg p'" "cleaned p p' \<or> cleanup_failed p p'"
    by (rule provision_delall_ok [OF e i])
  then have "\<not> p_cleanup_pending p' \<and> p_slots p' = replicate SOFTGRED_MAX_SLOTS False \<and> p_sys p' = s2"
    using a(1,2) 1(1) 2(1) by (auto simp: provision_delall_def Let_def bind_eq_Some_conv split: prod.splits)
  moreover have "p_cleanup_pending p'" if "cleanup_failed p p'"
    using that by (simp add: cleanup_failed_def learning_of_def)
  ultimately show ?thesis using that [OF p'(1,2)] p'(3) 1(2) 2(2) by auto
qed

section \<open>An example\<close>

text \<open>A kernel that keeps the list of the interfaces and the number of pending signals: it adds the
  interfaces that are created and acknowledges every request.\<close>

record kernel =
  k_clock :: nat
  k_names :: "string list"
  k_backlog :: nat
  k_signals :: nat

definition kernel_link :: "kernel \<Rightarrow> string \<Rightarrow> u32" where
  "kernel_link w name = (if name \<in> set (k_names w) then 5 else 0)"

definition kernel_new :: "byte list \<Rightarrow> string option" where
  "kernel_new m =
     (if take 4 (drop 4 m) = le16 RTM_NEWLINK @ le16 (NLM_F_REQUEST OR NLM_F_ACK OR NLM_F_CREATE OR NLM_F_EXCL) \<and>
         take 2 (drop 34 m) = le16 IFLA_IFNAME
      then Some (map (\<lambda>b. char_of (unat b)) (takeWhile (\<lambda>b. b \<noteq> 0) (drop 36 m))) else None)"

definition kernel_env :: "kernel env" where
  "kernel_env =
     \<lparr>e_strerror = \<lambda>_. ''error'', e_stamp = \<lambda>_. ''now'', e_pid = 1, e_now = \<lambda>w. int (k_clock w),
      e_sleep = \<lambda>u w. w\<lparr>k_clock := k_clock w + nat u\<rparr>, e_write = \<lambda>fd t w. (Inr (length t), w),
      e_fork = \<lambda>argv w. (Inr 7, w), e_waitpid = \<lambda>c w. (Wait_done (Exited 0), w), e_kill = \<lambda>c w. w,
      e_wait = \<lambda>c w. (Inr (Signaled 9), w), e_path = Some ''/sbin'', e_access = \<lambda>p w. (None, w),
      e_access_x = \<lambda>p w. (None, w),
      e_if_nametoindex = \<lambda>n w. (if n \<in> set (k_names w) then Inr 5 else Inl 19, w),
      e_socket = \<lambda>w. (Inr 3, w),
      e_sendto = \<lambda>fd m w. (Inr (length m), w\<lparr>k_names := (case kernel_new m of None \<Rightarrow> [] | Some n \<Rightarrow> [n]) @ k_names w, k_backlog := k_backlog w + 1\<rparr>),
      e_recvfrom = \<lambda>fd w. if k_backlog w = 0 then (Inl 11, w) else (Inr (0, demo_ack), w\<lparr>k_backlog := k_backlog w - 1\<rparr>)\<rparr>"

lemma kernel_env_ok: "env_ok kernel_env"
proof -
  have "interrupts_end k_backlog kernel_env" by (auto simp: interrupts_end_def kernel_env_def split: if_splits)
  moreover have "clock_ok kernel_env" by (simp add: clock_ok_def kernel_env_def)
  ultimately show ?thesis unfolding env_ok_def by blast
qed

lemma le16_inj: "le16 a = le16 b \<longleftrightarrow> a = b"
proof
  have j: "w = ucast (ucast w :: byte) OR push_bit 8 (ucast (ucast (drop_bit 8 w) :: byte))" for w :: u16
    by (rule bit_word_eqI) (auto simp: bit_simps)
  assume "le16 a = le16 b"
  then have "ucast a = (ucast b :: byte)" "ucast (drop_bit 8 a) = (ucast (drop_bit 8 b) :: byte)" by (simp_all add: le16_def)
  with j [of a] j [of b] show "a = b" by simp
qed simp

lemma present_kernel: "present (kernel_link w) = set (k_names w)"
  by (auto simp: present_def kernel_link_def)

lemma kernel_names: "names_found kernel_env kernel_link"
  by (auto simp: names_found_def kernel_env_def kernel_link_def)

lemma kernel_commands: "commands_succeed kernel_env cfg kernel_link"
  by (simp add: commands_succeed_def kernel_env_def helper_exec_def run_command_def exec_wait.simps)

lemma demo_ack_scan: "scan_reply (take 8192 demo_ack) 1 0 (int (length (take 8192 demo_ack))) = Some (Some 0)"
  by (simp add: scan_reply.simps demo_ack_def load32_def load16_def rd_bytes_def rd_def le32_def NLMSG_ERROR_def)

lemma kernel_requests: "requests_granted kernel_env cfg kernel_link"
  unfolding requests_granted_def
proof (intro allI impI, elim conjE)
  fix type flags :: u16 and index up :: u32 and body :: "byte list" and s :: "kernel sys"
  assume r: "req_ok (link_header type flags index up) body"
  let ?req = "mk_req (link_header type flags index up) body"
  let ?m = "octets (of_nat (32 + length body)) @ link_header type flags index up @ body"
  have m: "take (32 + length body) ?req = ?m" by (simp add: mk_req_def)
  have seq: "load32 ?req 8 = Some 1" by (simp add: load32_def rd_bytes_def mk_req_def link_header_def le32_octets)
  have new: "kernel_new ?m = created type flags body"
    using le16_inj by (simp add: kernel_new_def created_def link_header_def)
  let ?w = "s_world s"
  let ?w' = "?w\<lparr>k_names := (case created type flags body of None \<Rightarrow> [] | Some n \<Rightarrow> [n]) @ k_names ?w, k_backlog := k_backlog ?w + 1\<rparr>"
  have "e_socket kernel_env ?w = (Inr 3, ?w)" "e_sendto kernel_env 3 ?m ?w = (Inr (32 + length body), ?w')"
    "e_recvfrom kernel_env 3 ?w' = (Inr (0, demo_ack), ?w'\<lparr>k_backlog := k_backlog ?w\<rparr>)"
    using r new by (simp_all add: kernel_env_def req_ok_def)
  then have "link_send kernel_env ?req s = Some (0, s\<lparr>s_world := ?w'\<lparr>k_backlog := k_backlog ?w\<rparr>\<rparr>)"
    by (simp add: link_send_def nlmsg_len_mk [OF r] seq m link_recv.simps demo_ack_scan [simplified])
  then show "\<exists>s'. link_send kernel_env ?req s = Some (0, s') \<and> granted cfg type (created type flags body) (kernel_link (s_world s)) (kernel_link (s_world s'))"
    by (auto simp: granted_def present_kernel created_def RTM_NEWLINK_def RTM_DELLINK_def split: option.split)
qed

lemma kernel_healthy: "healthy kernel_env cfg kernel_link"
  using kernel_names kernel_requests kernel_commands by (simp add: healthy_def)

definition kernel_prov :: "kernel prov" where
  "kernel_prov = snd (provision_init
     \<lparr>p_sys = \<lparr>s_world = \<lparr>k_clock = 1, k_names = [''eth0'', ''br0''], k_backlog = 0, k_signals = 0\<rparr>, s_errno = 0, s_log_fd = -1, s_write_failed = False,
        s_initialized = False, s_binary = [], s_stderr = [], s_execs = []\<rparr>,
      p_tunnels = None, p_mac_index = None, p_heap = Map.empty, p_next = 0, p_slots = [],
      p_packets = 0, p_ignored = 0, p_failures = 0, p_retry_after = 0, p_cleanup_pending = False\<rparr>)"

lemma kernel_prov_inv: "prov_inv example_config kernel_prov" "owner kernel_prov = Map.empty" "peer kernel_prov k = None"
  unfolding kernel_prov_def
proof -
  let ?p = "\<lparr>p_sys = \<lparr>s_world = \<lparr>k_clock = 1, k_names = [''eth0'', ''br0''], k_backlog = 0, k_signals = 0\<rparr>, s_errno = 0, s_log_fd = -1, s_write_failed = False,
        s_initialized = False, s_binary = [], s_stderr = [], s_execs = []\<rparr>,
      p_tunnels = None, p_mac_index = None, p_heap = Map.empty, p_next = 0, p_slots = [],
      p_packets = 0, p_ignored = 0, p_failures = 0, p_retry_after = 0, p_cleanup_pending = False\<rparr>"
  show i: "prov_inv example_config (snd (provision_init ?p))" and "owner (snd (provision_init ?p)) = Map.empty"
    using provision_init_ok [of ?p] by simp_all
  show "peer (snd (provision_init ?p)) k = None"
    using peer_iff [OF i, of k] by (cases "peer (snd (provision_init ?p)) k") (auto simp: provision_init_def)
qed

lemma kernel_tidy: "tidy example_config (kernel_link (s_world (p_sys kernel_prov)))"
  "room example_config (replicate SOFTGRED_MAX_SLOTS False) (kernel_link (s_world (p_sys kernel_prov)))"
proof -
  have n: "k_names (s_world (p_sys kernel_prov)) = [''eth0'', ''br0'']" by (simp add: kernel_prov_def provision_init_def)
  have s: "slot_name example_config k = ''sgre'' @ dec_str k" if "k < SOFTGRED_MAX_SLOTS" for k
    using slot_name_ok(1) [OF example_config_ok that] by (simp add: example_config_def)
  show "tidy example_config (kernel_link (s_world (p_sys kernel_prov)))"
    by (simp add: tidy_def present_kernel n s vlan_name_def) (simp add: configured_def example_config_def)
  show "room example_config (replicate SOFTGRED_MAX_SLOTS False) (kernel_link (s_world (p_sys kernel_prov)))"
    unfolding room_def by (intro exI [of _ 0]) (simp add: present_kernel n s SOFTGRED_MAX_SLOTS_def)
qed

section \<open>Properties\<close>

text \<open>C7. The daemon does learn: where the kernel grants requests and the firewall commands succeed, an
  admitted packet of an address that nobody owns, outside a clean-up and the backoff, is learned at
  once, when its remote has a ready tunnel with a place or a tunnel slot with a free name is left.
  The tunnel is then ready with its three firewall jumps, the address belongs to the remote, no
  other address changes its owner, and the packet is not counted as ignored or failed.\<close>

theorem provision_learns:
  assumes "env_ok env" "healthy env cfg link" "config_ok cfg" "prov_inv cfg p" "\<not> p_cleanup_pending p" "admitted cfg packet"
    "owner p (mac_text (p_mac packet)) = None" "p_retry_after p \<le> monotonic_usec env (p_sys p)"
    "place cfg (link (s_world (p_sys p))) p (p_remote packet)"
  shows "\<exists>p' t. provision_packet env cfg packet p = Some p' \<and> prov_inv cfg p' \<and>
    owner p' = (owner p)(mac_text (p_mac packet) \<mapsto> p_remote packet) \<and>
    peer p' (p_remote packet) = Some t \<and> t_ready t \<and> (\<forall>j < 3. bit (t_firewall_hooks t) j) \<and>
    p_ignored p' = p_ignored p \<and> p_failures p' = p_failures p \<and> p_retry_after p' = p_retry_after p"
proof -
  from packet_live [OF assms] obtain p' where p': "provision_packet env cfg packet p = Some p'"
    "packet_learned cfg (p_remote packet) (mac_text (p_mac packet)) (p\<lparr>p_packets := p_packets p + 1\<rparr>) p'" by blast
  then obtain t where t: "prov_inv cfg p'" "peer p' (p_remote packet) = Some t" "t_ready t" by (auto simp: packet_learned_def)
  have "\<forall>j < 3. bit (t_firewall_hooks t) j" using peer_ok [OF t(1,2)] t(3) by (simp add: tun_ok_def)
  with p' t show ?thesis by (auto simp: packet_learned_def same_rest_def)
qed

theorem provision_learns_witness:
  "\<exists>p'. provision_packet kernel_env example_config demo_packet kernel_prov = Some p' \<and> owner p' = [''02:00:00:00:00:01'' \<mapsto> 0x0200000A]"
proof -
  have m: "mac_text (p_mac demo_packet) = ''02:00:00:00:00:01''" by (simp add: demo_packet_def) code_simp
  have "place example_config (kernel_link (s_world (p_sys kernel_prov))) kernel_prov (p_remote demo_packet)"
    using kernel_tidy kernel_prov_inv(3) by (simp add: place_def) (simp add: kernel_prov_def provision_init_def)
  moreover have "\<not> p_cleanup_pending kernel_prov" "p_retry_after kernel_prov \<le> monotonic_usec kernel_env (p_sys kernel_prov)"
    by (simp_all add: kernel_prov_def provision_init_def monotonic_usec_def kernel_env_def)
  ultimately show ?thesis
    using provision_learns [OF kernel_env_ok kernel_healthy example_config_ok kernel_prov_inv(1) _ demo_packet_admitted] kernel_prov_inv(2)
    by (auto simp: m) (auto simp: demo_packet_def)
qed

text \<open>C8. The daemon recovers: from every consistent state, with a failed clean-up pending, tunnels left half
  built, clients recorded and the backoff armed, one clean-up request in such an environment removes
  every tunnel and client and ends the backoff, and the next admitted packet is learned.\<close>

theorem provision_recovers:
  assumes "env_ok env" "healthy env cfg link" "config_ok cfg" "prov_inv cfg p" "\<And>w. 0 \<le> e_now env w" "admitted cfg packet"
    "tidy cfg (link (s_world (p_sys p)))" "room cfg (replicate SOFTGRED_MAX_SLOTS False) (link (s_world (p_sys p)))"
  shows "\<exists>p1 p2. provision_delall env cfg p = Some p1 \<and> p_heap p1 = Map.empty \<and> owner p1 = Map.empty \<and> \<not> p_cleanup_pending p1 \<and>
    provision_packet env cfg packet p1 = Some p2 \<and> owner p2 = [mac_text (p_mac packet) \<mapsto> p_remote packet]"
proof -
  obtain p1 where p1: "provision_delall env cfg p = Some p1" "prov_inv cfg p1" "cleaned p p1" "p_slots p1 = replicate SOFTGRED_MAX_SLOTS False"
    "trimmed cfg (link (s_world (p_sys p))) (link (s_world (p_sys p1)))" by (rule delall_live [OF assms(1,2,4)])
  then have e: "p_heap p1 = Map.empty" "owner p1 = Map.empty" "peer p1 = Map.empty" "\<not> p_cleanup_pending p1" "p_retry_after p1 = 0"
    by (simp_all add: cleaned_def learning_of_def)
  have "place cfg (link (s_world (p_sys p1))) p1 (p_remote packet)"
    using p1(4,5) assms(7,8) e(3) by (auto simp: place_def trimmed_def room_def)
  from packet_live [OF assms(1-3) p1(2) e(4) assms(6) _ _ this] e assms(5) p1(1) show ?thesis
    by (auto simp: packet_learned_def monotonic_usec_def)
qed

theorem provision_recovers_witness:
  "\<exists>p1 p2. provision_delall kernel_env example_config (kernel_prov\<lparr>p_cleanup_pending := True, p_retry_after := 99\<rparr>) = Some p1 \<and>
    \<not> p_cleanup_pending p1 \<and> provision_packet kernel_env example_config demo_packet p1 = Some p2 \<and>
    owner p2 = [mac_text (p_mac demo_packet) \<mapsto> p_remote demo_packet]"
proof -
  let ?p = "kernel_prov\<lparr>p_cleanup_pending := True, p_retry_after := 99\<rparr>"
  have "p_heap kernel_prov = Map.empty" by (simp add: kernel_prov_def provision_init_def)
  with kernel_prov_inv(1) have i: "prov_inv example_config ?p" by (auto simp: prov_inv_def heap_inv_def)
  have c: "\<And>w. 0 \<le> e_now kernel_env w" by (simp add: kernel_env_def)
  have "tidy example_config (kernel_link (s_world (p_sys ?p)))"
    "room example_config (replicate SOFTGRED_MAX_SLOTS False) (kernel_link (s_world (p_sys ?p)))" using kernel_tidy by simp_all
  from provision_recovers [OF kernel_env_ok kernel_healthy example_config_ok i c demo_packet_admitted this] show ?thesis by blast
qed

end
