(* ===== verification/Daemon_Live.thy ===== *)
theory Daemon_Live
  imports Daemon_Correct Provision_Live
begin

unbundle bit_operations_syntax

text \<open>
  Progress of the daemon: where the system calls of the start-up succeed and the kernel and the
  firewall do what they are asked, every step of the start-up succeeds, and a frame from an admitted
  peer is learned in the round that receives it.

  As in \<open>Provision_Live\<close>, \<open>link w\<close> says which interfaces exist in the world \<open>w\<close>.
\<close>

section \<open>Calls that succeed\<close>

definition succeeds :: "('w \<Rightarrow> 'l) \<Rightarrow> ('a \<Rightarrow> bool) \<Rightarrow> ('w \<Rightarrow> (int + 'a) \<times> 'w) \<Rightarrow> bool" where
  "succeeds link ok f \<longleftrightarrow> (\<forall>w. \<exists>v w'. f w = (Inr v, w') \<and> ok v \<and> link w' = link w)"

abbreviation links :: "('w \<Rightarrow> 'l) \<Rightarrow> 'w daemon \<Rightarrow> 'l" where
  "links link d \<equiv> link (s_world (g_sys d))"

lemma sys_call_good:
  assumes "succeeds link ok f" "sys_call f d = (r, d')"
  shows "\<exists>v. r = Inr v \<and> ok v \<and> links link d' = links link d"
proof -
  from assms(1) obtain v w' where "f (s_world (g_sys d)) = (Inr v, w')" "ok v" "link w' = links link d"
    unfolding succeeds_def by blast
  with assms(2) show ?thesis by (auto simp: sys_call_def)
qed

lemma open_call_good:
  assumes "succeeds link ok f" "open_call f d = (r, d')"
  shows "\<exists>fd. r = Some fd \<and> ok fd \<and> links link d' = links link d"
  using assms(2) by (auto simp: open_call_def split: prod.splits sum.splits dest!: sys_call_good [OF assms(1)])

lemma call_good:
  assumes "succeeds link ok f" "call f s = (r, s')"
  shows "\<exists>v. r = Inr v \<and> ok v \<and> link (s_world s') = link (s_world s)"
proof -
  from assms(1) obtain v w' where "f (s_world s) = (Inr v, w')" "ok v" "link w' = link (s_world s)"
    unfolding succeeds_def by blast
  with assms(2) show ?thesis by (auto simp: call_def)
qed

lemma log_info_links: "healthy env cfg link \<Longrightarrow> log_info env cfg m d = Some d' \<Longrightarrow> links link d' = links link d"
  by (auto simp: log_info_def split: bind_splits dest: log_links)

text \<open>The names that the daemon looks up, and an environment in which the start-up can succeed; the fork
  is seen from the child.\<close>

definition needed :: "softgred_config \<Rightarrow> string set" where
  "needed cfg = configured cfg \<union> {name. c_srv_bind_in cfg = Some name \<and> name \<noteq> ''lo'' \<and> name \<noteq> ''any''}"

definition willing :: "'w env \<Rightarrow> 'w io \<Rightarrow> softgred_config \<Rightarrow> u32 \<Rightarrow> ('w \<Rightarrow> string \<Rightarrow> u32) \<Rightarrow> bool" where
  "willing env io cfg ip link \<longleftrightarrow> io_euid io = 0 \<and>
     (\<forall>cfg. healthy env cfg link) \<and> (\<forall>path w. \<exists>w'. e_access env path w = (None, w') \<and> link w' = link w) \<and>
     (\<forall>m path. succeeds link (\<lambda>_. True) (io_open io m path)) \<and> (\<forall>fd. succeeds link (\<lambda>_. True) (io_close io fd)) \<and>
     (\<forall>fd. succeeds link (\<lambda>st. log_file_ok 0 st \<and> pid_file_ok 0 st) (io_fstat io fd)) \<and>
     (\<forall>fd. succeeds link (\<lambda>_. True) (io_lock io fd)) \<and> (\<forall>fd. succeeds link (\<lambda>_. True) (io_truncate io fd)) \<and>
     (\<forall>fd t. succeeds link (\<lambda>n. n = length t) (io_write io fd t)) \<and>
     (\<forall>k. succeeds link (\<lambda>_. True) (io_socket io k)) \<and> (\<forall>fd opt. succeeds link (\<lambda>_. True) (io_setsockopt io fd opt)) \<and>
     (\<forall>fd a. succeeds link (\<lambda>_. True) (io_bind io fd a)) \<and> (\<forall>fd n. succeeds link (\<lambda>_. True) (io_listen io fd n)) \<and>
     succeeds link (\<lambda>as. (\<forall>name. c_ifname cfg = Some name \<longrightarrow> find_inet name as = Some ip) \<and>
         (\<forall>name. c_srv_bind_in cfg = Some name \<and> name \<noteq> ''lo'' \<and> name \<noteq> ''any'' \<longrightarrow> find_inet name as \<noteq> None))
       (io_ifaddrs io) \<and>
     succeeds link (\<lambda>_. True) (io_pipe io) \<and> succeeds link (\<lambda>r. r = Fork_child) (io_fork io) \<and>
     succeeds link (\<lambda>_. True) (io_setsid io) \<and> (\<forall>fd. succeeds link (\<lambda>_. True) (io_dup_stdin io fd)) \<and>
     succeeds link (\<lambda>_. True) (io_sigprocmask io) \<and> succeeds link (\<lambda>_. True) (io_signalfd io)"

lemma willingD:
  assumes "willing env io cfg ip link"
  shows "io_euid io = 0" "healthy env cfg' link" "\<exists>w'. e_access env path w = (None, w') \<and> link w' = link w"
    "succeeds link (\<lambda>_. True) (io_open io m path)" "succeeds link (\<lambda>_. True) (io_close io fd)"
    "succeeds link (\<lambda>st. log_file_ok 0 st \<and> pid_file_ok 0 st) (io_fstat io fd)"
    "succeeds link (\<lambda>_. True) (io_lock io fd)" "succeeds link (\<lambda>_. True) (io_truncate io fd)"
    "succeeds link (\<lambda>n. n = length t) (io_write io fd t)"
    "succeeds link (\<lambda>_. True) (io_socket io k)" "succeeds link (\<lambda>_. True) (io_setsockopt io fd opt)"
    "succeeds link (\<lambda>_. True) (io_bind io fd a)" "succeeds link (\<lambda>_. True) (io_listen io fd n)"
    "succeeds link (\<lambda>as. (\<forall>name. c_ifname cfg = Some name \<longrightarrow> find_inet name as = Some ip) \<and>
         (\<forall>name. c_srv_bind_in cfg = Some name \<and> name \<noteq> ''lo'' \<and> name \<noteq> ''any'' \<longrightarrow> find_inet name as \<noteq> None))
       (io_ifaddrs io)"
    "succeeds link (\<lambda>_. True) (io_pipe io)" "succeeds link (\<lambda>r. r = Fork_child) (io_fork io)"
    "succeeds link (\<lambda>_. True) (io_setsid io)" "succeeds link (\<lambda>_. True) (io_dup_stdin io fd)"
    "succeeds link (\<lambda>_. True) (io_sigprocmask io)" "succeeds link (\<lambda>_. True) (io_signalfd io)"
  using assms unfolding willing_def by simp_all

lemma close_fd_links: "willing env io cfg ip link \<Longrightarrow> close_fd io fd d = Some d' \<Longrightarrow> links link d' = links link d"
  using sys_call_good [OF willingD(5) prod.collapse [symmetric], of env io cfg ip link fd "d\<lparr>g_fds := remove1 fd (g_fds d)\<rparr>"]
  by (auto simp: close_fd_def split: if_splits)

section \<open>Steps that go on\<close>

text \<open>The configuration is \<open>cfg\<close> but for the local address, which is in \<open>A\<close>, and the interfaces that exist are
  those of \<open>N\<close>, with everything that the daemon needs among them.\<close>

definition fit :: "softgred_config \<Rightarrow> u32 set \<Rightarrow> ('w \<Rightarrow> string \<Rightarrow> u32) \<Rightarrow> string set \<Rightarrow> 'w main \<Rightarrow> bool" where
  "fit cfg A link N m \<longleftrightarrow> (\<exists>ip \<in> A. m_cfg m = cfg\<lparr>c_local := ip\<rparr>) \<and> present (links link (m_daemon m)) = N \<and> needed cfg \<subseteq> N"

definition goes_on :: "softgred_config \<Rightarrow> u32 set \<Rightarrow> ('w \<Rightarrow> string \<Rightarrow> u32) \<Rightarrow> string set \<Rightarrow> (flow \<times> 'w main) option \<Rightarrow> bool" where
  "goes_on cfg A link N res \<longleftrightarrow> (\<forall>fl m. res = Some (fl, m) \<longrightarrow> fl = Go \<and> fit cfg A link N m)"

lemma goes_on_simps [simp]:
  "goes_on cfg A link N None" "goes_on cfg A link N (Some (fl, m)) \<longleftrightarrow> fl = Go \<and> fit cfg A link N m"
  by (simp_all add: goes_on_def)

lemma fit_cfg: "fit cfg A link N m \<Longrightarrow> c_ifname (m_cfg m) = c_ifname cfg \<and> c_srv_bind_in (m_cfg m) = c_srv_bind_in cfg \<and> c_bridge (m_cfg m) = c_bridge cfg"
  by (auto simp: fit_def)

lemma fit_set: "fit cfg A link N m \<Longrightarrow> links link d = links link (m_daemon m) \<Longrightarrow> fit cfg A link N (set_daemon d m)"
  by (simp add: fit_def)

lemma goes_on_bind:
  assumes "goes_on cfg A link N res" "\<And>m. fit cfg A link N m \<Longrightarrow> goes_on cfg B link N (f m)"
  shows "goes_on cfg B link N (do { (fl, m) \<leftarrow> res; if fl = Go then f m else Some (fl, m) })"
  using assms by (cases res) auto

lemma run_steps_append: "run_steps (fs @ gs) m = do { (fl, m1) \<leftarrow> run_steps fs m; if fl = Go then run_steps gs m1 else Some (fl, m1) }"
proof (induction fs arbitrary: m)
  case (Cons f fs)
  then show ?case by (cases "f m") auto
qed simp

lemma run_steps_go: "fit cfg A link N m \<Longrightarrow> (\<And>f m. f \<in> set fs \<Longrightarrow> fit cfg A link N m \<Longrightarrow> goes_on cfg A link N (f m)) \<Longrightarrow> goes_on cfg A link N (run_steps fs m)"
proof (induction fs arbitrary: m)
  case (Cons f fs)
  then have "goes_on cfg A link N (f m)" by simp
  with Cons show ?case by (cases "f m") auto
qed simp

lemma check_root_goes: "willing env io cfg ip link \<Longrightarrow> fit cfg A link N m \<Longrightarrow> goes_on cfg A link N (check_root env io m)"
  by (simp add: check_root_def willingD)

lemma log_open_good:
  assumes "willing env io cfg ip link" "log_open io path s = (r, closed, s')" "path_is_absolute path"
  shows "r = 0 \<and> link (s_world s') = link (s_world s)"
proof -
  note g = call_good [OF willingD(4) [OF assms(1)]] call_good [OF willingD(6) [OF assms(1)]] call_good [OF willingD(5) [OF assms(1)]]
  have c: "link (s_world (snd (call (io_close io fd) s))) = link (s_world s)" for fd s using g(3) [OF prod.collapse [symmetric], of fd s] by auto
  show ?thesis
    using assms(2,3) by (auto simp: c log_open_def Let_def willingD(1) [OF assms(1)] split: prod.splits sum.splits if_splits dest!: g)
qed

lemma start_log_goes:
  assumes w: "willing env io cfg ip link" and m: "fit cfg A link N m" and p: "path_is_absolute (c_log_file cfg)"
  shows "goes_on cfg A link N (start_log env io bld m)"
proof -
  obtain r closed s1 where l: "log_open io (c_log_file (m_cfg m)) (g_sys (m_daemon m)) = (r, closed, s1)" using prod_cases3 by blast
  from m have "c_log_file (m_cfg m) = c_log_file cfg" by (auto simp: fit_def)
  with log_open_good [OF w l] p have "r = 0" "link (s_world s1) = links link (m_daemon m)" by simp_all
  with l m show ?thesis
    by (auto simp: start_log_def Let_def simp del: append_Cons split: bind_splits dest!: log_info_links [OF willingD(2) [OF w]] intro!: fit_set)
qed

lemma start_address_goes:
  assumes w: "willing env io cfg ip link" and m: "fit cfg A link N m"
  shows "goes_on cfg {ip} link N (start_address env io m)"
proof -
  obtain r d1 where c: "sys_call (io_ifaddrs io) (m_daemon m) = (r, d1)" by fastforce
  from sys_call_good [OF willingD(14) [OF w] c] obtain as where a: "r = Inr as"
    "\<forall>name. c_ifname cfg = Some name \<longrightarrow> find_inet name as = Some ip" "links link d1 = links link (m_daemon m)" by (elim exE conjE)
  from m obtain ip0 where m0: "m_cfg m = cfg\<lparr>c_local := ip0\<rparr>" by (auto simp: fit_def)
  show ?thesis
  proof (cases "c_ifname cfg")
    case None
    then show ?thesis using a(1) m0 by (simp add: start_address_def local_address_def c)
  next
    case (Some name)
    with a(1,2) m0 have "start_address env io m = Some (Go, m\<lparr>m_cfg := cfg\<lparr>c_local := ip\<rparr>, m_daemon := d1\<rparr>)"
      by (simp add: start_address_def local_address_def c)
    with m a(3) show ?thesis by (simp add: fit_def)
  qed
qed

lemma detach_goes:
  assumes w: "willing env io cfg ip link" and m: "fit cfg A link N m"
  shows "goes_on cfg A link N (detach io m)"
  using m
  by (auto simp: detach_def child_detach_def Let_def split: prod.splits sum.splits bind_splits option.splits fork_result.splits
      dest!: sys_call_good [OF willingD(15) [OF w]] sys_call_good [OF willingD(16) [OF w]] sys_call_good [OF willingD(17) [OF w]]
        sys_call_good [OF willingD(18) [OF w]] open_call_good [OF willingD(4) [OF w]] close_fd_links [OF w] intro!: fit_set)

lemma pid_file_good:
  assumes w: "willing env io cfg ip link" and r: "softgred_config_create_pid_file io cfg' pid d = Some (r, d')"
  shows "r = 0 \<and> links link d' = links link d"
  using r
  by (auto simp: softgred_config_create_pid_file_def willingD(1) [OF w] Let_def split: prod.splits sum.splits bind_splits option.splits if_splits
      dest!: sys_call_good [OF willingD(6) [OF w]] sys_call_good [OF willingD(7) [OF w]] sys_call_good [OF willingD(8) [OF w]]
        sys_call_good [OF willingD(9) [OF w]] open_call_good [OF willingD(4) [OF w]])

lemma start_pid_goes:
  assumes w: "willing env io cfg ip link" and m: "fit cfg A link N m"
  shows "goes_on cfg A link N (start_pid env io m)"
  using m by (auto simp: start_pid_def split: bind_splits dest!: pid_file_good [OF w] intro!: fit_set)

lemma start_signals_goes:
  assumes w: "willing env io cfg ip link" and m: "fit cfg A link N m"
  shows "goes_on cfg A link N (start_signals io m)"
  using m by (auto simp: start_signals_def split: prod.splits sum.splits option.splits
      dest!: sys_call_good [OF willingD(19) [OF w]] open_call_good [OF willingD(20) [OF w]] intro!: fit_set)

lemma capture_good:
  assumes w: "willing env io cfg ip link" and m: "fit cfg A link N m" and r: "payload_loop_init env io (m_cfg m) (m_daemon m) = Some (fd, d')"
  shows "fd \<noteq> None \<and> links link d' = links link (m_daemon m)"
proof -
  from r obtain name where n: "c_ifname (m_cfg m) = Some name" by (auto simp: payload_loop_init_def split: bind_splits)
  obtain i s1 where i: "if_nametoindex env name (g_sys (m_daemon m)) = (i, s1)" by fastforce
  have "name \<in> present (links link (m_daemon m))" using m n fit_cfg [OF m] by (auto simp: fit_def needed_def configured_def)
  with name_links [OF willingD(2) [OF w] i] have 1: "i \<noteq> 0" "link (s_world s1) = links link (m_daemon m)" by simp_all
  have o: "links link (snd (sys_call (io_setsockopt io f x) d)) = links link d" for f x d
    using sys_call_good [OF willingD(11) [OF w] prod.collapse [symmetric], of f x d] by auto
  show ?thesis
    using r 1 by (auto simp: payload_loop_init_def n i o Let_def split: prod.splits sum.splits bind_splits option.splits
        dest!: open_call_good [OF willingD(10) [OF w]] sys_call_good [OF willingD(12) [OF w]] sys_call_good [OF willingD(11) [OF w]])
qed

lemma start_capture_goes:
  assumes w: "willing env io cfg ip link" and m: "fit cfg A link N m"
  shows "goes_on cfg A link N (start_capture env io m)"
  using m by (auto simp: start_capture_def split: bind_splits dest!: capture_good [OF w m] intro!: fit_set)

lemma address_good:
  assumes w: "willing env io cfg ip link" and n: "c_srv_bind_in cfg = Some name" "needed cfg \<subseteq> present (links link d)"
    and r: "service_address env io name fd d = (a, d')"
  shows "a \<noteq> None \<and> links link d' = links link d"
proof (cases "name = ''lo'' \<or> name = ''any''")
  case True
  then show ?thesis using r by (auto simp: service_address_def)
next
  case False
  obtain i s1 where i: "if_nametoindex env name (g_sys d) = (i, s1)" by fastforce
  have "name \<in> present (links link d)" using n False by (auto simp: needed_def)
  with name_links [OF willingD(2) [OF w] i] have 1: "i \<noteq> 0" "link (s_world s1) = links link d" by simp_all
  show ?thesis
    using r 1 False n(1) by (auto simp: service_address_def i Let_def split: prod.splits sum.splits option.splits
        dest!: sys_call_good [OF willingD(11) [OF w]] sys_call_good [OF willingD(14) [OF w]])
qed

lemma service_good:
  assumes w: "willing env io cfg ip link" and m: "fit cfg A link N m" and r: "service_init env io (m_cfg m) (m_daemon m) = Some (v, d')"
  shows "v = 0 \<and> links link d' = links link (m_daemon m)"
proof -
  have o: "links link (snd (sys_call (io_setsockopt io f x) d)) = links link d" for f x d
    using sys_call_good [OF willingD(11) [OF w] prod.collapse [symmetric], of f x d] by auto
  let ?d0 = "(m_daemon m)\<lparr>g_limit := c_srv_max_listen (m_cfg m), g_clients := map (\<lambda>cl. cl\<lparr>cl_fd := None\<rparr>) (g_clients (m_daemon m))\<rparr>"
  obtain res d1 where "open_call (io_socket io Listening_socket) ?d0 = (res, d1)" by fastforce
  with open_call_good [OF willingD(10) [OF w] this] obtain fd where
    1: "open_call (io_socket io Listening_socket) ?d0 = (Some fd, d1)" "links link d1 = links link (m_daemon m)" by auto
  from r 1(1) obtain name where name: "c_srv_bind_in (m_cfg m) = Some name" by (auto simp: service_init_def Let_def split: bind_splits)
  let ?d3 = "snd (sys_call (io_setsockopt io fd Reuse_address) (d1\<lparr>g_listener := Some fd\<rparr>))"
  obtain res4 d4 where 4: "service_address env io name fd ?d3 = (res4, d4)" by fastforce
  have "needed cfg \<subseteq> present (links link ?d3)" using m 1(2) by (simp add: fit_def o)
  from address_good [OF w _ this 4] name fit_cfg [OF m] obtain ip where ip: "res4 = Some ip" "links link d4 = links link (m_daemon m)"
    using 1(2) by (auto simp: o)
  show ?thesis
    using r by (auto simp: service_init_def service_listen_def 1(1) name 4 ip Let_def split: prod.splits sum.splits bind_splits simp del: append_Cons
        dest!: sys_call_good [OF willingD(12) [OF w]] sys_call_good [OF willingD(13) [OF w]] log_info_links [OF willingD(2) [OF w]])
qed

lemma api_good:
  assumes "willing env io cfg ip link" "fit cfg A link N m" "api_init env io bld (m_cfg m) (m_daemon m) = Some (v, d')"
  shows "v = 0 \<and> links link d' = links link (m_daemon m)"
  using assms(3) service_good [OF assms(1,2)] by (cases "b_service bld") (auto simp: api_disabled)

lemma start_service_goes:
  assumes w: "willing env io cfg ip link" and m: "fit cfg A link N m"
  shows "goes_on cfg A link N (start_service env io bld m)"
  using m by (auto simp: start_service_def split: bind_splits dest!: api_good [OF w m] intro!: fit_set)

lemma firewall_good:
  assumes h: "healthy env cfg link" and r: "iface_ebtables_init env cfg s = Some (v, s')"
  shows "v = 0 \<and> link (s_world s') = link (s_world s)"
proof -
  have c: "v = 0 \<and> link (s_world s') = link (s_world s)" if "chain_cmd env cfg table op chain s = Some (v, s')" for table op chain s v s'
    using chain_cmd_quiet [OF h, of s table op chain] that by (auto simp: done_quietly_def)
  have d: "v = 0 \<and> link (s_world s') = link (s_world s)" if "chain_defaults env cfg s = Some (v, s')" for s v s'
    using chain_defaults_quiet [OF h, of s] that by (auto simp: done_quietly_def)
  show ?thesis using r by (auto simp: iface_ebtables_init_def Let_def split: bind_splits if_splits dest!: c d)
qed

lemma start_firewall_goes:
  assumes w: "willing env io cfg ip link" and m: "fit cfg A link N m"
  shows "goes_on cfg A link N (start_firewall env m)"
  using m by (auto simp: start_firewall_def fit_def Let_def split: bind_splits dest!: firewall_good [OF willingD(2) [OF w]])

lemma start_provision_goes: "fit cfg A link N m \<Longrightarrow> goes_on cfg A link N (start_provision m)"
  by (auto simp: start_provision_def provision_init_def fit_def Let_def)

lemma notify_goes:
  assumes w: "willing env io cfg ip link" and m: "fit cfg A link N m"
  shows "goes_on cfg A link N (notify_parent env io bld m)"
  using m
  by (auto simp: notify_parent_def split: option.splits bind_splits prod.splits sum.splits simp del: append_Cons
      dest!: sys_call_good [OF willingD(9) [OF w]] close_fd_links [OF w] log_info_links [OF willingD(2) [OF w]] intro!: fit_set)

lemma bridge_good:
  assumes w: "willing env io cfg ip link" and p: "name \<in> present (link (s_world s))" and r: "iface_bridge_prepare env name create s = Some (v, s')"
  shows "v = 0 \<and> present (link (s_world s')) = present (link (s_world s))"
proof -
  obtain i s1 where i: "if_nametoindex env name s = (i, s1)" by fastforce
  with name_links [OF willingD(2) [OF w] i] p have 1: "i \<noteq> 0" "link (s_world s1) = link (s_world s)" by simp_all
  obtain w1 where a: "e_access env (snprintf_buf 128 (''/sys/class/net/'' @ name @ ''/bridge'')) (s_world s1) = (None, w1)" "link w1 = link (s_world s1)"
    using willingD(3) [OF w] by blast
  have c: "created RTM_NEWLINK 0 [] = None" "RTM_NEWLINK \<noteq> RTM_DELLINK"
    by (simp_all add: created_def NLM_F_REQUEST_def NLM_F_ACK_def NLM_F_CREATE_def NLM_F_EXCL_def RTM_NEWLINK_def RTM_DELLINK_def)
  have "req_ok (link_header RTM_NEWLINK 0 i IFF_UP) []" by (simp add: req_ok_def link_header_def)
  from send_granted [OF willingD(2) [OF w] this, of "s1\<lparr>s_world := w1\<rparr>" cfg] obtain s2 where
    "link_send env (mk_req (link_header RTM_NEWLINK 0 i IFF_UP) []) (s1\<lparr>s_world := w1\<rparr>) = Some (0, s2)"
    "present (link (s_world s2)) = present (link w1)" unfolding c(1) granted_def using c(2) by auto
  with r 1 a show ?thesis by (simp add: iface_bridge_prepare_def i link_up_mk)
qed

lemma prepare_bridges_goes:
  assumes w: "willing env io cfg ip link"
  shows "fit cfg A link N m \<Longrightarrow> br_ifname ` set bs \<subseteq> needed cfg \<Longrightarrow> goes_on cfg A link N (prepare_bridges env bs m)"
proof (induction bs arbitrary: m)
  case (Cons b bs)
  let ?name = "br_ifname b"
  obtain i s1 where i: "if_nametoindex env ?name (g_sys (m_daemon m)) = (i, s1)" by fastforce
  note l1 = name_links(2) [OF willingD(2) [OF w] i]
  have p: "?name \<in> present (link (s_world s1))" using Cons.prems l1 by (auto simp: fit_def)
  show ?case
  proof (cases "iface_bridge_prepare env ?name (c_bridge_force (m_cfg m)) s1")
    case (Some vs)
    obtain s2 where s2: "vs = (0, s2)" "present (link (s_world s2)) = present (links link (m_daemon m))"
      using bridge_good [OF w p, of _ "fst vs" "snd vs"] Some l1 by (cases vs) auto
    have "fit cfg A link N (set_daemon d m)" if "links link d = link (s_world s2)" for d
      using Cons.prems(1) s2(2) that by (simp add: fit_def)
    with Cons s2(1) Some i show ?thesis
      by (auto simp: Let_def split: bind_splits dest!: log_info_links [OF willingD(2) [OF w]] simp del: append_Cons)
  qed (simp add: i)
qed simp

lemma start_up_goes:
  assumes w: "willing env io cfg ip link" and c: "config_ok cfg" and m: "fit cfg UNIV link N m"
  shows "goes_on cfg {ip} link N (start_up env io bld m)"
proof -
  let ?first = "[check_root env io, start_log env io bld]"
  let ?rest = "[detach io, start_pid env io, start_signals io, start_capture env io, start_service env io bld,
    \<lambda>m. prepare_bridges env (c_bridge (m_cfg m)) m, start_firewall env, start_provision, notify_parent env io bld]"
  have p: "path_is_absolute (c_log_file cfg)" using c by (simp add: config_ok_def)
  have first: "goes_on cfg UNIV link N (run_steps ?first m)"
    using check_root_goes [OF w] start_log_goes [OF w _ p] by (intro run_steps_go [OF m]) auto
  have rest: "goes_on cfg {ip} link N (run_steps ?rest m')" if "fit cfg {ip} link N m'" for m'
  proof (rule run_steps_go [OF that])
    fix f and m'' :: "'a main" assume f: "f \<in> set ?rest" and m'': "fit cfg {ip} link N m''"
    have "br_ifname ` set (c_bridge (m_cfg m'')) \<subseteq> needed cfg" using fit_cfg [OF m''] by (auto simp: needed_def configured_def)
    note b = prepare_bridges_goes [OF w m'' this]
    from f b detach_goes [OF w m''] start_pid_goes [OF w m''] start_signals_goes [OF w m''] start_capture_goes [OF w m'']
      start_service_goes [OF w m''] start_firewall_goes [OF w m''] start_provision_goes [OF m''] notify_goes [OF w m'']
    show "goes_on cfg {ip} link N (f m'')" by auto
  qed
  have "start_up env io bld m = run_steps (?first @ (start_address env io # ?rest)) m" by (simp add: start_up_def)
  also have "goes_on cfg {ip} link N \<dots>"
    unfolding run_steps_append run_steps.simps(2) [of "start_address env io"]
    by (intro goes_on_bind [OF first] goes_on_bind [OF start_address_goes [OF w]] rest)
  finally show ?thesis .
qed

section \<open>The first frame\<close>

text \<open>A packet never takes a client away.\<close>

lemma packet_keeps:
  assumes "env_ok env" "config_ok cfg" "prov_inv cfg p" "provision_packet env cfg x p = Some p'" "owner p mac = Some k"
  shows "prov_inv cfg p' \<and> owner p' mac = Some k"
proof -
  from prov_step_ok [OF assms(1-3), of "Ev_packet x"] assms(4) have i: "prov_inv cfg p'"
    and l: "learning_step cfg (Ev_packet x :: 'a prov_event) (learning_of p) (learning_of p')" by auto
  from learning_step_keeps_owner [OF l _, of mac k] assms(5) i show ?thesis by simp
qed

lemma frames_keep:
  assumes e: "env_ok env" "config_ok cfg"
  shows "receive_frames env io cfg packet n d = Some (r, d') \<Longrightarrow> prov_inv cfg (g_prov d) \<Longrightarrow> owner (g_prov d) mac = Some k \<Longrightarrow>
    owner (g_prov d') mac = Some k"
proof (induction n arbitrary: d)
  case (Suc n)
  from Suc.prems(1) obtain fd where fd: "held_fd d (g_capture d) = Some fd" by (auto split: bind_splits)
  obtain v d1 where c1: "sys_call (io_frame io fd 65536) d = (v, d1)" by fastforce
  obtain s where s: "g_prov d1 = (g_prov d)\<lparr>p_sys := s\<rparr>" using same_but_sysD(12) [OF sys_call_same [OF c1]] by blast
  have i1: "prov_inv cfg (g_prov d1)" "owner (g_prov d1) mac = Some k" using Suc.prems(2,3) by (simp_all add: s)
  show ?case
    using Suc.prems(1) i1 fd c1
    by (auto split: sum.splits if_splits bind_splits dest!: packet_keeps [OF e i1(1) _ i1(2)]) (erule Suc.IH; simp)+
qed simp

text \<open>\<open>poll\<close> reports the capture socket and no signal, the next frame received from it is \<open>frame\<close>, and neither
  call changes an interface.\<close>

definition frame_pending :: "'w io \<Rightarrow> ('w \<Rightarrow> string \<Rightarrow> u32) \<Rightarrow> byte list \<Rightarrow> 'w \<Rightarrow> bool" where
  "frame_pending io link frame w \<longleftrightarrow> (\<forall>fds fd. 2 \<le> length fds \<longrightarrow> (\<exists>evs w1 w2. io_poll io fds w = (Inr evs, w1) \<and>
     \<not> flag (evs ! 0) POLLIN \<and> \<not> flag (evs ! 1) (POLLERR OR POLLHUP OR POLLNVAL) \<and> flag (evs ! 1) POLLIN \<and>
     io_frame io fd 65536 w1 = (Inr (False, frame), w2) \<and> link w2 = link w))"

lemma receive_learns:
  assumes e: "env_ok env" and h: "healthy env cfg link" and c: "config_ok cfg" and i: "prov_inv cfg (g_prov d)"
    and fd: "held_fd d (g_capture d) = Some fd" and w: "io_frame io fd 65536 (s_world (g_sys d)) = (Inr (False, frame), w2)"
    and x: "parse_frame frame (length frame) = Some (Some x)" "admitted cfg x" "owner (g_prov d) (mac_text (p_mac x)) = None"
    and p: "\<not> p_cleanup_pending (g_prov d)" "p_retry_after (g_prov d) \<le> e_now env w2" "place cfg (link w2) (g_prov d) (p_remote x)"
    and r: "receive_frames env io cfg packet (Suc n) d = Some (r, d')"
  shows "owner (g_prov d') (mac_text (p_mac x)) = Some (p_remote x)"
proof -
  let ?d = "set_sys ((g_sys d)\<lparr>s_world := w2\<rparr>) d" let ?p = "g_prov ?d"
  have c1: "sys_call (io_frame io fd 65536) d = (Inr (False, frame), ?d)" using w by (simp add: sys_call_def)
  have "place cfg (link (s_world (p_sys ?p))) ?p (p_remote x)" "prov_inv cfg ?p" "\<not> p_cleanup_pending ?p"
    "owner ?p (mac_text (p_mac x)) = None" "p_retry_after ?p \<le> monotonic_usec env (p_sys ?p)"
    using i p x(3) by (simp_all add: place_def monotonic_usec_def cong: option.case_cong)
  from packet_live [OF e h c this(2,3) x(2) this(4,5,1)] obtain p' where
    p': "provision_packet env cfg x ?p = Some p'" "prov_inv cfg p'" "owner p' (mac_text (p_mac x)) = Some (p_remote x)"
    by (auto simp: packet_learned_def)
  have "payload_parse (Some frame) (length frame) (Some packet) = Some (True, Some x)" using x(1) by (simp add: payload_parse_def)
  with r fd c1 p'(1) have "receive_frames env io cfg packet n (?d\<lparr>g_prov := p'\<rparr>) = Some (r, d')" by simp
  from frames_keep [OF e c this] p'(2,3) show ?thesis by simp
qed

lemma round_learns:
  assumes e: "env_ok env" and io: "io_ok io" and po: "poll_ok io" and h: "healthy env cfg link" and c: "config_ok cfg" and sv: "serving bld cfg extra d"
    and f: "frame_pending io link frame (s_world (g_sys d))" and x: "parse_frame frame (length frame) = Some (Some x)" "admitted cfg x"
    and o: "owner (g_prov d) (mac_text (p_mac x)) = None" and p: "\<not> p_cleanup_pending (g_prov d)" "\<And>w. p_retry_after (g_prov d) \<le> e_now env w"
      "place cfg (link (s_world (g_sys d))) (g_prov d) (p_remote x)"
  shows "\<exists>res d'. loop_round env io bld cfg packet d = Some (res, d') \<and> owner (g_prov d') (mac_text (p_mac x)) = Some (p_remote x)"
proof -
  from sv obtain sfd cfd where fd: "g_signal d = Some sfd" "g_capture d = Some cfd" and l: "ledger extra d" by (auto simp: serving_def)
  have hs: "held_fd d (g_signal d) = Some sfd" "held_fd d (g_capture d) = Some cfd"
    using in_ledger(3) [OF l fd(1)] in_ledger(1) [OF l fd(2)] fd by (simp_all add: held_fd_def)
  obtain fds d1 q where pf: "api_pollfds bld d = Some (fds, d1)" and q: "d1 = d\<lparr>g_poll_slots := q\<rparr>" by (rule serving_pollfds [OF sv])
  let ?fds = "[\<lparr>pf_fd = sfd, pf_events = POLLIN, pf_revents = 0\<rparr>, \<lparr>pf_fd = cfd, pf_events = POLLIN, pf_revents = 0\<rparr>] @ fds"
  from f [unfolded frame_pending_def, rule_format, of ?fds cfd] obtain evs w1 w2 where
    w: "io_poll io ?fds (s_world (g_sys d)) = (Inr evs, w1)" "\<not> flag (evs ! 0) POLLIN" "\<not> flag (evs ! 1) (POLLERR OR POLLHUP OR POLLNVAL)"
      "flag (evs ! 1) POLLIN" "io_frame io cfd 65536 w1 = (Inr (False, frame), w2)" "link w2 = link (s_world (g_sys d))" by auto
  let ?d2 = "set_sys ((g_sys d1)\<lparr>s_world := w1\<rparr>) d1"
  have c2: "sys_call (io_poll io ?fds) d1 = (Inr evs, ?d2)" using w(1) q by (simp add: sys_call_def)
  have le: "length evs = length ?fds" using po w(1) unfolding poll_ok_def by blast
  have pd: "g_prov ?d2 = (g_prov d)\<lparr>p_sys := (g_sys d)\<lparr>s_world := w1\<rparr>\<rparr>" by (simp add: q)
  have i2: "prov_inv cfg (g_prov ?d2)" using sv by (simp add: pd serving_def)
  have h2: "held_fd ?d2 (g_capture ?d2) = Some cfd" using hs(2) by (simp add: q held_fd_def fd split: if_splits)
  from receive_frames_ok [OF e c i2, of io packet 64] h2 obtain r d4 where
    r: "receive_frames env io cfg packet 64 ?d2 = Some (r, d4)" "changes env cfg ?d2 d4" by blast
  have ow: "owner (g_prov d4) (mac_text (p_mac x)) = Some (p_remote x)"
    by (rule receive_learns [OF e h c i2 h2, of io frame w2 x packet 63 r])
      (use w x o p r(1) in \<open>simp_all add: pd place_def cong: option.case_cong\<close>)
  show ?thesis
  proof (cases "r = 0")
    case True
    have ch: "changes env cfg d1 d4" by (rule changes_trans [OF changes_sys r(2)])
    have i4: "prov_inv cfg (g_prov d4)" by (rule traffic_inv [OF e c i2 changes_held(4) [OF r(2)]])
    have "length (drop 2 evs) = length fds" using le by simp
    from round_dispatch [OF io sv pf ch i4 this] obtain d6 s where
      "api_dispatch env io bld cfg (with_revents fds (drop 2 evs)) d4 = Some d6" "g_prov d6 = (g_prov d4)\<lparr>p_sys := s\<rparr>" by blast
    then show ?thesis using True le w(2-4) r(1) ow
      by (auto simp: loop_round_def hs pf c2 payload_receive_def Let_def simp del: append_Cons)
  next
    case False
    obtain d5 where "log_crit env cfg (''Capture stopped: '' @ errno_text env d4) d4 = Some d5" "same_but_sys d4 d5" using log_crit_same [OF e] by blast
    then show ?thesis using False le w(2-4) r(1) ow same_but_sysD(12) [of d4 d5]
      by (auto simp: loop_round_def hs pf c2 payload_receive_def Let_def simp del: append_Cons)
  qed
qed

end
