(* ===== verification/Daemon_Main.thy ===== *)
theory Daemon_Main
  imports Daemon_Live
begin

text \<open>
  The whole program, from the command line to the exit code: \<open>main\<close> refuses a bad command line or
  configuration file before anything is opened, and otherwise runs the daemon under a configuration
  that satisfies every limit; when it returns, everything is released, and a stop signal makes it
  return.
\<close>

section \<open>Loading\<close>

text \<open>The command line and the configuration file that it names are accepted and give \<open>cfg\<close>.\<close>

definition main_loads ::
  "build \<Rightarrow> (int \<Rightarrow> string) \<Rightarrow> (char \<times> string) list \<Rightarrow> bool \<Rightarrow> int \<Rightarrow> utsname \<Rightarrow> (string \<Rightarrow> config_source) \<Rightarrow> softgred_config \<Rightarrow> bool" where
  "main_loads bld strerror opts all_used now uts files cfg \<longleftrightarrow>
     (\<exists>cli cfg1 out1 out2 path. softgred_config_load_cli bld opts all_used softgred_config_ref = (cli, cfg1, out1) \<and> 0 < cli \<and>
        path = (case c_config_file cfg1 of Some f \<Rightarrow> f | None \<Rightarrow> SOFTGRED_DEFAULT_CONFFILE bld) \<and>
        softgred_config_load_conf bld strerror now uts path (files path) cfg1 = (True, cfg, out2))"

lemma main_loads_ok: "main_loads bld strerror opts all_used now uts files cfg \<Longrightarrow> config_ok cfg"
  by (auto simp: main_loads_def softgred_config_ref_def zero_config_def dest!: load_conf_ok load_cli_ports)

definition started :: "softgred_config \<Rightarrow> 'w daemon \<Rightarrow> 'w main" where
  "started cfg d = \<lparr>m_daemon = d, m_cfg = cfg, m_provision_ready = False, m_firewall_ready = False\<rparr>"

lemma main_cases:
  obtains (refused) r where "softgred_main env io bld opts all_used now uts files packet d = Some (r, d)"
  | (runs) cfg where "main_loads bld (e_strerror env) opts all_used now uts files cfg"
proof -
  obtain cli cfg1 out1 where 1: "softgred_config_load_cli bld opts all_used softgred_config_ref = (cli, cfg1, out1)" using prod_cases3 by blast
  let ?path = "case c_config_file cfg1 of Some f \<Rightarrow> f | None \<Rightarrow> SOFTGRED_DEFAULT_CONFFILE bld"
  obtain ok cfg2 out2 where 2: "softgred_config_load_conf bld (e_strerror env) now uts ?path (files ?path) cfg1 = (ok, cfg2, out2)" using prod_cases3 by blast
  show ?thesis
  proof (cases "0 < cli \<and> ok")
    case True
    with 1 2 have "main_loads bld (e_strerror env) opts all_used now uts files cfg2" by (simp add: main_loads_def)
    then show ?thesis by (rule runs)
  next
    case False
    then have "\<exists>r. softgred_main env io bld opts all_used now uts files packet d = Some (r, d)"
      using 1 2 by (cases "cli \<le> 0") (simp_all add: softgred_main_def Let_def)
    then show ?thesis using refused by blast
  qed
qed

lemma main_runs:
  "main_loads bld (e_strerror env) opts all_used now uts files cfg \<Longrightarrow>
   softgred_main env io bld opts all_used now uts files packet d =
     do { (result, m) \<leftarrow> run_daemon env io bld packet (started cfg d); Some (result, m_daemon m) }"
  by (auto simp: main_loads_def softgred_main_def started_def Let_def)

text \<open>The statics of the program before \<open>main\<close>: nothing is open and no tunnel exists.\<close>

definition cold :: "'w daemon \<Rightarrow> bool" where
  "cold d \<longleftrightarrow> srv_cold {#} d \<and> g_notify d = None \<and> g_pid d = None \<and> g_signal d = None \<and> g_capture d = None \<and>
     p_heap (g_prov d) = Map.empty \<and> p_retry_after (g_prov d) = 0"

lemma started_root: "cold d \<Longrightarrow> config_ok cfg \<Longrightarrow> phase_root (started cfg d)"
  by (simp add: cold_def started_def phase_root_def booting_def spare_def base_def)

section \<open>Stopping\<close>

lemma read_signals_stopped: "read_signals env io cfg fd False d = Some (b, d') \<Longrightarrow> \<not> b"
proof -
  let ?P = "\<lambda>env io cfg fd running d r. \<not> running \<longrightarrow> \<not> fst r"
  assume r: "read_signals env io cfg fd False d = Some (b, d')"
  have "?P env io cfg fd False d (b, d')"
    by (rule read_signals.raw_induct [where P = ?P, OF _ r]) (fastforce split: prod.splits sum.splits option.splits)
  then show ?thesis by simp
qed

text \<open>The next \<open>poll\<close> reports the signal descriptor, and the first signal read from it is one that
  stops the daemon (\<open>SIGINT\<close> or \<open>SIGTERM\<close>, the others in the mask being handled).\<close>

definition stop_pending :: "'w io \<Rightarrow> 'w daemon \<Rightarrow> bool" where
  "stop_pending io d \<longleftrightarrow> (\<forall>fds fd. fds \<noteq> [] \<longrightarrow> (\<exists>evs w signo w'. io_poll io fds (s_world (g_sys d)) = (Inr evs, w) \<and>
     flag (evs ! 0) POLLIN \<and> io_read_signal io fd w = (Inr signo, w') \<and> signo \<noteq> SIGHUP \<and> signo \<noteq> SIGUSR1 \<and> signo \<noteq> SIGUSR2))"

lemma stop_signal_ends:
  assumes e: "env_ok env" and io: "io_ok io" and po: "poll_ok io" and c: "config_ok cfg" and sg: "signals_end env io"
    and sv: "serving bld cfg extra d" and st: "stop_pending io d"
  shows "\<exists>d'. loop_round env io bld cfg packet d = Some (Some EXIT_SUCCESS, d') \<and> serving bld cfg extra d'"
proof -
  from loop_round_ok [OF e io po c sg sv, of packet] obtain res d' where
    r: "loop_round env io bld cfg packet d = Some (res, d')" "serving bld cfg extra d'" by blast
  from sv obtain sfd cfd where f: "g_signal d = Some sfd" "g_capture d = Some cfd" and l: "ledger extra d" by (auto simp: serving_def)
  have hs: "held_fd d (g_signal d) = Some sfd" "held_fd d (g_capture d) = Some cfd"
    using in_ledger(3) [OF l f(1)] in_ledger(1) [OF l f(2)] f by (simp_all add: held_fd_def)
  obtain fds d1 q where p: "api_pollfds bld d = Some (fds, d1)" and q: "d1 = d\<lparr>g_poll_slots := q\<rparr>" by (rule serving_pollfds [OF sv])
  let ?fds = "[\<lparr>pf_fd = sfd, pf_events = POLLIN, pf_revents = 0\<rparr>, \<lparr>pf_fd = cfd, pf_events = POLLIN, pf_revents = 0\<rparr>] @ fds"
  from st [unfolded stop_pending_def, rule_format, of ?fds sfd] obtain evs w signo w' where
    w: "io_poll io ?fds (s_world (g_sys d)) = (Inr evs, w)" "flag (evs ! 0) POLLIN" "io_read_signal io sfd w = (Inr signo, w')"
      "signo \<noteq> SIGHUP" "signo \<noteq> SIGUSR1" "signo \<noteq> SIGUSR2" by auto
  obtain d2 where c2: "sys_call (io_poll io ?fds) d1 = (Inr evs, d2)" "s_world (g_sys d2) = w" using w(1) q by (auto simp: sys_call_def)
  obtain d3 where c3: "sys_call (io_read_signal io sfd) d2 = (Inr signo, d3)" using w(3) c2(2) by (auto simp: sys_call_def)
  have le: "length evs = length ?fds" using po w(1) unfolding poll_ok_def by blast
  have hsig: "handle_signal env io cfg signo d3 = do { d1 \<leftarrow> log_info env cfg (''Stopping signal='' @ dec_str signo) d3; Some (False, d1) }"
    using w(4-6) by (simp add: handle_signal_def)
  have "res = Some EXIT_SUCCESS"
  proof (cases "read_signals env io cfg sfd True d2")
    case None
    with r(1) hs p c2(1) le w(2) show ?thesis by (simp add: loop_round_def del: append_Cons)
  next
    case (Some b)
    then have "\<not> fst b"
      using read_signals_stopped [of env io cfg sfd _ "fst b" "snd b"]
      by (subst (asm) read_signals.simps) (auto simp: c3 hsig split: option.splits bind_splits)
    with Some r(1) hs p c2(1) le w(2) show ?thesis by (cases b) (simp add: loop_round_def del: append_Cons)
  qed
  with r show ?thesis by blast
qed

lemma rounds_append:
  "rounds env io bld cfg packet n d = Some (None, d1) \<Longrightarrow> rounds env io bld cfg packet (n + k) d = rounds env io bld cfg packet k d1"
  by (induction n arbitrary: d) (auto split: option.splits prod.splits)

section \<open>Starting\<close>

lemma started_fit: "needed cfg \<subseteq> present (links link d) \<Longrightarrow> fit cfg UNIV link (present (links link d)) (started cfg d)"
  unfolding fit_def started_def by (intro conjI bexI [of _ "c_local cfg"]) simp_all

lemma main_starts:
  assumes "env_ok env" "reads_end io" "cold d" "config_ok cfg" "willing env io cfg ip link" "needed cfg \<subseteq> present (links link d)"
  obtains m1 where "start_up env io bld (started cfg d) = Some (Go, m1)" "phase_ready bld m1" "m_cfg m1 = cfg\<lparr>c_local := ip\<rparr>"
    "present (links link (m_daemon m1)) = present (links link d)"
proof -
  from start_up_leads [OF assms(1,2), of bld] started_root [OF assms(3,4)] obtain fl m1 where
    1: "start_up env io bld (started cfg d) = Some (fl, m1)" "case fl of Go \<Rightarrow> phase_ready bld m1 | End \<Rightarrow> abandoned bld m1 | Return r \<Rightarrow> returned m1"
    by (auto simp: leads_def outcome_def)
  from start_up_goes [OF assms(5,4) started_fit [of cfg link d, OF assms(6)], of bld] 1(1) have "fl = Go" "fit cfg {ip} link (present (links link d)) m1" by simp_all
  with 1 that show ?thesis by (simp add: fit_def)
qed

lemma fresh_peers: "prov_inv cfg p \<Longrightarrow> fresh p \<Longrightarrow> peer p k = None"
  using peer_iff [of cfg p k] by (cases "peer p k") (auto simp: fresh_def)

lemma place_fresh:
  assumes "prov_inv cfg' p" "fresh p" "present l = present l0" "tidy cfg l0" "room cfg (replicate SOFTGRED_MAX_SLOTS False) l0"
  shows "place (cfg\<lparr>c_local := ip\<rparr>) l p k"
  using assms fresh_peers [OF assms(1,2), of k] by (simp add: place_def fresh_def tidy_def room_def slot_name_def configured_def)

section \<open>Examples\<close>

text \<open>The statics on the example kernel, a socket that always has a frame, and a \<open>poll\<close> that waits for a
  \<open>SIGTERM\<close>.\<close>

definition kernel_daemon :: "kernel daemon" where
  "kernel_daemon =
     \<lparr>g_prov = kernel_prov, g_listener = None, g_clients = replicate SERVICE_MAX_CLIENTS zero_client,
      g_poll_slots = replicate SERVICE_MAX_CLIENTS 0, g_limit = 0, g_capture = None, g_pid = None, g_signal = None,
      g_notify = None, g_fds = [], g_unlinked = []\<rparr>"

definition example_peer :: frame where
  "example_peer = example_frame\<lparr>f_src := [10, 0, 0, 2], f_dst := [10, 0, 0, 1], f_tci := 10\<rparr>"

definition example_files :: "string \<Rightarrow> config_source" where
  "example_files path = Readable (ini_render example_groups) None"

definition frame_io :: "kernel io" where
  "frame_io = demo_io\<lparr>io_frame := \<lambda>fd n w. (Inr (False, encode_frame example_peer), w),
     io_poll := \<lambda>fds w. (Inr (map (\<lambda>i. if i = 1 then POLLIN else 0) [0..<length fds]), w)\<rparr>"

definition stop_io :: "kernel io" where
  "stop_io = demo_io\<lparr>io_read_signal := \<lambda>fd w. if k_signals w = 0 then (Inl 11, w) else (Inr 15, w\<lparr>k_signals := k_signals w - 1\<rparr>),
     io_poll := \<lambda>fds w. (Inr (map (\<lambda>i. if i = 0 then POLLIN else 0) [0..<length fds]), w\<lparr>k_signals := 1\<rparr>)\<rparr>"

lemma kernel_daemon_cold: "cold kernel_daemon"
  by (simp add: cold_def srv_cold_def srv_off_def kernel_daemon_def) (simp add: kernel_prov_def provision_init_def)

lemma kernel_needed: "needed example_config \<subseteq> present (links kernel_link kernel_daemon)"
  by (simp add: needed_def present_kernel kernel_daemon_def kernel_prov_def provision_init_def configured_def)
    (auto simp: example_config_def)

lemma example_loads: "main_loads example_build se [] True 0 example_uts example_files example_config"
  using example_load [of se] by (simp add: main_loads_def example_files_def)

lemma example_willing:
  "willing kernel_env frame_io example_config 0x0100000A kernel_link" "willing kernel_env stop_io example_config 0x0100000A kernel_link"
  unfolding willing_def using kernel_healthy
  by (simp_all add: succeeds_def frame_io_def stop_io_def demo_io_def kernel_env_def log_file_ok_def pid_file_ok_def S_IWGRP_def S_IWOTH_def)
    (simp_all add: example_config_def)

lemma example_io_ok: "io_ok frame_io" "io_ok stop_io" "poll_ok frame_io" "poll_ok stop_io" "reads_end frame_io" "reads_end stop_io"
  using demo_io_ok demo_io_live(2) by (simp_all add: io_ok_def poll_ok_def reads_end_def frame_io_def stop_io_def)

lemma stop_io_ends: "signals_end kernel_env stop_io"
  unfolding signals_end_def
  by (intro exI [of _ k_signals]) (auto simp: calm_def stop_io_def demo_io_def kernel_env_def split: if_splits)

lemma stop_io_pending: "stop_pending stop_io d"
  unfolding stop_pending_def stop_io_def by (auto simp: flag_def POLLIN_def nth_append)

lemma example_peer_wf: "wf_frame example_peer"
  by (simp add: wf_frame_def example_peer_def example_frame_def f_total_def tag_type_def)

lemma example_peer_packet: "frame_packet example_peer = \<lparr>p_remote = 0x0200000A, p_local = 0x0100000A, p_mac = [2, 0, 0, 0, 0, 0x42], p_vlan = 10\<rparr>"
  by (simp add: frame_packet_def example_peer_def example_frame_def le32_def)

lemma example_peer_admitted: "admitted (example_config\<lparr>c_local := 0x0100000A\<rparr>) (frame_packet example_peer)"
  by (simp add: admitted_def example_peer_packet packet_addressed_def example_config_def Let_def config_remote_allowed_def allow_match_def demo_ntohl)

lemma frame_io_pending: "frame_pending frame_io kernel_link (encode_frame example_peer) w"
proof -
  have ev: "map (\<lambda>i. if i = Suc 0 then POLLIN else 0) [0..<n] ! 0 = 0" "map (\<lambda>i. if i = Suc 0 then POLLIN else 0) [0..<n] ! Suc 0 = POLLIN" if "2 \<le> n" for n
    using that by simp_all
  show ?thesis by (simp add: ev frame_pending_def frame_io_def flag_def POLLIN_def POLLERR_def POLLHUP_def POLLNVAL_def)
qed

section \<open>Properties\<close>

text \<open>The flow after the start-up, as \<open>main\<close> sees it.\<close>

lemma run_daemon_ends:
  assumes "start_up env io bld m = Some (Go, m1)" "rounds env io bld (m_cfg m1) packet n (m_daemon m1) = Some (Some r, d1)"
    "shutdown env io bld r (set_daemon d1 m1) = Some (r', m2)"
  shows "run_daemon env io bld packet m = Some (r', m2)"
  using assms rounds_loop [OF assms(2)] by (simp add: run_daemon_def)

lemma go_ends:
  assumes "env_ok env" "phase_ready bld m1" "start_up env io bld m = Some (Go, m1)"
    "serving bld (m_cfg m1) extra (m_daemon m1)"
    and d: "rounds env io bld (m_cfg m1) packet n (m_daemon m1) = Some (Some r, d1)" "serving bld (m_cfg m1) extra d1"
  shows "\<exists>r' m2. run_daemon env io bld packet m = Some (r', m2) \<and> (r' = r \<or> r' = EXIT_FAILURE) \<and> released extra (m_daemon m2)"
proof -
  from assms(2) have x: "config_ok (m_cfg m1)" "m_provision_ready m1" using ready_serving by blast+
  from stoppable_released [OF assms(1) serving_stoppable [OF d(2) x], of io r] run_daemon_ends [OF assms(3) d(1)] show ?thesis by blast
qed





text \<open>C2. The program does its work: where the system calls of the start-up succeed and the kernel and the
  firewall do what they are asked, \<open>main\<close> starts with every configuration that loads whose interfaces
  exist, and when the first frame it receives is any well-formed encapsulated frame of an admitted
  peer, the client in it has been learned, with its tunnel, at the end of that round, whatever other
  frames and clients the round serves.\<close>

theorem main_provisions:
  assumes "env_ok env" "io_ok io" "poll_ok io" "reads_end io" "cold d" "main_loads bld (e_strerror env) opts all_used now uts files cfg"
    and "willing env io cfg ip link" "needed cfg \<subseteq> present (links link d)" "tidy cfg (links link d)"
      "room cfg (replicate SOFTGRED_MAX_SLOTS False) (links link d)" "\<And>w. 0 \<le> e_now env w"
    and "wf_frame f" "admitted (cfg\<lparr>c_local := ip\<rparr>) (frame_packet f)"
      "\<And>m. start_up env io bld (started cfg d) = Some (Go, m) \<Longrightarrow> frame_pending io link (encode_frame f) (s_world (g_sys (m_daemon m)))"
  shows "\<exists>m1 res d1. start_up env io bld (started cfg d) = Some (Go, m1) \<and> m_cfg m1 = cfg\<lparr>c_local := ip\<rparr> \<and>
    loop_round env io bld (m_cfg m1) packet (m_daemon m1) = Some (res, d1) \<and>
    owner (g_prov d1) (mac_text (p_mac (frame_packet f))) = Some (p_remote (frame_packet f))"
proof -
  obtain m1 where 1: "start_up env io bld (started cfg d) = Some (Go, m1)" "phase_ready bld m1" "m_cfg m1 = cfg\<lparr>c_local := ip\<rparr>"
    "present (links link (m_daemon m1)) = present (links link d)"
    by (rule main_starts [OF assms(1,4,5) main_loads_ok [OF assms(6)] assms(7,8), of bld])
  then obtain extra where sv: "serving bld (m_cfg m1) extra (m_daemon m1)" "config_ok (m_cfg m1)" using ready_serving by blast
  let ?p = "g_prov (m_daemon m1)"
  from 1(2) have p: "prov_inv (m_cfg m1) ?p" "owner ?p = Map.empty" "fresh ?p" by (simp_all add: phase_ready_def)
  have "place (m_cfg m1) (links link (m_daemon m1)) ?p (p_remote (frame_packet f))"
    unfolding 1(3) by (rule place_fresh [OF p(1,3) 1(4) assms(9,10)])
  moreover have "\<not> p_cleanup_pending ?p" "p_retry_after ?p \<le> e_now env w" for w using p(3) assms(11) by (simp_all add: fresh_def)
  moreover have "admitted (m_cfg m1) (frame_packet f)" unfolding 1(3) by (rule assms(13))
  ultimately have "\<exists>res d1. loop_round env io bld (m_cfg m1) packet (m_daemon m1) = Some (res, d1) \<and>
      owner (g_prov d1) (mac_text (p_mac (frame_packet f))) = Some (p_remote (frame_packet f))"
    using p(2) by (intro round_learns [OF assms(1-3) willingD(2) [OF assms(7)] sv(2,1) assms(14) [OF 1(1)] parse_frame_complete [OF assms(12)]]) simp_all
  with 1(1,3) show ?thesis by blast
qed

theorem main_provisions_witness:
  "\<exists>m1 res d1. start_up kernel_env frame_io example_build (started example_config kernel_daemon) = Some (Go, m1) \<and>
    loop_round kernel_env frame_io example_build (m_cfg m1) demo_packet (m_daemon m1) = Some (res, d1) \<and>
    owner (g_prov d1) ''02:00:00:00:00:42'' = Some 0x0200000A"
proof -
  have m: "mac_text (p_mac (frame_packet example_peer)) = ''02:00:00:00:00:42''" "p_remote (frame_packet example_peer) = 0x0200000A"
    by (simp_all add: example_peer_packet) code_simp
  have c: "\<And>w. 0 \<le> e_now kernel_env w" by (simp add: kernel_env_def)
  have k: "tidy example_config (links kernel_link kernel_daemon)"
    "room example_config (replicate SOFTGRED_MAX_SLOTS False) (links kernel_link kernel_daemon)" using kernel_tidy by (simp_all add: kernel_daemon_def)
  show ?thesis
    using main_provisions [OF kernel_env_ok example_io_ok(1,3,5) kernel_daemon_cold example_loads example_willing(1) kernel_needed k c
        example_peer_wf example_peer_admitted frame_io_pending, of demo_packet]
    unfolding m by blast
qed

end
