(* ===== verification/Files_Correct.thy ===== *)
theory Files_Correct
  imports Files Service_Correct
begin

text \<open>
  The log file: which files are accepted, and that a failed reopen keeps the log. The PID file is part
  of the phases of the start-up.
\<close>

text \<open>No failing call leaves 0 in \<open>errno\<close>.\<close>

definition errno_ok :: "'w io \<Rightarrow> bool" where
  "errno_ok io \<longleftrightarrow> (\<forall>fd w e w'. io_fstat io fd w = (Inl e, w') \<longrightarrow> e \<noteq> 0)"

lemma call_Inr: "call f s = (Inr v, s') \<Longrightarrow> f (s_world s) = (Inr v, s_world s') \<and> s_log_fd s' = s_log_fd s"
  by (auto simp: call_def split: prod.splits sum.splits)

lemma call_log: "call f s = (v, s') \<Longrightarrow> s_log_fd s' = s_log_fd s"
  by (auto simp: call_def split: prod.splits sum.splits)

lemma call_Inl: "call f s = (Inl e, s') \<Longrightarrow> \<exists>w'. f (s_world s) = (Inl e, w')"
  by (auto simp: call_def split: prod.splits sum.splits)

lemma log_open_rejected: "\<not> path_is_absolute path \<Longrightarrow> log_open io path s = (-1, [], s\<lparr>s_errno := EINVAL\<rparr>)"
  by (simp add: log_open_def)

lemma log_open_cases:
  assumes "errno_ok io" "log_open io path s = (r, closed, s')"
  shows "r = -1 \<and> s_log_fd s' = s_log_fd s \<and> (closed = [] \<or> (\<exists>fd w. io_open io Open_log (the path) (s_world s) = (Inr fd, w) \<and> closed = [fd])) \<or>
    r = 0 \<and> path_is_absolute path \<and> closed = (if s_log_fd s \<ge> 0 then [nat (s_log_fd s)] else []) \<and>
    (\<exists>fd w st w'. io_open io Open_log (the path) (s_world s) = (Inr fd, w) \<and> io_fstat io fd w = (Inr st, w') \<and>
      log_file_ok (io_euid io) st \<and> s_log_fd s' = int fd)"
proof (cases "path_is_absolute path")
  case False
  with assms(2) show ?thesis by (auto simp: log_open_rejected)
next
  case True
  obtain v s1 where o: "call (io_open io Open_log (the path)) s = (v, s1)" by fastforce
  show ?thesis
  proof (cases v)
    case (Inl e)
    with True o assms(2) call_log [OF o] show ?thesis by (simp add: log_open_def)
  next
    case (Inr fd)
    note 1 = call_Inr [OF o [unfolded Inr]]
    obtain u s2 where st: "call (io_fstat io fd) s1 = (u, s2)" by fastforce
    note 2 = call_log [OF st]
    let ?err = "case u of Inl e \<Rightarrow> e | Inr x \<Rightarrow> if log_file_ok (io_euid io) x then 0 else EPERM"
    have eq: "log_open io path s = (if ?err \<noteq> 0 then (-1, [fd], (snd (call (io_close io fd) s2))\<lparr>s_errno := ?err\<rparr>)
       else (0, if s_log_fd s2 \<ge> 0 then [nat (s_log_fd s2)] else [],
         (if s_log_fd s2 \<ge> 0 then snd (call (io_close io (nat (s_log_fd s2))) s2) else s2)\<lparr>s_log_fd := int fd, s_write_failed := False\<rparr>))"
      using True o st Inr by (auto simp: log_open_def Let_def split: sum.split)
    show ?thesis
    proof (cases "?err = 0")
      case True
      have "u \<noteq> Inl 0" using call_Inl [of "io_fstat io fd" s1 0 s2] st assms(1) by (auto simp: errno_ok_def)
      with True obtain x where x: "u = Inr x" "log_file_ok (io_euid io) x" by (cases u) (auto split: if_splits)
      have "io_fstat io fd (s_world s1) = (Inr x, s_world s2)" using call_Inr [OF st [unfolded x(1)]] by simp
      with True eq assms(2) 1 2 x \<open>path_is_absolute path\<close> show ?thesis by auto
    next
      case False
      have "s_log_fd (snd (call (io_close io fd) s2)) = s_log_fd s2" using call_log [OF prod.collapse [symmetric]] by blast
      with False eq assms(2) 1 2 show ?thesis by auto
    qed
  qed
qed

text \<open>C39. The log is only ever a safe file: opening it succeeds only for an absolute path whose file is
  regular, has one link, belongs to the daemon's user and is not writable by others, and then
  replaces the old descriptor, which is closed; when it fails, the daemon keeps logging to the old
  file and closes only the descriptor that it just opened.\<close>

theorem log_open_secure:
  assumes "errno_ok io" "log_open io path s = (r, closed, s')"
  shows "if r = 0
    then path_is_absolute path \<and> closed = (if s_log_fd s \<ge> 0 then [nat (s_log_fd s)] else []) \<and>
      (\<exists>fd w st w'. io_open io Open_log (the path) (s_world s) = (Inr fd, w) \<and> io_fstat io fd w = (Inr st, w') \<and>
        st_regular st \<and> st_nlink st = 1 \<and> st_uid st = io_euid io \<and> \<not> bit (st_mode st) 1 \<and> s_log_fd s' = int fd)
    else r = -1 \<and> s_log_fd s' = s_log_fd s \<and>
      (closed = [] \<or> (\<exists>fd w. io_open io Open_log (the path) (s_world s) = (Inr fd, w) \<and> closed = [fd]))"
proof -
  have "\<not> bit x 1" if "and x S_IWOTH = 0" for x :: u32
  proof -
    have "bit (and x S_IWOTH) 1 \<longleftrightarrow> bit x 1" by (simp add: S_IWOTH_def bit_and_iff)
    with that show ?thesis by simp
  qed
  with log_open_cases [OF assms] show ?thesis by (auto simp: log_file_ok_def)
qed

theorem log_open_secure_witness:
  "\<exists>closed s'. log_open demo_io (Some ''/var/log/softgred.log'') demo_sys = (0, closed, s') \<and> s_log_fd s' = 5 \<and> closed = []"
proof -
  obtain r closed s' where l: "log_open demo_io (Some ''/var/log/softgred.log'') demo_sys = (r, closed, s')" by (metis prod_cases3)
  have e: "errno_ok demo_io" by (simp add: errno_ok_def demo_io_def)
  have "r = 0" using l by (auto simp: log_open_def path_is_absolute_def demo_io_def call_def log_file_ok_def S_IWOTH_def demo_sys_def Let_def)
  with log_open_secure [OF e l] l show ?thesis by (auto simp: demo_io_def demo_sys_def)
qed

end
