(* ===== verification/Memory.thy ===== *)
theory Memory
  imports Config_Correct
begin

text \<open>
  The heap of the program: the allocation wrappers of \<open>src/src/compat.c\<close>, which abort instead of
  returning \<open>NULL\<close>, and the configuration file in memory (\<open>struct ini\<close> of
  \<open>src/src/softgred_config.c\<close>), from the loader to \<open>ini_free\<close>.

  An address is a number, 0 is \<open>NULL\<close>; a block has a size and a typed content. \<open>malloc\<close> fails when
  the bytes that are left do not suffice, and otherwise returns an address that was never used.
  A run of a function returns, aborts with the text it prints, or is stuck: using or freeing a block
  that is not allocated, or reading one as something it is not.
\<close>

section \<open>Blocks\<close>

type_synonym addr = nat

record pair_obj =
  po_group :: addr
  po_key :: addr
  po_value :: addr

record ini_obj =
  in_pair :: addr
  in_count :: nat
  in_cap :: nat

record strbuf_obj =
  so_str :: addr
  so_len :: nat
  so_cap :: nat

text \<open>\<^const>\<open>None\<close> is a byte or an element that was never written.\<close>

datatype content = Cells "char option list" | Pair_array "pair_obj option list" | Ini_struct ini_obj | Strbuf_struct strbuf_obj

record heap =
  h_blocks :: "addr \<rightharpoonup> nat \<times> content"
  h_next :: addr
  h_left :: nat

datatype 'a run = Stuck | Abort string | Ret 'a

fun and_run :: "'a run \<Rightarrow> ('a \<Rightarrow> 'b run) \<Rightarrow> 'b run" where
  "and_run Stuck f = Stuck"
| "and_run (Abort m) f = Abort m"
| "and_run (Ret x) f = f x"

definition SIZE_MAX :: nat where "SIZE_MAX = 2 ^ 64 - 1"

definition malloc :: "nat \<Rightarrow> content \<Rightarrow> heap \<Rightarrow> addr \<times> heap" where
  "malloc n c h =
     (if n \<le> h_left h
      then (h_next h, h\<lparr>h_blocks := (h_blocks h)(h_next h \<mapsto> (n, c)), h_next := h_next h + 1, h_left := h_left h - n\<rparr>)
      else (0, h))"

definition free :: "addr \<Rightarrow> heap \<Rightarrow> heap run" where
  "free p h =
     (if p = 0 then Ret h
      else
        (case h_blocks h p of
           None \<Rightarrow> Stuck
         | Some (n, c) \<Rightarrow> Ret (h\<lparr>h_blocks := (h_blocks h)(p := None), h_left := h_left h + n\<rparr>)))"

text \<open>\<open>realloc\<close> that moves the block; \<open>f\<close> gives the new content from the old one.\<close>

definition realloc :: "addr \<Rightarrow> nat \<Rightarrow> content \<Rightarrow> (content \<Rightarrow> content) \<Rightarrow> heap \<Rightarrow> (addr \<times> heap) run" where
  "realloc p n c f h =
     (if p = 0 then Ret (malloc n c h)
      else
        (case h_blocks h p of
           None \<Rightarrow> Stuck
         | Some (old, c0) \<Rightarrow>
             (case malloc n (f c0) h of
                (q, h1) \<Rightarrow> if q = 0 then Ret (0, h) else and_run (free p h1) (\<lambda>h2. Ret (q, h2)))))"

section \<open>Allocation that aborts\<close>

definition check :: "addr \<times> heap \<Rightarrow> (addr \<times> heap) run" where
  "check r = (if fst r = 0 then Abort (''softgred: out of memory'' @ [CHR 0x0A]) else Ret r)"

definition xmalloc :: "nat \<Rightarrow> heap \<Rightarrow> (addr \<times> heap) run" where
  "xmalloc n h = (let n' = (if n \<noteq> 0 then n else 1) in check (malloc n' (Cells (replicate n' None)) h))"

text \<open>\<open>calloc\<close> fails when the product does not fit; \<open>zero\<close> is the zeroed content.\<close>

definition xcalloc :: "nat \<Rightarrow> nat \<Rightarrow> content \<Rightarrow> heap \<Rightarrow> (addr \<times> heap) run" where
  "xcalloc cnt n zero h =
     (let bytes = (if cnt \<noteq> 0 then cnt else 1) * (if n \<noteq> 0 then n else 1)
      in check (if bytes > SIZE_MAX then (0, h) else malloc bytes zero h))"

definition xrealloc :: "addr \<Rightarrow> nat \<Rightarrow> content \<Rightarrow> (content \<Rightarrow> content) \<Rightarrow> heap \<Rightarrow> (addr \<times> heap) run" where
  "xrealloc p n c f h = and_run (realloc p (if n \<noteq> 0 then n else 1) c f h) check"

definition xstrdup :: "string option \<Rightarrow> heap \<Rightarrow> (addr \<times> heap) run" where
  "xstrdup s h =
     (case s of None \<Rightarrow> Ret (0, h) | Some t \<Rightarrow> check (malloc (length t + 1) (Cells (map Some (t @ [nul]))) h))"

text \<open>\<open>expansion\<close> is what \<open>vsnprintf\<close> makes of the format, \<^const>\<open>None\<close> when it fails.\<close>

definition xstrdup_vprintf :: "string option \<Rightarrow> heap \<Rightarrow> (addr \<times> heap) run" where
  "xstrdup_vprintf expansion h =
     (case expansion of
        None \<Rightarrow> check (0, h)
      | Some t \<Rightarrow>
          and_run (xmalloc (length t + 1) h)
            (\<lambda>(p, h1). Ret (p, h1\<lparr>h_blocks := (h_blocks h1)(p \<mapsto> (length t + 1, Cells (map Some (t @ [nul]))))\<rparr>)))"

definition xstrdup_printf :: "string option \<Rightarrow> heap \<Rightarrow> (addr \<times> heap) run" where
  "xstrdup_printf expansion h = xstrdup_vprintf expansion h"

section \<open>Buffers\<close>

definition strbuf_free :: "addr \<Rightarrow> heap \<Rightarrow> heap run" where
  "strbuf_free b h =
     (if b = 0 then Ret h
      else
        (case h_blocks h b of
           Some (_, Strbuf_struct ob) \<Rightarrow> and_run (free (so_str ob) h) (free b)
         | _ \<Rightarrow> Stuck))"

section \<open>The configuration file in memory\<close>

definition load_ini :: "addr \<Rightarrow> heap \<Rightarrow> ini_obj run" where
  "load_ini p h = (case h_blocks h p of Some (_, Ini_struct ob) \<Rightarrow> Ret ob | _ \<Rightarrow> Stuck)"

definition store_ini :: "addr \<Rightarrow> ini_obj \<Rightarrow> heap \<Rightarrow> heap run" where
  "store_ini p ob h =
     (case h_blocks h p of
        Some (n, Ini_struct _) \<Rightarrow> Ret (h\<lparr>h_blocks := (h_blocks h)(p \<mapsto> (n, Ini_struct ob))\<rparr>)
      | _ \<Rightarrow> Stuck)"

text \<open>\<open>ini->pair[i]\<close>, read and written.\<close>

definition load_pair :: "addr \<Rightarrow> nat \<Rightarrow> heap \<Rightarrow> pair_obj run" where
  "load_pair p i h =
     (case h_blocks h p of
        Some (_, Pair_array arr) \<Rightarrow>
          (if i < length arr then case arr ! i of Some po \<Rightarrow> Ret po | None \<Rightarrow> Stuck else Stuck)
      | _ \<Rightarrow> Stuck)"

definition store_pair :: "addr \<Rightarrow> nat \<Rightarrow> pair_obj \<Rightarrow> heap \<Rightarrow> heap run" where
  "store_pair p i po h =
     (case h_blocks h p of
        Some (n, Pair_array arr) \<Rightarrow>
          (if i < length arr then Ret (h\<lparr>h_blocks := (h_blocks h)(p \<mapsto> (n, Pair_array (arr[i := Some po])))\<rparr>) else Stuck)
      | _ \<Rightarrow> Stuck)"

definition grow_pairs :: "nat \<Rightarrow> content \<Rightarrow> content" where
  "grow_pairs cap c =
     (case c of Pair_array arr \<Rightarrow> Pair_array (take cap arr @ replicate (cap - length arr) None) | _ \<Rightarrow> Pair_array (replicate cap None))"

fun free_pairs :: "addr \<Rightarrow> nat \<Rightarrow> nat \<Rightarrow> heap \<Rightarrow> heap run" where
  "free_pairs p i 0 h = Ret h"
| "free_pairs p i (Suc n) h =
     and_run (load_pair p i h) (\<lambda>po.
     and_run (free (po_group po) h) (\<lambda>h1.
     and_run (free (po_key po) h1) (\<lambda>h2.
     and_run (free (po_value po) h2) (\<lambda>h3. free_pairs p (i + 1) n h3))))"

definition ini_free :: "addr \<Rightarrow> heap \<Rightarrow> heap run" where
  "ini_free p h =
     (if p = 0 then Ret h
      else
        and_run (load_ini p h) (\<lambda>ob.
        and_run (free_pairs (in_pair ob) 0 (in_count ob) h) (\<lambda>h1.
        and_run (free (in_pair ob) h1) (free p))))"

text \<open>The end of the loop of \<open>ini_load\<close>: room for one more pair, and its three strings.\<close>

definition ini_grow :: "addr \<Rightarrow> ini_obj \<Rightarrow> heap \<Rightarrow> (ini_obj \<times> heap) run" where
  "ini_grow p ob h =
     (if in_count ob = in_cap ob
      then
        let cap = (if in_cap ob \<noteq> 0 then in_cap ob * 2 else 16)
        in and_run (xrealloc (in_pair ob) (cap * 24) (Pair_array (replicate cap None)) (grow_pairs cap) h) (\<lambda>(q, h1).
           let ob1 = ob\<lparr>in_pair := q, in_cap := cap\<rparr>
           in and_run (store_ini p ob1 h1) (\<lambda>h2. Ret (ob1, h2)))
      else Ret (ob, h))"

definition ini_fill :: "addr \<Rightarrow> ini_pair \<Rightarrow> ini_obj \<Rightarrow> heap \<Rightarrow> heap run" where
  "ini_fill p x ob h =
     and_run (xstrdup (Some (i_group x)) h) (\<lambda>(g, h1).
     and_run (xstrdup (Some (i_key x)) h1) (\<lambda>(k, h2).
     and_run (xstrdup (Some (i_value x)) h2) (\<lambda>(v, h3).
     and_run (store_pair (in_pair ob) (in_count ob) \<lparr>po_group = g, po_key = k, po_value = v\<rparr> h3) (\<lambda>h4.
     store_ini p (ob\<lparr>in_count := in_count ob + 1\<rparr>) h4))))"

definition ini_append :: "addr \<Rightarrow> ini_pair \<Rightarrow> heap \<Rightarrow> heap run" where
  "ini_append p x h =
     and_run (load_ini p h) (\<lambda>ob. and_run (ini_grow p ob h) (\<lambda>(ob1, h1). ini_fill p x ob1 h1))"

text \<open>
  The loop over the lines: the group, and \<open>Inl\<close> of the error that ends it. A line gives at most
  one pair, which is what \<^const>\<open>ini_line\<close> adds to the empty list.
\<close>

function ini_lines :: "addr \<Rightarrow> string \<Rightarrow> nat \<Rightarrow> string \<Rightarrow> heap \<Rightarrow> ((string + unit) \<times> heap) run" where
  "ini_lines p file number grp h =
     (if file = [] then Ret (Inr (), h)
      else
        (case ini_line (fst (getline file)) (number + 1) grp [] of
           Inl e \<Rightarrow> Ret (Inl e, h)
         | Inr (grp', []) \<Rightarrow> ini_lines p (snd (getline file)) (number + 1) grp' h
         | Inr (grp', x # _) \<Rightarrow>
             (case ini_append p x h of
                Stuck \<Rightarrow> Stuck
              | Abort m \<Rightarrow> Abort m
              | Ret h1 \<Rightarrow> ini_lines p (snd (getline file)) (number + 1) grp' h1)))"
  by pat_completeness auto
termination
  by (relation "measure (\<lambda>(p, file, _, _, _). length file)")
    (auto simp: getline_def dest: strchr_shorter split: option.splits)

declare ini_lines.simps [simp del]

definition ini_open :: "(int \<Rightarrow> string) \<Rightarrow> config_source \<Rightarrow> heap \<Rightarrow> ((string + addr) \<times> heap) run" where
  "ini_open strerror src h =
     (case src of
        Unreadable e \<Rightarrow> Ret (Inl (config_set_error (strerror e)), h)
      | Readable file err \<Rightarrow>
          and_run (xcalloc 1 24 (Ini_struct \<lparr>in_pair = 0, in_count = 0, in_cap = 0\<rparr>) h) (\<lambda>(p, h1).
          and_run (ini_lines p file 0 [] h1) (\<lambda>(res, h2).
          case res of
            Inl msg \<Rightarrow> and_run (ini_free p h2) (\<lambda>h3. Ret (Inl msg, h3))
          | Inr _ \<Rightarrow>
              (case err of
                 Some e \<Rightarrow> and_run (ini_free p h2) (\<lambda>h3. Ret (Inl (config_set_error (''cannot read configuration: '' @ strerror e)), h3))
               | None \<Rightarrow> Ret (Inr p, h2)))))"

end
