(* ===== verification/Buffer.thy ===== *)
theory Buffer
  imports Memory
begin

text \<open>
  The growable buffer of \<open>src/src/compat.c\<close> in memory: a \<open>struct strbuf\<close> and the block of its text, with
  every load, store and allocation of the functions; \<open>strbuf_free\<close> is in \<open>Memory\<close>. \<open>Compat\<close> has the same
  functions on values, and \<open>Buffer_Correct\<close> shows that those on the heap refine them.

  The length of a string in memory is below \<open>2 ^ 63\<close>, so that the sums of the code do not wrap.
\<close>

section \<open>Operations\<close>

definition load_buf :: "addr \<Rightarrow> heap \<Rightarrow> strbuf_obj run" where
  "load_buf p h = (case h_blocks h p of Some (_, Strbuf_struct ob) \<Rightarrow> Ret ob | _ \<Rightarrow> Stuck)"

definition store_buf :: "addr \<Rightarrow> strbuf_obj \<Rightarrow> heap \<Rightarrow> heap run" where
  "store_buf p ob h =
     (case h_blocks h p of
        Some (n, Strbuf_struct _) \<Rightarrow> Ret (h\<lparr>h_blocks := (h_blocks h)(p \<mapsto> (n, Strbuf_struct ob))\<rparr>)
      | _ \<Rightarrow> Stuck)"

text \<open>Consecutive bytes of \<open>b->str\<close>.\<close>

definition store_cells :: "addr \<Rightarrow> nat \<Rightarrow> string \<Rightarrow> heap \<Rightarrow> heap run" where
  "store_cells a at s h =
     (case h_blocks h a of
        Some (n, Cells mem) \<Rightarrow>
          (case put_cells mem at s of
             None \<Rightarrow> Stuck
           | Some mem' \<Rightarrow> Ret (h\<lparr>h_blocks := (h_blocks h)(a \<mapsto> (n, Cells mem'))\<rparr>))
      | _ \<Rightarrow> Stuck)"

text \<open>\<open>realloc\<close> keeps the bytes that fit.\<close>

definition grow_cells :: "nat \<Rightarrow> content \<Rightarrow> content" where
  "grow_cells n c = (case c of Cells mem \<Rightarrow> Cells (take n mem @ replicate (n - length mem) None) | _ \<Rightarrow> Cells (replicate n None))"

definition buf_reserve :: "addr \<Rightarrow> nat \<Rightarrow> heap \<Rightarrow> heap run" where
  "buf_reserve p extra h =
     and_run (load_buf p h) (\<lambda>ob.
     if so_len ob + extra + 1 \<le> so_cap ob then Ret h
     else
       (case grow (so_cap ob) (so_len ob + extra + 1) of
          None \<Rightarrow> Stuck
        | Some want \<Rightarrow>
            and_run (xrealloc (so_str ob) want (Cells (replicate want None)) (grow_cells want) h) (\<lambda>(q, h1).
            store_buf p (ob\<lparr>so_str := q, so_cap := want\<rparr>) h1)))"

definition buf_append_len :: "addr \<Rightarrow> string \<Rightarrow> heap \<Rightarrow> heap run" where
  "buf_append_len p s h =
     and_run (buf_reserve p (length s) h) (\<lambda>h1.
     and_run (load_buf p h1) (\<lambda>ob.
     and_run (store_cells (so_str ob) (so_len ob) s h1) (\<lambda>h2.
     and_run (store_buf p (ob\<lparr>so_len := so_len ob + length s\<rparr>) h2) (\<lambda>h3.
     store_cells (so_str ob) (so_len ob + length s) [nul] h3))))"

definition buf_append :: "addr \<Rightarrow> string \<Rightarrow> heap \<Rightarrow> heap run" where
  "buf_append p s h = buf_append_len p s h"

definition buf_append_char :: "addr \<Rightarrow> char \<Rightarrow> heap \<Rightarrow> heap run" where
  "buf_append_char p c h = buf_append_len p [c] h"

text \<open>\<open>expansion\<close> is what \<open>vsnprintf\<close> makes of the format; it stores it with its NUL.\<close>

definition buf_appendf :: "addr \<Rightarrow> string \<Rightarrow> heap \<Rightarrow> heap run" where
  "buf_appendf p expansion h =
     (if length expansion > 0 then
        and_run (buf_reserve p (length expansion) h) (\<lambda>h1.
        and_run (load_buf p h1) (\<lambda>ob.
        and_run (store_cells (so_str ob) (so_len ob) (expansion @ [nul]) h1) (\<lambda>h2.
        store_buf p (ob\<lparr>so_len := so_len ob + length expansion\<rparr>) h2)))
      else Ret h)"

definition buf_new :: "string option \<Rightarrow> heap \<Rightarrow> (addr \<times> heap) run" where
  "buf_new init h =
     and_run (xcalloc 1 24 (Strbuf_struct \<lparr>so_str = 0, so_len = 0, so_cap = 0\<rparr>) h) (\<lambda>(p, h1).
     and_run (store_buf p \<lparr>so_str = 0, so_len = 0, so_cap = 64\<rparr> h1) (\<lambda>h2.
     and_run (xmalloc 64 h2) (\<lambda>(a, h3).
     and_run (store_buf p \<lparr>so_str = a, so_len = 0, so_cap = 64\<rparr> h3) (\<lambda>h4.
     and_run (store_cells a 0 [nul] h4) (\<lambda>h5.
     case init of None \<Rightarrow> Ret (p, h5) | Some s \<Rightarrow> and_run (buf_append p s h5) (\<lambda>h6. Ret (p, h6)))))))"

definition buf_assign :: "addr \<Rightarrow> string \<Rightarrow> heap \<Rightarrow> heap run" where
  "buf_assign p s h =
     and_run (load_buf p h) (\<lambda>ob.
     and_run (store_buf p (ob\<lparr>so_len := 0\<rparr>) h) (\<lambda>h1.
     and_run (store_cells (so_str ob) 0 [nul] h1) (buf_append p s)))"

end
