(* ===== verification/Memory_Correct.thy ===== *)
theory Memory_Correct
  imports Memory
begin

text \<open>
  The configuration file in memory: the loader builds exactly the pairs of the value-level
  \<^const>\<open>ini_load\<close>, writes only inside blocks it has allocated, releases everything when it fails, and
  \<open>ini_free\<close> gives back every block, once.
\<close>

section \<open>Allocation\<close>

definition heap_ok :: "heap \<Rightarrow> bool" where
  "heap_ok h \<longleftrightarrow> 0 < h_next h \<and> (\<forall>a \<in> dom (h_blocks h). 0 < a \<and> a < h_next h)"

definition out_of_memory :: string where
  "out_of_memory = ''softgred: out of memory'' @ [CHR 0x0A]"

text \<open>A new block at an address that was not in use.\<close>

definition allocated :: "heap \<Rightarrow> nat \<Rightarrow> content \<Rightarrow> addr \<times> heap \<Rightarrow> bool" where
  "allocated h n c r \<longleftrightarrow> (case r of (p, h') \<Rightarrow> 0 < p \<and> p \<notin> dom (h_blocks h) \<and> h_blocks h' = (h_blocks h)(p \<mapsto> (n, c)) \<and> heap_ok h' \<and>
     h_left h' + n = h_left h)"

lemma malloc_check:
  assumes "heap_ok h"
  shows "h_left h < n \<and> check (malloc n c h) = Abort out_of_memory \<or> (\<exists>r. check (malloc n c h) = Ret r \<and> allocated h n c r)"
  using assms by (auto simp: check_def malloc_def out_of_memory_def allocated_def heap_ok_def less_Suc_eq)

lemma allocated_fresh: "allocated h n c (p, h') \<Longrightarrow> h_blocks h b = Some x \<Longrightarrow> b \<noteq> p"
  by (auto simp: allocated_def)

lemma free_block:
  assumes "heap_ok h" "h_blocks h p = Some x"
  shows "\<exists>h'. free p h = Ret h' \<and> h_blocks h' = (h_blocks h)(p := None) \<and> heap_ok h'"
  using assms by (cases x) (auto simp: free_def heap_ok_def)

text \<open>The wrappers never return \<open>NULL\<close>, and a request for no bytes gives a block of one byte.\<close>

lemma xmalloc_never_null:
  "heap_ok h \<Longrightarrow> xmalloc n h = Abort out_of_memory \<or> (\<exists>r. xmalloc n h = Ret r \<and> allocated h (max 1 n) (Cells (replicate (max 1 n) None)) r)"
  using malloc_check [of h "max 1 n" "Cells (replicate (max 1 n) None)"] by (auto simp: xmalloc_def Let_def max_def)

lemma xcalloc_never_null:
  "heap_ok h \<Longrightarrow> xcalloc k n zero h = Abort out_of_memory \<or> (\<exists>r. xcalloc k n zero h = Ret r \<and> allocated h (max 1 k * max 1 n) zero r)"
  using malloc_check [of h "max 1 k * max 1 n" zero] by (auto simp: xcalloc_def Let_def max_def check_def out_of_memory_def)

lemma strbuf_free_blocks:
  assumes "heap_ok h" "h_blocks h b = Some (n, Strbuf_struct ob)" "h_blocks h (so_str ob) = Some x" "so_str ob \<noteq> b"
  shows "\<exists>h'. strbuf_free b h = Ret h' \<and> h_blocks h' = (h_blocks h)(so_str ob := None, b := None)"
proof -
  have "b \<noteq> 0" using assms(1,2) by (auto simp: heap_ok_def)
  moreover from free_block [OF assms(1,3)] obtain h1 where 1: "free (so_str ob) h = Ret h1" "h_blocks h1 = (h_blocks h)(so_str ob := None)" "heap_ok h1" by blast
  moreover from free_block [OF 1(3), of b] 1(2) assms(2,4) obtain h2 where "free b h1 = Ret h2" "h_blocks h2 = (h_blocks h1)(b := None)" by auto
  ultimately show ?thesis using assms(2) by (simp add: strbuf_free_def)
qed

section \<open>A loaded file\<close>

definition str_at :: "heap \<Rightarrow> addr \<Rightarrow> string \<Rightarrow> bool" where
  "str_at h a s \<longleftrightarrow> h_blocks h a = Some (length s + 1, Cells (map Some (s @ [nul])))"

definition pair_at :: "heap \<Rightarrow> pair_obj \<Rightarrow> ini_pair \<Rightarrow> bool" where
  "pair_at h po x \<longleftrightarrow> str_at h (po_group po) (i_group x) \<and> str_at h (po_key po) (i_key x) \<and> str_at h (po_value po) (i_value x)"

definition strings :: "pair_obj \<Rightarrow> addr list" where
  "strings po = [po_group po, po_key po, po_value po]"

definition own :: "addr \<Rightarrow> addr \<Rightarrow> nat \<Rightarrow> pair_obj list \<Rightarrow> addr list" where
  "own p a cap pos = concat (map strings pos) @ (if cap = 0 then [] else [a]) @ [p]"

definition ini_at :: "heap \<Rightarrow> addr \<Rightarrow> addr \<Rightarrow> nat \<Rightarrow> pair_obj list \<Rightarrow> ini_pair list \<Rightarrow> bool" where
  "ini_at h p a cap pos xs \<longleftrightarrow>
     h_blocks h p = Some (24, Ini_struct \<lparr>in_pair = a, in_count = length pos, in_cap = cap\<rparr>) \<and> length pos \<le> cap \<and>
     (if cap = 0 then a = 0 else h_blocks h a = Some (cap * 24, Pair_array (map Some pos @ replicate (cap - length pos) None))) \<and>
     list_all2 (pair_at h) pos xs"

text \<open>Beside the blocks of \<open>B\<close> the heap holds exactly the file \<open>xs\<close> at \<open>p\<close> and the strings \<open>es\<close>.\<close>

definition holds :: "(addr \<rightharpoonup> nat \<times> content) \<Rightarrow> heap \<Rightarrow> addr \<Rightarrow> addr \<Rightarrow> nat \<Rightarrow> pair_obj list \<Rightarrow> ini_pair list \<Rightarrow> (addr \<times> string) list \<Rightarrow> bool" where
  "holds B h p a cap pos xs es \<longleftrightarrow> heap_ok h \<and> ini_at h p a cap pos xs \<and> (\<forall>(e, s) \<in> set es. str_at h e s) \<and>
     distinct (own p a cap pos @ map fst es) \<and> (set (own p a cap pos) \<union> fst ` set es) \<inter> dom B = {} \<and>
     (\<forall>b. b \<notin> set (own p a cap pos) \<union> fst ` set es \<longrightarrow> h_blocks h b = B b)"

lemma holdsD:
  assumes "holds B h p a cap pos xs es"
  shows "heap_ok h" "ini_at h p a cap pos xs" "(e, s) \<in> set es \<Longrightarrow> str_at h e s" "distinct (own p a cap pos @ map fst es)"
    "b \<in> set (own p a cap pos) \<Longrightarrow> b \<notin> dom B" "b \<in> fst ` set es \<Longrightarrow> b \<notin> dom B"
    "b \<notin> set (own p a cap pos) \<Longrightarrow> b \<notin> fst ` set es \<Longrightarrow> h_blocks h b = B b" "length xs = length pos"
  using assms by (auto simp: holds_def ini_at_def dest: list_all2_lengthD)

lemma own_dom: "ini_at h p a cap pos xs \<Longrightarrow> b \<in> set (own p a cap pos) \<Longrightarrow> b \<in> dom (h_blocks h)"
  by (auto simp: own_def ini_at_def strings_def pair_at_def str_at_def list_all2_conv_all_nth in_set_conv_nth split: if_splits)

lemma pair_at_other: "pair_at h po x \<Longrightarrow> (\<And>b. b \<in> set (strings po) \<Longrightarrow> h_blocks h' b = h_blocks h b) \<Longrightarrow> pair_at h' po x"
  by (simp add: pair_at_def str_at_def strings_def)

lemma pairs_at_other:
  assumes "list_all2 (pair_at h) pos xs" "\<And>b. b \<in> set (concat (map strings pos)) \<Longrightarrow> h_blocks h' b = h_blocks h b"
  shows "list_all2 (pair_at h') pos xs"
  using assms by (induction rule: list_all2_induct) (auto intro: pair_at_other)

lemma ini_at_other:
  assumes "ini_at h p a cap pos xs" "\<And>b. b \<in> set (own p a cap pos) \<Longrightarrow> h_blocks h' b = h_blocks h b"
  shows "ini_at h' p a cap pos xs"
  using assms pairs_at_other [of h pos xs h'] by (auto simp: ini_at_def own_def split: if_splits)

lemma xstrdup_printf_copies:
  assumes "heap_ok h"
  shows "xstrdup_printf (Some t) h = Abort out_of_memory \<or>
    (\<exists>p h'. xstrdup_printf (Some t) h = Ret (p, h') \<and> str_at h' p t \<and> (\<forall>b. b \<noteq> p \<longrightarrow> h_blocks h' b = h_blocks h b))"
  using xmalloc_never_null [OF assms, of "length t + 1"]
  by (auto simp: xstrdup_printf_def xstrdup_vprintf_def str_at_def allocated_def)

section \<open>Appending a pair\<close>

lemma dup_holds:
  assumes "holds B h p a cap pos xs es"
  shows "h_left h < length s + 1 \<and> xstrdup (Some s) h = Abort out_of_memory \<or>
    (\<exists>q h'. xstrdup (Some s) h = Ret (q, h') \<and> holds B h' p a cap pos xs (es @ [(q, s)]) \<and> h_left h = h_left h' + (length s + 1))"
proof -
  note d = holdsD [OF assms]
  let ?c = "Cells (map Some (s @ [nul]))"
  from malloc_check [OF d(1), of "length s + 1" ?c] consider
    "h_left h < length s + 1" "xstrdup (Some s) h = Abort out_of_memory" | q h' where "xstrdup (Some s) h = Ret (q, h')" "allocated h (length s + 1) ?c (q, h')"
    by (auto simp: xstrdup_def)
  then show ?thesis
  proof cases
    case (2 q h')
    then have b: "q \<notin> dom (h_blocks h)" "h_blocks h' = (h_blocks h)(q \<mapsto> (length s + 1, ?c))" "heap_ok h'" by (auto simp: allocated_def)
    have qo: "q \<notin> set (own p a cap pos)" using own_dom [OF d(2)] b(1) by blast
    have qe: "q \<notin> fst ` set es" using d(3) b(1) by (force simp: str_at_def)
    have "q \<notin> dom B" using d(7) [OF qo qe] b(1) by (simp add: domIff)
    moreover have "ini_at h' p a cap pos xs" using qo by (intro ini_at_other [OF d(2)]) (auto simp: b(2))
    moreover have "str_at h' e t" if "(e, t) \<in> set es" for e t using d(3) [OF that] qe that by (force simp: str_at_def b(2))
    moreover have "str_at h' q s" by (simp add: str_at_def b(2))
    moreover have "(set (own p a cap pos) \<union> fst ` set es) \<inter> dom B = {}" using assms by (simp add: holds_def)
    moreover have "h_blocks h' b = B b" if "b \<notin> set (own p a cap pos)" "b \<notin> fst ` set es" "b \<noteq> q" for b
      using d(7) [OF that(1,2)] that(3) by (simp add: b(2))
    ultimately have "holds B h' p a cap pos xs (es @ [(q, s)])"
      using d(4) b(3) qo qe unfolding holds_def by (simp add: Int_insert_left) blast
    moreover have "h_left h = h_left h' + (length s + 1)" using 2(2) by (simp add: allocated_def)
    ultimately show ?thesis using 2(1) by blast
  qed simp
qed

lemma store_pair_holds:
  assumes "holds B h p a cap pos xs [(g, i_group x), (k, i_key x), (v, i_value x)]" "length pos < cap"
  shows "\<exists>h1 h2. store_pair a (length pos) \<lparr>po_group = g, po_key = k, po_value = v\<rparr> h = Ret h1 \<and>
    store_ini p \<lparr>in_pair = a, in_count = length pos + 1, in_cap = cap\<rparr> h1 = Ret h2 \<and>
    holds B h2 p a cap (pos @ [\<lparr>po_group = g, po_key = k, po_value = v\<rparr>]) (xs @ [x]) [] \<and> h_left h2 = h_left h"
proof -
  let ?po = "\<lparr>po_group = g, po_key = k, po_value = v\<rparr>" and ?arr = "map Some pos @ replicate (cap - length pos) None"
  let ?arr' = "map Some (pos @ [?po]) @ replicate (cap - length (pos @ [?po])) None"
  let ?ini = "\<lparr>in_pair = a, in_count = length pos + 1, in_cap = cap\<rparr>"
  note d = holdsD [OF assms(1)]
  have at: "h_blocks h p = Some (24, Ini_struct \<lparr>in_pair = a, in_count = length pos, in_cap = cap\<rparr>)"
    "h_blocks h a = Some (cap * 24, Pair_array ?arr)" "list_all2 (pair_at h) pos xs" using d(2) assms(2) by (auto simp: ini_at_def)
  have "?arr[length pos := Some ?po] = ?arr'"
    using assms(2) by (cases "cap - length pos") (auto simp: list_update_append)
  then have s1: "store_pair a (length pos) ?po h = Ret (h\<lparr>h_blocks := (h_blocks h)(a \<mapsto> (cap * 24, Pair_array ?arr'))\<rparr>)" (is "_ = Ret ?h1")
    using at(2) assms(2) by (simp add: store_pair_def)
  have dist: "distinct (own p a cap pos @ [g, k, v])" using d(4) by simp
  then have pa: "p \<noteq> a" using assms(2) by (auto simp: own_def)
  then have s2: "store_ini p ?ini ?h1 = Ret (?h1\<lparr>h_blocks := (h_blocks ?h1)(p \<mapsto> (24, Ini_struct ?ini))\<rparr>)" (is "_ = Ret ?h2")
    using at(1) by (simp add: store_ini_def)
  have other: "h_blocks ?h2 b = h_blocks h b" if "b \<noteq> a" "b \<noteq> p" for b using that by simp
  have o: "set (own p a cap (pos @ [?po])) = set (own p a cap pos) \<union> {g, k, v}" by (auto simp: own_def strings_def)
  have "pair_at h ?po x" using d(3) by (simp add: pair_at_def)
  with at(3) have "list_all2 (pair_at h) (pos @ [?po]) (xs @ [x])" by (simp add: list_all2_appendI)
  then have "list_all2 (pair_at ?h2) (pos @ [?po]) (xs @ [x])"
    by (rule pairs_at_other) (use dist assms(2) in \<open>auto simp: own_def strings_def\<close>)
  then have "ini_at ?h2 p a cap (pos @ [?po]) (xs @ [x])" using pa assms(2) by (simp add: ini_at_def)
  moreover have "heap_ok ?h2" using d(1) at(1,2) by (auto simp: heap_ok_def)
  moreover have "distinct (own p a cap (pos @ [?po]))" using dist by (auto simp: own_def strings_def)
  moreover have "(set (own p a cap pos) \<union> {g, k, v}) \<inter> dom B = {}" using assms(1) by (simp add: holds_def)
  moreover have "h_blocks ?h2 b = B b" if "b \<notin> set (own p a cap pos) \<union> {g, k, v}" for b
    using other [of b] d(7) [of b] that assms(2) by (auto simp: own_def)
  ultimately have "holds B ?h2 p a cap (pos @ [?po]) (xs @ [x]) []" unfolding holds_def o by simp
  moreover have "h_left ?h2 = h_left h" by simp
  ultimately show ?thesis using s1 s2 by blast
qed

lemma realloc_moves:
  assumes "heap_ok h" "h_blocks h a = Some (m, c0)" "a \<noteq> 0"
  shows "h_left h < n \<and> and_run (realloc a n c f h) check = Abort out_of_memory \<or>
    (\<exists>q h'. and_run (realloc a n c f h) check = Ret (q, h') \<and> 0 < q \<and> q \<notin> dom (h_blocks h) \<and>
       h_blocks h' = (h_blocks h)(q \<mapsto> (n, f c0), a := None) \<and> heap_ok h' \<and> h_left h \<le> h_left h' + n)"
proof (cases "malloc n (f c0) h")
  case (Pair q h1)
  show ?thesis
  proof (cases "q = 0")
    case True
    then show ?thesis using Pair assms malloc_check [OF assms(1), of n "f c0"]
      by (auto simp: realloc_def check_def out_of_memory_def allocated_def)
  next
    case False
    with malloc_check [OF assms(1), of n "f c0"] Pair have al: "allocated h n (f c0) (q, h1)" by (auto simp: check_def)
    then have h1: "h_blocks h1 a = Some (m, c0)" "heap_ok h1" "h_blocks h1 = (h_blocks h)(q \<mapsto> (n, f c0))" "q \<notin> dom (h_blocks h)"
      using allocated_fresh [OF al assms(2)] assms(2) by (auto simp: allocated_def)
    from free_block [OF h1(2,1)] obtain h2 where "free a h1 = Ret h2" "h_blocks h2 = (h_blocks h1)(a := None)" "heap_ok h2" by blast
    moreover have "h_left h1 \<le> h_left h2" using calculation(1) by (auto simp: free_def split: if_splits option.splits)
    moreover have "h_left h1 + n = h_left h" using al by (simp add: allocated_def)
    ultimately show ?thesis using False Pair assms(2,3) h1(3,4) by (simp add: realloc_def check_def)
  qed
qed

text \<open>The array moves to a new block \<open>q\<close>; an empty file has no array yet.\<close>

lemma array_moves:
  assumes "holds B h p a cap pos xs []" "length pos = cap" "cap < cap'"
  shows "xrealloc a (cap' * 24) (Pair_array (replicate cap' None)) (grow_pairs cap') h = Abort out_of_memory \<and> h_left h < cap' * 24 \<or>
    (\<exists>q h1. xrealloc a (cap' * 24) (Pair_array (replicate cap' None)) (grow_pairs cap') h = Ret (q, h1) \<and> q \<notin> dom (h_blocks h) \<and> heap_ok h1 \<and>
       h_blocks h1 = (if cap = 0 then id else (\<lambda>m. m(a := None)))
         ((h_blocks h)(q \<mapsto> (cap' * 24, Pair_array (map Some pos @ replicate (cap' - length pos) None)))) \<and>
       h_left h \<le> h_left h1 + cap' * 24)"
proof (cases "cap = 0")
  case True
  note d = holdsD [OF assms(1)]
  from True have "a = 0" "pos = []" using d(2) assms(2) by (auto simp: ini_at_def)
  with True assms(3) malloc_check [OF d(1), of "cap' * 24" "Pair_array (map Some pos @ replicate (cap' - length pos) None)"] show ?thesis
    by (auto simp: xrealloc_def realloc_def allocated_def)
next
  case False
  note d = holdsD [OF assms(1)]
  from False have b: "h_blocks h a = Some (cap * 24, Pair_array (map Some pos))" using d(2) assms(2) by (simp add: ini_at_def)
  then have "a \<noteq> 0" using d(1) by (auto simp: heap_ok_def)
  from realloc_moves [OF d(1) b this, of "cap' * 24" "Pair_array (replicate cap' None)" "grow_pairs cap'"] False assms(2,3) show ?thesis
    by (auto simp: xrealloc_def grow_pairs_def)
qed

lemma moved_holds:
  assumes "holds B h p a cap pos xs []" "length pos \<le> cap'" "cap' \<noteq> 0" "q \<notin> dom (h_blocks h)" "heap_ok h1"
    and h1: "h_blocks h1 = (if cap = 0 then id else (\<lambda>m. m(a := None)))
      ((h_blocks h)(q \<mapsto> (cap' * 24, Pair_array (map Some pos @ replicate (cap' - length pos) None))))"
  shows "\<exists>h2. store_ini p \<lparr>in_pair = q, in_count = length pos, in_cap = cap'\<rparr> h1 = Ret h2 \<and> holds B h2 p q cap' pos xs [] \<and> h_left h2 = h_left h1"
proof -
  note d = holdsD [OF assms(1)]
  let ?ini = "\<lparr>in_pair = q, in_count = length pos, in_cap = cap'\<rparr>"
  have qo: "q \<notin> set (own p a cap pos)" using own_dom [OF d(2)] assms(4) by blast
  have pq: "p \<noteq> q" "p \<in> set (own p a cap pos)" using qo by (auto simp: own_def)
  have pa: "cap \<noteq> 0 \<Longrightarrow> p \<noteq> a" "cap \<noteq> 0 \<Longrightarrow> a \<notin> set (concat (map strings pos))" "p \<notin> set (concat (map strings pos))"
    using d(4) by (auto simp: own_def)
  have p1: "h_blocks h1 p = h_blocks h p" using pq(1) pa(1) by (simp add: h1)
  then have s: "store_ini p ?ini h1 = Ret (h1\<lparr>h_blocks := (h_blocks h1)(p \<mapsto> (24, Ini_struct ?ini))\<rparr>)" (is "_ = Ret ?h2")
    using d(2) by (simp add: store_ini_def ini_at_def)
  have "list_all2 (pair_at ?h2) pos xs"
    by (rule pairs_at_other [of h]) (use d(2) qo pa in \<open>auto simp: ini_at_def own_def h1 split: if_splits\<close>)
  moreover have "cap \<noteq> 0 \<Longrightarrow> q \<noteq> a" using qo by (auto simp: own_def)
  then have "h_blocks ?h2 q = Some (cap' * 24, Pair_array (map Some pos @ replicate (cap' - length pos) None))" using pq(1) by (simp add: h1)
  ultimately have "ini_at ?h2 p q cap' pos xs" using assms(2,3) by (simp add: ini_at_def)
  moreover have "heap_ok ?h2" using assms(5) p1 d(2) by (auto simp: heap_ok_def ini_at_def)
  moreover have "distinct (own p q cap' pos)" using d(4) qo assms(3) by (auto simp: own_def split: if_splits)
  moreover have "q \<notin> dom B" using d(7) [OF qo] assms(4) by (simp add: domIff)
  then have "set (own p q cap' pos) \<inter> dom B = {}" using d(5) by (auto simp: own_def split: if_splits)
  moreover have "h_blocks ?h2 b = B b" if "b \<notin> set (own p q cap' pos)" for b
  proof (cases "cap \<noteq> 0 \<and> b = a")
    case True
    then have "B a = None" using d(5) [of a] by (auto simp: own_def)
    moreover have "a \<noteq> q" "a \<noteq> p" using True qo pa(1) by (auto simp: own_def)
    ultimately show ?thesis using True by (simp add: h1)
  next
    case False
    then have "b \<notin> set (own p a cap pos)" "b \<noteq> q" "b \<noteq> p" using that assms(3) by (auto simp: own_def split: if_splits)
    then show ?thesis using d(7) [of b] False by (auto simp: h1)
  qed
  ultimately have "holds B ?h2 p q cap' pos xs []" by (simp add: holds_def)
  with s show ?thesis by simp
qed

text \<open>How much memory one more pair takes at most: the new array and the three strings.\<close>

definition pair_bytes :: "ini_pair \<Rightarrow> nat" where
  "pair_bytes x = length (i_group x) + length (i_key x) + length (i_value x) + 3"

definition append_bytes :: "nat \<Rightarrow> ini_pair \<Rightarrow> nat" where
  "append_bytes n x = 24 * (2 * n + 16) + pair_bytes x"

abbreviation ini_record :: "addr \<Rightarrow> pair_obj list \<Rightarrow> nat \<Rightarrow> ini_obj" where
  "ini_record a pos cap \<equiv> \<lparr>in_pair = a, in_count = length pos, in_cap = cap\<rparr>"

lemma grow_holds:
  assumes "holds B h p a cap pos xs []"
  shows "ini_grow p (ini_record a pos cap) h = Abort out_of_memory \<and> h_left h < 24 * (2 * length xs + 16) \<or>
    (\<exists>q cap' h'. ini_grow p (ini_record a pos cap) h = Ret (ini_record q pos cap', h') \<and> holds B h' p q cap' pos xs [] \<and> length pos < cap' \<and>
       h_left h \<le> h_left h' + 24 * (2 * length xs + 16))"
proof (cases "length pos = cap")
  case True
  define c where c: "c = (if cap \<noteq> 0 then cap * 2 else 16)"
  have lt: "cap < c" "c * 24 \<le> 24 * (2 * length xs + 16)" using True holdsD(8) [OF assms] by (simp_all add: c)
  have step: "ini_grow p (ini_record a pos cap) h = and_run (xrealloc a (c * 24) (Pair_array (replicate c None)) (grow_pairs c) h)
      (\<lambda>(q, h1). and_run (store_ini p (ini_record q pos c) h1) (\<lambda>h2. Ret (ini_record q pos c, h2)))"
    using True by (simp add: ini_grow_def c Let_def)
  from array_moves [OF assms True lt(1)] show ?thesis
  proof (elim disjE exE conjE)
    fix q h1 assume 1: "xrealloc a (c * 24) (Pair_array (replicate c None)) (grow_pairs c) h = Ret (q, h1)" "h_left h \<le> h_left h1 + c * 24"
      and 2: "q \<notin> dom (h_blocks h)" "heap_ok h1" "h_blocks h1 = (if cap = 0 then id else (\<lambda>m. m(a := None)))
        ((h_blocks h)(q \<mapsto> (c * 24, Pair_array (map Some pos @ replicate (c - length pos) None))))"
    from moved_holds [OF assms _ _ 2] True lt(1) obtain h2 where
      "store_ini p (ini_record q pos c) h1 = Ret h2" "holds B h2 p q c pos xs []" "h_left h2 = h_left h1" by auto
    with 1 step True lt show ?thesis by auto
  qed (use step lt(2) in simp)
next
  case False
  then show ?thesis using assms holdsD(2) [OF assms] by (auto simp: ini_grow_def ini_at_def)
qed

lemma fill_holds:
  assumes h: "holds B h p a cap pos xs []" and room: "length pos < cap"
  shows "ini_fill p x (ini_record a pos cap) h = Abort out_of_memory \<and> h_left h < pair_bytes x \<or>
    (\<exists>h' pos'. ini_fill p x (ini_record a pos cap) h = Ret h' \<and> holds B h' p a cap pos' (xs @ [x]) [] \<and> h_left h = h_left h' + pair_bytes x)"
proof -
  from dup_holds [OF h, of "i_group x"] consider "xstrdup (Some (i_group x)) h = Abort out_of_memory" "h_left h < length (i_group x) + 1"
    | g h2 where "xstrdup (Some (i_group x)) h = Ret (g, h2)" "holds B h2 p a cap pos xs [(g, i_group x)]"
        "h_left h = h_left h2 + (length (i_group x) + 1)" by auto
  then show ?thesis
  proof cases
    case g: (2 g h2)
    from dup_holds [OF g(2), of "i_key x"] consider "xstrdup (Some (i_key x)) h2 = Abort out_of_memory" "h_left h2 < length (i_key x) + 1"
      | k h3 where "xstrdup (Some (i_key x)) h2 = Ret (k, h3)" "holds B h3 p a cap pos xs [(g, i_group x), (k, i_key x)]"
          "h_left h2 = h_left h3 + (length (i_key x) + 1)" by auto
    then show ?thesis
    proof cases
      case k: (2 k h3)
      from dup_holds [OF k(2), of "i_value x"] consider "xstrdup (Some (i_value x)) h3 = Abort out_of_memory" "h_left h3 < length (i_value x) + 1"
        | v h4 where "xstrdup (Some (i_value x)) h3 = Ret (v, h4)"
            "holds B h4 p a cap pos xs [(g, i_group x), (k, i_key x), (v, i_value x)]" "h_left h3 = h_left h4 + (length (i_value x) + 1)" by auto
      then show ?thesis
      proof cases
        case v: (2 v h4)
        from store_pair_holds [OF v(2) room] obtain h5 h6 where
          "store_pair a (length pos) \<lparr>po_group = g, po_key = k, po_value = v\<rparr> h4 = Ret h5"
          "store_ini p \<lparr>in_pair = a, in_count = length pos + 1, in_cap = cap\<rparr> h5 = Ret h6"
          "holds B h6 p a cap (pos @ [\<lparr>po_group = g, po_key = k, po_value = v\<rparr>]) (xs @ [x]) []" "h_left h6 = h_left h4" by blast
        with g(1,3) k(1,3) v(1,3) show ?thesis by (auto simp: pair_bytes_def ini_fill_def)
      qed (use g(1,3) k(1,3) in \<open>simp add: pair_bytes_def ini_fill_def\<close>)
    qed (use g(1,3) in \<open>simp add: pair_bytes_def ini_fill_def\<close>)
  qed (simp add: pair_bytes_def ini_fill_def)
qed

lemma append_holds:
  assumes "holds B h p a cap pos xs []"
  shows "ini_append p x h = Abort out_of_memory \<and> h_left h < append_bytes (length xs) x \<or>
    (\<exists>h' a' cap' pos'. ini_append p x h = Ret h' \<and> holds B h' p a' cap' pos' (xs @ [x]) [] \<and> h_left h \<le> h_left h' + append_bytes (length xs) x)"
proof -
  have l: "load_ini p h = Ret (ini_record a pos cap)" using holdsD(2) [OF assms] by (simp add: load_ini_def ini_at_def)
  from grow_holds [OF assms] show ?thesis
  proof (elim disjE exE conjE)
    fix q cap' h1 assume 1: "ini_grow p (ini_record a pos cap) h = Ret (ini_record q pos cap', h1)" "holds B h1 p q cap' pos xs []"
      "length pos < cap'" "h_left h \<le> h_left h1 + 24 * (2 * length xs + 16)"
    with l have "ini_append p x h = ini_fill p x (ini_record q pos cap') h1" by (simp add: ini_append_def)
    with fill_holds [OF 1(2,3), of x] 1(4) show ?thesis by (fastforce simp: append_bytes_def simp del: split_paired_Ex)
  qed (use l in \<open>simp add: ini_append_def append_bytes_def\<close>)
qed

section \<open>Loading and releasing\<close>

lemma free_three:
  assumes "heap_ok h" "distinct [x, y, z]" "{x, y, z} \<subseteq> dom (h_blocks h)"
  shows "\<exists>h'. and_run (free x h) (\<lambda>h1. and_run (free y h1) (\<lambda>h2. and_run (free z h2) f)) = f h' \<and>
    h_blocks h' = h_blocks h |` (- {x, y, z}) \<and> heap_ok h'"
proof -
  obtain bx by' bz where b: "h_blocks h x = Some bx" "h_blocks h y = Some by'" "h_blocks h z = Some bz" using assms(3) by auto
  from free_block [OF assms(1) b(1)] obtain h1 where 1: "free x h = Ret h1" "h_blocks h1 = (h_blocks h)(x := None)" "heap_ok h1" by blast
  with b(2) assms(2) free_block [OF 1(3), of y by'] obtain h2 where
    2: "free y h1 = Ret h2" "h_blocks h2 = (h_blocks h1)(y := None)" "heap_ok h2" by auto
  with 1(2) b(3) assms(2) free_block [OF 2(3), of z bz] obtain h3 where
    3: "free z h2 = Ret h3" "h_blocks h3 = (h_blocks h2)(z := None)" "heap_ok h3" by auto
  have "h_blocks h3 = h_blocks h |` (- {x, y, z})" by (auto simp: 1(2) 2(2) 3(2) restrict_map_def)
  with 1(1) 2(1) 3(1,3) show ?thesis by auto
qed

lemma free_pairs_ok:
  "heap_ok h \<Longrightarrow> h_blocks h a = Some (m, Pair_array (map Some pre @ map Some pos @ rest)) \<Longrightarrow>
   distinct (concat (map strings pos)) \<Longrightarrow> a \<notin> set (concat (map strings pos)) \<Longrightarrow> set (concat (map strings pos)) \<subseteq> dom (h_blocks h) \<Longrightarrow>
   \<exists>h'. free_pairs a (length pre) (length pos) h = Ret h' \<and> h_blocks h' = h_blocks h |` (- set (concat (map strings pos))) \<and> heap_ok h'"
proof (induction pos arbitrary: pre h)
  case (Cons po pos)
  have s: "set (strings po) = {po_group po, po_key po, po_value po}" by (simp add: strings_def)
  from free_three [OF Cons.prems(1), of "po_group po" "po_key po" "po_value po" "\<lambda>h3. free_pairs a (length pre + 1) (length pos) h3"] Cons.prems(3,5)
  obtain h1 where h1: "free_pairs a (length pre) (length (po # pos)) h = free_pairs a (length (pre @ [po])) (length pos) h1"
    "h_blocks h1 = h_blocks h |` (- set (strings po))" "heap_ok h1"
    using Cons.prems(2) by (auto simp: strings_def load_pair_def nth_append)
  have "\<exists>h'. free_pairs a (length (pre @ [po])) (length pos) h1 = Ret h' \<and> h_blocks h' = h_blocks h1 |` (- set (concat (map strings pos))) \<and> heap_ok h'"
  proof (rule Cons.IH [OF h1(3)])
    show "h_blocks h1 a = Some (m, Pair_array (map Some (pre @ [po]) @ map Some pos @ rest))" using Cons.prems(2,4) by (simp add: h1(2))
    show "set (concat (map strings pos)) \<subseteq> dom (h_blocks h1)" using Cons.prems(3,5) unfolding h1(2) dom_restrict by auto
  qed (use Cons.prems in auto)
  with h1(1,2) show ?case by (auto simp: Int_commute)
qed (simp add: restrict_map_def)

lemma ini_free_holds:
  assumes "holds B h p a cap pos xs []"
  shows "\<exists>h'. ini_free p h = Ret h' \<and> h_blocks h' = B \<and> heap_ok h'"
proof -
  note d = holdsD [OF assms]
  let ?s = "set (concat (map strings pos))"
  have p: "h_blocks h p = Some (24, Ini_struct \<lparr>in_pair = a, in_count = length pos, in_cap = cap\<rparr>)" using d(2) by (simp add: ini_at_def)
  then have p0: "p \<noteq> 0" using d(1) by (auto simp: heap_ok_def)
  have sd: "?s \<subseteq> dom (h_blocks h)" using own_dom [OF d(2)] by (auto simp: own_def)
  obtain h1 where 1: "free_pairs a 0 (length pos) h = Ret h1" "h_blocks h1 = h_blocks h |` (- ?s)" "heap_ok h1"
  proof (cases "cap = 0")
    case True
    then show ?thesis using that [of h] d(1,2) by (simp add: ini_at_def restrict_map_def)
  next
    case False
    then have "h_blocks h a = Some (cap * 24, Pair_array (map Some [] @ map Some pos @ replicate (cap - length pos) None))"
      using d(2) by (simp add: ini_at_def)
    from free_pairs_ok [OF d(1) this] False d(4) sd that show ?thesis by (auto simp: own_def)
  qed
  obtain h2 where 2: "free a h1 = Ret h2" "h_blocks h2 = (if cap = 0 then h_blocks h1 else (h_blocks h1)(a := None))" "heap_ok h2"
  proof (cases "cap = 0")
    case True
    then show ?thesis using that [of h1] 1(3) d(2) by (simp add: ini_at_def free_def)
  next
    case False
    then have "h_blocks h1 a = h_blocks h a" "h_blocks h a \<noteq> None" using d(2,4) by (auto simp: own_def 1(2) ini_at_def)
    with free_block [OF 1(3), of a] False that show ?thesis by auto
  qed
  have "h_blocks h2 p = h_blocks h p" using d(4) by (auto simp: own_def 2(2) 1(2) split: if_splits)
  with free_block [OF 2(3), of p] p obtain h3 where 3: "free p h2 = Ret h3" "h_blocks h3 = (h_blocks h2)(p := None)" "heap_ok h3" by auto
  have "h_blocks h3 b = B b" for b
  proof (cases "b \<in> set (own p a cap pos)")
    case True
    then have "B b = None" using d(5) [OF True] by auto
    with True show ?thesis by (auto simp: 3(2) 2(2) 1(2) own_def restrict_map_def split: if_splits)
  next
    case False
    with d(7) [of b] show ?thesis by (auto simp: 3(2) 2(2) 1(2) own_def restrict_map_def split: if_splits)
  qed
  then have "h_blocks h3 = B" by blast
  with 1(1) 2(1) 3(1,3) p p0 show ?thesis by (simp add: ini_free_def load_ini_def)
qed

text \<open>A line adds at most one pair, behind the ones that are there.\<close>

lemma ini_line_pairs:
  "ini_line line number grp pairs =
     (case ini_line line number grp [] of Inl e \<Rightarrow> Inl e | Inr (grp', new) \<Rightarrow> Inr (grp', pairs @ new))"
  by (auto simp: ini_line_def Let_def split: option.splits)

lemma ini_line_one: "ini_line line number grp [] = Inr (grp', x # r) \<Longrightarrow> r = []"
  by (auto simp: ini_line_def Let_def split: if_splits option.splits)

lemma getline_shorter: "bytes \<noteq> [] \<Longrightarrow> length (snd (getline bytes)) < length bytes"
  by (auto simp: getline_def dest: strchr_shorter split: option.splits)

lemma ini_lines_holds:
  assumes "holds B h p a cap pos xs []"
  shows "ini_lines p bytes number grp h = Abort out_of_memory \<or>
    (\<exists>res h' a' cap' pos' xs'. ini_lines p bytes number grp h = Ret (res, h') \<and> holds B h' p a' cap' pos' xs' [] \<and>
       (case ini_read bytes number grp xs of Inl e \<Rightarrow> res = Inl e | Inr ys \<Rightarrow> res = Inr () \<and> xs' = ys))"
  using assms
proof (induction "length bytes" arbitrary: bytes number grp h a cap pos xs rule: less_induct)
  case less
  show ?case
  proof (cases "bytes = []")
    case True
    then show ?thesis using less.prems by (simp add: ini_lines.simps ini_read.simps) blast
  next
    case False
    note len = getline_shorter [OF False]
    let ?line = "fst (getline bytes)" and ?rest = "snd (getline bytes)"
    consider e where "ini_line ?line (number + 1) grp [] = Inl e" | g where "ini_line ?line (number + 1) grp [] = Inr (g, [])"
      | g x where "ini_line ?line (number + 1) grp [] = Inr (g, [x])"
      by (metis ini_line_one list.exhaust obj_sumE surj_pair)
    then show ?thesis
    proof cases
      case 1
      then have "ini_lines p bytes number grp h = Ret (Inl e, h)" "ini_read bytes number grp xs = Inl e"
        using False ini_line_pairs [of ?line "number + 1" grp xs] by (simp_all add: ini_lines.simps [of p bytes] ini_read.simps [of bytes])
      with less.prems show ?thesis by auto
    next
      case 2
      then have "ini_lines p bytes number grp h = ini_lines p ?rest (number + 1) g h" "ini_read bytes number grp xs = ini_read ?rest (number + 1) g xs"
        using False ini_line_pairs [of ?line "number + 1" grp xs] by (simp_all add: ini_lines.simps [of p bytes] ini_read.simps [of bytes])
      with less.hyps [OF len less.prems] show ?thesis by simp
    next
      case 3
      then have r: "ini_read bytes number grp xs = ini_read ?rest (number + 1) g (xs @ [x])"
        using False ini_line_pairs [of ?line "number + 1" grp xs] by (simp add: ini_read.simps [of bytes])
      from append_holds [OF less.prems, of x] consider "ini_append p x h = Abort out_of_memory"
        | h1 a1 cap1 pos1 where "ini_append p x h = Ret h1" "holds B h1 p a1 cap1 pos1 (xs @ [x]) []" by blast
      then show ?thesis
      proof cases
        case 1
        with 3 False show ?thesis by (simp add: ini_lines.simps [of p bytes])
      next
        case 2
        then have "ini_lines p bytes number grp h = ini_lines p ?rest (number + 1) g h1" using 3 False by (simp add: ini_lines.simps [of p bytes])
        with less.hyps [OF len 2(2)] r show ?thesis by simp
      qed
    qed
  qed
qed

text \<open>With enough memory the loop does return.\<close>

lemma ini_lines_enough:
  "\<exists>N. \<forall>B h p a cap pos xs. holds B h p a cap pos xs [] \<and> length xs = n \<and> N \<le> h_left h \<longrightarrow> ini_lines p bytes number grp h \<noteq> Abort out_of_memory"
proof (induction "length bytes" arbitrary: bytes number grp n rule: less_induct)
  case less
  show ?case
  proof (cases "bytes = []")
    case True
    then show ?thesis by (simp add: ini_lines.simps)
  next
    case False
    note len = getline_shorter [OF False]
    let ?line = "fst (getline bytes)" and ?rest = "snd (getline bytes)"
    show ?thesis
    proof (cases "ini_line ?line (number + 1) grp []")
      case (Inl e)
      then show ?thesis using False by (simp add: ini_lines.simps [of _ bytes])
    next
      case (Inr gx)
      obtain g new where gx: "gx = (g, new)" by (cases gx)
      show ?thesis
      proof (cases new)
        case Nil
        with less.hyps [OF len, of n "number + 1" g] Inr gx False show ?thesis by (simp add: ini_lines.simps [of _ bytes])
      next
        case (Cons x r)
        from less.hyps [OF len, of "n + 1" "number + 1" g] obtain N where
          N: "\<And>B h p a cap pos xs. holds B h p a cap pos xs [] \<Longrightarrow> length xs = n + 1 \<Longrightarrow> N \<le> h_left h \<Longrightarrow>
            ini_lines p ?rest (number + 1) g h \<noteq> Abort out_of_memory" by blast
        have "ini_lines p bytes number grp h \<noteq> Abort out_of_memory"
          if "holds B h p a cap pos xs []" "length xs = n" "N + append_bytes n x \<le> h_left h" for B h p a cap pos xs
        proof -
          from append_holds [OF that(1), of x] that(2,3) obtain h1 a1 cap1 pos1 where
            1: "ini_append p x h = Ret h1" "holds B h1 p a1 cap1 pos1 (xs @ [x]) []" "h_left h \<le> h_left h1 + append_bytes n x" by auto
          have "ini_lines p bytes number grp h = ini_lines p ?rest (number + 1) g h1"
            using False Inr gx Cons 1(1) by (simp add: ini_lines.simps [of p bytes])
          with N [OF 1(2)] that(2,3) 1(3) show ?thesis by simp
        qed
        then show ?thesis by blast
      qed
    qed
  qed
qed

lemma calloc_ini:
  assumes "heap_ok h"
  shows "xcalloc 1 24 (Ini_struct \<lparr>in_pair = 0, in_count = 0, in_cap = 0\<rparr>) h = Abort out_of_memory \<and> h_left h < 24 \<or>
    (\<exists>p h1. xcalloc 1 24 (Ini_struct \<lparr>in_pair = 0, in_count = 0, in_cap = 0\<rparr>) h = Ret (p, h1) \<and> holds (h_blocks h) h1 p 0 0 [] [] [] \<and>
       h_left h1 + 24 = h_left h)"
  using malloc_check [OF assms, of 24 "Ini_struct \<lparr>in_pair = 0, in_count = 0, in_cap = 0\<rparr>"]
  by (auto simp: xcalloc_def SIZE_MAX_def allocated_def holds_def ini_at_def own_def)

section \<open>Properties\<close>

text \<open>One call of the loader: it runs out of memory, or its result and its heap are those of the list.\<close>

definition opened :: "heap \<Rightarrow> string + ini_pair list \<Rightarrow> string + addr \<Rightarrow> heap \<Rightarrow> bool" where
  "opened h spec res h' \<longleftrightarrow>
     (case spec of
        Inl e \<Rightarrow> res = Inl e \<and> h_blocks h' = h_blocks h
      | Inr xs \<Rightarrow> \<exists>p a cap pos h''. res = Inr p \<and> ini_at h' p a cap pos xs \<and> (\<forall>b \<in> dom (h_blocks h). h_blocks h' b = h_blocks h b) \<and>
          ini_free p h' = Ret h'' \<and> h_blocks h'' = h_blocks h)"

lemma ini_open_after_lines:
  assumes "xcalloc 1 24 (Ini_struct \<lparr>in_pair = 0, in_count = 0, in_cap = 0\<rparr>) h = Ret (p, h1)" "holds (h_blocks h) h1 p 0 0 [] [] []"
  shows "ini_lines p bytes 0 [] h1 = Abort out_of_memory \<and> ini_open strerror (Readable bytes err) h = Abort out_of_memory \<or>
    (\<exists>res h'. ini_open strerror (Readable bytes err) h = Ret (res, h') \<and> opened h (ini_load strerror (Readable bytes err)) res h')"
proof -
  from ini_lines_holds [OF assms(2), of bytes 0 "[]"] consider "ini_lines p bytes 0 [] h1 = Abort out_of_memory"
    | res h' a cap pos xs where "ini_lines p bytes 0 [] h1 = Ret (res, h')" "holds (h_blocks h) h' p a cap pos xs []"
      "case ini_read bytes 0 [] [] of Inl e \<Rightarrow> res = Inl e | Inr ys \<Rightarrow> res = Inr () \<and> xs = ys" by blast
  then show ?thesis
  proof cases
    case 1
    with assms show ?thesis by (auto simp: ini_open_def)
  next
    case (2 res h' a cap pos xs)
    from ini_free_holds [OF 2(2)] obtain h2 where f: "ini_free p h' = Ret h2" "h_blocks h2 = h_blocks h" by blast
    have keep: "\<forall>b \<in> dom (h_blocks h). h_blocks h' b = h_blocks h b" using holdsD(5,7) [OF 2(2)] by fastforce
    show ?thesis
      using 2 f keep holdsD(2) [OF 2(2)] assms(1)
      by (auto simp: opened_def ini_open_def ini_load_def split: sum.splits option.split)
  qed
qed

lemma ini_open_cases:
  assumes "heap_ok h"
  shows "ini_open strerror (Readable bytes err) h = Abort out_of_memory \<and>
      (h_left h < 24 \<or> (\<exists>p h1. holds (h_blocks h) h1 p 0 0 [] [] [] \<and> h_left h1 + 24 = h_left h \<and> ini_lines p bytes 0 [] h1 = Abort out_of_memory)) \<or>
    (\<exists>res h'. ini_open strerror (Readable bytes err) h = Ret (res, h') \<and> opened h (ini_load strerror (Readable bytes err)) res h')"
proof -
  from calloc_ini [OF assms] consider
    "xcalloc 1 24 (Ini_struct \<lparr>in_pair = 0, in_count = 0, in_cap = 0\<rparr>) h = Abort out_of_memory" "h_left h < 24"
    | p h1 where "xcalloc 1 24 (Ini_struct \<lparr>in_pair = 0, in_count = 0, in_cap = 0\<rparr>) h = Ret (p, h1)" "holds (h_blocks h) h1 p 0 0 [] [] []"
      "h_left h1 + 24 = h_left h" by blast
  then show ?thesis
  proof cases
    case 1
    then show ?thesis by (simp add: ini_open_def)
  next
    case (2 p h1)
    with ini_open_after_lines [OF 2(1,2)] show ?thesis by blast
  qed
qed

text \<open>C29. The configuration file in memory refines the list of its pairs: in every heap the loader either
  aborts for lack of memory, which a large enough heap excludes, or returns without touching a block
  that is not its own. It refuses the same files with the same message as the loader on lists, and then
  has released everything it had allocated; otherwise the file in memory holds exactly the loaded pairs,
  with NUL-terminated copies of the strings, and \<open>ini_free\<close> gives back every block, each exactly once.\<close>

theorem ini_open_refines:
  assumes "heap_ok h"
  shows "(ini_open strerror src h = Abort out_of_memory \<or>
     (\<exists>res h'. ini_open strerror src h = Ret (res, h') \<and>
       (case ini_load strerror src of
          Inl e \<Rightarrow> res = Inl e \<and> h_blocks h' = h_blocks h
        | Inr xs \<Rightarrow> \<exists>p a cap pos h''. res = Inr p \<and> ini_at h' p a cap pos xs \<and> (\<forall>b \<in> dom (h_blocks h). h_blocks h' b = h_blocks h b) \<and>
            ini_free p h' = Ret h'' \<and> h_blocks h'' = h_blocks h))) \<and>
    (\<exists>N. \<forall>h. heap_ok h \<and> N \<le> h_left h \<longrightarrow> ini_open strerror src h \<noteq> Abort out_of_memory)"
proof (cases src)
  case (Unreadable e)
  then show ?thesis by (simp add: ini_open_def ini_load_def)
next
  case (Readable bytes err)
  from ini_lines_enough [of 0 bytes 0 "[]"] obtain N where
    N0: "\<forall>B h p a cap pos xs. holds B h p a cap pos xs [] \<and> length xs = 0 \<and> N \<le> h_left h \<longrightarrow> ini_lines p bytes 0 [] h \<noteq> Abort out_of_memory"
    by (elim exE)
  have N: "ini_lines p bytes 0 [] h \<noteq> Abort out_of_memory" if "holds B h p a cap pos [] []" "N \<le> h_left h" for B h p a cap pos
    using N0 [rule_format, of B h p a cap pos "[]"] that by simp
  have "ini_open strerror src h \<noteq> Abort out_of_memory" if "heap_ok h" "N + 24 \<le> h_left h" for h
    using ini_open_cases [OF that(1), of strerror bytes err] that(2) N unfolding Readable by (auto simp: add.commute dest: sym)
  with ini_open_cases [OF assms, of strerror bytes err] show ?thesis unfolding Readable opened_def by blast
qed

definition example_heap :: heap where
  "example_heap = \<lparr>h_blocks = Map.empty, h_next = 1, h_left = 0\<rparr>"

definition example_source :: config_source where
  "example_source = Readable (''[global]'' @ [CHR 0x0A] @ ''interface = eth0'' @ [CHR 0x0A]) None"

lemma example_source_loads:
  "ini_load (\<lambda>_. []) example_source = Inr [\<lparr>i_group = ''global'', i_key = ''interface'', i_value = ''eth0''\<rparr>]"
  by code_simp

theorem ini_open_refines_witness:
  "\<exists>n p h' h'' a cap pos. ini_open (\<lambda>_. []) example_source (example_heap\<lparr>h_left := n\<rparr>) = Ret (Inr p, h') \<and>
     ini_at h' p a cap pos [\<lparr>i_group = ''global'', i_key = ''interface'', i_value = ''eth0''\<rparr>] \<and>
     ini_free p h' = Ret h'' \<and> h_blocks h'' = Map.empty"
proof -
  have ok: "heap_ok (example_heap\<lparr>h_left := n\<rparr>)" "h_blocks (example_heap\<lparr>h_left := n\<rparr>) = Map.empty" for n
    by (simp_all add: heap_ok_def example_heap_def)
  note r = ini_open_refines [OF ok(1), of "\<lambda>_. []" example_source, unfolded example_source_loads ok(2) sum.case]
  from conjunct2 [OF r] obtain N where
    "\<forall>h. heap_ok h \<and> N \<le> h_left h \<longrightarrow> ini_open (\<lambda>_. []) example_source h \<noteq> Abort out_of_memory" by (elim exE)
  from this [rule_format, of "example_heap\<lparr>h_left := N\<rparr>"] ok(1) [of N] conjunct1 [OF r, of N] obtain p a cap pos h' h'' where
    "ini_open (\<lambda>_. []) example_source (example_heap\<lparr>h_left := N\<rparr>) = Ret (Inr p, h')"
    "ini_at h' p a cap pos [\<lparr>i_group = ''global'', i_key = ''interface'', i_value = ''eth0''\<rparr>]"
    "ini_free p h' = Ret h''" "h_blocks h'' = Map.empty" by auto
  then show ?thesis by (intro exI conjI)
qed

end
