(* ===== verification/Buffer_Correct.thy ===== *)
theory Buffer_Correct
  imports Buffer Memory_Correct
begin

text \<open>
  The functions of the buffer on the heap do what those on values do, use only blocks that they have
  allocated, and \<open>strbuf_free\<close> gives back both.
\<close>

section \<open>A buffer in the heap\<close>

text \<open>The heap holds the blocks of \<open>B\<close>, the structure at \<open>p\<close> and the block of its text, and nothing else.\<close>

definition buf_at :: "(addr \<rightharpoonup> nat \<times> content) \<Rightarrow> heap \<Rightarrow> addr \<Rightarrow> addr \<Rightarrow> strbuf \<Rightarrow> bool" where
  "buf_at B h p a b \<longleftrightarrow> heap_ok h \<and> a \<noteq> p \<and> p \<notin> dom B \<and> a \<notin> dom B \<and>
     h_blocks h = B(p \<mapsto> (24, Strbuf_struct \<lparr>so_str = a, so_len = sb_len b, so_cap = sb_cap b\<rparr>), a \<mapsto> (sb_cap b, Cells (sb_str b)))"

lemma buf_at_load: "buf_at B h p a b \<Longrightarrow> load_buf p h = Ret \<lparr>so_str = a, so_len = sb_len b, so_cap = sb_cap b\<rparr>"
  by (simp add: buf_at_def load_buf_def)

lemma buf_at_cells:
  assumes "buf_at B h p a b" "put_cells (sb_str b) at s = Some mem"
  shows "\<exists>h'. store_cells a at s h = Ret h' \<and> buf_at B h' p a (b\<lparr>sb_str := mem\<rparr>) \<and> h_left h' = h_left h"
  using assms by (auto simp: buf_at_def store_cells_def heap_ok_def fun_upd_twist)

lemma buf_at_len:
  assumes "buf_at B h p a b"
  shows "\<exists>h'. store_buf p \<lparr>so_str = a, so_len = n, so_cap = sb_cap b\<rparr> h = Ret h' \<and> buf_at B h' p a (b\<lparr>sb_len := n\<rparr>) \<and> h_left h' = h_left h"
  using assms by (auto simp: buf_at_def store_buf_def heap_ok_def fun_upd_twist [of p a])

text \<open>
  An operation on the heap against the operation on the value: it runs out of memory, which it
  does not with \<open>need\<close> bytes left, or returns with the value's result in the heap.
\<close>

definition refined :: "(addr \<rightharpoonup> nat \<times> content) \<Rightarrow> addr \<Rightarrow> nat \<Rightarrow> heap \<Rightarrow> heap run \<Rightarrow> strbuf option \<Rightarrow> bool" where
  "refined B p need h r v \<longleftrightarrow>
     r = Abort out_of_memory \<and> h_left h < need \<or>
     (\<exists>h' a b. r = Ret h' \<and> v = Some b \<and> buf_at B h' p a b \<and> h_left h \<le> h_left h' + need)"

lemma len_str: "b\<lparr>sb_len := n, sb_str := m\<rparr> = b\<lparr>sb_str := m, sb_len := n\<rparr>"
  by simp

lemma refinedE:
  assumes "refined B p need h r v"
  obtains (abort) "r = Abort out_of_memory" "h_left h < need"
    | (ret) h' a b where "r = Ret h'" "v = Some b" "buf_at B h' p a b" "h_left h \<le> h_left h' + need"
  using assms by (auto simp: refined_def)

lemma reserve_refined:
  assumes b: "buf_at B h p a b" and i: "strbuf_inv b"
  shows "refined B p (2 * (sb_len b + n + 1)) h (buf_reserve p n h) (strbuf_reserve b n)"
proof (cases "sb_len b + n + 1 \<le> sb_cap b")
  case True
  then show ?thesis using b by (auto simp: refined_def buf_reserve_def strbuf_reserve_def buf_at_load [OF b])
next
  case False
  from i obtain w where w: "grow (sb_cap b) (sb_len b + n + 1) = Some w" "sb_len b + n + 1 \<le> w" "w = sb_cap b \<or> w < 2 * (sb_len b + n + 1)"
    using grow_spec [of "sb_cap b" "sb_len b + n + 1"] by (auto simp: strbuf_inv_def)
  let ?b = "b\<lparr>sb_str := take w (sb_str b) @ replicate (w - length (sb_str b)) None, sb_cap := w\<rparr>"
  have v: "strbuf_reserve b n = Some ?b" using False w(1) by (simp add: strbuf_reserve_def)
  have "h_blocks h a = Some (sb_cap b, Cells (sb_str b))" "a \<noteq> 0" "heap_ok h" using b by (auto simp: buf_at_def heap_ok_def)
  note moved = realloc_moves [OF this(3,1,2), of w "Cells (replicate w None)" "grow_cells w"]
  let ?r = "xrealloc a w (Cells (replicate w None)) (grow_cells w) h"
  have step: "buf_reserve p n h = and_run ?r (\<lambda>(q, h1). store_buf p \<lparr>so_str = q, so_len = sb_len b, so_cap = w\<rparr> h1)"
    using False w(1) by (simp add: buf_reserve_def buf_at_load [OF b])
  from moved w(2) consider "h_left h < w" "?r = Abort out_of_memory"
    | q h1 where "?r = Ret (q, h1)" "q \<notin> dom (h_blocks h)" "heap_ok h1" "h_left h \<le> h_left h1 + w"
        "h_blocks h1 = (h_blocks h)(q \<mapsto> (w, Cells (sb_str ?b)), a := None)" by (auto simp: xrealloc_def grow_cells_def)
  then show ?thesis
  proof cases
    case 1
    with step w(2,3) False show ?thesis by (auto simp: refined_def)
  next
    case (2 q h1)
    let ?h = "h1\<lparr>h_blocks := B(p \<mapsto> (24, Strbuf_struct \<lparr>so_str = q, so_len = sb_len b, so_cap = w\<rparr>), q \<mapsto> (w, Cells (sb_str ?b)))\<rparr>"
    have bl: "a \<noteq> p" "B a = None" "h_blocks h = B(p \<mapsto> (24, Strbuf_struct \<lparr>so_str = a, so_len = sb_len b, so_cap = sb_cap b\<rparr>), a \<mapsto> (sb_cap b, Cells (sb_str b)))"
      using b by (auto simp: buf_at_def)
    have new: "q \<noteq> p" "q \<noteq> a" "q \<notin> dom B" using 2(2) unfolding bl(3) by (auto simp: domIff split: if_splits)
    have "h_blocks h1 = B(p \<mapsto> (24, Strbuf_struct \<lparr>so_str = a, so_len = sb_len b, so_cap = sb_cap b\<rparr>), q \<mapsto> (w, Cells (sb_str ?b)))" 
      using new bl 2(5) by (auto simp: fun_eq_iff)
    with new have "store_buf p \<lparr>so_str = q, so_len = sb_len b, so_cap = w\<rparr> h1 = Ret ?h" "buf_at B ?h p q ?b"
      using b 2(3) by (auto simp: store_buf_def buf_at_def heap_ok_def fun_upd_twist)
    then show ?thesis using 2(1,4) step v w(3) False i by (auto simp: refined_def strbuf_inv_def)
  qed
qed

section \<open>Appending\<close>

lemma append_refined:
  assumes b: "buf_at B h p a b" and i: "strbuf_inv b"
  shows "refined B p (2 * (sb_len b + length s + 1)) h (buf_append_len p s h) (strbuf_append_len b s)"
  using reserve_refined [OF b i, of "length s"]
proof (cases rule: refinedE)
  case abort
  then show ?thesis by (simp add: refined_def buf_append_len_def)
next
  case (ret h1 a1 b1)
  from strbuf_append_total(1) [OF i, of s] ret(2) obtain mem mem' where
    m: "put_cells (sb_str b1) (sb_len b1) s = Some mem" "put_cells mem (sb_len b1 + length s) [nul] = Some mem'"
    by (auto simp: strbuf_append_len_def Let_def split: bind_splits)
  obtain h2 where 2: "store_cells a1 (sb_len b1) s h1 = Ret h2" "buf_at B h2 p a1 (b1\<lparr>sb_str := mem\<rparr>)" "h_left h2 = h_left h1"
    using buf_at_cells [OF ret(3) m(1)] by blast
  obtain h3 where 3: "store_buf p \<lparr>so_str = a1, so_len = sb_len b1 + length s, so_cap = sb_cap b1\<rparr> h2 = Ret h3"
    "buf_at B h3 p a1 (b1\<lparr>sb_str := mem, sb_len := sb_len b1 + length s\<rparr>)" "h_left h3 = h_left h2"
    using buf_at_len [OF 2(2), of "sb_len b1 + length s"] by auto
  obtain h4 where "store_cells a1 (sb_len b1 + length s) [nul] h3 = Ret h4"
    "buf_at B h4 p a1 (b1\<lparr>sb_str := mem', sb_len := sb_len b1 + length s\<rparr>)" "h_left h4 = h_left h3"
    using buf_at_cells [OF 3(2), of "sb_len b1 + length s" "[nul]" mem'] m(2) by (auto simp: len_str)
  with ret 2 3 m show ?thesis
    by (auto simp: refined_def buf_append_len_def strbuf_append_len_def Let_def buf_at_load [OF ret(3)])
qed

lemma appendf_refined:
  assumes b: "buf_at B h p a b" and i: "strbuf_inv b"
  shows "refined B p (2 * (sb_len b + length s + 1)) h (buf_appendf p s h) (strbuf_appendf b s)"
proof (cases "s = []")
  case True
  then show ?thesis using b by (auto simp: refined_def buf_appendf_def strbuf_appendf_def)
next
  case ne: False
  from reserve_refined [OF b i, of "length s"] show ?thesis
  proof (cases rule: refinedE)
    case abort
    with ne show ?thesis by (simp add: refined_def buf_appendf_def)
  next
    case (ret h1 a1 b1)
    from strbuf_append_total(2) [OF i, of s] ret(2) ne obtain mem where
      m: "put_cells (sb_str b1) (sb_len b1) (s @ [nul]) = Some mem" by (auto simp: strbuf_appendf_def split: bind_splits)
    obtain h2 where 2: "store_cells a1 (sb_len b1) (s @ [nul]) h1 = Ret h2" "buf_at B h2 p a1 (b1\<lparr>sb_str := mem\<rparr>)" "h_left h2 = h_left h1"
      using buf_at_cells [OF ret(3) m(1)] by blast
    obtain h3 where 3: "store_buf p \<lparr>so_str = a1, so_len = sb_len b1 + length s, so_cap = sb_cap b1\<rparr> h2 = Ret h3"
      "buf_at B h3 p a1 (b1\<lparr>sb_str := mem, sb_len := sb_len b1 + length s\<rparr>)" "h_left h3 = h_left h2"
      using buf_at_len [OF 2(2), of "sb_len b1 + length s"] by auto
    with ret 2 m ne show ?thesis
      by (auto simp: refined_def buf_appendf_def strbuf_appendf_def buf_at_load [OF ret(3)])
  qed
qed

lemma assign_refined:
  assumes b: "buf_at B h p a b" and i: "strbuf_inv b"
  shows "refined B p (2 * (length s + 1)) h (buf_assign p s h) (strbuf_assign b s)"
proof -
  obtain mem where m: "put_cells (sb_str b) 0 [nul] = Some mem" "strbuf_inv (b\<lparr>sb_len := 0, sb_str := mem\<rparr>)"
    using strbuf_clear [OF i] by blast
  obtain h1 where 1: "store_buf p \<lparr>so_str = a, so_len = 0, so_cap = sb_cap b\<rparr> h = Ret h1" "buf_at B h1 p a (b\<lparr>sb_len := 0\<rparr>)" "h_left h1 = h_left h"
    using buf_at_len [OF b, of 0] by blast
  obtain h2 where 2: "store_cells a 0 [nul] h1 = Ret h2" "buf_at B h2 p a (b\<lparr>sb_len := 0, sb_str := mem\<rparr>)" "h_left h2 = h_left h1"
    using buf_at_cells [OF 1(2), of 0 "[nul]" mem] m(1) by auto
  have "buf_assign p s h = buf_append_len p s h2" using 1(1) 2(1) by (simp add: buf_assign_def buf_append_def buf_at_load [OF b])
  moreover have "strbuf_assign b s = strbuf_append_len (b\<lparr>sb_len := 0, sb_str := mem\<rparr>) s"
    using m(1) by (simp add: strbuf_assign_def strbuf_append_def)
  moreover have "h_left h2 = h_left h" using 1(3) 2(3) by simp
  ultimately show ?thesis using append_refined [OF 2(2) m(2), of s] by (simp add: refined_def)
qed

section \<open>Creating and releasing\<close>

definition empty_buf :: strbuf where
  "empty_buf = \<lparr>sb_str = Some nul # replicate 63 None, sb_len = 0, sb_cap = 64\<rparr>"

lemma empty_buf_ok: "strbuf_inv empty_buf" "strbuf_text empty_buf = []" "sb_len empty_buf = 0"
  by (simp_all add: empty_buf_def strbuf_inv_def strbuf_text_def)

lemma strbuf_new_empty: "strbuf_new init = (case init of None \<Rightarrow> Some empty_buf | Some s \<Rightarrow> strbuf_append_len empty_buf s)"
  by (simp add: strbuf_new_def put_cells_def empty_buf_def strbuf_append_def split: option.split)

text \<open>The two allocations of \<open>strbuf_new\<close>, before the text that it starts with.\<close>

lemma buf_new_blocks:
  assumes "heap_ok h"
  shows "buf_new init h = Abort out_of_memory \<and> h_left h < 88 \<or>
    (\<exists>p a h1. buf_at (h_blocks h) h1 p a empty_buf \<and> h_left h = h_left h1 + 88 \<and>
       buf_new init h = (case init of None \<Rightarrow> Ret (p, h1) | Some s \<Rightarrow> and_run (buf_append p s h1) (\<lambda>h2. Ret (p, h2))))"
proof -
  let ?z = "\<lparr>so_str = 0, so_len = 0, so_cap = 0\<rparr>" and ?c = "Cells (replicate 64 None)"
  from malloc_check [OF assms, of 24 "Strbuf_struct ?z"] consider
    "xcalloc 1 24 (Strbuf_struct ?z) h = Abort out_of_memory" "h_left h < 24"
    | p h1 where "xcalloc 1 24 (Strbuf_struct ?z) h = Ret (p, h1)" "allocated h 24 (Strbuf_struct ?z) (p, h1)"
    by (auto simp: xcalloc_def SIZE_MAX_def)
  then show ?thesis
  proof cases
    case 1
    then show ?thesis by (simp add: buf_new_def)
  next
    case p: (2 p h1)
    let ?h2 = "h1\<lparr>h_blocks := (h_blocks h)(p \<mapsto> (24, Strbuf_struct \<lparr>so_str = 0, so_len = 0, so_cap = 64\<rparr>))\<rparr>"
    have s2: "store_buf p \<lparr>so_str = 0, so_len = 0, so_cap = 64\<rparr> h1 = Ret ?h2" "heap_ok ?h2"
      using p(2) by (auto simp: allocated_def store_buf_def heap_ok_def)
    from malloc_check [OF s2(2), of 64 ?c] consider "xmalloc 64 ?h2 = Abort out_of_memory" "h_left h1 < 64"
      | a h3 where "xmalloc 64 ?h2 = Ret (a, h3)" "allocated ?h2 64 ?c (a, h3)" by (auto simp: xmalloc_def)
    then show ?thesis
    proof cases
      case 1
      then show ?thesis using p s2(1) by (auto simp: buf_new_def allocated_def)
    next
      case (2 a h3)
      have ap: "a \<noteq> p" "p \<notin> dom (h_blocks h)" "a \<notin> dom (h_blocks h)" using p(2) 2(2) by (auto simp: allocated_def)
      let ?b = "empty_buf\<lparr>sb_str := replicate 64 None\<rparr>"
      let ?h4 = "h3\<lparr>h_blocks := (h_blocks h)(p \<mapsto> (24, Strbuf_struct \<lparr>so_str = a, so_len = 0, so_cap = 64\<rparr>), a \<mapsto> (64, ?c))\<rparr>"
      have s4: "store_buf p \<lparr>so_str = a, so_len = 0, so_cap = 64\<rparr> h3 = Ret ?h4" "buf_at (h_blocks h) ?h4 p a ?b"
        using 2(2) ap by (auto simp: allocated_def store_buf_def buf_at_def heap_ok_def empty_buf_def fun_upd_twist [of p a])
      have "put_cells (sb_str ?b) 0 [nul] = Some (sb_str empty_buf)" by (simp add: put_cells_def empty_buf_def)
      from buf_at_cells [OF s4(2) this] obtain h5 where h5: "store_cells a 0 [nul] ?h4 = Ret h5" "buf_at (h_blocks h) h5 p a empty_buf" "h_left h5 = h_left h3"
        by auto
      then have "buf_new init h = (case init of None \<Rightarrow> Ret (p, h5) | Some s \<Rightarrow> and_run (buf_append p s h5) (\<lambda>h2. Ret (p, h2)))"
        using p(1) 2(1) s2(1) s4(1) by (simp add: buf_new_def)
      moreover have "h_left h = h_left h5 + 88" using h5(3) p(2) 2(2) by (simp add: allocated_def)
      ultimately show ?thesis using h5(2) by blast
    qed
  qed
qed

lemma buf_free:
  assumes "buf_at B h p a b"
  shows "\<exists>h'. strbuf_free p h = Ret h' \<and> h_blocks h' = B"
proof -
  from strbuf_free_blocks [of h p 24 "\<lparr>so_str = a, so_len = sb_len b, so_cap = sb_cap b\<rparr>" "(sb_cap b, Cells (sb_str b))"] assms obtain h' where
    h': "strbuf_free p h = Ret h'" "h_blocks h' = (h_blocks h)(a := None, p := None)" by (auto simp: buf_at_def)
  have "B p = None" "B a = None" using assms by (auto simp: buf_at_def)
  then have "h_blocks h' = B" unfolding h'(2) using assms by (auto simp: buf_at_def fun_eq_iff)
  with h'(1) show ?thesis by blast
qed

section \<open>Sequences of operations\<close>

fun buf_step :: "addr \<Rightarrow> sb_op \<Rightarrow> heap \<Rightarrow> heap run" where
  "buf_step p (Sb_append s) h = buf_append p s h"
| "buf_step p (Sb_appendf s) h = buf_appendf p s h"
| "buf_step p (Sb_append_char c) h = buf_append_char p c h"
| "buf_step p (Sb_assign s) h = buf_assign p s h"

fun buf_run :: "addr \<Rightarrow> sb_op list \<Rightarrow> heap \<Rightarrow> heap run" where
  "buf_run p [] h = Ret h"
| "buf_run p (x # xs) h = and_run (buf_step p x h) (buf_run p xs)"

text \<open>From \<open>strbuf_new\<close> to the buffer before its release.\<close>

definition buf_life :: "string option \<Rightarrow> sb_op list \<Rightarrow> heap \<Rightarrow> (addr \<times> heap) run" where
  "buf_life init xs h = and_run (buf_new init h) (\<lambda>(p, h1). and_run (buf_run p xs h1) (\<lambda>h2. Ret (p, h2)))"

fun op_length :: "sb_op \<Rightarrow> nat" where
  "op_length (Sb_append s) = length s"
| "op_length (Sb_appendf s) = length s"
| "op_length (Sb_append_char c) = 1"
| "op_length (Sb_assign s) = length s"

lemma refined_mono: "refined B p n h r v \<Longrightarrow> n \<le> m \<Longrightarrow> refined B p m h r v"
  by (auto simp: refined_def)

lemma text_length: "strbuf_inv b \<Longrightarrow> length (strbuf_text b) = sb_len b"
  by (simp add: strbuf_inv_def strbuf_text_def)

lemma step_refined:
  assumes "buf_at B h p a b" "strbuf_inv b"
  shows "refined B p (2 * (length (strbuf_text b) + op_length x + 1)) h (buf_step p x h) (sb_step b x)"
  using append_refined [OF assms] appendf_refined [OF assms] refined_mono [OF assign_refined [OF assms]] append_refined [OF assms, of "[c]" for c]
  by (cases x) (simp_all add: buf_append_def strbuf_append_def buf_append_char_def strbuf_append_char_def text_length [OF assms(2)])

text \<open>How many bytes suffice for a sequence on a buffer that holds \<open>t\<close>.\<close>

fun run_bytes :: "string \<Rightarrow> sb_op list \<Rightarrow> nat" where
  "run_bytes t [] = 0"
| "run_bytes t (x # xs) = 2 * (length t + op_length x + 1) + run_bytes (sb_spec t x) xs"

lemma run_refined:
  assumes "buf_at B h p a b" "strbuf_inv b"
  shows "refined B p (run_bytes (strbuf_text b) xs) h (buf_run p xs h) (sb_run b xs)"
  using assms
proof (induction xs arbitrary: h a b)
  case Nil
  then show ?case by (auto simp: refined_def)
next
  case (Cons x xs)
  obtain b1 where v: "sb_step b x = Some b1" "strbuf_inv b1" "strbuf_text b1 = sb_spec (strbuf_text b) x" using sb_step_total [OF Cons.prems(2)] by blast
  from step_refined [OF Cons.prems, of x] show ?case
  proof (cases rule: refinedE)
    case abort
    then show ?thesis by (simp add: refined_def)
  next
    case (ret h1 a1 b2)
    with v(1) have "buf_at B h1 p a1 b1" by simp
    from Cons.IH [OF this v(2)] show ?thesis
      using ret(1,4) v(1,3) by (auto simp: refined_def)
  qed
qed

section \<open>Property\<close>

text \<open>The text that \<open>strbuf_new\<close> starts with is appended first.\<close>

definition all_ops :: "string option \<Rightarrow> sb_op list \<Rightarrow> sb_op list" where
  "all_ops init xs = (case init of None \<Rightarrow> xs | Some s \<Rightarrow> Sb_append s # xs)"

lemma buf_life_cases:
  assumes "heap_ok h"
  shows "buf_life init xs h = Abort out_of_memory \<and> h_left h < 88 + run_bytes [] (all_ops init xs) \<or>
    (\<exists>p a b h'. buf_life init xs h = Ret (p, h') \<and> buf_at (h_blocks h) h' p a b \<and> sb_run empty_buf (all_ops init xs) = Some b)"
  using buf_new_blocks [OF assms, of init]
proof (elim disjE exE conjE)
  fix p a h1 assume 1: "buf_at (h_blocks h) h1 p a empty_buf" "h_left h = h_left h1 + 88"
    "buf_new init h = (case init of None \<Rightarrow> Ret (p, h1) | Some s \<Rightarrow> and_run (buf_append p s h1) (\<lambda>h2. Ret (p, h2)))"
  have life: "buf_life init xs h = and_run (buf_run p (all_ops init xs) h1) (\<lambda>h2. Ret (p, h2))"
  proof (cases init)
    case (Some s)
    then show ?thesis using 1(3) by (cases "buf_append p s h1") (simp_all add: buf_life_def all_ops_def)
  qed (use 1(3) in \<open>simp add: buf_life_def all_ops_def\<close>)
  from run_refined [OF 1(1) empty_buf_ok(1), of "all_ops init xs"] show ?thesis
  proof (cases rule: refinedE)
    case abort
    then show ?thesis using life 1(2) empty_buf_ok(2) by simp
  next
    case (ret h' a' b)
    then show ?thesis using life by auto
  qed
qed (simp add: buf_life_def)

text \<open>C22. The growable buffer in memory: in every heap, a buffer that is created and then goes through any
  sequence of appends and assignments either aborts for lack of memory, or holds exactly the text that
  was appended, NUL-terminated in a block of its capacity, with every store inside that block or the
  structure and every other block as it was; \<open>strbuf_free\<close> then returns the heap to what it was. It
  does not abort when the bytes that the sequence asks for are left.\<close>

theorem buffer_refines:
  assumes "heap_ok h"
  shows "(buf_life init xs h = Abort out_of_memory \<or>
      (\<exists>p a b h' h''. buf_life init xs h = Ret (p, h') \<and> buf_at (h_blocks h) h' p a b \<and> strbuf_inv b \<and>
        strbuf_text b = foldl sb_spec (case init of None \<Rightarrow> [] | Some s \<Rightarrow> s) xs \<and>
        strbuf_free p h' = Ret h'' \<and> h_blocks h'' = h_blocks h)) \<and>
    (88 + run_bytes [] (all_ops init xs) \<le> h_left h \<longrightarrow> buf_life init xs h \<noteq> Abort out_of_memory)"
  using buf_life_cases [OF assms, of init xs]
proof (elim disjE exE conjE)
  fix p a b h' assume 1: "buf_life init xs h = Ret (p, h')" "buf_at (h_blocks h) h' p a b" "sb_run empty_buf (all_ops init xs) = Some b"
  from sb_run_total [OF empty_buf_ok(1), of "all_ops init xs"] 1(3) have "strbuf_inv b" "strbuf_text b = foldl sb_spec (case init of None \<Rightarrow> [] | Some s \<Rightarrow> s) xs"
    by (auto simp: all_ops_def empty_buf_ok(2) split: option.splits)
  moreover obtain h'' where "strbuf_free p h' = Ret h''" "h_blocks h'' = h_blocks h" using buf_free [OF 1(2)] by blast
  ultimately show ?thesis using 1(1,2) by auto
qed simp

theorem buffer_refines_witness:
  "\<exists>p a b h' h''. buf_life (Some ''ok'') [Sb_append_char CHR ''!''] (example_heap\<lparr>h_left := 102\<rparr>) = Ret (p, h') \<and>
     buf_at Map.empty h' p a b \<and> strbuf_text b = ''ok!'' \<and> strbuf_free p h' = Ret h'' \<and> h_blocks h'' = Map.empty"
proof -
  have ok: "heap_ok (example_heap\<lparr>h_left := 102\<rparr>)" "h_blocks (example_heap\<lparr>h_left := 102\<rparr>) = Map.empty" by (simp_all add: heap_ok_def example_heap_def)
  have "88 + run_bytes [] (all_ops (Some ''ok'') [Sb_append_char CHR ''!'']) \<le> h_left (example_heap\<lparr>h_left := 102\<rparr>)" by (simp add: all_ops_def)
  with buffer_refines [OF ok(1), of "Some ''ok''" "[Sb_append_char CHR ''!'']"] show ?thesis by (auto simp: ok(2)) blast
qed

end
