(* ===== verification/Spec2Isabelle.thy ===== *)
theory Spec2Isabelle
  imports Daemon_Main Files_Correct Buffer_Correct
begin

text \<open>
  A verification library for SoftGREd, the daemon under \<open>src/src\<close>. The daemon captures encapsulated
  frames on an interface, creates a GRE tunnel for every admitted remote that sends them, attaches
  the tunnel's VLANs to bridges, opens the firewall for every client address it learns, and answers
  questions about its state on a TCP port. All of it runs in one process and one thread: \<open>main\<close> starts
  the parts in order, then polls a signal descriptor, the capture socket and the status API, and
  finally shuts the parts down.

  \<^bold>\<open>The parts and their theories.\<close> Definitions are in the theory named first, in the order of the
  source; the theories behind it hold the invariants and the properties. A definition has the name of
  the C function it translates; a loop or a block of a function that is a definition of its own is
  described where it stands.

  \<^item> \<open>Prelude\<close>: machine integers, C strings and the part of libc that the sources call.
  \<^item> \<open>Compat\<close> (\<open>compat.c\<close>, \<open>compat.h\<close>): string helpers and the growable buffer, whose interface to its
    clients is the locale \<open>text_buffer\<close>.
  \<^item> \<open>Hashmap\<close>, \<open>Hashmap_Correct\<close> (\<open>hashmap.c\<close>): the open-addressing table with its iterator and hash
    functions. The locale \<open>finite_map\<close> is what the rest of the program relies on; it is interpreted for
    the table of tunnels and for the index of addresses.
  \<^item> \<open>Payload\<close>, \<open>Payload_Correct\<close>, \<open>Capture\<close> (\<open>payload.c\<close>): the frame parser, the classic BPF program
    that the socket gets, and the capture socket with its batches of 64 frames.
  \<^item> \<open>Config\<close>, \<open>Config_Correct\<close> (\<open>softgred_config.c\<close>, \<open>general.h\<close>): the command line, the INI reader, the
    allowlist and the bridge map.
  \<^item> \<open>Memory\<close>, \<open>Memory_Correct\<close>, \<open>Buffer\<close>, \<open>Buffer_Correct\<close> (\<open>compat.c\<close>, \<open>softgred_config.c\<close>): the allocation
    wrappers over an explicit heap of typed blocks, and the configuration file and the growable buffer
    as they lie in memory. They refine the functions on values that the other theories use.
  \<^item> \<open>Os\<close>, \<open>Os_Correct\<close> (\<open>log.c\<close>, \<open>helper.c\<close>): the boundary of the process, log messages, commands with
    their deadline, the clock and the search on the path.
  \<^item> \<open>Netlink\<close>, \<open>Netlink_Correct\<close> (\<open>iface_gre.c\<close>, \<open>iface_bridge.c\<close>): link requests byte by byte, and the
    scan of the kernel's answers.
  \<^item> \<open>Ebtables\<close>, \<open>Ebtables_Correct\<close> (\<open>iface_ebtables.c\<close>): chains, hooks and client rules.
  \<^item> \<open>Provision\<close> and the six theories named after it (\<open>provision.c\<close>): tunnels, slots, clients, backoff
    and clean-ups. Tunnels live in the explicit heap \<open>p_heap\<close>, since the table and the index share them.
    \<open>Provision_Inv\<close> has the invariant, \<open>Provision_Tunnel\<close>, \<open>Provision_Packet\<close> and \<open>Provision_Cleanup\<close> the
    operations, \<open>Provision_Correct\<close> the properties over sequences of events, \<open>Provision_Live\<close> progress.
  \<^item> \<open>Service_Cmd\<close>, \<open>Service_Cmd_Correct\<close> (\<open>service_cmd.c\<close>): the status commands. \<open>Service\<close>,
    \<open>Service_Inv\<close>, \<open>Service_Correct\<close> (\<open>service.c\<close>): listener, client table and dispatch, over the commands
    through the locale \<open>responder\<close>.
  \<^item> \<open>Io\<close>: descriptors and the static variables of the program. \<open>Files\<close>, \<open>Files_Correct\<close> (\<open>log.c\<close>,
    \<open>softgred_config.c\<close>): the log file and the PID file.
  \<^item> \<open>Daemon\<close> (\<open>softgred.c\<close>): \<open>main\<close>, one definition per stage of the start-up, \<open>loop_round\<close>, \<open>daemon_loop\<close>
    and \<open>shutdown\<close>, in the build with the status API and in the build without it (\<open>b_service\<close>).
    \<open>Daemon_Ledger\<close> follows the descriptors and the shutdown, \<open>Daemon_Start\<close> the stages of the
    start-up, \<open>Daemon_Calm\<close> the bursts of signals, \<open>Daemon_Correct\<close> the rounds, \<open>Daemon_Live\<close> progress,
    and \<open>Daemon_Main\<close> the whole program. The theory at hand has the properties across the parts.

  \<^bold>\<open>State and effects.\<close> Operations pass their state explicitly. \<open>sys\<close> is what lies between the process
  and the kernel (the world, \<open>errno\<close>, the log descriptor), \<open>prov\<close> adds the tunnels, and \<open>daemon\<close> all other
  statics. The world has an arbitrary type; the records \<open>env\<close> and \<open>io\<close> say what each system call returns
  in it and what it makes of it, so that a theorem about all of them covers every behaviour of kernel,
  commands, peers and clients. The result \<open>None\<close> of an operation is undefined behaviour of the C program
  (an access outside of an array, a pointer to a tunnel that is gone, a second free, a descriptor that
  is not open) or a loop that does not end; that an operation returns \<open>Some\<close> excludes all of them. In
  \<open>Memory\<close> these are \<open>Stuck\<close>, beside \<open>Abort\<close> for the abort of the allocation wrappers. Four fields have no
  counterpart in the program and only record what happened: \<open>g_fds\<close> the open descriptors, \<open>g_unlinked\<close>
  the removed files, \<open>s_execs\<close> the commands with their success, \<open>s_stderr\<close> what was printed.

  \<^bold>\<open>What is assumed of the environment.\<close>
  \<^item> \<open>env_ok\<close>: the monotonic clock does not go back, sleeping advances it, and interruptions of a
    call and the messages that a netlink socket delivers end.
  \<^item> \<open>io_ok\<close>, \<open>poll_ok\<close>: \<open>recv\<close> and \<open>send\<close> stay within the length given, \<open>poll\<close> answers for each entry.
  \<^item> \<open>reads_end\<close>, \<open>signals_end\<close>: the interruptions of the parent's read and a burst of signals end.
  \<^item> \<open>healthy\<close>, \<open>willing\<close>, only for progress: the kernel grants requests, commands and the calls of the
    start-up succeed. The witnesses give environments that satisfy each of these assumptions.

  \<^bold>\<open>What is shown.\<close>
  \<^item> The whole program: it starts and learns in a willing environment, every path out of it releases
    everything, a stop signal ends it, and only admitted peers lead to learned clients
    (\<open>main_provisions\<close>, \<open>main_lifecycle\<close>, \<open>main_stops\<close>, \<open>daemon_learns_admitted\<close>).
  \<^item> Tunnels: refinement of an abstract learning table over all sequences of events, the invariant,
    that no client is taken over, rollback of failed set-ups, clean-ups and their retry, no double
    free, and progress and recovery.
  \<^item> Hash map: refinement of a finite map, each entry freed once, the representation kept.
  \<^item> Parser and filter: equivalence with an encoder of frames, no read outside, the filter passes
    every frame that the parser accepts.
  \<^item> Configuration: what every accepted configuration satisfies, the meaning of the allowlist and that
    it fails closed, malformed lines and round trips.
  \<^item> Memory: the configuration file and the buffer are built without stray access, give back every block
    they allocated, and abort only for lack of memory.
  \<^item> Kernel interface: exact requests, answers scanned within their bytes, truthful firewall bits,
    commands that return before their deadline.
  \<^item> Status API: every command answered as its specification says within the limit on responses, and
    every round a step of the clients' sessions.

  \<^bold>\<open>Bounds.\<close> The numbers are those of the code: 64 frames and 16 connections per round, 128 clients of
  the status API, 4096 tunnel slots, 1024 addresses per tunnel, requests of \<open>SERVICE_MAX_REQUEST\<close> bytes
  and responses of 1 MiB, 5 seconds for a status client and 3 seconds for a command. No fuel is added: a
  loop that is bounded in the code recurses over its bound, a loop over data has a measure, and the
  waiting loops are \<open>partial_function (option)\<close> with a proof that they return. The heap of \<open>Memory\<close> has
  a number of bytes left, which is arbitrary in the theorems; \<open>ini_open_refines\<close> also says that some
  number suffices, and \<open>buffer_refines\<close> which. Words keep the width of the C types where they can wrap (hashes, addresses, masks,
  netlink fields, counters of packets); sizes that the code bounds are natural numbers.

  \<^bold>\<open>Not modelled.\<close> The expansion of format strings by \<open>vsnprintf\<close> is written out at each call; parsing
  by \<open>getopt_long\<close> is a list of options that a run starts from; \<open>umask\<close>, the disposition of \<open>SIGPIPE\<close>
  and the buffer of \<open>getline\<close> have no effect in the model. Tables, strings
  and buffers are values in the theories other than \<open>Memory\<close> and \<open>Buffer\<close> (tunnels apart), so that
  running out of memory, which aborts, does not occur there. Headers hold prototypes beside the
  constants and structures that are modelled, and the tests and build files are not part of the model.
\<close>

section \<open>Names of interfaces\<close>

lemma vlan_name_full:
  assumes "config_ok cfg" "n < SOFTGRED_MAX_SLOTS" "b \<in> set (c_bridge cfg)"
  shows "snprintf_buf IFNAMSIZ (vlan_name (tunnel_name (the (c_tunnel_prefix cfg)) n) (br_vlan_id b)) =
      the (c_tunnel_prefix cfg) @ dec_str n @ ''.'' @ dec_str (unat (br_vlan_id b))"
    "length (the (c_tunnel_prefix cfg) @ dec_str n @ ''.'' @ dec_str (unat (br_vlan_id b))) < IFNAMSIZ"
proof -
  let ?p = "the (c_tunnel_prefix cfg)" and ?v = "unat (br_vlan_id b)"
  have p: "length ?p \<le> 6" using assms(1) by (simp add: config_ok_def)
  have "?v \<le> 4094" using assms(1,3) by (auto simp: config_ok_def bridges_ok_def list_all_iff bridge_ok_def)
  then have "length (dec_str ?v) \<le> 4" by (intro dec_str_length) simp_all
  with tunnel_name_fits(2) [OF p assms(2)] show "length (?p @ dec_str n @ ''.'' @ dec_str ?v) < IFNAMSIZ" by (simp add: IFNAMSIZ_def)
  then show "snprintf_buf IFNAMSIZ (vlan_name (tunnel_name ?p n) (br_vlan_id b)) = ?p @ dec_str n @ ''.'' @ dec_str ?v"
    unfolding vlan_name_def tunnel_name_fits(1) [OF p assms(2)] by (subst snprintf_buf_fits) simp_all
qed

lemma dotted_inj:
  assumes "dec_str n @ ''.'' @ dec_str v = dec_str n' @ ''.'' @ dec_str v'"
  shows "n = n'" "v = v'"
proof -
  have d: "takeWhile (\<lambda>c. c \<noteq> CHR ''.'') (dec_str k @ ''.'' @ s) = dec_str k" for k s
    using dot_not_dec_str [of k] by (subst takeWhile_append2) auto
  from arg_cong [OF assms, of "takeWhile (\<lambda>c. c \<noteq> CHR ''.'')"] have "dec_str n = dec_str n'" unfolding d .
  then show "n = n'" by (simp add: dec_str_inj)
  with assms show "v = v'" by (simp add: dec_str_inj)
qed

section \<open>Properties that span components\<close>



text \<open>C40. Under every configuration that loads, the names of VLAN interfaces are complete and distinct: for
  every slot and every configured bridge the name that is sent to the kernel is the prefix, the
  slot, a dot and the VLAN id without truncation, and two different pairs have different names.\<close>

theorem vlan_names_distinct:
  assumes "config_ok cfg" "n < SOFTGRED_MAX_SLOTS" "b \<in> set (c_bridge cfg)"
  shows "snprintf_buf IFNAMSIZ (vlan_name (tunnel_name (the (c_tunnel_prefix cfg)) n) (br_vlan_id b)) =
      the (c_tunnel_prefix cfg) @ dec_str n @ ''.'' @ dec_str (unat (br_vlan_id b)) \<and>
    length (vlan_name (tunnel_name (the (c_tunnel_prefix cfg)) n) (br_vlan_id b)) < IFNAMSIZ \<and>
    (\<forall>n' b'. n' < SOFTGRED_MAX_SLOTS \<and> b' \<in> set (c_bridge cfg) \<and>
      vlan_name (tunnel_name (the (c_tunnel_prefix cfg)) n') (br_vlan_id b') = vlan_name (tunnel_name (the (c_tunnel_prefix cfg)) n) (br_vlan_id b) \<longrightarrow>
      n' = n \<and> br_vlan_id b' = br_vlan_id b)"
proof -
  have p: "length (the (c_tunnel_prefix cfg)) \<le> 6" using assms(1) by (simp add: config_ok_def)
  have v: "vlan_name (tunnel_name (the (c_tunnel_prefix cfg)) k) w = the (c_tunnel_prefix cfg) @ dec_str k @ ''.'' @ dec_str (unat w)"
    if "k < SOFTGRED_MAX_SLOTS" for k w using tunnel_name_fits(1) [OF p that] by (simp add: vlan_name_def)
  have "n' = n \<and> br_vlan_id b' = br_vlan_id b"
    if "n' < SOFTGRED_MAX_SLOTS" "vlan_name (tunnel_name (the (c_tunnel_prefix cfg)) n') (br_vlan_id b') = vlan_name (tunnel_name (the (c_tunnel_prefix cfg)) n) (br_vlan_id b)" for n' b'
    using that(2) dotted_inj [of n' "unat (br_vlan_id b')" n "unat (br_vlan_id b)"] v [OF that(1)] v [OF assms(2)] by (simp add: unsigned_word_eqI)
  then show ?thesis using vlan_name_full [OF assms] v [OF assms(2)] by auto
qed

theorem vlan_names_distinct_witness:
  "snprintf_buf IFNAMSIZ (vlan_name (tunnel_name ''sgre'' 4095) 10) = ''sgre'' @ dec_str 4095 @ ''.'' @ dec_str 10"
  using vlan_names_distinct [OF example_config_ok, of 4095 "\<lparr>br_ifname = ''br0'', br_vlan_id = 10\<rparr>"]
  by (simp add: example_config_def SOFTGRED_MAX_SLOTS_def)

end
